(* ===== verification/Enums.thy ===== *)
theory Enums
  imports Prelude
begin

text \<open>
  The enumerations of \<^verbatim>\<open>models/primitives/enums.py\<close> that the player decides on. Every
  constructor is the member of the same name; the prefix names its class, because several classes
  share member names.
\<close>

datatype StepStatus = Step_PENDING | Step_RUNNING | Step_WAITING | Step_PASSED | Step_FAILED | Step_SKIPPED

datatype TestStatus = Test_IDLE | Test_RUNNING | Test_COMPLETED | Test_FAILED | Test_CANCELLED | Test_SKIPPED

datatype JobStatus = Job_QUEUED | Job_RUNNING | Job_WAITING | Job_PAUSED | Job_COMPLETED | Job_FAILED
  | Job_CANCELLED | Job_TIMED_OUT

datatype AssertionSeverity = HARD | SOFT

datatype StepPhase = Phase_SETUP | Phase_EXECUTION | Phase_TEARDOWN

text \<open>
  \<open>AssertionSeverity(value)\<close>: the member whose value is the text in any case
  (\<open>_missing_\<close> upper-cases it); \<open>None\<close> stands for the \<open>ValueError\<close>.
\<close>

definition upper_char :: "char \<Rightarrow> char" where
  "upper_char c = (let n = (of_char c :: nat) in if 97 \<le> n \<and> n \<le> 122 then char_of (n - 32) else c)"

definition AssertionSeverity_of :: "string \<Rightarrow> AssertionSeverity option" where
  "AssertionSeverity_of s =
     (if map upper_char s = ''HARD'' then Some HARD
      else if map upper_char s = ''SOFT'' then Some SOFT
      else None)"

end
