(* ===== verification/Jobs.thy ===== *)
theory Jobs
  imports Enums
begin

text \<open>
  The jobs of a player and the questions they put to their operator: \<^verbatim>\<open>player/jobs.py\<close>
  (\<open>JobManager\<close>), \<^verbatim>\<open>player/selections.py\<close> (\<open>SelectionBoard\<close>) and the models of
  \<^verbatim>\<open>models/runtime/jobs.py\<close>.

  An \<open>asyncio.Event\<close> is a flag. A future is an object several parties hold, so futures live in a
  heap \<open>sb_futures\<close> and a question refers to its own by index. A raised exception is an \<open>Inl\<close> value;
  clocks and the fresh \<open>uuid4().hex\<close> are arguments.
\<close>

section \<open>The selection board\<close>

datatype future = Pending | Resolved string | Cancelled_future

record OpenQuestion =
  oq_step_id :: "string option"
  oq_options :: "string list"
  oq_answer :: nat

record SelectionBoard =
  sb_open :: "(string, OpenQuestion) pydict"
  sb_futures :: "future list"

datatype job_error =
    KeyError string
  | LookupError_not_waiting string
  | LookupError_other_step string "string option" string
  | ValueError_not_offered string "string list"
  | ValueError_cannot_pause string JobStatus

definition new_board :: SelectionBoard where
  "new_board = \<lparr>sb_open = [], sb_futures = []\<rparr>"

definition future_done :: "future \<Rightarrow> bool" where
  "future_done f = (f \<noteq> Pending)"

definition board_close :: "string \<Rightarrow> SelectionBoard \<Rightarrow> SelectionBoard" where
  "board_close job_id b =
     (case dict_get (sb_open b) job_id of
        None \<Rightarrow> b
      | Some q \<Rightarrow>
          (let b1 = b\<lparr>sb_open := dict_pop job_id (sb_open b)\<rparr>
           in if future_done (sb_futures b ! oq_answer q) then b1
              else b1\<lparr>sb_futures := (sb_futures b)[oq_answer q := Cancelled_future]\<rparr>))"

definition board_ask ::
  "string \<Rightarrow> string option \<Rightarrow> string list \<Rightarrow> SelectionBoard \<Rightarrow> SelectionBoard \<times> nat" where
  "board_ask job_id step_id options b =
     (let b1 = board_close job_id b;
          answer = length (sb_futures b1)
      in (b1\<lparr>sb_futures := sb_futures b1 @ [Pending],
            sb_open := dict_set job_id \<lparr>oq_step_id = step_id, oq_options = options, oq_answer = answer\<rparr> (sb_open b1)\<rparr>,
          answer))"

definition board_pending :: "string \<Rightarrow> SelectionBoard \<Rightarrow> OpenQuestion option" where
  "board_pending job_id b =
     (case dict_get (sb_open b) job_id of
        None \<Rightarrow> None
      | Some q \<Rightarrow> if future_done (sb_futures b ! oq_answer q) then None else Some q)"

definition board_answer ::
  "string \<Rightarrow> string \<Rightarrow> string option \<Rightarrow> SelectionBoard \<Rightarrow> job_error + SelectionBoard" where
  "board_answer job_id val step_id b =
     (case board_pending job_id b of
        None \<Rightarrow> Inl (LookupError_not_waiting job_id)
      | Some q \<Rightarrow>
          if step_id \<noteq> None \<and> step_id \<noteq> oq_step_id q
          then Inl (LookupError_other_step job_id (oq_step_id q) (the step_id))
          else if val \<notin> set (oq_options q) then Inl (ValueError_not_offered val (oq_options q))
          else Inr (b\<lparr>sb_futures := (sb_futures b)[oq_answer q := Resolved val]\<rparr>))"

section \<open>The job manager\<close>

record JobEvent =
  je_timestamp :: int
  je_event_type :: string
  je_description :: string

record 'r Job =
  jb_job_id :: string
  job_status :: JobStatus
  job_package_name :: "string option"
  job_tck_id :: "string option"
  job_events :: "JobEvent list"
  job_created_at :: int
  job_started_at :: "int option"
  job_finished_at :: "int option"
  job_current_test :: "string option"
  job_current_step :: "string option"
  job_waiting_for :: "string option"
  job_result :: "'r option"
  job_error_text :: "string option"

record 'r JobManager =
  jm_jobs :: "(string, 'r Job) pydict"
  jm_pause_events :: "(string, bool) pydict"
  jm_pause_requests :: "(string, bool) pydict"
  jm_held :: "string set"
  jm_selections :: SelectionBoard

definition new_manager :: "'r JobManager" where
  "new_manager = \<lparr>jm_jobs = [], jm_pause_events = [], jm_pause_requests = [], jm_held = {},
                  jm_selections = new_board\<rparr>"

definition create_job ::
  "string \<Rightarrow> string option \<Rightarrow> string option \<Rightarrow> string \<Rightarrow> int \<Rightarrow> 'r JobManager \<Rightarrow> 'r JobManager \<times> 'r Job" where
  "create_job tck_id package_name given fresh now m =
     (let i = (case given of None \<Rightarrow> fresh | Some s \<Rightarrow> if s = [] then fresh else s);
          job = \<lparr>jb_job_id = i, job_status = Job_QUEUED, job_package_name = package_name,
                 job_tck_id = Some tck_id, job_events = [], job_created_at = now, job_started_at = None,
                 job_finished_at = None, job_current_test = None, job_current_step = None,
                 job_waiting_for = None, job_result = None, job_error_text = None\<rparr>
      in (m\<lparr>jm_jobs := dict_set i job (jm_jobs m),
            jm_pause_events := dict_set i True (jm_pause_events m)\<rparr>, job))"

definition get_job :: "string \<Rightarrow> 'r JobManager \<Rightarrow> 'r Job option" where
  "get_job i m = dict_get (jm_jobs m) i"

definition list_jobs :: "JobStatus option \<Rightarrow> nat \<Rightarrow> nat \<Rightarrow> 'r JobManager \<Rightarrow> 'r Job list" where
  "list_jobs status limit offset m =
     (let jobs = dict_values (jm_jobs m);
          kept = (case status of None \<Rightarrow> jobs | Some s \<Rightarrow> filter (\<lambda>j. job_status j = s) jobs)
      in take limit (drop offset kept))"

definition require_job :: "string \<Rightarrow> 'r JobManager \<Rightarrow> job_error + 'r Job" where
  "require_job i m = (case dict_get (jm_jobs m) i of None \<Rightarrow> Inl (KeyError i) | Some j \<Rightarrow> Inr j)"

definition log_event :: "int \<Rightarrow> string \<Rightarrow> string \<Rightarrow> 'r Job \<Rightarrow> 'r Job" where
  "log_event now event_type description j =
     j\<lparr>job_events := job_events j @ [\<lparr>je_timestamp = now, je_event_type = event_type, je_description = description\<rparr>]\<rparr>"

text \<open>A job object is shared: assigning its fields changes the object the manager holds.\<close>

definition put_job :: "string \<Rightarrow> 'r Job \<Rightarrow> 'r JobManager \<Rightarrow> 'r JobManager" where
  "put_job i j m = m\<lparr>jm_jobs := dict_set i j (jm_jobs m)\<rparr>"

definition start :: "string \<Rightarrow> int \<Rightarrow> 'r JobManager \<Rightarrow> job_error + 'r JobManager" where
  "start i now m =
     (case require_job i m of Inl e \<Rightarrow> Inl e
      | Inr j \<Rightarrow> Inr (put_job i (log_event now ''lifecycle'' ''Job started''
                   (j\<lparr>job_status := Job_RUNNING, job_started_at := Some now\<rparr>)) m))"

definition complete :: "string \<Rightarrow> int \<Rightarrow> 'r JobManager \<Rightarrow> job_error + 'r JobManager" where
  "complete i now m =
     (case require_job i m of Inl e \<Rightarrow> Inl e
      | Inr j \<Rightarrow> Inr (put_job i (log_event now ''lifecycle'' ''Job completed''
                   (j\<lparr>job_status := Job_COMPLETED, job_finished_at := Some now\<rparr>)) m))"

definition fail :: "string \<Rightarrow> string \<Rightarrow> int \<Rightarrow> 'r JobManager \<Rightarrow> job_error + 'r JobManager" where
  "fail i reason now m =
     (case require_job i m of Inl e \<Rightarrow> Inl e
      | Inr j \<Rightarrow> Inr (put_job i (log_event now ''lifecycle''
                   (if reason = [] then ''Job failed'' else ''Job failed: '' @ reason)
                   (j\<lparr>job_status := Job_FAILED, job_finished_at := Some now,
                      job_error_text := (if reason = [] then None else Some reason)\<rparr>)) m))"

definition wait :: "string \<Rightarrow> string \<Rightarrow> string \<Rightarrow> int \<Rightarrow> 'r JobManager \<Rightarrow> job_error + 'r JobManager" where
  "wait i step_name listener_url now m =
     (case require_job i m of Inl e \<Rightarrow> Inl e
      | Inr j \<Rightarrow> Inr (put_job i (log_event now ''waiting'' (''Waiting for callback at step '' @ step_name)
                   (j\<lparr>job_status := Job_WAITING, job_waiting_for := Some listener_url,
                      job_current_step := Some step_name\<rparr>)) m))"

text \<open>
  \<open>get_pause_event\<close> and \<open>get_pause_request\<close> hand out the job's event and store a fresh one, open or
  unset, when there is none; \<open>set_pause_event\<close> and \<open>set_pause_request\<close> are \<open>set()\<close> and \<open>clear()\<close> on
  what they hand out.
\<close>

definition get_pause_event :: "string \<Rightarrow> 'r JobManager \<Rightarrow> 'r JobManager \<times> bool" where
  "get_pause_event i m =
     (case dict_get (jm_pause_events m) i of
        None \<Rightarrow> (m\<lparr>jm_pause_events := dict_set i True (jm_pause_events m)\<rparr>, True)
      | Some b \<Rightarrow> (m, b))"

definition get_pause_request :: "string \<Rightarrow> 'r JobManager \<Rightarrow> 'r JobManager \<times> bool" where
  "get_pause_request i m =
     (case dict_get (jm_pause_requests m) i of
        None \<Rightarrow> (m\<lparr>jm_pause_requests := dict_set i False (jm_pause_requests m)\<rparr>, False)
      | Some b \<Rightarrow> (m, b))"

definition set_pause_event :: "string \<Rightarrow> bool \<Rightarrow> 'r JobManager \<Rightarrow> 'r JobManager" where
  "set_pause_event i b m = m\<lparr>jm_pause_events := dict_set i b (jm_pause_events m)\<rparr>"

definition set_pause_request :: "string \<Rightarrow> bool \<Rightarrow> 'r JobManager \<Rightarrow> 'r JobManager" where
  "set_pause_request i b m = m\<lparr>jm_pause_requests := dict_set i b (jm_pause_requests m)\<rparr>"

definition resume :: "string \<Rightarrow> int \<Rightarrow> 'r JobManager \<Rightarrow> job_error + 'r JobManager" where
  "resume i now m =
     (case require_job i m of Inl e \<Rightarrow> Inl e
      | Inr j \<Rightarrow>
          if job_status j = Job_WAITING
          then Inr (put_job i (log_event now ''lifecycle'' ''Job resumed from WAITING''
                      (j\<lparr>job_status := Job_RUNNING, job_waiting_for := None\<rparr>)) m)
          else if job_status j = Job_PAUSED
          then Inr (put_job i (log_event now ''lifecycle'' ''Job resumed from PAUSED'' (j\<lparr>job_status := Job_RUNNING\<rparr>))
                      (set_pause_event i True (set_pause_request i False m)))
          else Inr m)"

definition pause :: "string \<Rightarrow> int \<Rightarrow> 'r JobManager \<Rightarrow> job_error + 'r JobManager" where
  "pause i now m =
     (case require_job i m of Inl e \<Rightarrow> Inl e
      | Inr j \<Rightarrow>
          if job_status j \<noteq> Job_RUNNING then Inl (ValueError_cannot_pause i (job_status j))
          else Inr (put_job i (log_event now ''lifecycle'' ''Job paused'' (j\<lparr>job_status := Job_PAUSED\<rparr>))
                      (set_pause_request i True (set_pause_event i False m))))"

definition cancel :: "string \<Rightarrow> int \<Rightarrow> 'r JobManager \<Rightarrow> job_error + 'r JobManager" where
  "cancel i now m =
     (case require_job i m of Inl e \<Rightarrow> Inl e
      | Inr j \<Rightarrow>
          if job_status j \<in> {Job_COMPLETED, Job_FAILED, Job_CANCELLED} then Inr m
          else
            (let m1 = m\<lparr>jm_selections := board_close i (jm_selections m)\<rparr>;
                 m2 = (if job_status j = Job_PAUSED
                       then set_pause_event i True (set_pause_request i False m1) else m1)
             in Inr (put_job i (log_event now ''lifecycle'' ''Job cancelled''
                       (j\<lparr>job_status := Job_CANCELLED, job_finished_at := Some now\<rparr>)) m2)))"

definition is_cancelled :: "string \<Rightarrow> 'r JobManager \<Rightarrow> bool" where
  "is_cancelled i m = (case dict_get (jm_jobs m) i of None \<Rightarrow> False | Some j \<Rightarrow> job_status j = Job_CANCELLED)"

definition hold_job :: "string \<Rightarrow> bool \<Rightarrow> 'r JobManager \<Rightarrow> 'r JobManager" where
  "hold_job i held m = m\<lparr>jm_held := (if held then insert i (jm_held m) else jm_held m - {i})\<rparr>"

definition is_held :: "string \<Rightarrow> 'r JobManager \<Rightarrow> bool" where
  "is_held i m = (i \<in> jm_held m)"

definition any_held :: "'r JobManager \<Rightarrow> bool" where
  "any_held m = (jm_held m \<noteq> {})"

definition set_current_step :: "string \<Rightarrow> string \<Rightarrow> 'r JobManager \<Rightarrow> job_error + 'r JobManager" where
  "set_current_step i step_name m =
     (case require_job i m of Inl e \<Rightarrow> Inl e
      | Inr j \<Rightarrow> Inr (put_job i (j\<lparr>job_current_step := Some step_name\<rparr>) m))"

section \<open>Steps of a manager\<close>

text \<open>
  Every call on the manager or its board that returned. The run itself clears a standing pause
  request when it finds its gate open (\<^verbatim>\<open>hold.py\<close>, \<open>pause_point\<close>), which is the last rule.
\<close>

inductive jm_step :: "'r JobManager \<Rightarrow> 'r JobManager \<Rightarrow> bool" where
  js_create: "jm_step m (fst (create_job tck pkg given fresh now m))"
| js_start: "start i now m = Inr m' \<Longrightarrow> jm_step m m'"
| js_complete: "complete i now m = Inr m' \<Longrightarrow> jm_step m m'"
| js_fail: "fail i reason now m = Inr m' \<Longrightarrow> jm_step m m'"
| js_wait: "wait i step_name url now m = Inr m' \<Longrightarrow> jm_step m m'"
| js_resume: "resume i now m = Inr m' \<Longrightarrow> jm_step m m'"
| js_pause: "pause i now m = Inr m' \<Longrightarrow> jm_step m m'"
| js_cancel: "cancel i now m = Inr m' \<Longrightarrow> jm_step m m'"
| js_hold: "jm_step m (hold_job i b m)"
| js_current: "set_current_step i s m = Inr m' \<Longrightarrow> jm_step m m'"
| js_event: "jm_step m (fst (get_pause_event i m))"
| js_request: "jm_step m (fst (get_pause_request i m))"
| js_ask: "jm_step m (m\<lparr>jm_selections := fst (board_ask i step options (jm_selections m))\<rparr>)"
| js_answer: "board_answer i v step (jm_selections m) = Inr b \<Longrightarrow> jm_step m (m\<lparr>jm_selections := b\<rparr>)"
| js_close: "jm_step m (m\<lparr>jm_selections := board_close i (jm_selections m)\<rparr>)"
| js_gate_open: "snd (get_pause_event i m) \<Longrightarrow> jm_step m (set_pause_request i False (fst (get_pause_event i m)))"

inductive jm_run :: "'r JobManager \<Rightarrow> bool" where
  jr_new: "jm_run new_manager"
| jr_step: "jm_run m \<Longrightarrow> jm_step m m' \<Longrightarrow> jm_run m'"

inductive_cases jm_stepE: "jm_step m m'"

lemmas manager_defs = start_def complete_def fail_def wait_def resume_def pause_def cancel_def
  set_current_step_def require_job_def put_job_def log_event_def

section \<open>Paused jobs are really stopped\<close>

definition paused_is_gated :: "'r JobManager \<Rightarrow> bool" where
  "paused_is_gated m = (\<forall>i j. dict_get (jm_jobs m) i = Some j \<and> job_status j = Job_PAUSED \<longrightarrow>
     dict_get (jm_pause_events m) i = Some False \<and> dict_get (jm_pause_requests m) i = Some True)"

lemma paused_is_gated_step: "jm_step m m' \<Longrightarrow> paused_is_gated m \<Longrightarrow> paused_is_gated m'"
proof (induction rule: jm_step.induct)
  case (js_create m tck pkg given fresh now)
  then show ?case
    by (auto simp: paused_is_gated_def create_job_def Let_def dict_simps)
next
  case (js_event m i)
  then show ?case
    by (auto simp: paused_is_gated_def get_pause_event_def dict_simps split: option.split)
next
  case (js_request m i)
  then show ?case
    by (auto simp: paused_is_gated_def get_pause_request_def dict_simps split: option.split)
next
  case (js_gate_open i m)
  then show ?case
    by (auto simp: paused_is_gated_def get_pause_event_def set_pause_request_def dict_simps split: option.splits)
qed (auto simp: paused_is_gated_def manager_defs set_pause_event_def set_pause_request_def hold_job_def Let_def
    dict_simps split: option.splits if_splits)

lemma paused_is_gated_run: "jm_run m \<Longrightarrow> paused_is_gated m"
proof (induction rule: jm_run.induct)
  case jr_new
  show ?case by (simp add: paused_is_gated_def new_manager_def)
next
  case (jr_step m m')
  then show ?case by (blast intro: paused_is_gated_step)
qed

text \<open>In every state of the manager that calls can reach, a job whose status is PAUSED has its gate
  closed and its pause request standing: the run it drives waits at its next pause point, and the
  wait it is in is interrupted.\<close>

theorem paused_job_waits:
  assumes "jm_run m" and "get_job i m = Some j" and "job_status j = Job_PAUSED"
  shows "get_pause_event i m = (m, False) \<and> get_pause_request i m = (m, True)"
  using paused_is_gated_run [OF assms(1)] assms(2,3)
  by (simp add: paused_is_gated_def get_job_def get_pause_event_def get_pause_request_def)

definition demo_queued :: "unit JobManager" where
  "demo_queued = fst (create_job ''tck'' None (Some ''j1'') ''u'' 0 new_manager)"

definition demo_running :: "unit JobManager" where
  "demo_running = projr (start ''j1'' 1 demo_queued)"

definition demo_paused :: "unit JobManager" where
  "demo_paused = projr (pause ''j1'' 2 demo_running)"

lemmas demo_jobs = demo_paused_def demo_running_def demo_queued_def create_job_def new_manager_def manager_defs
  set_pause_event_def set_pause_request_def Let_def new_board_def get_job_def

lemma demo_running_run: "jm_run demo_running"
proof -
  have q: "jm_run demo_queued"
    unfolding demo_queued_def by (rule jr_step [OF jr_new js_create])
  have "start ''j1'' 1 demo_queued = Inr demo_running"
    by (simp add: demo_jobs dict_simps)
  then show ?thesis
    using q by (blast intro: jr_step js_start)
qed

lemma demo_paused_run: "jm_run demo_paused"
proof -
  have "pause ''j1'' 2 demo_running = Inr demo_paused"
    by (simp add: demo_jobs dict_simps)
  then show ?thesis
    using demo_running_run by (blast intro: jr_step js_pause)
qed

theorem paused_job_waits_witness:
  "get_pause_event ''j1'' demo_paused = (demo_paused, False)
   \<and> get_pause_request ''j1'' demo_paused = (demo_paused, True)"
proof (rule paused_job_waits [OF demo_paused_run])
  show "get_job ''j1'' demo_paused = Some (the (get_job ''j1'' demo_paused))"
    by (simp add: demo_jobs dict_simps)
  show "job_status (the (get_job ''j1'' demo_paused)) = Job_PAUSED"
    by (simp add: demo_jobs dict_simps)
qed

section \<open>Cancelling, and finished jobs\<close>

definition terminal :: "JobStatus \<Rightarrow> bool" where
  "terminal s = (s \<in> {Job_COMPLETED, Job_FAILED, Job_CANCELLED})"

text \<open>Cancelling a job that has not finished gives it the status CANCELLED and a finishing time and
  withdraws its open question, cancelling the future a waiting step holds; a paused job has its gate
  opened and its pause request cleared, so the run that waits there wakes up; every other job is left
  as it was.\<close>

theorem cancel_releases_run:
  assumes "get_job i m = Some j" and "\<not> terminal (job_status j)"
  shows "\<exists>m'. cancel i now m = Inr m' \<and> is_cancelled i m'
     \<and> map_option job_finished_at (get_job i m') = Some (Some now)
     \<and> board_pending i (jm_selections m') = None
     \<and> (\<forall>q. board_pending i (jm_selections m) = Some q \<and> oq_answer q < length (sb_futures (jm_selections m)) \<longrightarrow>
          sb_futures (jm_selections m') ! oq_answer q = Cancelled_future)
     \<and> (job_status j = Job_PAUSED \<longrightarrow> snd (get_pause_event i m') \<and> \<not> snd (get_pause_request i m'))
     \<and> (\<forall>k. k \<noteq> i \<longrightarrow> get_job k m' = get_job k m)"
  using assms
  by (auto simp: terminal_def cancel_def get_job_def require_job_def put_job_def log_event_def is_cancelled_def
      board_pending_def board_close_def set_pause_event_def set_pause_request_def get_pause_event_def
      get_pause_request_def Let_def dict_simps split: option.splits if_splits)

theorem cancel_releases_run_witness:
  "\<exists>m'. cancel ''j1'' 9 demo_paused = Inr m' \<and> is_cancelled ''j1'' m' \<and> snd (get_pause_event ''j1'' m')"
proof -
  have "get_job ''j1'' demo_paused = Some (the (get_job ''j1'' demo_paused))"
    by (simp add: demo_jobs dict_simps)
  moreover have p: "job_status (the (get_job ''j1'' demo_paused)) = Job_PAUSED"
    by (simp add: demo_jobs dict_simps)
  moreover have "\<not> terminal (job_status (the (get_job ''j1'' demo_paused)))"
    by (simp add: p terminal_def)
  ultimately show ?thesis
    using cancel_releases_run [of "''j1''" demo_paused "the (get_job ''j1'' demo_paused)" 9] by auto
qed

text \<open>What an operator can ask of a job, whatever answer it gets: the requests of the server and of the
  terminal.\<close>

inductive operator_step :: "'r JobManager \<Rightarrow> 'r JobManager \<Rightarrow> bool" where
  os_pause: "pause i now m = Inr m' \<Longrightarrow> operator_step m m'"
| os_resume: "resume i now m = Inr m' \<Longrightarrow> operator_step m m'"
| os_cancel: "cancel i now m = Inr m' \<Longrightarrow> operator_step m m'"
| os_answer: "board_answer i v step (jm_selections m) = Inr b \<Longrightarrow> operator_step m (m\<lparr>jm_selections := b\<rparr>)"
| os_ask: "operator_step m (m\<lparr>jm_selections := fst (board_ask i step options (jm_selections m))\<rparr>)"

lemma finished_job_kept_step:
  "operator_step m m' \<Longrightarrow> get_job i m = Some j \<Longrightarrow> terminal (job_status j) \<Longrightarrow> get_job i m' = Some j"
  by (induction rule: operator_step.induct)
    (auto simp: manager_defs get_job_def terminal_def set_pause_event_def set_pause_request_def Let_def dict_simps
      split: option.splits if_splits)

text \<open>No sequence of pauses, resumes, cancellations, questions and answers, for this or any other job,
  changes a job that has completed, failed or been cancelled: not its status, its times, its events,
  nor its result.\<close>

theorem finished_job_kept:
  assumes "operator_step\<^sup>*\<^sup>* m m'" and "get_job i m = Some j" and "terminal (job_status j)"
  shows "get_job i m' = Some j"
  using assms(1,2)
proof (induction rule: rtranclp_induct)
  case base
  then show ?case .
next
  case (step y z)
  then show ?case using assms(3) finished_job_kept_step by blast
qed

theorem finished_job_kept_witness:
  "get_job ''j1'' (projr (resume ''j1'' 4 (projr (cancel ''j1'' 3 demo_paused))))
   = get_job ''j1'' (projr (cancel ''j1'' 3 demo_paused))"
proof -
  let ?m = "projr (cancel ''j1'' 3 demo_paused)"
  have r: "resume ''j1'' 4 ?m = Inr (projr (resume ''j1'' 4 ?m))"
    by (simp add: demo_jobs dict_simps)
  have j: "get_job ''j1'' ?m = Some (the (get_job ''j1'' ?m))"
    by (simp add: demo_jobs dict_simps)
  have t: "terminal (job_status (the (get_job ''j1'' ?m)))"
    by (simp add: demo_jobs dict_simps terminal_def)
  show ?thesis
    using finished_job_kept [OF r_into_rtranclp [of operator_step, OF os_resume [OF r]] j t] j by simp
qed

section \<open>Questions and answers\<close>

lemma settled_update: "xs ! n \<noteq> x \<Longrightarrow> xs ! k = x \<Longrightarrow> xs[k := y] ! n = xs ! n"
  by (metis nth_list_update_neq)

text \<open>A future that has been answered or cancelled keeps its value through every later call: a question
  is decided once, and a late answer, a second question or a cancellation cannot rewrite it.\<close>

theorem answers_are_final:
  assumes "jm_step m m'" and "n < length (sb_futures (jm_selections m))"
    and "sb_futures (jm_selections m) ! n \<noteq> Pending"
  shows "n < length (sb_futures (jm_selections m'))
     \<and> sb_futures (jm_selections m') ! n = sb_futures (jm_selections m) ! n"
  using assms
  by (induction rule: jm_step.induct)
    (auto simp: manager_defs create_job_def set_pause_event_def set_pause_request_def hold_job_def
      get_pause_event_def get_pause_request_def board_ask_def board_close_def board_answer_def board_pending_def
      future_done_def Let_def nth_append settled_update dict_simps split: option.splits if_splits)

definition board_wf :: "SelectionBoard \<Rightarrow> bool" where
  "board_wf b = ((\<forall>i q. dict_get (sb_open b) i = Some q \<longrightarrow> oq_answer q < length (sb_futures b)
       \<and> (\<forall>v. sb_futures b ! oq_answer q = Resolved v \<longrightarrow> v \<in> set (oq_options q)))
     \<and> (\<forall>i k q r. dict_get (sb_open b) i = Some q \<and> dict_get (sb_open b) k = Some r \<and> oq_answer q = oq_answer r \<longrightarrow> i = k))"

lemma board_wf_new: "board_wf new_board"
  by (simp add: board_wf_def new_board_def)

lemma board_wf_close: "board_wf b \<Longrightarrow> board_wf (board_close i b)"
  unfolding board_wf_def board_close_def Let_def
  by (auto simp: dict_simps nth_list_update split: option.splits if_splits)

lemma board_wf_ask: "board_wf b \<Longrightarrow> board_wf (fst (board_ask i s options b))"
proof -
  assume "board_wf b"
  then have "board_wf (board_close i b)" by (rule board_wf_close)
  then show ?thesis
    unfolding board_wf_def board_ask_def Let_def
    by (fastforce simp: dict_simps nth_append split: option.splits if_splits)
qed

lemma board_wf_answer: "board_answer i v s b = Inr b' \<Longrightarrow> board_wf b \<Longrightarrow> board_wf b'"
  unfolding board_wf_def board_answer_def board_pending_def
  by (auto simp: nth_list_update split: option.splits if_splits) (metis option.inject)+

lemmas board_wf_ops = board_wf_new board_wf_close board_wf_ask board_wf_answer

lemma board_wf_step: "jm_step m m' \<Longrightarrow> board_wf (jm_selections m) \<Longrightarrow> board_wf (jm_selections m')"
  by (induction rule: jm_step.induct)
    (auto simp: manager_defs create_job_def set_pause_event_def set_pause_request_def hold_job_def
      get_pause_event_def get_pause_request_def Let_def intro: board_wf_ops split: option.splits if_splits)

lemma board_wf_run: "jm_run m \<Longrightarrow> board_wf (jm_selections m)"
  by (induction rule: jm_run.induct) (auto simp: new_manager_def board_wf_new intro: board_wf_step)

text \<open>Whatever calls came before, the answer the question of a job holds is one of the options that
  question offered, and no two jobs share one answer.\<close>

theorem answers_are_offered:
  assumes "jm_run m" and "dict_get (sb_open (jm_selections m)) i = Some q"
  shows "(\<forall>v. sb_futures (jm_selections m) ! oq_answer q = Resolved v \<longrightarrow> v \<in> set (oq_options q))
     \<and> (\<forall>k r. dict_get (sb_open (jm_selections m)) k = Some r \<and> k \<noteq> i \<longrightarrow> oq_answer r \<noteq> oq_answer q)"
  using board_wf_run [OF assms(1)] assms(2) unfolding board_wf_def by metis

text \<open>Asking a job hands out a fresh future, which exactly the answers the board accepts settle: an
  answer is accepted when it names the asking step or none and is one of the options, is then what the
  future holds, and a second answer to the same question is refused.\<close>

theorem question_answered_once:
  assumes "(b1, f) = board_ask i step options b" and "v \<in> set options" and "s = None \<or> s = step"
  shows "\<exists>b2. board_answer i v s b1 = Inr b2 \<and> sb_futures b2 ! f = Resolved v
     \<and> (\<forall>w t. board_answer i w t b2 = Inl (LookupError_not_waiting i))
     \<and> (\<forall>w t. w \<notin> set options \<or> (t \<noteq> None \<and> t \<noteq> step) \<longrightarrow> \<not> (\<exists>b3. board_answer i w t b1 = Inr b3))"
  using assms
  by (auto simp: board_ask_def board_answer_def board_pending_def future_done_def Let_def nth_append dict_simps)

theorem question_answered_once_witness:
  "\<exists>b2. board_answer ''j'' ''b'' None (fst (board_ask ''j'' (Some ''s'') [''a'', ''b''] new_board)) = Inr b2
     \<and> sb_futures b2 ! 0 = Resolved ''b''"
  using question_answered_once [of "fst (board_ask ''j'' (Some ''s'') [''a'', ''b''] new_board)" 0 "''j''" "Some ''s''"
      "[''a'', ''b'']" new_board "''b''" None]
  by (auto simp: board_ask_def board_close_def new_board_def Let_def)

definition demo_question :: "unit JobManager" where
  "demo_question = demo_running\<lparr>jm_selections := fst (board_ask ''j1'' None [''a'', ''b''] (jm_selections demo_running))\<rparr>"

theorem answers_are_final_witness:
  "let b = jm_selections (projr (cancel ''j1'' 5 demo_question))
   in sb_futures b ! 0 = Cancelled_future
    \<and> sb_futures (fst (board_ask ''j1'' None [''c''] b)) ! 0 = Cancelled_future"
proof -
  let ?m = "projr (cancel ''j1'' 5 demo_question)"
  have b: "sb_futures (jm_selections ?m) = [Cancelled_future]"
    by (simp add: demo_question_def board_ask_def board_close_def future_done_def demo_jobs dict_simps)
  show ?thesis
    using answers_are_final [OF js_ask [of ?m "''j1''" None "[''c'']"], of 0] b by (simp add: Let_def)
qed

theorem answers_are_offered_witness:
  "let b = projr (board_answer ''j1'' ''b'' None (jm_selections demo_question))
   in sb_futures b ! 0 = Resolved ''b'' \<and> ''b'' \<in> set [''a'', ''b'']"
proof -
  let ?b = "projr (board_answer ''j1'' ''b'' None (jm_selections demo_question))"
  have a: "board_answer ''j1'' ''b'' None (jm_selections demo_question) = Inr ?b"
    and q: "dict_get (sb_open ?b) ''j1'' = Some \<lparr>oq_step_id = None, oq_options = [''a'', ''b''], oq_answer = 0\<rparr>"
    and f: "sb_futures ?b ! 0 = Resolved ''b''"
    by (simp_all add: board_answer_def board_pending_def future_done_def demo_question_def board_ask_def board_close_def
        demo_jobs dict_simps)
  have "jm_run demo_question"
    unfolding demo_question_def by (rule jr_step [OF demo_running_run js_ask])
  then have "jm_run (demo_question\<lparr>jm_selections := ?b\<rparr>)" by (rule jr_step [OF _ js_answer [OF a]])
  from answers_are_offered [OF this, of "''j1''"] q f show ?thesis by simp
qed

section \<open>Listing\<close>

lemma concat_pages: "concat (map (\<lambda>k. take n (drop (k * n) xs)) [0..<K]) = take (K * n) xs"
proof (induction K)
  case (Suc K)
  have "take (K * n) xs @ take n (drop (K * n) xs) = take (n + K * n) xs"
    by (metis add.commute take_add)
  then show ?case using Suc by simp
qed simp

text \<open>Paging through the jobs loses and repeats none: the pages of any size, read one after the other,
  are the jobs with the asked status in the order they were created.\<close>

theorem pages_make_listing:
  "concat (map (\<lambda>k. list_jobs status n (k * n) m) [0..<K])
   = take (K * n) (filter (\<lambda>j. status = None \<or> status = Some (job_status j)) (dict_values (jm_jobs m)))"
proof -
  have "(case status of None \<Rightarrow> js | Some s \<Rightarrow> filter (\<lambda>j. job_status j = s) js)
      = filter (\<lambda>j. status = None \<or> status = Some (job_status j)) js" for js :: "'a Job list"
    by (cases status) (auto intro: filter_cong)
  then show ?thesis
    by (simp add: list_jobs_def concat_pages)
qed

end
