(* ===== verification/Checkpoint_Tracker.thy ===== *)
theory Checkpoint_Tracker
  imports Enums
begin

text \<open>
  A run's checkpoints: \<^verbatim>\<open>player/checkpoints/\<close> (\<^verbatim>\<open>frames.py\<close>, \<^verbatim>\<open>_transitions.py\<close>,
  \<^verbatim>\<open>_questions.py\<close>, \<^verbatim>\<open>tracker.py\<close>) over the models of \<^verbatim>\<open>models/runtime/checkpoints.py\<close>.

  State. \<open>Tracker\<close> holds the slots of \<open>CheckpointTracker\<close>; two things that live outside the
  object in the code are fields here: the \<open>ContextVar\<close> with the running step's frame, as the stack
  \<open>frames\<close> (its head is what \<open>current_frame()\<close> answers, \<open>enter\<close> pushes, \<open>leave\<close> pops), and what the
  publisher was told, as \<open>published\<close>. The \<open>cancelled\<close> callable is read by the operations that call
  it, so it is an argument there. Instants are integers counting milliseconds, the resolution the
  code rounds a \<open>response_s\<close> to, and \<open>response_s\<close> counts milliseconds; every \<open>datetime.now\<close> is an
  argument.
\<close>

section \<open>Data\<close>

datatype Direction = INBOUND | OUTBOUND | INTERNAL

datatype Via = DIRECT | DATAPLANE

datatype CheckpointKind = Kind_wait | Kind_select

datatype CheckpointState = Ahead | Now | Cleared | Timed_out | Failed | Skipped | Not_reached

text \<open>A position: phase, index, then \<open>with:\<close> key and index per nesting level.\<close>

datatype segment = SStr string | SInt nat

type_synonym StepPath = "segment list"

record CheckpointEntry =
  ce_test_id :: string
  ce_test_name :: string
  ce_phase :: string
  ce_position :: string
  ce_step_id :: "string option"
  ce_uses :: string
  ce_direction :: Direction
  ce_kind :: CheckpointKind
  ce_via :: "Via option"
  ce_name :: "string option"
  ce_label :: "string option"
  ce_description :: "string option"
  ce_timeout_s :: "int option"
  ce_conditional :: bool
  ce_repeated :: bool

record CheckpointStatus = CheckpointEntry +
  cs_state :: CheckpointState
  cs_attempts :: nat
  cs_asked_at :: "int option"
  cs_answered_at :: "int option"
  cs_response_s :: "int option"

record PlannedCheckpoint =
  pc_entry :: CheckpointEntry
  pc_path :: StepPath
  pc_asks :: bool

record CheckpointRef =
  cr_index :: nat
  cr_attempt :: nat
  cr_direction :: Direction

record StepFrame =
  f_test_id :: string
  f_path :: StepPath
  f_attempt :: nat
  f_checkpoint :: "nat option"
  f_checkpoint_attempt :: nat
  f_asked :: bool
  f_answered :: bool
  f_ended :: bool
  f_pauses :: nat

record Cause =
  cause_kind :: string
  cause_sequence :: "int option"

text \<open>The two calls of the \<open>CheckpointPublisher\<close> protocol.\<close>

datatype published_event =
    Planned "CheckpointStatus list"
  | Updated nat nat "Cause option" CheckpointStatus

record Tracker =
  t_planned :: "PlannedCheckpoint list"
  t_statuses :: "CheckpointStatus list"
  t_revisions :: "nat list"
  t_publisher :: bool
  t_runs :: "(string \<times> StepPath, nat) pydict"
  t_frames :: "StepFrame list"
  t_published :: "published_event list"

section \<open>Transitions\<close>

text \<open>The keyword arguments of \<open>_set\<close>, applied by \<open>model_copy(update=\<dots>)\<close>.\<close>

datatype change =
    Set_state CheckpointState
  | Set_attempts nat
  | Set_asked_at "int option"
  | Set_answered_at "int option"
  | Set_response_s "int option"

fun apply_change :: "change \<Rightarrow> CheckpointStatus \<Rightarrow> CheckpointStatus" where
  "apply_change (Set_state s) c = c\<lparr>cs_state := s\<rparr>"
| "apply_change (Set_attempts n) c = c\<lparr>cs_attempts := n\<rparr>"
| "apply_change (Set_asked_at t) c = c\<lparr>cs_asked_at := t\<rparr>"
| "apply_change (Set_answered_at t) c = c\<lparr>cs_answered_at := t\<rparr>"
| "apply_change (Set_response_s r) c = c\<lparr>cs_response_s := r\<rparr>"

definition model_copy :: "CheckpointStatus \<Rightarrow> change list \<Rightarrow> CheckpointStatus" where
  "model_copy c changes = fold apply_change changes c"

definition OPEN :: "CheckpointState list" where
  "OPEN = [Ahead, Now]"

definition SUPERSEDED :: "CheckpointState list" where
  "SUPERSEDED = [Ahead, Failed, Timed_out, Not_reached]"

definition seconds :: "int option \<Rightarrow> int \<Rightarrow> int option" where
  "seconds start e = (case start of None \<Rightarrow> None | Some s \<Rightarrow> Some (max (e - s) 0))"

definition own_step_ended ::
  "CheckpointStatus \<Rightarrow> StepFrame \<Rightarrow> StepStatus option \<Rightarrow> bool \<Rightarrow> bool \<Rightarrow> int \<Rightarrow> change list" where
  "own_step_ended status frame outcome asks cancelled at =
     (if outcome = Some Step_SKIPPED \<or> (outcome = Some Step_PASSED \<and> \<not> f_asked frame)
      then [Set_state Skipped]
      else if outcome = Some Step_PASSED
      then (if f_answered frame then [Set_state Cleared]
            else [Set_state Cleared, Set_answered_at (Some at),
                  Set_response_s (seconds (cs_asked_at status) at)])
      else if \<not> f_asked frame then [Set_state Not_reached]
      else if f_answered frame then [Set_state Failed, Set_response_s None]
      else if cancelled \<or> outcome = None then [Set_state Not_reached]
      else [Set_state (if asks then Timed_out else Failed), Set_answered_at (Some at), Set_response_s None])"

definition carried_step_ended :: "StepStatus option \<Rightarrow> CheckpointState" where
  "carried_step_ended outcome =
     (if outcome \<in> {Some Step_PASSED, Some Step_SKIPPED} then Skipped else Not_reached)"

definition test_ended_state :: "CheckpointState \<Rightarrow> TestStatus \<Rightarrow> bool \<Rightarrow> CheckpointState option" where
  "test_ended_state state outcome cancelled =
     (if state = Ahead
      then Some (if outcome \<in> {Test_COMPLETED, Test_SKIPPED} \<and> \<not> cancelled then Skipped else Not_reached)
      else if state = Now then Some Not_reached
      else None)"

section \<open>The tracker\<close>

definition new_status :: "CheckpointEntry \<Rightarrow> CheckpointState \<Rightarrow> CheckpointStatus" where
  "new_status e s = CheckpointEntry.extend e
     \<lparr>cs_state = s, cs_attempts = 0, cs_asked_at = None, cs_answered_at = None, cs_response_s = None\<rparr>"

definition init_tracker :: "PlannedCheckpoint list \<Rightarrow> bool \<Rightarrow> PlannedCheckpoint list \<Rightarrow> Tracker" where
  "init_tracker kept publisher left_out =
     \<lparr>t_planned = kept @ left_out,
      t_statuses = map (\<lambda>i. new_status (pc_entry i) Ahead) kept @ map (\<lambda>i. new_status (pc_entry i) Skipped) left_out,
      t_revisions = replicate (length (kept @ left_out)) 0,
      t_publisher = publisher,
      t_runs = [],
      t_frames = [],
      t_published = []\<rparr>"

definition plan :: "Tracker \<Rightarrow> Tracker" where
  "plan t = (if t_publisher t \<and> t_planned t \<noteq> []
             then t\<lparr>t_published := t_published t @ [Planned (t_statuses t)]\<rparr> else t)"

definition current_frame :: "Tracker \<Rightarrow> StepFrame option" where
  "current_frame t = (case t_frames t of [] \<Rightarrow> None | f # _ \<Rightarrow> Some f)"

text \<open>A field of the frame object that is current is assigned.\<close>

definition on_current :: "(StepFrame \<Rightarrow> StepFrame) \<Rightarrow> Tracker \<Rightarrow> Tracker" where
  "on_current g t = (case t_frames t of [] \<Rightarrow> t | f # fs \<Rightarrow> t\<lparr>t_frames := g f # fs\<rparr>)"

definition tracker_set :: "nat \<Rightarrow> Cause option \<Rightarrow> change list \<Rightarrow> Tracker \<Rightarrow> Tracker" where
  "tracker_set index cause changes t =
     (let before = t_statuses t ! index;
          after = model_copy before changes;
          revision = Suc (t_revisions t ! index)
      in if after = before then t
         else t\<lparr>t_statuses := (t_statuses t)[index := after],
                t_revisions := (t_revisions t)[index := revision],
                t_published := t_published t @ (if t_publisher t then [Updated index revision cause after] else [])\<rparr>)"

text \<open>\<open>_under\<close>: \<open>item.path[: len(prefix)] == prefix\<close>; \<open>_at\<close>: the same place.\<close>

definition tracker_under :: "Tracker \<Rightarrow> string \<Rightarrow> StepPath \<Rightarrow> nat list" where
  "tracker_under t test_id prefix =
     filter (\<lambda>i. ce_test_id (pc_entry (t_planned t ! i)) = test_id
                 \<and> take (length prefix) (pc_path (t_planned t ! i)) = prefix)
       [0..<length (t_planned t)]"

definition tracker_at :: "string \<Rightarrow> StepPath \<Rightarrow> PlannedCheckpoint \<Rightarrow> bool" where
  "tracker_at test_id path item = (ce_test_id (pc_entry item) = test_id \<and> pc_path item = path)"

definition tracker_ask :: "Cause option \<Rightarrow> int \<Rightarrow> Tracker \<Rightarrow> Tracker" where
  "tracker_ask cause at t =
     (case current_frame t of
        None \<Rightarrow> t
      | Some frame \<Rightarrow>
          (case f_checkpoint frame of
             None \<Rightarrow> t
           | Some cp \<Rightarrow>
               tracker_set cp cause
                 [Set_state Now, Set_attempts (f_checkpoint_attempt frame), Set_asked_at (Some at),
                  Set_answered_at None, Set_response_s None]
                 (on_current (\<lambda>f. f\<lparr>f_asked := True\<rparr>) t)))"

text \<open>
  \<open>_end\<close> on the frame object \<open>frame\<close>: the frame's own checkpoint first, then every other open
  checkpoint at or under its path. Marking the object \<open>ended\<close> is done by the two callers, one of
  which holds it on the stack and one of which has just taken it off.
\<close>

definition tracker_end ::
  "StepFrame \<Rightarrow> StepStatus option \<Rightarrow> Cause option \<Rightarrow> bool \<Rightarrow> int \<Rightarrow> Tracker \<Rightarrow> Tracker" where
  "tracker_end frame outcome cause cancelled at t =
     (let t1 = (case f_checkpoint frame of
                  None \<Rightarrow> t
                | Some cp \<Rightarrow>
                    tracker_set cp cause
                      (own_step_ended (t_statuses t ! cp) frame outcome
                         (pc_asks (t_planned t ! cp)) cancelled at) t)
      in fold (\<lambda>i u. if Some i \<noteq> f_checkpoint frame \<and> cs_state (t_statuses u ! i) \<in> set OPEN
                     then tracker_set i cause [Set_state (carried_step_ended outcome)] u else u)
           (tracker_under t (f_test_id frame) (f_path frame)) t1)"

text \<open>The two halves of the context manager \<open>step\<close>: before and after its \<open>yield\<close>.\<close>

definition step_enter :: "string \<Rightarrow> StepPath \<Rightarrow> Tracker \<Rightarrow> Tracker" where
  "step_enter test_id path t =
     (let n = Suc (case dict_get (t_runs t) (test_id, path) of None \<Rightarrow> 0 | Some k \<Rightarrow> k);
          cp = find_index (tracker_at test_id path) (t_planned t);
          frame = \<lparr>f_test_id = test_id, f_path = path, f_attempt = n, f_checkpoint = cp,
                   f_checkpoint_attempt =
                     (case cp of None \<Rightarrow> 0 | Some i \<Rightarrow> Suc (cs_attempts (t_statuses t ! i))),
                   f_asked = False, f_answered = False, f_ended = False, f_pauses = 0\<rparr>
      in t\<lparr>t_runs := dict_set (test_id, path) n (t_runs t), t_frames := frame # t_frames t\<rparr>)"

definition step_leave :: "bool \<Rightarrow> int \<Rightarrow> Tracker \<Rightarrow> Tracker" where
  "step_leave cancelled at t =
     (case t_frames t of
        [] \<Rightarrow> t
      | frame # fs \<Rightarrow>
          (let t1 = t\<lparr>t_frames := fs\<rparr>
           in if f_ended frame then t1 else tracker_end frame None None cancelled at t1))"

definition begin_step :: "int \<Rightarrow> Tracker \<Rightarrow> Tracker" where
  "begin_step at t =
     (case current_frame t of
        None \<Rightarrow> t
      | Some frame \<Rightarrow>
          (case f_checkpoint frame of
             None \<Rightarrow> t
           | Some cp \<Rightarrow> if pc_asks (t_planned t ! cp) then t else tracker_ask None at t))"

text \<open>
  \<open>nested\<close>, before its \<open>yield\<close>; the flag says whether it opened a frame, which \<open>nested_leave\<close> then
  closes.
\<close>

definition nested_enter :: "(string \<times> nat) option \<Rightarrow> int \<Rightarrow> Tracker \<Rightarrow> Tracker \<times> bool" where
  "nested_enter at now t =
     (case (at, current_frame t) of
        (Some (key, i), Some parent) \<Rightarrow>
          (begin_step now (step_enter (f_test_id parent) (f_path parent @ [SStr key, SInt i]) t), True)
      | _ \<Rightarrow> (t, False))"

definition nested_leave :: "bool \<Rightarrow> bool \<Rightarrow> int \<Rightarrow> Tracker \<Rightarrow> Tracker" where
  "nested_leave opened cancelled at t = (if opened then step_leave cancelled at t else t)"

definition ended :: "StepStatus \<Rightarrow> Cause option \<Rightarrow> bool \<Rightarrow> int \<Rightarrow> Tracker \<Rightarrow> Tracker" where
  "ended outcome cause cancelled at t =
     (case current_frame t of
        None \<Rightarrow> t
      | Some frame \<Rightarrow>
          if f_ended frame then t
          else tracker_end frame (Some outcome) cause cancelled at
                 (on_current (\<lambda>f. f\<lparr>f_ended := True\<rparr>) t))"

definition not_taken :: "string \<Rightarrow> Tracker \<Rightarrow> Tracker" where
  "not_taken branch t =
     (case current_frame t of
        None \<Rightarrow> t
      | Some frame \<Rightarrow>
          fold (\<lambda>i u. if cs_state (t_statuses u ! i) \<in> set SUPERSEDED
                      then tracker_set i None [Set_state Skipped] u else u)
            (tracker_under t (f_test_id frame) (f_path frame @ [SStr branch])) t)"

definition test_started :: "string \<Rightarrow> Cause \<Rightarrow> Tracker \<Rightarrow> Tracker" where
  "test_started test_id cause t =
     fold (\<lambda>i. tracker_set i (Some cause)
                 [Set_state Ahead, Set_asked_at None, Set_answered_at None, Set_response_s None])
       (tracker_under t test_id []) t"

definition test_ended :: "string \<Rightarrow> TestStatus \<Rightarrow> Cause \<Rightarrow> bool \<Rightarrow> Tracker \<Rightarrow> Tracker" where
  "test_ended test_id outcome cause cancelled t =
     fold (\<lambda>i u. case test_ended_state (cs_state (t_statuses u ! i)) outcome cancelled of
                   None \<Rightarrow> u
                 | Some s \<Rightarrow> tracker_set i (Some cause) [Set_state s] u)
       (tracker_under t test_id []) t"

definition job_ended :: "Cause \<Rightarrow> Tracker \<Rightarrow> Tracker" where
  "job_ended cause t =
     fold (\<lambda>i u. if cs_state (t_statuses u ! i) \<in> set OPEN
                 then tracker_set i (Some cause) [Set_state Not_reached] u else u)
       [0..<length (t_statuses t)] t"

section \<open>Questions\<close>

definition asked :: "Cause \<Rightarrow> int \<Rightarrow> Tracker \<Rightarrow> Tracker" where
  "asked cause at t =
     (case current_frame t of
        None \<Rightarrow> t
      | Some frame \<Rightarrow>
          if f_asked frame then t
          else if f_checkpoint frame = None then on_current (\<lambda>f. f\<lparr>f_asked := True\<rparr>) t
          else tracker_ask (Some cause) at t)"

definition suspended :: "Tracker \<Rightarrow> Tracker" where
  "suspended t = on_current (\<lambda>f. f\<lparr>f_pauses := Suc (f_pauses f)\<rparr>) t"

definition ask_first :: "Cause \<Rightarrow> int \<Rightarrow> StepFrame \<Rightarrow> Tracker \<Rightarrow> Tracker" where
  "ask_first cause at frame t = (if f_asked frame then t else tracker_ask (Some cause) at t)"

definition answered :: "Cause \<Rightarrow> int \<Rightarrow> int \<Rightarrow> int \<Rightarrow> Tracker \<Rightarrow> Tracker" where
  "answered cause waited_ms at_ask at t =
     (case current_frame t of
        None \<Rightarrow> t
      | Some frame \<Rightarrow>
          (case f_checkpoint frame of
             None \<Rightarrow> t
           | Some cp \<Rightarrow>
               tracker_set cp (Some cause)
                 [Set_state Cleared, Set_answered_at (Some at), Set_response_s (Some waited_ms)]
                 (on_current (\<lambda>f. f\<lparr>f_answered := True\<rparr>) (ask_first cause at_ask frame t))))"

definition refused :: "Cause \<Rightarrow> int \<Rightarrow> Tracker \<Rightarrow> Tracker" where
  "refused cause at t =
     (case current_frame t of
        None \<Rightarrow> t
      | Some frame \<Rightarrow>
          if f_checkpoint frame = None then t
          else on_current (\<lambda>f. f\<lparr>f_answered := True\<rparr>) (ask_first cause at frame t))"

definition ref :: "Tracker \<Rightarrow> CheckpointRef option" where
  "ref t =
     (case current_frame t of
        None \<Rightarrow> None
      | Some frame \<Rightarrow>
          map_option (\<lambda>cp. \<lparr>cr_index = cp, cr_attempt = f_checkpoint_attempt frame,
                            cr_direction = ce_direction (t_statuses t ! cp)\<rparr>)
            (f_checkpoint frame))"


section \<open>Single updates\<close>

lemma model_copy_Nil [simp]: "model_copy c [] = c"
  by (simp add: model_copy_def)

lemma model_copy_Cons [simp]: "model_copy c (x # xs) = model_copy (apply_change x c) xs"
  by (simp add: model_copy_def)

lemma truncate_apply_change [simp]: "CheckpointEntry.truncate (apply_change x c) = CheckpointEntry.truncate c"
  by (cases x) (simp_all add: CheckpointEntry.defs)

lemma truncate_model_copy [simp]: "CheckpointEntry.truncate (model_copy c xs) = CheckpointEntry.truncate c"
  by (induction xs arbitrary: c) simp_all

lemma truncate_new_status [simp]: "CheckpointEntry.truncate (new_status e s) = e"
  by (simp add: new_status_def CheckpointEntry.defs)

lemma tracker_set_frame [simp]:
  "t_planned (tracker_set i c xs t) = t_planned t"
  "t_publisher (tracker_set i c xs t) = t_publisher t"
  "t_runs (tracker_set i c xs t) = t_runs t"
  "t_frames (tracker_set i c xs t) = t_frames t"
  "length (t_statuses (tracker_set i c xs t)) = length (t_statuses t)"
  "length (t_revisions (tracker_set i c xs t)) = length (t_revisions t)"
  by (simp_all add: tracker_set_def Let_def)

lemma tracker_set_statuses:
  "t_statuses (tracker_set i c xs t) = (t_statuses t)[i := model_copy (t_statuses t ! i) xs]"
  by (simp add: tracker_set_def Let_def)

lemma tracker_set_other:
  "j \<noteq> i \<Longrightarrow> t_statuses (tracker_set i c xs t) ! j = t_statuses t ! j"
  "j \<noteq> i \<Longrightarrow> t_revisions (tracker_set i c xs t) ! j = t_revisions t ! j"
  by (simp_all add: tracker_set_def Let_def)

lemma on_current_frame [simp]:
  "t_planned (on_current g t) = t_planned t"
  "t_publisher (on_current g t) = t_publisher t"
  "t_runs (on_current g t) = t_runs t"
  "t_statuses (on_current g t) = t_statuses t"
  "t_revisions (on_current g t) = t_revisions t"
  "t_published (on_current g t) = t_published t"
  by (simp_all add: on_current_def split: list.split)

lemma current_frame_on_current [simp]:
  "current_frame (on_current g t) = map_option g (current_frame t)"
  by (simp add: on_current_def current_frame_def split: list.split)

lemma current_frame_tracker_set [simp]: "current_frame (tracker_set i c xs t) = current_frame t"
  by (simp add: current_frame_def)

lemma tracker_under_set [simp]: "tracker_under (tracker_set i c xs t) = tracker_under t"
  by (simp add: tracker_under_def fun_eq_iff)

lemma tracker_under_range: "i \<in> set (tracker_under t k p) \<Longrightarrow> i < length (t_planned t)"
  by (simp add: tracker_under_def)

section \<open>Touching a tracker\<close>

text \<open>
  Every operation is a sequence of \<open>tracker_set\<close> at planned indexes, assignments to frames and new
  run counts. \<open>touches S t u\<close>: from \<open>t\<close> to \<open>u\<close> by such moves, the indexes all in \<open>S\<close>.
\<close>

inductive touches :: "nat set \<Rightarrow> Tracker \<Rightarrow> Tracker \<Rightarrow> bool" for S where
  touch_none: "touches S t t"
| touch_set: "touches S t u \<Longrightarrow> i \<in> S \<Longrightarrow> i < length (t_planned u) \<Longrightarrow> touches S t (tracker_set i c xs u)"
| touch_frames: "touches S t u \<Longrightarrow> touches S t (u\<lparr>t_frames := fs\<rparr>)"
| touch_runs: "touches S t u \<Longrightarrow> touches S t (u\<lparr>t_runs := r\<rparr>)"

lemma touches_trans: "touches S u v \<Longrightarrow> touches S t u \<Longrightarrow> touches S t v"
  by (induction rule: touches.induct) (auto intro: touches.intros)

lemma touches_mono: "touches S t u \<Longrightarrow> S \<subseteq> S' \<Longrightarrow> touches S' t u"
  by (induction rule: touches.induct) (auto intro: touches.intros)

lemma touches_same:
  assumes "touches S t u"
  shows "t_planned u = t_planned t \<and> t_publisher u = t_publisher t
    \<and> length (t_statuses u) = length (t_statuses t) \<and> length (t_revisions u) = length (t_revisions t)
    \<and> (\<forall>j. j \<notin> S \<longrightarrow> t_statuses u ! j = t_statuses t ! j \<and> t_revisions u ! j = t_revisions t ! j)"
  using assms
proof (induction rule: touches.induct)
  case (touch_set t u i c xs)
  have "j \<notin> S \<Longrightarrow> j \<noteq> i" for j
    using touch_set.hyps(2) by blast
  with touch_set show ?case by (simp add: tracker_set_other)
qed auto

lemma touches_one: "i < length (t_planned t) \<Longrightarrow> i \<in> S \<Longrightarrow> touches S t (tracker_set i c xs t)"
  by (intro touches.intros)

lemma touches_on_current: "touches S t (on_current g t)"
  by (auto simp: on_current_def intro: touches.intros split: list.split)

lemma touches_fold:
  assumes "\<And>i u. i \<in> set is \<Longrightarrow> t_planned u = t_planned t \<Longrightarrow> touches S u (f i u)"
  shows "touches S t (fold f is t)"
proof -
  have "t_planned u = t_planned t \<Longrightarrow> touches S t u \<Longrightarrow> touches S t (fold f is u)" for u
    using assms
  proof (induction "is" arbitrary: u)
    case (Cons i "is")
    then have "touches S u (f i u)" by simp
    with Cons.prems(1,2) have "touches S t (f i u)" and "t_planned (f i u) = t_planned t"
      using touches_same by (blast intro: touches_trans, metis)
    with Cons show ?case by simp
  qed simp
  then show ?thesis by (auto intro: touches.intros)
qed
section \<open>What the operations keep\<close>

definition attempts_of :: "Tracker \<Rightarrow> nat list" where
  "attempts_of t = map cs_attempts (t_statuses t)"

fun sets_attempts :: "change \<Rightarrow> bool" where
  "sets_attempts (Set_attempts n) = True"
| "sets_attempts _ = False"

lemma attempts_model_copy: "list_all (\<lambda>x. \<not> sets_attempts x) xs \<Longrightarrow> cs_attempts (model_copy c xs) = cs_attempts c"
proof (induction xs arbitrary: c)
  case (Cons x xs)
  then show ?case by (cases x) simp_all
qed simp

lemma own_step_ended_no_attempts:
  "list_all (\<lambda>x. \<not> sets_attempts x) (own_step_ended c f outcome asks cancelled at)"
  by (simp add: own_step_ended_def)

text \<open>The part of a tracker that only asking, entering and leaving change.\<close>

definition core :: "Tracker \<Rightarrow> PlannedCheckpoint list \<times> nat list \<times> StepFrame list" where
  "core t = (t_planned t, attempts_of t, t_frames t)"

lemma core_tracker_set:
  assumes "list_all (\<lambda>x. \<not> sets_attempts x) xs"
  shows "core (tracker_set i c xs t) = core t"
proof -
  have "cs_attempts (model_copy (t_statuses t ! i) xs) = cs_attempts (t_statuses t ! i)"
    by (rule attempts_model_copy [OF assms])
  then have "attempts_of (tracker_set i c xs t) = attempts_of t"
    by (cases "i < length (t_statuses t)")
       (simp_all add: attempts_of_def tracker_set_statuses map_update list_update_same_conv list_update_beyond)
  then show ?thesis
    by (simp add: core_def)
qed

lemma core_fold: "(\<And>i u. core (f i u) = core u) \<Longrightarrow> core (fold f is t) = core t"
  by (induction "is" arbitrary: t) simp_all

lemma core_tracker_end [simp]: "core (tracker_end f outcome c cancelled at t) = core t"
proof -
  have "core (fold (\<lambda>i u. if Some i \<noteq> f_checkpoint f \<and> cs_state (t_statuses u ! i) \<in> set OPEN
                   then tracker_set i c [Set_state (carried_step_ended outcome)] u else u) is u) = core u"
    for "is" u
    by (rule core_fold) (simp add: core_tracker_set)
  then show ?thesis
    by (simp add: tracker_end_def Let_def core_tracker_set own_step_ended_no_attempts split: option.split)
qed

lemma core_not_taken [simp]: "core (not_taken b t) = core t"
  by (auto simp: not_taken_def core_tracker_set intro!: core_fold split: option.split)

lemma core_test_started [simp]: "core (test_started k c t) = core t"
  by (auto simp: test_started_def core_tracker_set intro!: core_fold)

lemma core_test_ended [simp]: "core (test_ended k out c cancelled t) = core t"
  by (auto simp: test_ended_def core_tracker_set intro!: core_fold split: option.split)

lemma core_job_ended [simp]: "core (job_ended c t) = core t"
  by (auto simp: job_ended_def core_tracker_set intro!: core_fold)

section \<open>The invariant\<close>

text \<open>
  A frame that stands for a checkpoint stands for the one planned at its place, and its attempt
  number is the checkpoint's count once it asked and one more before. Frames deeper in the stack
  belong to steps that enclose the ones above them.
\<close>

definition frame_ok :: "PlannedCheckpoint list \<Rightarrow> nat list \<Rightarrow> StepFrame \<Rightarrow> bool" where
  "frame_ok ps as f =
     (case f_checkpoint f of
        None \<Rightarrow> True
      | Some i \<Rightarrow> i < length ps \<and> tracker_at (f_test_id f) (f_path f) (ps ! i)
                 \<and> (if f_asked f then as ! i = f_checkpoint_attempt f
                    else Suc (as ! i) = f_checkpoint_attempt f))"

definition core_ok :: "PlannedCheckpoint list \<times> nat list \<times> StepFrame list \<Rightarrow> bool" where
  "core_ok c = (case c of (ps, as, fs) \<Rightarrow>
     length as = length ps \<and> list_all (frame_ok ps as) fs
     \<and> sorted_wrt (\<lambda>f g. length (f_path g) < length (f_path f)) fs)"

definition entries_kept :: "Tracker \<Rightarrow> bool" where
  "entries_kept t = (map CheckpointEntry.truncate (t_statuses t) = map pc_entry (t_planned t)
     \<and> length (t_revisions t) = length (t_planned t))"

definition tracker_wf :: "Tracker \<Rightarrow> bool" where
  "tracker_wf t = (entries_kept t \<and> core_ok (core t))"

inductive tracker_step :: "Tracker \<Rightarrow> Tracker \<Rightarrow> bool" where
  ts_step: "t_frames t = [] \<Longrightarrow> tracker_step t (step_enter test_id path t)"
| ts_leave: "tracker_step t (step_leave cancelled at t)"
| ts_nested: "tracker_step t (fst (nested_enter place now t))"
| ts_begin: "tracker_step t (begin_step at t)"
| ts_ended: "tracker_step t (ended outcome cause cancelled at t)"
| ts_not_taken: "tracker_step t (not_taken branch t)"
| ts_test_started: "tracker_step t (test_started test_id cs t)"
| ts_test_ended: "tracker_step t (test_ended test_id status cs cancelled t)"
| ts_job_ended: "tracker_step t (job_ended cs t)"
| ts_asked: "tracker_step t (asked cs at t)"
| ts_suspended: "tracker_step t (suspended t)"
| ts_answered: "tracker_step t (answered cs waited at_ask at t)"
| ts_refused: "tracker_step t (refused cs at t)"

inductive tracker_run :: "Tracker \<Rightarrow> bool" where
  run_start: "tracker_run (plan (init_tracker kept publisher left_out))"
| run_step: "tracker_run t \<Longrightarrow> tracker_step t u \<Longrightarrow> tracker_run u"

lemma core_on_current:
  "core (on_current g t) = (t_planned t, attempts_of t, (case t_frames t of [] \<Rightarrow> [] | f # fs \<Rightarrow> g f # fs))"
  by (simp add: core_def attempts_of_def on_current_def split: list.split)

lemma core_ok_head:
  assumes "core_ok (ps, as, f # fs)" "frame_ok ps as g" "f_path g = f_path f"
  shows "core_ok (ps, as, g # fs)"
  using assms by (simp add: core_ok_def)

lemma core_ok_tail: "core_ok (ps, as, f # fs) \<Longrightarrow> core_ok (ps, as, fs)"
  by (simp add: core_ok_def)

text \<open>Two frames of one stack are never the same checkpoint: their paths differ in length.\<close>

lemma core_ok_other_checkpoint:
  assumes "core_ok (ps, as, f # fs)" "g \<in> set fs" "f_checkpoint f = Some i"
  shows "f_checkpoint g \<noteq> Some i"
proof
  assume "f_checkpoint g = Some i"
  then have "pc_path (ps ! i) = f_path g" and "pc_path (ps ! i) = f_path f"
    using assms by (auto simp: core_ok_def frame_ok_def tracker_at_def list_all_iff)
  moreover have "length (f_path g) < length (f_path f)"
    using assms by (simp add: core_ok_def)
  ultimately show False by simp
qed

lemma core_ask:
  assumes ok: "core_ok (core t)" and f: "current_frame t = Some f" and cp: "f_checkpoint f = Some i"
  shows "core_ok (core (tracker_ask c at t))"
    and "attempts_of (tracker_ask c at t) = (attempts_of t)[i := f_checkpoint_attempt f]"
    and "current_frame (tracker_ask c at t) = Some (f\<lparr>f_asked := True\<rparr>)"
proof -
  obtain fs where fs: "t_frames t = f # fs"
    using f by (auto simp: current_frame_def split: list.splits)
  let ?ps = "t_planned t" and ?as = "attempts_of t"
  let ?as' = "?as[i := f_checkpoint_attempt f]"
  have ok': "core_ok (?ps, ?as, f # fs)"
    using ok fs by (simp add: core_def)
  then have i: "i < length ?ps" "length ?as = length ?ps"
    using cp by (auto simp: core_ok_def frame_ok_def)
  show as: "attempts_of (tracker_ask c at t) = ?as'"
    using f cp by (simp add: tracker_ask_def attempts_of_def tracker_set_statuses map_update)
  show "current_frame (tracker_ask c at t) = Some (f\<lparr>f_asked := True\<rparr>)"
    using f cp by (simp add: tracker_ask_def)
  have frames: "t_frames (tracker_ask c at t) = f\<lparr>f_asked := True\<rparr> # fs"
    using f cp fs by (simp add: tracker_ask_def on_current_def)
  have planned: "t_planned (tracker_ask c at t) = ?ps"
    using f cp by (simp add: tracker_ask_def)
  have head: "frame_ok ?ps ?as' (f\<lparr>f_asked := True\<rparr>)"
    using ok' cp i by (auto simp: core_ok_def frame_ok_def)
  have "frame_ok ?ps ?as' g" if g: "g \<in> set fs" for g
  proof -
    have "frame_ok ?ps ?as g" and "f_checkpoint g \<noteq> Some i"
      using ok' g core_ok_other_checkpoint [OF ok' g cp] by (auto simp: core_ok_def list_all_iff)
    then show ?thesis
      by (auto simp: frame_ok_def split: option.splits)
  qed
  with head show "core_ok (core (tracker_ask c at t))"
    using ok' i by (simp add: core_def as frames planned core_ok_def list_all_iff)
qed
lemma core_ok_on_current:
  assumes "core_ok (core t)" "\<And>f. frame_ok (t_planned t) (attempts_of t) f \<Longrightarrow> frame_ok (t_planned t) (attempts_of t) (g f)"
    "\<And>f. f_path (g f) = f_path f"
  shows "core_ok (core (on_current g t))"
  using assms(1)[unfolded core_def] assms(2,3) unfolding core_on_current
  by (cases "t_frames t") (auto simp: core_ok_def)

lemma core_ok_ask: "core_ok (core t) \<Longrightarrow> core_ok (core (tracker_ask c at t))"
proof (cases "current_frame t")
  case (Some f)
  assume ok: "core_ok (core t)"
  show ?thesis
  proof (cases "f_checkpoint f")
    case None
    with Some ok show ?thesis by (simp add: tracker_ask_def)
  next
    case (Some i)
    with ok \<open>current_frame t = Some f\<close> show ?thesis by (blast intro: core_ask(1))
  qed
qed (simp add: tracker_ask_def)

lemma frame_ok_new:
  assumes "length (t_statuses t) = length (t_planned t)"
  shows "frame_ok (t_planned t) (attempts_of t) (hd (t_frames (step_enter k p t)))"
proof (cases "find_index (tracker_at k p) (t_planned t)")
  case None
  then show ?thesis by (simp add: step_enter_def Let_def frame_ok_def)
next
  case (Some i)
  then have "i < length (t_planned t)" "tracker_at k p (t_planned t ! i)"
    by (auto dest: find_index_SomeD)
  with Some assms show ?thesis
    by (simp add: step_enter_def Let_def frame_ok_def attempts_of_def)
qed

lemma core_ok_enter:
  assumes ok: "core_ok (core t)" and len: "\<And>f. f \<in> set (t_frames t) \<Longrightarrow> length (f_path f) < length p"
  shows "core_ok (core (step_enter k p t))"
proof -
  have new: "frame_ok (t_planned t) (attempts_of t) (hd (t_frames (step_enter k p t)))"
    using ok by (intro frame_ok_new) (simp add: core_def core_ok_def attempts_of_def)
  obtain f where f: "t_frames (step_enter k p t) = f # t_frames t" "f_path f = p"
    by (simp add: step_enter_def Let_def)
  then have "core (step_enter k p t) = (t_planned t, attempts_of t, f # t_frames t)"
    by (simp add: core_def attempts_of_def step_enter_def Let_def)
  with ok new f len show ?thesis
    by (simp add: core_ok_def core_def)
qed

lemma core_ok_path_head:
  "core_ok (core t) \<Longrightarrow> current_frame t = Some f \<Longrightarrow> g \<in> set (t_frames t) \<Longrightarrow> length (f_path g) \<le> length (f_path f)"
  by (auto simp: core_def core_ok_def current_frame_def split: list.splits)

lemma core_ok_begin: "core_ok (core t) \<Longrightarrow> core_ok (core (begin_step at t))"
  by (simp add: begin_step_def core_ok_ask split: option.split)

lemma core_ok_nested:
  assumes "core_ok (core t)"
  shows "core_ok (core (fst (nested_enter place now t)))"
proof -
  have "core_ok (core (step_enter (f_test_id f) (f_path f @ [SStr k, SInt i]) t))"
    if "current_frame t = Some f" for f k i
    using core_ok_path_head [OF assms that] by (intro core_ok_enter [OF assms]) fastforce
  with assms show ?thesis
    by (auto simp: nested_enter_def core_ok_begin split: option.split)
qed

lemma core_ok_leave: "core_ok (core t) \<Longrightarrow> core_ok (core (step_leave cancelled at t))"
proof (cases "t_frames t")
  case (Cons f fs)
  assume "core_ok (core t)"
  then have "core_ok (core (t\<lparr>t_frames := fs\<rparr>))"
    using Cons by (auto simp: core_def attempts_of_def intro: core_ok_tail)
  with Cons show ?thesis by (simp add: step_leave_def Let_def)
qed (simp add: step_leave_def)

lemma core_ok_ended: "core_ok (core t) \<Longrightarrow> core_ok (core (ended out c cancelled at t))"
  by (auto simp: ended_def frame_ok_def intro!: core_ok_on_current split: option.split)

lemma core_ok_ask_first: "core_ok (core t) \<Longrightarrow> core_ok (core (ask_first c at f t))"
  by (simp add: ask_first_def core_ok_ask)

lemma core_ok_answered_mark: "core_ok (core t) \<Longrightarrow> core_ok (core (on_current (\<lambda>f. f\<lparr>f_answered := True\<rparr>) t))"
  by (rule core_ok_on_current) (auto simp: frame_ok_def split: option.split)

lemma core_ok_asked:
  assumes ok: "core_ok (core t)"
  shows "core_ok (core (asked c at t))"
proof (cases "t_frames t")
  case (Cons f fs)
  show ?thesis
  proof (cases "f_checkpoint f")
    case None
    have "core_ok (t_planned t, attempts_of t, f\<lparr>f_asked := True\<rparr> # fs)"
      by (rule core_ok_head [of _ _ f]) (use ok Cons None in \<open>auto simp: core_def frame_ok_def\<close>)
    then show ?thesis
      using ok Cons None by (simp add: asked_def current_frame_def core_on_current)
  qed (use ok Cons in \<open>simp add: asked_def current_frame_def core_ok_ask\<close>)
qed (use ok in \<open>simp add: asked_def current_frame_def\<close>)

lemma core_ok_step: "tracker_step t u \<Longrightarrow> core_ok (core t) \<Longrightarrow> core_ok (core u)"
proof (induction rule: tracker_step.induct)
  case (ts_step t test_id path)
  then show ?case by (intro core_ok_enter) simp_all
next
  case (ts_suspended t)
  then show ?case
    unfolding suspended_def by (rule core_ok_on_current) (auto simp: frame_ok_def split: option.split)
next
  case (ts_answered t c waited at_ask at)
  then show ?case
    by (auto simp: answered_def core_tracker_set core_ok_answered_mark core_ok_ask_first split: option.split)
next
  case (ts_refused t c at)
  then show ?case
    by (auto simp: refused_def core_ok_answered_mark core_ok_ask_first split: option.split)
qed (simp_all add: core_ok_leave core_ok_nested core_ok_begin core_ok_ended core_ok_asked)

lemma core_ok_init: "core_ok (core (plan (init_tracker kept publisher left_out)))"
  by (simp add: plan_def init_tracker_def core_def core_ok_def attempts_of_def)

lemma core_ok_run: "tracker_run t \<Longrightarrow> core_ok (core t)"
  by (induction rule: tracker_run.induct) (auto simp: core_ok_init intro: core_ok_step)

section \<open>Invariants of the published state\<close>

lemma current_checkpoint_range:
  "core_ok (core t) \<Longrightarrow> current_frame t = Some f \<Longrightarrow> f_checkpoint f = Some i \<Longrightarrow> i < length (t_planned t)"
  by (auto simp: core_def core_ok_def frame_ok_def current_frame_def split: list.splits)

lemma touches_ask:
  assumes "core_ok (core t)"
  shows "touches {i. \<exists>f. current_frame t = Some f \<and> f_checkpoint f = Some i} t (tracker_ask c at t)"
proof (cases "current_frame t")
  case (Some f)
  show ?thesis
  proof (cases "f_checkpoint f")
    case (Some i)
    have "i < length (t_planned (on_current (\<lambda>f. f\<lparr>f_asked := True\<rparr>) t))"
      using current_checkpoint_range [OF assms \<open>current_frame t = Some f\<close> Some] by simp
    with \<open>current_frame t = Some f\<close> Some show ?thesis
      by (auto simp: tracker_ask_def intro!: touches.touch_set touches_on_current)
  qed (use Some in \<open>simp add: tracker_ask_def touches.intros\<close>)
qed (simp add: tracker_ask_def touches.intros)

text \<open>The checkpoints an ending step may change: its own and those at or under its place.\<close>

definition ending_scope :: "Tracker \<Rightarrow> StepFrame \<Rightarrow> nat set" where
  "ending_scope t f = set_option (f_checkpoint f) \<union> set (tracker_under t (f_test_id f) (f_path f))"

lemma touches_end:
  assumes "\<And>i. f_checkpoint f = Some i \<Longrightarrow> i < length (t_planned t)"
  shows "touches (ending_scope t f) t (tracker_end f out c cancelled at t)"
proof -
  define t1 where "t1 = (case f_checkpoint f of None \<Rightarrow> t
    | Some cp \<Rightarrow> tracker_set cp c (own_step_ended (t_statuses t ! cp) f out (pc_asks (t_planned t ! cp)) cancelled at) t)"
  have t1: "touches (ending_scope t f) t t1" "t_planned t1 = t_planned t"
    using assms by (auto simp: t1_def ending_scope_def intro: touches.intros split: option.split)
  have "touches (ending_scope t f) t1 (fold (\<lambda>i u. if Some i \<noteq> f_checkpoint f \<and> cs_state (t_statuses u ! i) \<in> set OPEN
          then tracker_set i c [Set_state (carried_step_ended out)] u else u)
          (tracker_under t (f_test_id f) (f_path f)) t1)"
    using t1(2) by (intro touches_fold)
      (auto simp: ending_scope_def intro!: touches.touch_none touches_one dest: tracker_under_range)
  with t1(1) show ?thesis
    unfolding tracker_end_def t1_def Let_def by (blast intro: touches_trans)
qed
lemma touches_enter: "touches S t (step_enter k p t)"
  unfolding step_enter_def Let_def by (intro touches.intros)

lemma touches_ask_UNIV: "core_ok (core t) \<Longrightarrow> touches UNIV t (tracker_ask c at t)"
  using touches_ask touches_mono by blast

lemma touches_begin: "core_ok (core t) \<Longrightarrow> touches UNIV t (begin_step at t)"
  by (simp add: begin_step_def touches_ask_UNIV touches.intros split: option.split)

lemma touches_nested:
  assumes ok: "core_ok (core t)"
  shows "touches UNIV t (fst (nested_enter place now t))"
proof (cases "place = None \<or> current_frame t = None")
  case True
  then show ?thesis by (auto simp: nested_enter_def intro: touches.intros split: option.splits)
next
  case False
  then obtain k i f where p: "place = Some (k, i)" "current_frame t = Some f" by auto
  let ?u = "step_enter (f_test_id f) (f_path f @ [SStr k, SInt i]) t"
  have "length (f_path g) < length (f_path f @ [SStr k, SInt i])" if "g \<in> set (t_frames t)" for g
    using core_ok_path_head [OF ok p(2) that] by simp
  then have "touches UNIV ?u (begin_step now ?u)"
    by (intro touches_begin core_ok_enter [OF ok]) blast
  then have "touches UNIV t (begin_step now ?u)"
    by (rule touches_trans) (rule touches_enter)
  with p show ?thesis by (simp add: nested_enter_def)
qed

lemma touches_leave:
  assumes ok: "core_ok (core t)"
  shows "touches UNIV t (step_leave cancelled at t)"
proof (cases "t_frames t")
  case (Cons f fs)
  have "f_checkpoint f = Some i \<Longrightarrow> i < length (t_planned t)" for i
    using current_checkpoint_range [OF ok] Cons by (simp add: current_frame_def)
  then have "touches UNIV (t\<lparr>t_frames := fs\<rparr>) (tracker_end f None None cancelled at (t\<lparr>t_frames := fs\<rparr>))"
    by (intro touches_mono [OF touches_end]) auto
  then have "touches UNIV t (tracker_end f None None cancelled at (t\<lparr>t_frames := fs\<rparr>))"
    by (rule touches_trans) (intro touches.intros)
  with Cons show ?thesis by (auto simp: step_leave_def Let_def intro: touches.intros)
qed (simp add: step_leave_def touches.intros)

lemma touches_ended:
  assumes ok: "core_ok (core t)"
  shows "touches UNIV t (ended out c cancelled at t)"
proof (cases "current_frame t")
  case (Some f)
  let ?u = "on_current (\<lambda>f. f\<lparr>f_ended := True\<rparr>) t"
  have "touches UNIV ?u (tracker_end f (Some out) c cancelled at ?u)"
    using current_checkpoint_range [OF ok Some] by (intro touches_mono [OF touches_end]) auto
  then have "touches UNIV t (tracker_end f (Some out) c cancelled at ?u)"
    by (rule touches_trans) (rule touches_on_current)
  with Some show ?thesis by (simp add: ended_def touches.intros)
qed (simp add: ended_def touches.intros)

lemma touches_ask_first: "core_ok (core t) \<Longrightarrow> touches UNIV t (ask_first c at f t)"
  by (simp add: ask_first_def touches_ask_UNIV touches.intros)

lemma planned_ask_first [simp]: "t_planned (ask_first c at f t) = t_planned t"
  by (simp add: ask_first_def tracker_ask_def split: option.split)

lemma touches_answer:
  assumes "core_ok (core t)"
  shows "touches UNIV t (on_current g (ask_first c at f t))"
  using touches_on_current touches_ask_first [OF assms] by (rule touches_trans)

lemma touches_step: "tracker_step t u \<Longrightarrow> core_ok (core t) \<Longrightarrow> touches UNIV t u"
proof (induction rule: tracker_step.induct)
  case (ts_not_taken t b)
  then show ?case
    by (auto simp: not_taken_def tracker_under_def intro!: touches_fold touches_one touches.touch_none
        split: option.split)
next
  case (ts_test_started t k c)
  then show ?case
    by (auto simp: test_started_def tracker_under_def intro!: touches_fold touches_one)
next
  case (ts_test_ended t k s c cancelled)
  then show ?case
    by (auto simp: test_ended_def tracker_under_def intro!: touches_fold touches_one touches.touch_none
        split: option.split)
next
  case (ts_job_ended t c)
  then have "length (t_statuses t) = length (t_planned t)"
    by (simp add: core_def core_ok_def attempts_of_def)
  then show ?case
    by (auto simp: job_ended_def intro!: touches_fold touches_one touches.touch_none)
next
  case (ts_asked t c at)
  then show ?case
    by (auto simp: asked_def touches_ask_UNIV intro!: touches_on_current touches.touch_none split: option.split)
next
  case (ts_suspended t)
  then show ?case by (simp add: suspended_def touches_on_current)
next
  case (ts_answered t c w at_ask at)
  then show ?case
    by (auto simp: answered_def intro!: touches.touch_none touches.touch_set touches_answer
        dest: current_checkpoint_range split: option.split)
next
  case (ts_refused t c at)
  then show ?case
    by (auto simp: refused_def intro!: touches.touch_none touches_answer split: option.split)
qed (simp_all add: touches_enter touches_leave touches_nested touches_begin touches_ended)

text \<open>
  What the rest of the program may assume of a tracker: anything that holds of the plan and that
  single updates and frame changes keep holds in every state a run reaches.
\<close>

locale tracker_invariant =
  fixes inv :: "Tracker \<Rightarrow> bool"
  assumes inv_start: "inv (plan (init_tracker kept publisher left_out))"
    and inv_set: "inv t \<Longrightarrow> i < length (t_planned t) \<Longrightarrow> inv (tracker_set i c xs t)"
    and inv_frames: "inv t \<Longrightarrow> inv (t\<lparr>t_frames := fs\<rparr>)"
    and inv_runs: "inv t \<Longrightarrow> inv (t\<lparr>t_runs := r\<rparr>)"
begin

lemma inv_touches: "touches S t u \<Longrightarrow> inv t \<Longrightarrow> inv u"
  by (induction rule: touches.induct) (auto intro: inv_set inv_frames inv_runs)

lemma inv_step: "tracker_step t u \<Longrightarrow> core_ok (core t) \<Longrightarrow> inv t \<Longrightarrow> inv u"
  using touches_step inv_touches by blast

lemma inv_run: "tracker_run t \<Longrightarrow> inv t"
proof (induction rule: tracker_run.induct)
  case (run_step t u)
  then show ?case using core_ok_run inv_step by blast
qed (rule inv_start)

end

lemma map_truncate_set:
  "map CheckpointEntry.truncate (t_statuses (tracker_set i c xs t)) = map CheckpointEntry.truncate (t_statuses t)"
proof (cases "i < length (t_statuses t)")
  case True
  then show ?thesis by (simp add: tracker_set_statuses map_update list_update_same_conv)
qed (simp add: tracker_set_statuses list_update_beyond)

interpretation entries: tracker_invariant entries_kept
  by unfold_locales
     (auto simp: entries_kept_def map_truncate_set plan_def init_tracker_def o_def)

section \<open>The published record\<close>

text \<open>What a reader of the published events knows: the plan, overwritten by every update.\<close>

fun replay_event :: "published_event \<Rightarrow> CheckpointStatus list \<Rightarrow> CheckpointStatus list" where
  "replay_event (Planned cs) xs = cs"
| "replay_event (Updated i r c s) xs = xs[i := s]"

definition replay :: "published_event list \<Rightarrow> CheckpointStatus list" where
  "replay log = fold replay_event log []"

text \<open>The revision numbers the updates of one checkpoint carry, in the order they went out.\<close>

fun revisions_of :: "nat \<Rightarrow> published_event list \<Rightarrow> nat list" where
  "revisions_of i [] = []"
| "revisions_of i (Planned cs # es) = revisions_of i es"
| "revisions_of i (Updated j r c s # es) = (if j = i then r # revisions_of i es else revisions_of i es)"

lemma revisions_of_append [simp]: "revisions_of i (xs @ ys) = revisions_of i xs @ revisions_of i ys"
  by (induction i xs rule: revisions_of.induct) simp_all

definition published_ok :: "Tracker \<Rightarrow> bool" where
  "published_ok t =
     (length (t_statuses t) = length (t_planned t) \<and> length (t_revisions t) = length (t_planned t)
      \<and> (t_publisher t \<longrightarrow> replay (t_published t) = t_statuses t
           \<and> list_all (\<lambda>i. revisions_of i (t_published t) = [1..<Suc (t_revisions t ! i)])
               [0..<length (t_planned t)]))"

lemma published_ok_set:
  assumes ok: "published_ok t" and i: "i < length (t_planned t)"
  shows "published_ok (tracker_set i c xs t)"
proof (cases "model_copy (t_statuses t ! i) xs = t_statuses t ! i")
  case True
  with ok show ?thesis by (simp add: tracker_set_def)
next
  case False
  with ok i show ?thesis
    by (auto simp: published_ok_def tracker_set_def Let_def replay_def list_all_iff nth_list_update)
qed

interpretation pub: tracker_invariant published_ok
proof unfold_locales
  fix kept publisher left_out
  show "published_ok (plan (init_tracker kept publisher left_out))"
    by (auto simp: published_ok_def plan_def init_tracker_def replay_def list_all_iff nth_append)
qed (simp_all add: published_ok_set, simp_all add: published_ok_def)
section \<open>Sweeps over several checkpoints\<close>

text \<open>
  The operations that end a step, a test or the run visit a list of indexes once each and update
  the ones their rule names; because no update touches another index, the result has a closed form.
\<close>

definition sweep :: "Cause option \<Rightarrow> (nat \<Rightarrow> CheckpointStatus \<Rightarrow> change list option) \<Rightarrow> nat list \<Rightarrow> Tracker \<Rightarrow> Tracker" where
  "sweep c G is t =
     fold (\<lambda>i u. case G i (t_statuses u ! i) of None \<Rightarrow> u | Some xs \<Rightarrow> tracker_set i c xs u) is t"

definition swept :: "(nat \<Rightarrow> CheckpointStatus \<Rightarrow> change list option) \<Rightarrow> nat \<Rightarrow> CheckpointStatus \<Rightarrow> CheckpointStatus" where
  "swept G i s = (case G i s of None \<Rightarrow> s | Some xs \<Rightarrow> model_copy s xs)"

lemma sweep_nth:
  assumes "distinct is" "j < length (t_statuses t)"
  shows "t_statuses (sweep c G is t) ! j
    = (if j \<in> set is then swept G j (t_statuses t ! j) else t_statuses t ! j)"
  using assms
proof (induction "is" arbitrary: t)
  case (Cons i "is")
  define u where "u = (case G i (t_statuses t ! i) of None \<Rightarrow> t | Some xs \<Rightarrow> tracker_set i c xs t)"
  have u: "t_statuses u ! j = (if j = i then swept G i (t_statuses t ! i) else t_statuses t ! j)"
    and len: "length (t_statuses u) = length (t_statuses t)"
    using Cons.prems(2) by (auto simp: u_def swept_def tracker_set_statuses split: option.split)
  have "sweep c G (i # is) t = sweep c G is u"
    by (simp add: sweep_def u_def)
  with Cons u len show ?case by auto
qed (simp add: sweep_def)

lemma distinct_tracker_under [simp]: "distinct (tracker_under t k p)"
  by (simp add: tracker_under_def)

lemma job_ended_sweep:
  "job_ended c t = sweep (Some c) (\<lambda>i s. if cs_state s \<in> set OPEN then Some [Set_state Not_reached] else None)
     [0..<length (t_statuses t)] t"
  unfolding job_ended_def sweep_def by (intro fold_cong refl ext) (simp split: if_splits)

lemma test_ended_sweep:
  "test_ended k out c cancelled t =
     sweep (Some c) (\<lambda>i s. map_option (\<lambda>st. [Set_state st]) (test_ended_state (cs_state s) out cancelled))
       (tracker_under t k []) t"
  unfolding test_ended_def sweep_def by (intro fold_cong refl ext) (simp split: option.split)

lemma test_started_sweep:
  "test_started k c t =
     sweep (Some c) (\<lambda>i s. Some [Set_state Ahead, Set_asked_at None, Set_answered_at None, Set_response_s None])
       (tracker_under t k []) t"
  unfolding test_started_def sweep_def by simp

lemma not_taken_sweep:
  "current_frame t = Some f \<Longrightarrow>
   not_taken b t = sweep None (\<lambda>i s. if cs_state s \<in> set SUPERSEDED then Some [Set_state Skipped] else None)
     (tracker_under t (f_test_id f) (f_path f @ [SStr b])) t"
  unfolding not_taken_def sweep_def by (auto intro!: fold_cong)

definition own_ended :: "StepFrame \<Rightarrow> StepStatus option \<Rightarrow> Cause option \<Rightarrow> bool \<Rightarrow> int \<Rightarrow> Tracker \<Rightarrow> Tracker" where
  "own_ended f out c cancelled at t =
     (case f_checkpoint f of None \<Rightarrow> t
      | Some cp \<Rightarrow> tracker_set cp c (own_step_ended (t_statuses t ! cp) f out (pc_asks (t_planned t ! cp)) cancelled at) t)"

lemma tracker_end_sweep:
  "tracker_end f out c cancelled at t =
     sweep c (\<lambda>i s. if Some i \<noteq> f_checkpoint f \<and> cs_state s \<in> set OPEN
                    then Some [Set_state (carried_step_ended out)] else None)
       (tracker_under t (f_test_id f) (f_path f)) (own_ended f out c cancelled at t)"
  unfolding tracker_end_def sweep_def own_ended_def Let_def by (auto intro!: fold_cong)

lemma own_step_ended_closed:
  "cs_state (model_copy s (own_step_ended s f out asks cancelled at)) \<notin> set OPEN"
  by (simp add: own_step_ended_def OPEN_def)

lemma tracker_end_nth:
  assumes j: "j < length (t_statuses t)"
  shows "t_statuses (tracker_end f out c cancelled at t) ! j =
    (if f_checkpoint f = Some j
     then model_copy (t_statuses t ! j) (own_step_ended (t_statuses t ! j) f out (pc_asks (t_planned t ! j)) cancelled at)
     else if j \<in> set (tracker_under t (f_test_id f) (f_path f)) \<and> cs_state (t_statuses t ! j) \<in> set OPEN
     then (t_statuses t ! j)\<lparr>cs_state := carried_step_ended out\<rparr>
     else t_statuses t ! j)"
proof -
  have "length (t_statuses (own_ended f out c cancelled at t)) = length (t_statuses t)"
    and "t_statuses (own_ended f out c cancelled at t) ! j =
      (if f_checkpoint f = Some j
       then model_copy (t_statuses t ! j) (own_step_ended (t_statuses t ! j) f out (pc_asks (t_planned t ! j)) cancelled at)
       else t_statuses t ! j)"
    using j by (auto simp: own_ended_def tracker_set_statuses split: option.split)
  with j show ?thesis
    by (simp add: tracker_end_sweep sweep_nth swept_def own_step_ended_closed)
qed

lemmas sweep_results = sweep_nth swept_def

section \<open>Attempts\<close>

lemma attempts_ask:
  assumes ok: "core_ok (core t)" and i: "i < length (t_statuses t)"
  shows "attempts_of t ! i \<le> attempts_of (tracker_ask c at t) ! i
    \<and> attempts_of (tracker_ask c at t) ! i \<le> Suc (attempts_of t ! i)"
proof (cases "\<exists>f k. current_frame t = Some f \<and> f_checkpoint f = Some k")
  case True
  then obtain f k where f: "current_frame t = Some f" and k: "f_checkpoint f = Some k" by blast
  have "frame_ok (t_planned t) (attempts_of t) f"
    using ok f by (auto simp: core_def core_ok_def current_frame_def split: list.splits)
  then have "attempts_of t ! k \<le> f_checkpoint_attempt f" "f_checkpoint_attempt f \<le> Suc (attempts_of t ! k)"
    using k by (auto simp: frame_ok_def split: if_splits)
  moreover have "i < length (attempts_of t)"
    using i by (simp add: attempts_of_def)
  ultimately show ?thesis
    using core_ask(2) [OF ok f k] by (cases "k = i") simp_all
next
  case False
  then have "tracker_ask c at t = t"
    by (auto simp: tracker_ask_def split: option.split)
  then show ?thesis by simp
qed

lemma attempts_of_core: "core u = core t \<Longrightarrow> attempts_of u = attempts_of t"
  by (simp add: core_def)

lemma attempts_on_current [simp]: "attempts_of (on_current g t) = attempts_of t"
  by (simp add: attempts_of_def)

lemma attempts_end [simp]: "attempts_of (tracker_end f out c cancelled at t) = attempts_of t"
  by (rule attempts_of_core) simp

lemma attempts_sweeps [simp]:
  "attempts_of (not_taken b t) = attempts_of t"
  "attempts_of (test_started k cs t) = attempts_of t"
  "attempts_of (test_ended k st cs cancelled t) = attempts_of t"
  "attempts_of (job_ended cs t) = attempts_of t"
  by (rule attempts_of_core, simp)+

lemma attempts_frames [simp]: "attempts_of (t\<lparr>t_frames := fs\<rparr>) = attempts_of t"
  by (simp add: attempts_of_def)

lemma attempts_enter [simp]: "attempts_of (step_enter k p t) = attempts_of t"
  by (simp add: attempts_of_def step_enter_def Let_def)

lemma attempts_set_answer:
  "attempts_of (tracker_set i c [Set_state s, Set_answered_at a, Set_response_s r] t) = attempts_of t"
  by (rule attempts_of_core) (rule core_tracker_set, simp)

lemma attempts_step:
  assumes "tracker_step t u" "core_ok (core t)" "i < length (t_statuses t)"
  shows "attempts_of t ! i \<le> attempts_of u ! i \<and> attempts_of u ! i \<le> Suc (attempts_of t ! i)"
  using assms
proof (induction rule: tracker_step.induct)
  case (ts_nested t place now)
  show ?case
  proof (cases "place = None \<or> current_frame t = None")
    case False
    then obtain k n f where p: "place = Some (k, n)" "current_frame t = Some f" by auto
    let ?u = "step_enter (f_test_id f) (f_path f @ [SStr k, SInt n]) t"
    have "core_ok (core ?u)"
      using core_ok_path_head [OF ts_nested.prems(1) p(2)]
      by (intro core_ok_enter [OF ts_nested.prems(1)]) fastforce
    moreover have "i < length (t_statuses ?u)"
      using ts_nested.prems(2) by (simp add: step_enter_def Let_def)
    ultimately show ?thesis
      using attempts_ask [of ?u i] p by (auto simp: nested_enter_def begin_step_def split: option.split)
  qed (auto simp: nested_enter_def split: option.split)
next
  case (ts_leave t cancelled at)
  then show ?case by (auto simp: step_leave_def Let_def split: list.split)
next
  case (ts_begin t at)
  then show ?case using attempts_ask by (auto simp: begin_step_def split: option.split)
next
  case (ts_ended t out c cancelled at)
  then show ?case by (auto simp: ended_def split: option.split)
next
  case (ts_asked t c at)
  then show ?case using attempts_ask by (auto simp: asked_def split: option.split)
next
  case (ts_answered t c w at_ask at)
  then show ?case
    using attempts_ask by (auto simp: answered_def ask_first_def attempts_set_answer split: option.split)
next
  case (ts_refused t c at)
  then show ?case using attempts_ask by (auto simp: refused_def ask_first_def split: option.split)
qed (simp_all add: suspended_def)
section \<open>Cleared checkpoints\<close>

lemma ask_other:
  "\<not> (\<exists>f. current_frame t = Some f \<and> f_checkpoint f = Some i) \<Longrightarrow>
   t_statuses (tracker_ask c at t) ! i = t_statuses t ! i"
  by (auto simp: tracker_ask_def tracker_set_other split: option.split)

lemma current_frame_ask:
  "current_frame (tracker_ask c at t) = map_option (\<lambda>f. if f_checkpoint f = None then f else f\<lparr>f_asked := True\<rparr>) (current_frame t)"
  by (auto simp: tracker_ask_def split: option.split)

lemma current_frame_enter:
  "current_frame (step_enter k p t) = Some (hd (t_frames (step_enter k p t)))"
  by (simp add: current_frame_def step_enter_def Let_def)

lemma statuses_enter [simp]: "t_statuses (step_enter k p t) = t_statuses t"
  by (simp add: step_enter_def Let_def)

lemma planned_enter [simp]: "t_planned (step_enter k p t) = t_planned t"
  by (simp add: step_enter_def Let_def)

lemma begin_other:
  "t_statuses (begin_step at t) ! i = t_statuses t ! i
   \<or> (\<exists>f. current_frame (begin_step at t) = Some f \<and> f_checkpoint f = Some i)"
proof (cases "\<exists>f. current_frame t = Some f \<and> f_checkpoint f = Some i")
  case True
  then show ?thesis by (auto simp: begin_step_def current_frame_ask)
next
  case False
  then show ?thesis by (auto simp: begin_step_def ask_other split: option.split)
qed

lemma cleared_step:
  assumes "tracker_step t u" "core_ok (core t)" "i < length (t_statuses t)" "cs_state (t_statuses t ! i) = Cleared"
  shows "cs_state (t_statuses u ! i) = Cleared
     \<or> (\<exists>f. (current_frame t = Some f \<or> current_frame u = Some f) \<and> f_checkpoint f = Some i)
     \<or> (\<exists>cause. u = test_started (ce_test_id (pc_entry (t_planned t ! i))) cause t)"
  using assms
proof (induction rule: tracker_step.induct)
  case (ts_leave t cancelled at)
  then show ?case
    by (auto simp: step_leave_def Let_def tracker_end_nth OPEN_def current_frame_def split: list.split)
next
  case (ts_nested t place now)
  show ?case
  proof (cases "place = None \<or> current_frame t = None")
    case False
    then obtain k n f where p: "place = Some (k, n)" "current_frame t = Some f" by auto
    show ?thesis
      using begin_other [of now "step_enter (f_test_id f) (f_path f @ [SStr k, SInt n]) t" i] p ts_nested.prems(3)
      by (auto simp: nested_enter_def)
  qed (use ts_nested.prems(3) in \<open>auto simp: nested_enter_def split: option.split\<close>)
next
  case (ts_begin t at)
  then show ?case using begin_other [of at t i] by auto
next
  case (ts_ended t out c cancelled at)
  then show ?case by (auto simp: ended_def tracker_end_nth OPEN_def split: option.split)
next
  case (ts_not_taken t b)
  show ?case
  proof (cases "current_frame t")
    case (Some f)
    with ts_not_taken show ?thesis by (simp add: not_taken_sweep sweep_results SUPERSEDED_def)
  qed (use ts_not_taken in \<open>simp add: not_taken_def\<close>)
next
  case (ts_test_started t k c)
  then show ?case
    by (cases "i \<in> set (tracker_under t k [])") (auto simp: test_started_sweep sweep_results tracker_under_def)
next
  case (ts_test_ended t k st c cancelled)
  then show ?case by (simp add: test_ended_sweep sweep_results test_ended_state_def)
next
  case (ts_job_ended t c)
  then show ?case by (simp add: job_ended_sweep sweep_results OPEN_def)
next
  case (ts_asked t c at)
  then show ?case
    by (cases "\<exists>f. current_frame t = Some f \<and> f_checkpoint f = Some i")
       (auto simp: asked_def ask_other split: option.split)
next
  case (ts_answered t c w at_ask at)
  then show ?case
    by (cases "\<exists>f. current_frame t = Some f \<and> f_checkpoint f = Some i")
       (auto simp: answered_def ask_first_def ask_other tracker_set_other split: option.split)
next
  case (ts_refused t c at)
  then show ?case
    by (cases "\<exists>f. current_frame t = Some f \<and> f_checkpoint f = Some i")
       (auto simp: refused_def ask_first_def ask_other split: option.split)
qed (simp_all add: suspended_def)
section \<open>Properties\<close>

text \<open>C5. In every state a run reaches, the tracker's lists are as long as its plan, every status
  still carries the entry it was planned with, every open frame stands for the checkpoint planned at
  its place with the right attempt number, and enclosing frames have shorter paths.\<close>

theorem tracker_wf_reachable: "tracker_run t \<Longrightarrow> tracker_wf t"
  by (simp add: tracker_wf_def entries.inv_run core_ok_run)

definition demo_entry :: CheckpointEntry where
  "demo_entry = \<lparr>ce_test_id = ''push'', ce_test_name = ''Push'', ce_phase = ''execution'',
     ce_position = ''execution/0'', ce_step_id = Some ''wait'', ce_uses = ''mock/wait/http_request'',
     ce_direction = INBOUND, ce_kind = Kind_wait, ce_via = Some DIRECT, ce_name = None, ce_label = None,
     ce_description = None, ce_timeout_s = Some 30, ce_conditional = False, ce_repeated = False\<rparr>"

definition demo_plan :: Tracker where
  "demo_plan = plan (init_tracker
     [\<lparr>pc_entry = demo_entry, pc_path = [SStr ''execution'', SInt 0], pc_asks = True\<rparr>] True [])"

definition demo_asked :: Tracker where
  "demo_asked = asked \<lparr>cause_kind = ''step_waiting'', cause_sequence = Some 4\<rparr> 100
     (step_enter ''push'' [SStr ''execution'', SInt 0] demo_plan)"

lemma demo_plan_run: "tracker_run demo_plan"
  unfolding demo_plan_def by (rule tracker_run.run_start)

lemma demo_asked_run: "tracker_run demo_asked"
proof -
  have "t_frames demo_plan = []"
    by (simp add: demo_plan_def plan_def init_tracker_def)
  then show ?thesis
    unfolding demo_asked_def by (metis demo_plan_run run_step ts_step ts_asked)
qed

lemmas demo_defs = demo_asked_def demo_plan_def demo_entry_def plan_def init_tracker_def step_enter_def
  asked_def tracker_ask_def on_current_def current_frame_def tracker_set_def new_status_def
  tracker_at_def CheckpointEntry.defs Let_def

theorem tracker_wf_reachable_witness: "tracker_run demo_asked \<and> tracker_wf demo_asked"
  using tracker_wf_reachable [OF demo_asked_run] demo_asked_run by simp

text \<open>C6. The published events tell the whole story: whoever starts from the plan and applies each
  update as it comes holds the tracker's statuses exactly, and the updates of one checkpoint are
  numbered 1, 2, 3 and so on without a gap up to its current revision.\<close>

theorem published_record_complete:
  "tracker_run t \<Longrightarrow> t_publisher t \<Longrightarrow>
     replay (t_published t) = t_statuses t
     \<and> (\<forall>i < length (t_planned t). revisions_of i (t_published t) = [1..<Suc (t_revisions t ! i)])"
  using pub.inv_run by (auto simp: published_ok_def list_all_iff)

theorem published_record_complete_witness:
  "tracker_run demo_asked \<and> t_publisher demo_asked
   \<and> replay (t_published demo_asked) = t_statuses demo_asked
   \<and> revisions_of 0 (t_published demo_asked) = [1]"
proof -
  have p: "t_publisher demo_asked" and n: "0 < length (t_planned demo_asked)" and r: "t_revisions demo_asked ! 0 = 1"
    by (simp_all add: demo_defs)
  show ?thesis
    using published_record_complete [OF demo_asked_run p] demo_asked_run p n r by auto
qed

text \<open>A checkpoint's attempt count never goes down, whatever happens to its step, its test or the
  run, and no single event raises it by more than one.\<close>

theorem attempts_count_up:
  "tracker_run t \<Longrightarrow> tracker_step t u \<Longrightarrow> i < length (t_statuses t) \<Longrightarrow>
     cs_attempts (t_statuses t ! i) \<le> cs_attempts (t_statuses u ! i)
     \<and> cs_attempts (t_statuses u ! i) \<le> Suc (cs_attempts (t_statuses t ! i))"
proof -
  assume run: "tracker_run t" and step: "tracker_step t u" and i: "i < length (t_statuses t)"
  have ok: "core_ok (core t)"
    by (rule core_ok_run [OF run])
  have "i < length (t_statuses u)"
    using touches_same [OF touches_step [OF step ok]] i by simp
  then show ?thesis
    using attempts_step [OF step ok i] i by (simp add: attempts_of_def)
qed

theorem attempts_count_up_witness:
  "cs_attempts (t_statuses (step_enter ''push'' [SStr ''execution'', SInt 0] demo_plan) ! 0) = 0
   \<and> cs_attempts (t_statuses demo_asked ! 0) \<le> Suc 0"
proof -
  let ?t = "step_enter ''push'' [SStr ''execution'', SInt 0] demo_plan"
  have "t_frames demo_plan = []"
    by (simp add: demo_plan_def plan_def init_tracker_def)
  then have "tracker_run ?t"
    by (metis demo_plan_run run_step ts_step)
  moreover have "tracker_step ?t demo_asked"
    unfolding demo_asked_def by (rule ts_asked)
  moreover have "0 < length (t_statuses ?t)" and z: "cs_attempts (t_statuses ?t ! 0) = 0"
    by (simp_all add: demo_defs)
  ultimately show ?thesis
    using attempts_count_up [of ?t demo_asked 0] by simp
qed

text \<open>Once the run has ended no checkpoint is left \<open>ahead\<close> or \<open>now\<close>: those that were are
  \<open>not_reached\<close>, and every other keeps the state it had.\<close>

theorem job_ended_closes:
  "i < length (t_statuses t) \<Longrightarrow>
     cs_state (t_statuses (job_ended cause t) ! i)
       = (if cs_state (t_statuses t ! i) \<in> {Ahead, Now} then Not_reached else cs_state (t_statuses t ! i))"
  by (simp add: job_ended_sweep sweep_results OPEN_def)

theorem job_ended_closes_witness:
  "0 < length (t_statuses demo_asked) \<and> cs_state (t_statuses demo_asked ! 0) = Now
   \<and> cs_state (t_statuses (job_ended \<lparr>cause_kind = ''job_failed'', cause_sequence = None\<rparr> demo_asked) ! 0) = Not_reached"
proof -
  have n: "0 < length (t_statuses demo_asked)" and s: "cs_state (t_statuses demo_asked ! 0) = Now"
    by (simp_all add: demo_defs)
  show ?thesis using job_ended_closes [OF n] n s by simp
qed

text \<open>Once a test has ended, none of its checkpoints is \<open>ahead\<close> or \<open>now\<close>; one it never asked is
  \<open>skipped\<close> if the test passed or was skipped in a run that was not cancelled, and \<open>not_reached\<close>
  otherwise; no checkpoint of another test changes.\<close>

theorem test_ended_settles:
  "i < length (t_statuses t) \<Longrightarrow> length (t_statuses t) = length (t_planned t) \<Longrightarrow>
     cs_state (t_statuses (test_ended k outcome cause cancelled t) ! i)
       = (let s = cs_state (t_statuses t ! i) in
          if ce_test_id (pc_entry (t_planned t ! i)) \<noteq> k then s
          else if s = Now then Not_reached
          else if s = Ahead then (if outcome \<in> {Test_COMPLETED, Test_SKIPPED} \<and> \<not> cancelled then Skipped else Not_reached)
          else s)"
  by (auto simp: test_ended_sweep sweep_results tracker_under_def test_ended_state_def)

theorem test_ended_settles_witness:
  "cs_state (t_statuses (test_ended ''push'' Test_FAILED \<lparr>cause_kind = ''test_completed'', cause_sequence = None\<rparr> False demo_plan) ! 0)
     = Not_reached"
proof -
  have "0 < length (t_statuses demo_plan)" and "length (t_statuses demo_plan) = length (t_planned demo_plan)"
    and "cs_state (t_statuses demo_plan ! 0) = Ahead" and "ce_test_id (pc_entry (t_planned demo_plan ! 0)) = ''push''"
    by (simp_all add: demo_defs)
  then show ?thesis using test_ended_settles [of 0 demo_plan] by simp
qed

text \<open>When the current step ends, its own checkpoint leaves \<open>ahead\<close> and \<open>now\<close>, and so does every
  checkpoint its place carries; those already settled keep their state.\<close>

theorem ended_settles_subtree:
  "current_frame t = Some f \<Longrightarrow> \<not> f_ended f \<Longrightarrow> i < length (t_statuses t) \<Longrightarrow>
   i \<in> set (tracker_under t (f_test_id f) (f_path f)) \<Longrightarrow>
     cs_state (t_statuses (ended outcome cause cancelled at t) ! i) \<notin> {Ahead, Now}
     \<and> (f_checkpoint f \<noteq> Some i \<and> cs_state (t_statuses t ! i) \<notin> {Ahead, Now} \<longrightarrow>
          t_statuses (ended outcome cause cancelled at t) ! i = t_statuses t ! i)"
  using own_step_ended_closed [of "t_statuses t ! i" f "Some outcome" "pc_asks (t_planned t ! i)" cancelled at]
  by (auto simp: ended_def tracker_end_nth tracker_under_def OPEN_def carried_step_ended_def split: if_splits)

theorem ended_settles_subtree_witness:
  "cs_state (t_statuses (ended Step_FAILED None False 900 demo_asked) ! 0) \<notin> {Ahead, Now}"
proof -
  obtain f where f: "current_frame demo_asked = Some f" "\<not> f_ended f" "f_test_id f = ''push''"
      "f_path f = [SStr ''execution'', SInt 0]"
    by (simp add: demo_defs)
  have "0 < length (t_statuses demo_asked)"
    and "0 \<in> set (tracker_under demo_asked (f_test_id f) (f_path f))"
    using f(3,4) by (simp_all add: demo_defs tracker_under_def)
  then show ?thesis using ended_settles_subtree [OF f(1,2)] by blast
qed

text \<open>What the ending of its own step makes of a checkpoint, state by state: \<open>skipped\<close> if the step
  was skipped or passed without asking; \<open>cleared\<close> exactly if it was asked and the step passed;
  \<open>timed_out\<close> exactly if its own question was still open when the step failed in a run nobody
  cancelled; \<open>failed\<close> if the step failed after the answer, or while a question the step does not put
  itself was open; \<open>not_reached\<close> in every other case.\<close>

theorem own_checkpoint_outcome:
  "current_frame t = Some f \<Longrightarrow> \<not> f_ended f \<Longrightarrow> f_checkpoint f = Some i \<Longrightarrow> i < length (t_statuses t) \<Longrightarrow>
   s = cs_state (t_statuses (ended outcome cause cancelled at t) ! i) \<Longrightarrow>
     (s = Skipped \<longleftrightarrow> outcome = Step_SKIPPED \<or> (outcome = Step_PASSED \<and> \<not> f_asked f))
     \<and> (s = Cleared \<longleftrightarrow> outcome = Step_PASSED \<and> f_asked f)
     \<and> (s = Timed_out \<longleftrightarrow> outcome \<notin> {Step_PASSED, Step_SKIPPED} \<and> f_asked f \<and> \<not> f_answered f
          \<and> \<not> cancelled \<and> pc_asks (t_planned t ! i))
     \<and> (s = Failed \<longleftrightarrow> outcome \<notin> {Step_PASSED, Step_SKIPPED} \<and> f_asked f
          \<and> (f_answered f \<or> \<not> cancelled \<and> \<not> pc_asks (t_planned t ! i)))
     \<and> (s = Not_reached \<longleftrightarrow> outcome \<notin> {Step_PASSED, Step_SKIPPED} \<and> (\<not> f_asked f \<or> \<not> f_answered f \<and> cancelled))
     \<and> s \<noteq> Ahead \<and> s \<noteq> Now"
  by (simp add: ended_def tracker_end_nth own_step_ended_def)

theorem own_checkpoint_outcome_witness:
  "cs_state (t_statuses (ended Step_FAILED None False 900 demo_asked) ! 0) = Timed_out"
proof -
  obtain f where f: "current_frame demo_asked = Some f" "\<not> f_ended f" "f_checkpoint f = Some 0"
      "f_asked f" "\<not> f_answered f"
    by (simp add: demo_defs)
  have "0 < length (t_statuses demo_asked)" "pc_asks (t_planned demo_asked ! 0)"
    by (simp_all add: demo_defs)
  then show ?thesis
    using own_checkpoint_outcome [OF f(1-3) _ refl, of Step_FAILED None False 900] f(4,5) by simp
qed

text \<open>A question put again after a pause is the same question: asking, pausing and asking again
  leaves the statuses, the revisions and the published events as the first ask left them, and counts
  one pause on the frame.\<close>

theorem asked_again_after_pause:
  "t_statuses (asked c' at' (suspended (asked c at t))) = t_statuses (asked c at t)
   \<and> t_revisions (asked c' at' (suspended (asked c at t))) = t_revisions (asked c at t)
   \<and> t_published (asked c' at' (suspended (asked c at t))) = t_published (asked c at t)
   \<and> map_option f_pauses (current_frame (asked c' at' (suspended (asked c at t))))
       = map_option (\<lambda>f. Suc (f_pauses f)) (current_frame t)"
  by (auto simp: asked_def suspended_def tracker_ask_def split: option.split)

text \<open>A checkpoint that was cleared is not taken back by anything that happens elsewhere: the only
  events that move it are those of its own step, and its test being started again.\<close>

theorem cleared_is_kept:
  "tracker_run t \<Longrightarrow> tracker_step t u \<Longrightarrow> i < length (t_statuses t) \<Longrightarrow> cs_state (t_statuses t ! i) = Cleared \<Longrightarrow>
     cs_state (t_statuses u ! i) = Cleared
     \<or> (\<exists>f. (current_frame t = Some f \<or> current_frame u = Some f) \<and> f_checkpoint f = Some i)
     \<or> (\<exists>cause. u = test_started (ce_test_id (pc_entry (t_planned t ! i))) cause t)"
proof -
  assume run: "tracker_run t" and step: "tracker_step t u" and i: "i < length (t_statuses t)"
    and s: "cs_state (t_statuses t ! i) = Cleared"
  from step core_ok_run [OF run] i s show ?thesis
    by (rule cleared_step)
qed

definition demo_cleared :: Tracker where
  "demo_cleared = step_leave False 300 (ended Step_PASSED None False 200
     (answered \<lparr>cause_kind = ''step_received'', cause_sequence = Some 5\<rparr> 80 100 180 demo_asked))"

lemma demo_cleared_run: "tracker_run demo_cleared"
  unfolding demo_cleared_def by (metis demo_asked_run run_step ts_answered ts_ended ts_leave)

theorem cleared_is_kept_witness:
  "cs_state (t_statuses demo_cleared ! 0) = Cleared
   \<and> (let u = job_ended \<lparr>cause_kind = ''job_failed'', cause_sequence = None\<rparr> demo_cleared in
      cs_state (t_statuses u ! 0) = Cleared
      \<or> (\<exists>f. (current_frame demo_cleared = Some f \<or> current_frame u = Some f) \<and> f_checkpoint f = Some 0)
      \<or> (\<exists>cause. u = test_started (ce_test_id (pc_entry (t_planned demo_cleared ! 0))) cause demo_cleared))"
proof -
  have n: "0 < length (t_statuses demo_cleared)" and s: "cs_state (t_statuses demo_cleared ! 0) = Cleared"
    by (simp_all add: demo_cleared_def step_leave_def ended_def tracker_end_def answered_def ask_first_def
        own_step_ended_def tracker_under_def demo_defs)
  show ?thesis
    unfolding Let_def using cleared_is_kept [OF demo_cleared_run ts_job_ended n s] s by blast
qed

end
