(* ===== verification/Text_Codecs.thy ===== *)
theory Text_Codecs
  imports Prelude
begin

text \<open>
  The text codecs of Python's standard library that the program uses: UTF-8 (\<open>str.encode\<close>,
  \<open>bytes.decode\<close>), \<open>base64\<close>, \<open>urllib.parse.quote\<close> and \<open>quote_plus\<close>, \<open>repr\<close> and \<open>json.dumps\<close> of a
  string. A byte is a \<open>nat\<close> below 256 and a code point a \<open>nat\<close>; texts the rest of the development
  handles are \<open>string\<close>, whose characters are the code points up to 255.
\<close>

section \<open>UTF-8\<close>

type_synonym bytes = "nat list"
type_synonym code_points = "nat list"

definition scalar :: "nat \<Rightarrow> bool" where
  "scalar n = (n < 55296 \<or> (57343 < n \<and> n < 1114112))"

definition utf8_char :: "nat \<Rightarrow> bytes" where
  "utf8_char n =
     (if n < 128 then [n]
      else if n < 2048 then [192 + n div 64, 128 + n mod 64]
      else if n < 65536 then [224 + n div 4096, 128 + n div 64 mod 64, 128 + n mod 64]
      else [240 + n div 262144, 128 + n div 4096 mod 64, 128 + n div 64 mod 64, 128 + n mod 64])"

definition utf8_bytes :: "code_points \<Rightarrow> bytes" where
  "utf8_bytes s = concat (map utf8_char s)"

text \<open>\<open>str.encode("utf-8")\<close> refuses a lone surrogate.\<close>

definition utf8_encode :: "code_points \<Rightarrow> bytes option" where
  "utf8_encode s = (if list_all scalar s then Some (utf8_bytes s) else None)"

definition cont :: "nat \<Rightarrow> bool" where
  "cont b = (128 \<le> b \<and> b < 192)"

fun utf8_next :: "bytes \<Rightarrow> (nat \<times> bytes) option" where
  "utf8_next [] = None"
| "utf8_next (b # r) =
     (if b < 128 then Some (b, r)
      else if 194 \<le> b \<and> b < 224 then
        (case r of c # r1 \<Rightarrow> if cont c then Some ((b - 192) * 64 + (c - 128), r1) else None | [] \<Rightarrow> None)
      else if 224 \<le> b \<and> b < 240 then
        (case r of
           c # d # r1 \<Rightarrow>
             if cont c \<and> cont d \<and> (b = 224 \<longrightarrow> 160 \<le> c) \<and> (b = 237 \<longrightarrow> c < 160)
             then Some ((b - 224) * 4096 + (c - 128) * 64 + (d - 128), r1) else None
         | _ \<Rightarrow> None)
      else if 240 \<le> b \<and> b < 245 then
        (case r of
           c # d # e # r1 \<Rightarrow>
             if cont c \<and> cont d \<and> cont e \<and> (b = 240 \<longrightarrow> 144 \<le> c) \<and> (b = 244 \<longrightarrow> c < 144)
             then Some ((b - 240) * 262144 + (c - 128) * 4096 + (d - 128) * 64 + (e - 128), r1) else None
         | _ \<Rightarrow> None)
      else None)"

lemma utf8_next_shorter: "utf8_next bs = Some (n, r) \<Longrightarrow> length r < length bs"
  by (cases bs) (auto split: if_splits list.splits)

function utf8_decode :: "bytes \<Rightarrow> code_points option" where
  "utf8_decode bs =
     (if bs = [] then Some []
      else (case utf8_next bs of None \<Rightarrow> None | Some (n, r) \<Rightarrow> map_option ((#) n) (utf8_decode r)))"
  by auto
termination
  by (relation "measure length") (auto dest: utf8_next_shorter)

declare utf8_decode.simps [simp del]

lemma three_parts: "(n :: nat) div 4096 * 4096 + n div 64 mod 64 * 64 + n mod 64 = n"
proof -
  have "n div 64 = n div 4096 * 64 + n div 64 mod 64"
    using div_mult_mod_eq [of "n div 64" 64] by (simp add: div_mult2_eq [symmetric])
  then show ?thesis
    using div_mult_mod_eq [of n 64] by linarith
qed

lemma four_parts: "(n :: nat) div 262144 * 262144 + n div 4096 mod 64 * 4096 + n div 64 mod 64 * 64 + n mod 64 = n"
proof -
  have "n div 4096 = n div 262144 * 64 + n div 4096 mod 64"
    using div_mult_mod_eq [of "n div 4096" 64] by (simp add: div_mult2_eq [symmetric])
  then show ?thesis
    using three_parts [of n] by linarith
qed

lemma utf8_next_three:
  assumes "2048 \<le> n" "n < 65536" "scalar n"
  shows "utf8_next ([224 + n div 4096, 128 + n div 64 mod 64, 128 + n mod 64] @ r) = Some (n, r)"
proof -
  have b: "n div 4096 < 16" using assms by (simp add: less_mult_imp_div_less)
  have parts: "n div 64 mod 64 < 64" "n mod 64 < 64" by simp_all
  have low: "n div 4096 = 0 \<longrightarrow> 32 \<le> n div 64 mod 64"
    using assms(1) three_parts [of n] parts by linarith
  have sur: "n div 4096 = 13 \<longrightarrow> n div 64 mod 64 < 32"
    using assms(3) three_parts [of n] parts unfolding scalar_def by linarith
  show ?thesis
    using b low sur three_parts [of n] by (simp add: cont_def)
qed

lemma utf8_next_four:
  assumes "65536 \<le> n" "scalar n"
  shows "utf8_next ([240 + n div 262144, 128 + n div 4096 mod 64, 128 + n div 64 mod 64, 128 + n mod 64] @ r)
    = Some (n, r)"
proof -
  have n: "n < 1114112" using assms by (auto simp: scalar_def)
  then have b: "n div 262144 < 5" by (simp add: less_mult_imp_div_less)
  have parts: "n div 4096 mod 64 < 64" "n div 64 mod 64 < 64" "n mod 64 < 64" by simp_all
  have low: "n div 262144 = 0 \<longrightarrow> 16 \<le> n div 4096 mod 64"
    using assms(1) four_parts [of n] parts by linarith
  have top: "n div 262144 = 4 \<longrightarrow> n div 4096 mod 64 < 16"
    using n four_parts [of n] parts by linarith
  show ?thesis
    using b low top four_parts [of n] by (simp add: cont_def)
qed

lemma utf8_next_char: "scalar n \<Longrightarrow> utf8_next (utf8_char n @ r) = Some (n, r)"
proof -
  assume s: "scalar n"
  have two: "utf8_next ([192 + n div 64, 128 + n mod 64] @ r) = Some (n, r)" if "128 \<le> n" "n < 2048"
  proof -
    have "2 \<le> n div 64" "n div 64 < 32" using that by auto
    then show ?thesis by (simp add: cont_def)
  qed
  show ?thesis
    unfolding utf8_char_def
    using two utf8_next_three [of n r] utf8_next_four [of n r] s
    by (cases "n < 128") (auto simp del: append_Cons simp: append_Cons [of n "[]"])
qed

lemma utf8_char_not_Nil: "utf8_char n \<noteq> []"
  by (simp add: utf8_char_def)

lemma utf8_decode_bytes: "list_all scalar s \<Longrightarrow> utf8_decode (utf8_bytes s) = Some s"
proof (induction s)
  case Nil
  show ?case by (simp add: utf8_bytes_def utf8_decode.simps)
next
  case (Cons n s)
  then have n: "scalar n" and s: "list_all scalar s" by simp_all
  have b: "utf8_bytes (n # s) = utf8_char n @ utf8_bytes s" by (simp add: utf8_bytes_def)
  show ?case
    using Cons.IH [OF s] utf8_next_char [OF n] unfolding b
    by (subst utf8_decode.simps) (simp add: utf8_char_not_Nil)
qed

lemma utf8_char_bytes: "scalar n \<Longrightarrow> b \<in> set (utf8_char n) \<Longrightarrow> b < 256"
  unfolding utf8_char_def scalar_def
  by (auto simp: less_mult_imp_div_less split: if_splits)

lemma utf8_bytes_bound: "list_all scalar s \<Longrightarrow> b \<in> set (utf8_bytes s) \<Longrightarrow> b < 256"
  by (auto simp: utf8_bytes_def list_all_iff dest: utf8_char_bytes)

section \<open>Base64\<close>

definition b64_char :: "nat \<Rightarrow> nat" where
  "b64_char n = (if n < 26 then 65 + n else if n < 52 then 71 + n else if n < 62 then n - 4
                 else if n = 62 then 43 else 47)"

fun b64_digits :: "bytes \<Rightarrow> code_points" where
  "b64_digits [] = []"
| "b64_digits [a] = [b64_char (a div 4), b64_char (a mod 4 * 16)]"
| "b64_digits [a, b] = [b64_char (a div 4), b64_char (a mod 4 * 16 + b div 16), b64_char (b mod 16 * 4)]"
| "b64_digits (a # b # c # r) =
     [b64_char (a div 4), b64_char (a mod 4 * 16 + b div 16), b64_char (b mod 16 * 4 + c div 64), b64_char (c mod 64)]
     @ b64_digits r"

definition b64_padding :: "nat \<Rightarrow> nat" where
  "b64_padding len = (4 - len mod 4) mod 4"

definition b64_encode :: "bytes \<Rightarrow> code_points" where
  "b64_encode bs = b64_digits bs @ replicate (b64_padding (length (b64_digits bs))) 61"

definition b64_value :: "nat \<Rightarrow> nat option" where
  "b64_value c =
     (if 65 \<le> c \<and> c \<le> 90 then Some (c - 65) else if 97 \<le> c \<and> c \<le> 122 then Some (c - 71)
      else if 48 \<le> c \<and> c \<le> 57 then Some (c + 4) else if c = 43 then Some 62 else if c = 47 then Some 63
      else None)"

text \<open>
  \<open>binascii.a2b_base64\<close> outside its strict mode: characters outside the alphabet are passed over, and a
  complete padding ends the data. Arguments: the text, the position in the group of four, the bits left
  over and the paddings seen.
\<close>

fun a2b_base64 :: "code_points \<Rightarrow> nat \<Rightarrow> nat \<Rightarrow> nat \<Rightarrow> bytes option" where
  "a2b_base64 [] q l p = (if q = 0 then Some [] else None)"
| "a2b_base64 (c # s) q l p =
     (if c = 61 then
        (if 2 \<le> q \<and> 4 \<le> q + Suc p then Some [] else a2b_base64 s q l (if 2 \<le> q then Suc p else p))
      else (case b64_value c of
          None \<Rightarrow> a2b_base64 s q l p
        | Some v \<Rightarrow>
            if q = 0 then a2b_base64 s 1 v 0
            else if q = 1 then map_option ((#) (l * 4 + v div 16)) (a2b_base64 s 2 (v mod 16) 0)
            else if q = 2 then map_option ((#) (l * 16 + v div 4)) (a2b_base64 s 3 (v mod 4) 0)
            else map_option ((#) (l * 64 + v)) (a2b_base64 s 0 0 0)))"

definition b64_decode :: "code_points \<Rightarrow> bytes option" where
  "b64_decode s = (if list_all (\<lambda>c. c < 128) s then a2b_base64 s 0 0 0 else None)"

definition to_urlsafe :: "code_points \<Rightarrow> code_points" where
  "to_urlsafe = map (\<lambda>c. if c = 43 then 45 else if c = 47 then 95 else c)"

definition of_urlsafe :: "code_points \<Rightarrow> code_points" where
  "of_urlsafe = map (\<lambda>c. if c = 45 then 43 else if c = 95 then 47 else c)"

lemma b64_value_char: "n < 64 \<Longrightarrow> b64_value (b64_char n) = Some n"
  by (auto simp: b64_char_def b64_value_def)

lemma b64_char_range: "n < 64 \<Longrightarrow> b64_char n \<noteq> 61 \<and> b64_char n \<noteq> 45 \<and> b64_char n \<noteq> 95 \<and> b64_char n < 128"
  by (auto simp: b64_char_def)

lemma b64_step:
  "n < 64 \<Longrightarrow> a2b_base64 (b64_char n # s) q l p =
     (if q = 0 then a2b_base64 s 1 n 0
      else if q = 1 then map_option ((#) (l * 4 + n div 16)) (a2b_base64 s 2 (n mod 16) 0)
      else if q = 2 then map_option ((#) (l * 16 + n div 4)) (a2b_base64 s 3 (n mod 4) 0)
      else map_option ((#) (l * 64 + n)) (a2b_base64 s 0 0 0))"
  by (simp add: b64_value_char b64_char_range)

lemma byte_splits:
  fixes a b c :: nat
  assumes "a < 256" "b < 256" "c < 256"
  shows "a div 4 < 64" "a mod 4 * 16 < 64" "a mod 4 * 16 + b div 16 < 64" "b mod 16 * 4 < 64"
    "b mod 16 * 4 + c div 64 < 64" "c mod 64 < 64"
    "(a mod 4 * 16 + b div 16) div 16 = a mod 4" "(a mod 4 * 16 + b div 16) mod 16 = b div 16"
    "(b mod 16 * 4 + c div 64) div 4 = b mod 16" "(b mod 16 * 4 + c div 64) mod 4 = c div 64"
    "a mod 4 * 16 div 16 = a mod 4" "b mod 16 * 4 div 4 = b mod 16"
  using assms by auto

lemma byte_joins: "(a :: nat) div 4 * 4 + a mod 4 = a" "(b :: nat) div 16 * 16 + b mod 16 = b"
  "(c :: nat) div 64 * 64 + c mod 64 = c"
  by simp_all

lemma b64_digits_set: "(\<forall>b\<in>set bs. b < 256) \<Longrightarrow> d \<in> set (b64_digits bs) \<Longrightarrow> \<exists>n<64. d = b64_char n"
  by (induction bs rule: b64_digits.induct) (auto intro: byte_splits)

lemma b64_pad:
  "a2b_base64 (61 # s) q l p =
     (if 2 \<le> q \<and> 4 \<le> q + Suc p then Some [] else a2b_base64 s q l (if 2 \<le> q then Suc p else p))"
  by simp

declare a2b_base64.simps(2) [simp del]

lemma a2b_digits:
  "(\<forall>b\<in>set bs. b < 256) \<Longrightarrow>
   a2b_base64 (b64_digits bs @ replicate (b64_padding (length (b64_digits bs))) 61) 0 l p = Some bs"
proof (induction bs arbitrary: l p rule: b64_digits.induct)
  case 1
  then show ?case by (simp add: b64_padding_def)
next
  case (2 a)
  then have "a < 256" by simp
  then show ?case
    using byte_splits [of a 0 0] by (simp add: b64_step b64_pad b64_padding_def numeral_2_eq_2 byte_joins)
next
  case (3 a b)
  then have "a < 256" "b < 256" by simp_all
  then show ?case
    using byte_splits [of a b 0] by (simp add: b64_step b64_pad b64_padding_def byte_joins)
next
  case (4 a b c r)
  then have abc: "a < 256" "b < 256" "c < 256" and r: "\<forall>b\<in>set r. b < 256" by simp_all
  have len: "b64_padding (length (b64_digits (a # b # c # r))) = b64_padding (length (b64_digits r))"
    by (simp add: b64_padding_def)
  show ?case
    using 4(1) [OF r, of 0 0] byte_splits [OF abc]
    unfolding len by (simp add: b64_step byte_joins)
qed

lemma b64_round: "\<forall>b\<in>set bs. b < 256 \<Longrightarrow> b64_decode (b64_encode bs) = Some bs"
proof -
  assume b: "\<forall>b\<in>set bs. b < 256"
  have "list_all (\<lambda>c. c < 128) (b64_encode bs)"
    using b64_digits_set [OF b] b64_char_range by (auto simp: b64_encode_def list_all_iff)
  then show ?thesis
    using a2b_digits [OF b] by (simp add: b64_decode_def b64_encode_def)
qed

lemma urlsafe_round: "\<forall>b\<in>set bs. b < 256 \<Longrightarrow> of_urlsafe (to_urlsafe (b64_encode bs)) = b64_encode bs"
proof -
  assume b: "\<forall>b\<in>set bs. b < 256"
  have "d \<noteq> 45 \<and> d \<noteq> 95" if "d \<in> set (b64_digits bs)" for d
    using b64_digits_set [OF b that] b64_char_range by auto
  then have "c \<noteq> 45 \<and> c \<noteq> 95" if "c \<in> set (b64_encode bs)" for c
    using that by (auto simp: b64_encode_def)
  then show ?thesis
    by (auto simp: of_urlsafe_def to_urlsafe_def intro!: map_idI)
qed

section \<open>Spellings of a text\<close>

definition hex_digit :: "char list \<Rightarrow> nat \<Rightarrow> char" where
  "hex_digit digits n = digits ! n"

definition hex2 :: "char list \<Rightarrow> nat \<Rightarrow> string" where
  "hex2 digits n = [hex_digit digits (n div 16), hex_digit digits (n mod 16)]"

definition lower_hex :: "char list" where
  "lower_hex = ''0123456789abcdef''"

definition upper_hex :: "char list" where
  "upper_hex = ''0123456789ABCDEF''"

definition latin_bytes :: "string \<Rightarrow> bytes" where
  "latin_bytes s = utf8_bytes (map of_char s)"

definition code_text :: "code_points \<Rightarrow> string" where
  "code_text s = map char_of s"

definition url_unreserved :: "nat \<Rightarrow> bool" where
  "url_unreserved b = ((65 \<le> b \<and> b \<le> 90) \<or> (97 \<le> b \<and> b \<le> 122) \<or> (48 \<le> b \<and> b \<le> 57)
                       \<or> b \<in> {95, 46, 45, 126})"

definition url_quote :: "nat list \<Rightarrow> string \<Rightarrow> string" where
  "url_quote safe s =
     concat (map (\<lambda>b. if url_unreserved b \<or> b \<in> set safe then [char_of b] else CHR ''%'' # hex2 upper_hex b) (latin_bytes s))"

definition url_quote_plus :: "string \<Rightarrow> string" where
  "url_quote_plus s = map (\<lambda>c. if c = CHR '' '' then CHR ''+'' else c) (url_quote [32] s)"

text \<open>\<open>repr\<close> of a string prefers single quotes, and double ones when the text has only single ones.\<close>

definition repr_quote :: "string \<Rightarrow> char" where
  "repr_quote s = (if CHR 0x27 \<in> set s \<and> CHR 0x22 \<notin> set s then CHR 0x22 else CHR 0x27)"

definition repr_char :: "char \<Rightarrow> char \<Rightarrow> string" where
  "repr_char q c =
     (let n = of_char c :: nat
      in if c = q \<or> n = 92 then [CHR 0x5C, c]
         else if n = 9 then [CHR 0x5C, CHR ''t''] else if n = 10 then [CHR 0x5C, CHR ''n'']
         else if n = 13 then [CHR 0x5C, CHR ''r'']
         else if n < 32 \<or> (127 \<le> n \<and> n < 161) \<or> n = 173 then [CHR 0x5C, CHR ''x''] @ hex2 lower_hex n
         else [c])"

definition repr_body :: "string \<Rightarrow> string" where
  "repr_body s = concat (map (repr_char (repr_quote s)) s)"

definition json_char :: "char \<Rightarrow> string" where
  "json_char c =
     (let n = of_char c :: nat
      in if n = 34 \<or> n = 92 then [CHR 0x5C, c]
         else if n = 8 then [CHR 0x5C, CHR ''b''] else if n = 9 then [CHR 0x5C, CHR ''t'']
         else if n = 10 then [CHR 0x5C, CHR ''n''] else if n = 12 then [CHR 0x5C, CHR ''f'']
         else if n = 13 then [CHR 0x5C, CHR ''r'']
         else if n < 32 \<or> 127 \<le> n then [CHR 0x5C, CHR ''u'', CHR ''0'', CHR ''0''] @ hex2 lower_hex n
         else [c])"

definition json_body :: "string \<Rightarrow> string" where
  "json_body s = concat (map json_char s)"

end
