(* ===== verification/Values.thy ===== *)
theory Values
  imports Text_Codecs
begin

text \<open>
  The values a run handles, and the credential handles among them (\<^verbatim>\<open>security/credentials.py\<close>).

  \<open>pyval\<close> are the Python values that test documents, JSON bodies and step outputs are made of, floating
  point numbers left out; a dictionary keeps its insertion order and has string keys. \<open>Credential\<close> is
  the handle class; \<open>py_str\<close> and \<open>py_repr\<close> are \<open>str(\<dots>)\<close> and \<open>repr(\<dots>)\<close>. \<open>REDACTED_VALUE\<close> is the SDK's
  marker, the three stars the documentation of the handles names.
\<close>

record Credential =
  cred_name :: string
  cred_side :: string
  cred_origins :: "string set"
  cred_value :: string

datatype pyval =
    PNone
  | PBool bool
  | PInt int
  | PStr string
  | PList "pyval list"
  | PDict "(string \<times> pyval) list"
  | PCred Credential

definition REDACTED_VALUE :: string where
  "REDACTED_VALUE = ''***''"

lemma pyval_list_smaller [termination_simp]: "v \<in> set vs \<Longrightarrow> size v < Suc (size_list size vs)"
  by (simp add: less_Suc_eq_le size_list_estimation')

lemma pyval_dict_smaller [termination_simp]:
  "(k, v) \<in> set kvs \<Longrightarrow> size v < Suc (size_list (size_prod (\<lambda>_. 0) size) kvs)"
proof -
  assume m: "(k, v) \<in> set kvs"
  have "size v \<le> size_prod (\<lambda>_. 0) size (k, v)" by simp
  then have "size v \<le> size_list (size_prod (\<lambda>_. 0) size) kvs"
    by (rule size_list_estimation' [OF m])
  then show ?thesis by simp
qed

lemma pyval_zip_smaller [termination_simp]:
  "(a, b) \<in> set (zip xs ys) \<Longrightarrow> size a < Suc (size_list size xs)"
  by (auto dest: set_zip_leftD pyval_list_smaller)

lemma pyval_get_smaller [termination_simp]:
  "dict_get d k = Some v \<Longrightarrow> size v < Suc (size_list (\<lambda>x. Suc (size (snd x))) d)"
  by (induction d) (auto split: if_splits)

text \<open>The first item with a value: a loop that returns from inside.\<close>

fun first_some :: "('a \<Rightarrow> 'b option) \<Rightarrow> 'a list \<Rightarrow> 'b option" where
  "first_some f [] = None"
| "first_some f (x # xs) = (case f x of None \<Rightarrow> first_some f xs | Some y \<Rightarrow> Some y)"

lemma first_some_cong [fundef_cong]:
  "xs = ys \<Longrightarrow> (\<And>x. x \<in> set ys \<Longrightarrow> f x = g x) \<Longrightarrow> first_some f xs = first_some g ys"
  by (induction ys arbitrary: xs) (auto split: option.splits)

lemma first_some_None: "first_some f xs = None \<longleftrightarrow> (\<forall>x\<in>set xs. f x = None)"
  by (induction xs) (auto split: option.splits)

lemma first_some_SomeD: "first_some f xs = Some y \<Longrightarrow> \<exists>x\<in>set xs. f x = Some y"
  by (induction xs) (auto split: option.splits)

section \<open>Conversions\<close>

definition truthy :: "pyval \<Rightarrow> bool" where
  "truthy v = (case v of PNone \<Rightarrow> False | PBool b \<Rightarrow> b | PInt n \<Rightarrow> n \<noteq> 0 | PStr s \<Rightarrow> s \<noteq> []
               | PList xs \<Rightarrow> xs \<noteq> [] | PDict d \<Rightarrow> d \<noteq> [] | PCred c \<Rightarrow> True)"

definition str_repr :: "string \<Rightarrow> string" where
  "str_repr s = [repr_quote s] @ repr_body s @ [repr_quote s]"

fun py_repr :: "pyval \<Rightarrow> string" where
  "py_repr PNone = ''None''"
| "py_repr (PBool b) = (if b then ''True'' else ''False'')"
| "py_repr (PInt n) = int_text n"
| "py_repr (PStr s) = str_repr s"
| "py_repr (PList xs) = ''['' @ join_with '', '' (map py_repr xs) @ '']''"
| "py_repr (PDict d) = ''{'' @ join_with '', '' (map (\<lambda>(k, v). str_repr k @ '': '' @ py_repr v) d) @ ''}''"
| "py_repr (PCred c) = ''Credential('' @ cred_name c @ ''='' @ REDACTED_VALUE @ '')''"

definition py_str :: "pyval \<Rightarrow> string" where
  "py_str v = (case v of PStr s \<Rightarrow> s | PCred c \<Rightarrow> REDACTED_VALUE | _ \<Rightarrow> py_repr v)"

text \<open>\<open>==\<close>: a bool is an int, the order of a dictionary's keys does not count, and a handle equals
  handles only.\<close>

definition as_int :: "pyval \<Rightarrow> int option" where
  "as_int v = (case v of PBool b \<Rightarrow> Some (if b then 1 else 0) | PInt n \<Rightarrow> Some n | _ \<Rightarrow> None)"

fun py_eq :: "pyval \<Rightarrow> pyval \<Rightarrow> bool" where
  "py_eq PNone w = (w = PNone)"
| "py_eq (PBool b) w = (as_int w = Some (if b then 1 else 0))"
| "py_eq (PInt n) w = (as_int w = Some n)"
| "py_eq (PStr s) w = (w = PStr s)"
| "py_eq (PList xs) w =
     (case w of PList ys \<Rightarrow> length xs = length ys \<and> list_all (\<lambda>(x, y). py_eq x y) (zip xs ys) | _ \<Rightarrow> False)"
| "py_eq (PDict d) w =
     (case w of
        PDict e \<Rightarrow> length d = length e
          \<and> list_all (\<lambda>(k, v). case dict_get e k of None \<Rightarrow> False | Some u \<Rightarrow> py_eq v u) d
      | _ \<Rightarrow> False)"
| "py_eq (PCred c) w = (w = PCred c)"

section \<open>Handles\<close>

datatype credential_error =
    CredentialMisuseError string string
  | CredentialOriginMismatchError string "string set" string
  | CredentialNotReleasedError string string

definition BINDING_SIDES :: "string list" where
  "BINDING_SIDES = [''engine'', ''sut'']"

definition default_port :: "string \<Rightarrow> nat option" where
  "default_port scheme = (if scheme = ''http'' then Some 80 else if scheme = ''https'' then Some 443 else None)"

definition lower_char :: "char \<Rightarrow> char" where
  "lower_char c = (let n = of_char c :: nat
     in if (65 \<le> n \<and> n \<le> 90) \<or> (192 \<le> n \<and> n \<le> 222 \<and> n \<noteq> 215) then char_of (n + 32) else c)"

definition lower :: "string \<Rightarrow> string" where
  "lower = map lower_char"

definition rstrip_char :: "char \<Rightarrow> string \<Rightarrow> string" where
  "rstrip_char c s = rev (dropWhile (\<lambda>d. d = c) (rev s))"

text \<open>
  \<open>parse\<close> is the HTTP client's URL parser, which answers scheme, host and port, or nothing for a text it
  refuses. A port of 0 counts as none, as in \<open>parsed.port or \<dots>\<close>.
\<close>

definition origin_of :: "(string \<Rightarrow> (string \<times> string \<times> nat option) option) \<Rightarrow> string \<Rightarrow> string" where
  "origin_of parse url =
     (case parse (strip url) of
        None \<Rightarrow> []
      | Some (scheme0, host0, port) \<Rightarrow>
          (let scheme = lower scheme0; host = rstrip_char (CHR ''.'') (lower host0)
           in case default_port scheme of
                None \<Rightarrow> []
              | Some p \<Rightarrow>
                  if host = [] then []
                  else scheme @ ''://'' @ host @ '':''
                       @ nat_text (case port of None \<Rightarrow> p | Some q \<Rightarrow> if q = 0 then p else q)))"

definition new_credential :: "string \<Rightarrow> string \<Rightarrow> string \<Rightarrow> string list \<Rightarrow> Credential" where
  "new_credential val name side origins =
     \<lparr>cred_name = name, cred_side = side, cred_origins = set (filter (\<lambda>u. u \<noteq> []) origins), cred_value = val\<rparr>"

definition reveal_for ::
  "(string \<Rightarrow> (string \<times> string \<times> nat option) option) \<Rightarrow> Credential \<Rightarrow> string \<Rightarrow> string list \<Rightarrow> credential_error + string" where
  "reveal_for parse c url released =
     (if cred_side c \<in> set BINDING_SIDES \<and> cred_side c \<notin> set released
      then Inl (CredentialNotReleasedError (cred_name c) (cred_side c))
      else (let target = origin_of parse url
            in if target = [] \<or> target \<notin> cred_origins c
               then Inl (CredentialOriginMismatchError (cred_name c) (cred_origins c) (if target = [] then url else target))
               else Inr (cred_value c)))"

definition reveal ::
  "(string \<Rightarrow> (string \<times> string \<times> nat option) option) \<Rightarrow> pyval \<Rightarrow> string \<Rightarrow> string list \<Rightarrow> credential_error + pyval" where
  "reveal parse v url released =
     (case v of PCred c \<Rightarrow> (case reveal_for parse c url released of Inl e \<Rightarrow> Inl e | Inr s \<Rightarrow> Inr (PStr s)) | _ \<Rightarrow> Inr v)"

definition issued_credential ::
  "(string \<Rightarrow> (string \<times> string \<times> nat option) option) \<Rightarrow> pyval \<Rightarrow> string \<Rightarrow> string \<Rightarrow> Credential option" where
  "issued_credential parse v name url =
     (case v of
        PNone \<Rightarrow> None
      | PCred c \<Rightarrow> Some c
      | _ \<Rightarrow> if v = PStr [] then None else Some (new_credential (py_str v) name ''issued'' [origin_of parse url]))"

fun find_credential :: "pyval \<Rightarrow> Credential option" where
  "find_credential (PCred c) = Some c"
| "find_credential (PDict d) = first_some (\<lambda>(k, v). find_credential v) d"
| "find_credential (PList xs) = first_some find_credential xs"
| "find_credential _ = None"

text \<open>\<open>holds_credential\<close> and \<open>restore_credentials\<close> on plain documents: a model is its dictionary of fields.\<close>

fun holds_credential :: "pyval \<Rightarrow> bool" where
  "holds_credential (PCred c) = True"
| "holds_credential (PDict d) = list_ex (\<lambda>(k, v). holds_credential v) d"
| "holds_credential (PList xs) = list_ex holds_credential xs"
| "holds_credential _ = False"

text \<open>What a dump in JSON mode makes of a value: every handle becomes its marker.\<close>

fun dump :: "pyval \<Rightarrow> pyval" where
  "dump (PCred c) = PStr REDACTED_VALUE"
| "dump (PDict d) = PDict (map (\<lambda>(k, v). (k, dump v)) d)"
| "dump (PList xs) = PList (map dump xs)"
| "dump v = v"

fun restore_credentials :: "pyval \<Rightarrow> pyval \<Rightarrow> pyval" where
  "restore_credentials (PCred c) dumped = PCred c"
| "restore_credentials (PDict d) dumped =
     (case dumped of
        PDict e \<Rightarrow> PDict (map (\<lambda>(k, item). (k, case dict_get d k of None \<Rightarrow> item | Some v \<Rightarrow> restore_credentials v item)) e)
      | _ \<Rightarrow> dumped)"
| "restore_credentials (PList xs) dumped =
     (case dumped of
        PList ys \<Rightarrow> PList (map (\<lambda>(a, b). restore_credentials a b) (zip xs ys))
      | _ \<Rightarrow> dumped)"
| "restore_credentials v dumped = dumped"

section \<open>What handles give away\<close>

text \<open>\<open>blind v\<close> is \<open>v\<close> with the secret taken out of every handle: what is computed from \<open>blind v\<close> does
  not depend on a secret.\<close>

fun blind :: "pyval \<Rightarrow> pyval" where
  "blind (PCred c) = PCred (c\<lparr>cred_value := []\<rparr>)"
| "blind (PDict d) = PDict (map (\<lambda>(k, v). (k, blind v)) d)"
| "blind (PList xs) = PList (map blind xs)"
| "blind v = v"

fun wf_val :: "pyval \<Rightarrow> bool" where
  "wf_val (PDict d) = (dict_wf d \<and> list_all (\<lambda>(k, v). wf_val v) d)"
| "wf_val (PList xs) = list_all wf_val xs"
| "wf_val v = True"

lemma py_repr_blind: "py_repr (blind v) = py_repr v"
proof (induction v)
  case (PList xs)
  then have "map py_repr (map blind xs) = map py_repr xs" by simp
  then show ?case by (simp del: map_map)
next
  case (PDict d)
  then have "map (\<lambda>(k, v). str_repr k @ '': '' @ py_repr v) (map (\<lambda>(k, v). (k, blind v)) d)
      = map (\<lambda>(k, v). str_repr k @ '': '' @ py_repr v) d"
    by fastforce
  then show ?case by (simp del: map_map)
qed simp_all

lemma py_str_blind: "py_str (blind v) = py_str v"
proof -
  have "py_repr (blind v) = py_repr v" by (rule py_repr_blind)
  then show ?thesis by (cases v) (simp_all add: py_str_def)
qed

lemma dump_blind: "dump (blind v) = dump v"
  by (induction v) auto

text \<open>No conversion of a value to text or to JSON data depends on the secret of a handle in it: \<open>str\<close>,
  \<open>repr\<close> and the JSON dump give the same result whatever the secrets are, at any depth.\<close>

theorem text_ignores_secrets:
  assumes "blind v = blind w"
  shows "py_str v = py_str w \<and> py_repr v = py_repr w \<and> dump v = dump w"
  using assms by (metis py_str_blind py_repr_blind dump_blind)

definition demo_handle :: "string \<Rightarrow> Credential" where
  "demo_handle s = new_credential s ''infrastructure.engine.connector.api_key'' ''engine'' [''https://c.example:443'']"

theorem text_ignores_secrets_witness:
  "py_str (PList [PCred (demo_handle ''key-1'')]) = py_str (PList [PCred (demo_handle ''key-2'')])"
  using text_ignores_secrets [of "PList [PCred (demo_handle ''key-1'')]" "PList [PCred (demo_handle ''key-2'')]"]
  by (simp add: demo_handle_def new_credential_def)

lemma find_credential_dump: "find_credential (dump v) = None"
  by (induction v) (auto simp: first_some_None)

lemma find_holds: "find_credential v = None \<longleftrightarrow> \<not> holds_credential v"
  by (induction v) (auto simp: first_some_None list_ex_iff)

lemma dict_get_map_value: "dict_get (map (\<lambda>(k, v). (k, f v)) d) k = map_option f (dict_get d k)"
  by (induction d) auto

lemma dict_get_member: "dict_wf d \<Longrightarrow> (k, v) \<in> set d \<Longrightarrow> dict_get d k = Some v"
  by (induction d) (auto simp: dict_wf_def rev_image_eqI)

lemma restore_dump: "wf_val v \<Longrightarrow> restore_credentials v (dump v) = v"
proof (induction v)
  case (PList xs)
  have "map (\<lambda>(a, b). restore_credentials a b) (zip xs (map dump xs)) = xs"
    using PList by (intro nth_equalityI) (auto simp: list_all_iff)
  then show ?case by simp
next
  case (PDict d)
  have "(case dict_get d k of None \<Rightarrow> dump v | Some u \<Rightarrow> restore_credentials u (dump v)) = v"
    if "(k, v) \<in> set d" for k v
    using PDict that dict_get_member [of d k v] by (fastforce simp: list_all_iff)
  then show ?case
    by (auto intro!: map_idI)
qed simp_all

text \<open>C23. A step output keeps its handles when it becomes plain data: dumping a value leaves no handle in it,
  and putting the handles back gives the value that was dumped, for every document whose mappings have
  distinct keys.\<close>

theorem credentials_survive_dump:
  assumes "wf_val v"
  shows "restore_credentials v (dump v) = v \<and> find_credential (dump v) = None"
  using assms by (simp add: restore_dump find_credential_dump)

theorem credentials_survive_dump_witness:
  "restore_credentials (PDict [(''edr_token'', PCred (demo_handle ''s'')), (''n'', PInt 3)])
     (PDict [(''edr_token'', PStr ''***''), (''n'', PInt 3)])
   = PDict [(''edr_token'', PCred (demo_handle ''s'')), (''n'', PInt 3)]"
  using credentials_survive_dump [of "PDict [(''edr_token'', PCred (demo_handle ''s'')), (''n'', PInt 3)]"]
  by (simp add: dict_wf_def REDACTED_VALUE_def)

lemma reveal_for_iff:
  "reveal_for parse c url released = Inr s \<longleftrightarrow>
     s = cred_value c \<and> origin_of parse url \<in> cred_origins c - {[]}
     \<and> (cred_side c \<in> set BINDING_SIDES \<longrightarrow> cred_side c \<in> set released)"
  by (auto simp: reveal_for_def Let_def)

text \<open>C24. A token the run was issued opens for the origin it was issued for and for no other, whatever sides
  the run releases: the handle answers the token exactly for the URLs with the scheme, host and port
  of the URL it came from, and never when that URL was not an absolute http or https one.\<close>

theorem issued_only_for_own_origin:
  assumes "token \<noteq> []"
  shows "\<exists>c. issued_credential parse (PStr token) name url0 = Some c
     \<and> (\<forall>url released s. reveal_for parse c url released = Inr s \<longleftrightarrow>
          s = token \<and> origin_of parse url = origin_of parse url0 \<and> origin_of parse url0 \<noteq> [])"
  using assms
  by (auto simp: issued_credential_def new_credential_def py_str_def reveal_for_iff BINDING_SIDES_def)

definition demo_parse :: "string \<Rightarrow> (string \<times> string \<times> nat option) option" where
  "demo_parse s = (if s = ''https://Data.example./a'' then Some (''https'', ''Data.example.'', None)
     else if s = ''https://data.example:443/b'' then Some (''https'', ''data.example'', Some 443)
     else if s = ''https://evil.example/'' then Some (''https'', ''evil.example'', None) else None)"

theorem issued_only_for_own_origin_witness:
  "\<exists>c. issued_credential demo_parse (PStr ''tok'') ''edr_token'' ''https://Data.example./a'' = Some c
     \<and> reveal_for demo_parse c ''https://data.example:443/b'' [] = Inr ''tok''
     \<and> reveal_for demo_parse c ''https://evil.example/'' [] \<noteq> Inr ''tok''"
proof -
  have a: "origin_of demo_parse ''https://Data.example./a'' = ''https://data.example:443''"
    by code_simp
  have b: "origin_of demo_parse ''https://data.example:443/b'' = ''https://data.example:443''"
    by code_simp
  have c: "origin_of demo_parse ''https://evil.example/'' = ''https://evil.example:443''"
    by code_simp
  show ?thesis
    using issued_only_for_own_origin [of "''tok''" demo_parse "''edr_token''" "''https://Data.example./a''"] a b c
    by auto
qed

end
