(* ===== verification/Results.thy ===== *)
theory Results
  imports Checkpoint_Tracker Values
begin

text \<open>
  What a run reports: the result models of \<^verbatim>\<open>models/runtime/results.py\<close>, the checks and steps they
  refer to (\<^verbatim>\<open>models/authoring/definitions.py\<close>), the results of steps and tests that did not run
  (\<^verbatim>\<open>_not_run.py\<close>, \<^verbatim>\<open>_trace_formatter.py\<close>), the tallies (\<open>AssertionEngine.build_summary\<close>,
  \<^verbatim>\<open>_declared.py\<close>) and the tests an operator may leave out (\<^verbatim>\<open>_skip.py\<close>).

  Instants and durations count microseconds, the resolution of the code's clocks. Captured requests and
  responses are plain values.
\<close>

section \<open>Authored steps\<close>

record Assertion =
  as_uses :: string
  as_name :: "string option"
  as_with :: "(string, pyval) pydict option"
  as_cac :: "string list option"

text \<open>A \<open>returns:\<close> entry: its type and whether the author hides or shows it.\<close>

record ReturnFieldDefinition =
  rf_type :: string
  rf_hidden :: "bool option"

text \<open>The \<open>checkpoint:\<close> key of a step: absent, a truth value, or what the test says about the checkpoint.\<close>

record CheckpointMark =
  cm_label :: "string option"
  cm_description :: "string option"
  cm_direction :: "Direction option"
  cm_via :: "Via option"

datatype checkpoint_value = Unmarked | Switched bool | Marked CheckpointMark

text \<open>
  A step as the parser hands it over. The \<open>with:\<close> block of a flow step holds its nested steps under
  some of its keys, as written; they are the list \<open>sd_nested\<close> of those keys with what stands under them:
  a step, or nothing for an item that is no step.
\<close>

datatype StepDefinition = StepDefinition
  (sd_id: "string option") (sd_uses: string) (sd_name: "string option")
  (sd_with: "(string \<times> pyval) list option") (sd_nested: "(string \<times> StepDefinition option list) list")
  (sd_returns: "(string \<times> ReturnFieldDefinition) list option")
  (sd_assertions: "Assertion list option") (sd_if: "string option") (sd_cac: "string list option")
  (sd_checkpoint: checkpoint_value)

record TestDefinition =
  td_id :: string
  td_cac :: "string list option"
  td_setup :: "StepDefinition list"
  td_execution :: "StepDefinition list"
  td_teardown :: "StepDefinition list"

text \<open>A test of a TCK (\<^verbatim>\<open>authoring/test.py\<close>): its document, its manifest entry and what they are called.\<close>

record Test =
  ts_definition :: TestDefinition
  ts_test_id :: string
  ts_name :: string
  ts_dataspace_version :: string
  ts_skippable :: bool
  ts_on_demand :: bool

section \<open>Results\<close>

definition ENGINE_FAULT_PREFIX :: string where
  "ENGINE_FAULT_PREFIX = ''[engine fault] ''"

record HttpExchange =
  hx_request :: pyval
  hx_response :: "pyval option"
  hx_error :: "string option"
  hx_context :: "string option"
  hx_started_at :: "string option"

record AssertionResult =
  ar_assertion :: Assertion
  ar_passed :: bool
  ar_expected :: pyval
  ar_actual :: pyval
  ar_message :: string
  ar_severity :: AssertionSeverity
  ar_step_path :: "string list"
  ar_step_cac :: "string list"

record StepResult =
  sr_step_name :: string
  sr_step_type :: string
  sr_cac :: "string list"
  sr_phase :: StepPhase
  sr_status :: StepStatus
  sr_started_at :: "int option"
  sr_finished_at :: "int option"
  sr_duration_s :: "int option"
  sr_inputs :: "(string, pyval) pydict option"
  sr_request :: "pyval option"
  sr_response :: "pyval option"
  sr_exchanges :: "HttpExchange list"
  sr_error :: "string option"
  sr_error_code :: "string option"
  sr_error_origin :: "string option"
  sr_error_context :: "(string, pyval) pydict option"
  sr_output :: pyval
  sr_assertions :: "AssertionResult list"
  sr_nested_declared :: nat

record AssertionSummary =
  su_declared :: nat
  su_total :: nat
  su_passed :: nat
  su_failed_hard :: nat
  su_failed_soft :: nat

record TestResult =
  tr_test_id :: string
  tr_test_name :: string
  tr_dataspace_version :: string
  tr_status :: TestStatus
  tr_execution :: "StepResult list"
  tr_started_at :: "int option"
  tr_finished_at :: "int option"
  tr_total_duration_s :: "int option"
  tr_assertion_summary :: AssertionSummary
  tr_error :: "string option"

record TckResult =
  kr_tck_id :: string
  kr_status :: TestStatus
  kr_tests :: "TestResult list"
  kr_started_at :: "int option"
  kr_finished_at :: "int option"

definition verified_nothing :: "AssertionSummary \<Rightarrow> bool" where
  "verified_nothing s = (su_total s = 0)"

definition unevaluated :: "AssertionSummary \<Rightarrow> nat" where
  "unevaluated s = su_declared s - su_total s"

text \<open>Milliseconds, in microseconds here.\<close>

definition duration_ms :: "TckResult \<Rightarrow> int option" where
  "duration_ms r = (case (kr_started_at r, kr_finished_at r) of (Some a, Some b) \<Rightarrow> Some (b - a) | _ \<Rightarrow> None)"

definition steps_passed :: "TckResult \<Rightarrow> nat" where
  "steps_passed r = length [s \<leftarrow> concat (map tr_execution (kr_tests r)). sr_status s = Step_PASSED]"

definition steps_total :: "TckResult \<Rightarrow> nat" where
  "steps_total r = sum_list (map (length \<circ> tr_execution) (kr_tests r))"

text \<open>A \<open>StepResult\<close> with its defaults.\<close>

definition step_result0 :: "string \<Rightarrow> string \<Rightarrow> StepPhase \<Rightarrow> StepStatus \<Rightarrow> StepResult" where
  "step_result0 step_name step_type phase status =
     \<lparr>sr_step_name = step_name, sr_step_type = step_type, sr_cac = [], sr_phase = phase, sr_status = status,
      sr_started_at = None, sr_finished_at = None, sr_duration_s = None, sr_inputs = None, sr_request = None,
      sr_response = None, sr_exchanges = [], sr_error = None, sr_error_code = None, sr_error_origin = None,
      sr_error_context = None, sr_output = PNone, sr_assertions = [], sr_nested_declared = 0\<rparr>"

definition skipped_result :: "string \<Rightarrow> string \<Rightarrow> StepPhase \<Rightarrow> StepResult" where
  "skipped_result step_name step_type phase = step_result0 step_name step_type phase Step_SKIPPED"

definition missing_step_result :: "string \<Rightarrow> string \<Rightarrow> StepPhase \<Rightarrow> StepResult" where
  "missing_step_result step_name step_type phase =
     (step_result0 step_name step_type phase Step_FAILED)
       \<lparr>sr_error := Some (''No implementation found for step type '' @ [CHR 0x27] @ step_type @ [CHR 0x27])\<rparr>"

section \<open>Tallies\<close>

definition has_hard_failure :: "AssertionResult list \<Rightarrow> bool" where
  "has_hard_failure results = list_ex (\<lambda>r. \<not> ar_passed r \<and> ar_severity r = HARD) results"

definition count_check :: "AssertionResult \<Rightarrow> AssertionSummary \<Rightarrow> AssertionSummary" where
  "count_check r s =
     (let s1 = s\<lparr>su_total := su_total s + 1\<rparr>
      in if ar_passed r then s1\<lparr>su_passed := su_passed s1 + 1\<rparr>
         else if ar_severity r = HARD then s1\<lparr>su_failed_hard := su_failed_hard s1 + 1\<rparr>
         else s1\<lparr>su_failed_soft := su_failed_soft s1 + 1\<rparr>)"

definition build_summary :: "StepResult list \<Rightarrow> nat option \<Rightarrow> AssertionSummary" where
  "build_summary step_results declared =
     (let s = fold (\<lambda>sr. fold count_check (sr_assertions sr)) step_results
                \<lparr>su_declared = 0, su_total = 0, su_passed = 0, su_failed_hard = 0, su_failed_soft = 0\<rparr>
      in s\<lparr>su_declared := (case declared of None \<Rightarrow> su_total s | Some n \<Rightarrow> n)\<rparr>)"

definition declared_checks :: "Test \<Rightarrow> StepResult list \<Rightarrow> nat" where
  "declared_checks test results =
     (let ran = map sr_step_type [r \<leftarrow> results. sr_status r \<noteq> Step_SKIPPED];
          d = ts_definition test;
          own = sum_list (map (\<lambda>step. case sd_assertions step of None \<Rightarrow> 0 | Some xs \<Rightarrow> length xs)
                  [step \<leftarrow> td_setup d @ td_execution d @ td_teardown d. sd_uses step \<in> set ran])
      in own + sum_list (map sr_nested_declared results))"

section \<open>Tests that did not run, and the verdict\<close>

definition not_run_result :: "Test \<Rightarrow> TestStatus \<Rightarrow> int \<Rightarrow> TestResult" where
  "not_run_result test status now =
     \<lparr>tr_test_id = td_id (ts_definition test), tr_test_name = ts_name test,
      tr_dataspace_version = ts_dataspace_version test, tr_status = status, tr_execution = [],
      tr_started_at = Some now, tr_finished_at = Some now, tr_total_duration_s = Some 0,
      tr_assertion_summary = \<lparr>su_declared = 0, su_total = 0, su_passed = 0, su_failed_hard = 0, su_failed_soft = 0\<rparr>,
      tr_error = None\<rparr>"

definition make_intentionally_skipped_result :: "Test \<Rightarrow> int \<Rightarrow> TestResult" where
  "make_intentionally_skipped_result test now = not_run_result test Test_SKIPPED now"

definition make_interrupted_result :: "Test \<Rightarrow> int \<Rightarrow> TestResult" where
  "make_interrupted_result test now = not_run_result test Test_CANCELLED now"

definition NON_FAILING_STATUSES :: "TestStatus list" where
  "NON_FAILING_STATUSES = [Test_COMPLETED, Test_SKIPPED]"

definition build_tck_result :: "string \<Rightarrow> TestResult list \<Rightarrow> int \<Rightarrow> int \<Rightarrow> TckResult" where
  "build_tck_result tck_name test_results started_at finished_at =
     \<lparr>kr_tck_id = tck_name,
      kr_status = (if list_all (\<lambda>t. tr_status t \<in> set NON_FAILING_STATUSES) test_results then Test_COMPLETED else Test_FAILED),
      kr_tests = test_results, kr_started_at = Some started_at, kr_finished_at = Some finished_at\<rparr>"

section \<open>Tests the operator leaves out\<close>

datatype skip_error = SkipNotAllowedError "string list" string

text \<open>\<open>[str(entry) for entry in raw]\<close>: a list gives its items, a mapping its keys; anything else that is not
  text cannot be iterated, which the code leaves to Python's \<open>TypeError\<close>, here \<open>None\<close>.\<close>

definition skip_entries :: "pyval \<Rightarrow> string list option" where
  "skip_entries raw =
     (case raw of
        PStr s \<Rightarrow> Some (map strip [part \<leftarrow> split_on (CHR '','') s. strip part \<noteq> []])
      | PList xs \<Rightarrow> Some (map py_str xs)
      | PDict d \<Rightarrow> Some (dict_keys d)
      | _ \<Rightarrow> None)"

definition resolve_skip_ids ::
  "Test list \<Rightarrow> (string, pyval) pydict option \<Rightarrow> (skip_error option + string set)" where
  "resolve_skip_ids tests runtime_vars =
     (let raw = (case runtime_vars of None \<Rightarrow> PNone
                 | Some d \<Rightarrow> (case dict_get d ''skip_tests'' of None \<Rightarrow> PNone | Some v \<Rightarrow> v))
      in if \<not> truthy raw then Inr {}
         else (case skip_entries raw of
             None \<Rightarrow> Inl None
           | Some skip_ids \<Rightarrow>
               (let all_test_ids = map ts_test_id tests;
                    skippable_ids = map ts_test_id (filter ts_skippable tests);
                    unknown = [sid \<leftarrow> skip_ids. sid \<notin> set all_test_ids];
                    not_allowed = [sid \<leftarrow> skip_ids. sid \<notin> set skippable_ids]
                in if unknown \<noteq> [] then Inl (Some (SkipNotAllowedError unknown ''not found in TCK tests list''))
                   else if not_allowed \<noteq> [] then Inl (Some (SkipNotAllowedError not_allowed []))
                   else Inr (set skip_ids))))"

section \<open>What the tallies show\<close>

lemma fold_count_check:
  "fold count_check rs s =
     \<lparr>su_declared = su_declared s, su_total = su_total s + length rs,
      su_passed = su_passed s + length (filter ar_passed rs),
      su_failed_hard = su_failed_hard s + length [r \<leftarrow> rs. \<not> ar_passed r \<and> ar_severity r = HARD],
      su_failed_soft = su_failed_soft s + length [r \<leftarrow> rs. \<not> ar_passed r \<and> ar_severity r \<noteq> HARD]\<rparr>"
  by (induction rs arbitrary: s) (auto simp: count_check_def Let_def)

lemma fold_count_steps:
  "fold (\<lambda>sr. fold count_check (sr_assertions sr)) results s = fold count_check (concat (map sr_assertions results)) s"
  by (induction results arbitrary: s) auto

lemma build_summary_eq:
  "build_summary results declared =
     (let rs = concat (map sr_assertions results)
      in \<lparr>su_declared = (case declared of None \<Rightarrow> length rs | Some n \<Rightarrow> n), su_total = length rs,
          su_passed = length (filter ar_passed rs),
          su_failed_hard = length [r \<leftarrow> rs. \<not> ar_passed r \<and> ar_severity r = HARD],
          su_failed_soft = length [r \<leftarrow> rs. \<not> ar_passed r \<and> ar_severity r \<noteq> HARD]\<rparr>)"
  by (simp add: build_summary_def fold_count_steps fold_count_check Let_def split: option.split)

lemma length_filter_partition:
  "length xs = length (filter P xs) + length [x \<leftarrow> xs. \<not> P x \<and> Q x] + length [x \<leftarrow> xs. \<not> P x \<and> \<not> Q x]"
  by (induction xs) auto

text \<open>The summary of a test counts every check its steps report exactly once: the passed, the hard-failed
  and the soft-failed checks add up to the total, which is the number of checks in the results; and it
  counts a hard failure exactly when some step of the test has one.\<close>

theorem summary_counts_every_check:
  "su_total (build_summary results declared) = sum_list (map (length \<circ> sr_assertions) results)
   \<and> su_total (build_summary results declared) = su_passed (build_summary results declared)
       + su_failed_hard (build_summary results declared) + su_failed_soft (build_summary results declared)
   \<and> (0 < su_failed_hard (build_summary results declared)) = list_ex (\<lambda>r. has_hard_failure (sr_assertions r)) results"
proof -
  let ?rs = "concat (map sr_assertions results)"
  have "0 < length [r \<leftarrow> ?rs. \<not> ar_passed r \<and> ar_severity r = HARD]
      \<longleftrightarrow> list_ex (\<lambda>r. has_hard_failure (sr_assertions r)) results"
    by (auto simp: has_hard_failure_def list_ex_iff filter_empty_conv)
  then show ?thesis
    using length_filter_partition [of ?rs ar_passed "\<lambda>r. ar_severity r = HARD"]
    by (simp add: build_summary_eq Let_def length_concat comp_def)
qed

text \<open>An operator leaves out only tests the TCK marks skippable: whenever the requested tests are
  accepted, each of them names a test of the TCK and some test of that name is marked skippable; and a
  request that names none is always accepted.\<close>

theorem skips_only_skippable:
  assumes "resolve_skip_ids tests runtime_vars = Inr skipped"
  shows "skipped \<subseteq> ts_test_id ` {t \<in> set tests. ts_skippable t}"
  using assms by (auto simp: resolve_skip_ids_def Let_def filter_empty_conv split: if_splits option.splits)

definition demo_test :: "string \<Rightarrow> bool \<Rightarrow> Test" where
  "demo_test i skippable =
     \<lparr>ts_definition = \<lparr>td_id = i, td_cac = None, td_setup = [], td_execution = [], td_teardown = []\<rparr>,
      ts_test_id = i, ts_name = i, ts_dataspace_version = ''saturn'', ts_skippable = skippable, ts_on_demand = False\<rparr>"

theorem skips_only_skippable_witness:
  "resolve_skip_ids [demo_test ''a.yaml'' True, demo_test ''b.yaml'' False] (Some [(''skip_tests'', PStr '' a.yaml,'')])
     = Inr {''a.yaml''}
   \<and> {''a.yaml''} \<subseteq> ts_test_id ` {t \<in> set [demo_test ''a.yaml'' True, demo_test ''b.yaml'' False]. ts_skippable t}"
proof -
  have r: "resolve_skip_ids [demo_test ''a.yaml'' True, demo_test ''b.yaml'' False] (Some [(''skip_tests'', PStr '' a.yaml,'')])
      = Inr {''a.yaml''}"
    by (simp add: resolve_skip_ids_def skip_entries_def demo_test_def truthy_def strip_def lstrip_def rstrip_def is_space_def Let_def)
  show ?thesis
    using skips_only_skippable [OF r] r by blast
qed

end
