(* ===== verification/Masking.thy ===== *)
theory Masking
  imports Values
begin

text \<open>
  The registry of secrets and what it masks: \<^verbatim>\<open>logging/masking.py\<close> and
  \<^verbatim>\<open>logging/_secret_pattern.py\<close>.

  The module's globals are the record \<open>Registry\<close>, the compiled pattern and its stale flag included. A
  regular expression is its syntax tree, and \<open>alts\<close> is the backtracking matcher of \<open>re\<close>: what is left
  of the text after each way to match, in the order the engine tries them. Whether \<open>re.compile\<close>
  accepts a pattern of a given nesting is the argument \<open>compiles\<close>.
\<close>

section \<open>Patterns\<close>

datatype regex = Eps | Lit string | Seq regex regex | Alt "regex list" | Opt regex

fun alts :: "regex \<Rightarrow> string \<Rightarrow> string list" where
  "alts Eps s = [s]"
| "alts (Lit t) s = (if starts_with s t then [drop (length t) s] else [])"
| "alts (Seq a b) s = concat (map (alts b) (alts a s))"
| "alts (Alt rs) s = concat (map (\<lambda>r. alts r s) rs)"
| "alts (Opt r) s = alts r s @ [s]"

text \<open>A trie node: whether a secret ends here (the key \<open>""\<close> of the code's dictionary) and its children.\<close>

datatype trie = Node (is_end: bool) (children: "(char \<times> trie) list")

fun child_update :: "char \<Rightarrow> (trie \<Rightarrow> trie) \<Rightarrow> (char \<times> trie) list \<Rightarrow> (char \<times> trie) list" where
  "child_update c f [] = [(c, f (Node False []))]"
| "child_update c f ((d, t) # cs) = (if d = c then (d, f t) # cs else (d, t) # child_update c f cs)"

primrec trie_insert :: "string \<Rightarrow> trie \<Rightarrow> trie" where
  "trie_insert [] t = Node True (children t)"
| "trie_insert (c # w) t = Node (is_end t) (child_update c (trie_insert w) (children t))"

text \<open>The inner \<open>while\<close> of \<open>_branches\<close>: a run of single children is one literal.\<close>

fun chain :: "char \<Rightarrow> trie \<Rightarrow> string \<times> trie" where
  "chain c (Node False [(d, t)]) = (let (x, u) = chain d t in (c # x, u))"
| "chain c t = ([c], t)"

lemma chain_smaller: "size (snd (chain c t)) \<le> size t"
  by (induction c t rule: chain.induct) (auto split: prod.splits)

definition MAX_NESTING :: nat where
  "MAX_NESTING = 200"

function (sequential) branches :: "trie \<Rightarrow> nat \<Rightarrow> regex option"
  and branch_parts :: "(char \<times> trie) list \<Rightarrow> nat \<Rightarrow> regex list option" where
  "branches (Node e cs) depth =
     (if depth > MAX_NESTING then None
      else (case branch_parts cs depth of
          None \<Rightarrow> None
        | Some parts \<Rightarrow>
            if parts = [] then Some Eps
            else (let body = (if length parts = 1 then hd parts else Alt parts)
                  in Some (if e then Opt body else body))))"
| "branch_parts [] depth = Some []"
| "branch_parts ((c, t) # cs) depth =
     (case branches (snd (chain c t)) (Suc depth) of
        None \<Rightarrow> None
      | Some r \<Rightarrow> map_option ((#) (Seq (Lit (fst (chain c t))) r)) (branch_parts cs depth))"
  by pat_completeness auto
termination
proof (relation "measure (case_sum (\<lambda>(t, _). size t) (\<lambda>(cs, _). size_list (size_prod (\<lambda>_. 0) size) cs))", goal_cases)
  case (3 c t cs depth)
  show ?case using chain_smaller [of c t] by simp
qed auto

datatype pattern = Trie_pattern regex | Alternation "string list"

definition ordered_secrets :: "string list \<Rightarrow> string list" where
  "ordered_secrets secrets = rev (sort_key length (remdups secrets))"

definition pattern_for :: "(regex \<Rightarrow> bool) \<Rightarrow> string list \<Rightarrow> pattern option" where
  "pattern_for compiles secrets =
     (let ordered = ordered_secrets secrets
      in if ordered = [] then None
         else (case branches (fold trie_insert ordered (Node False [])) 0 of
             None \<Rightarrow> Some (Alternation ordered)
           | Some r \<Rightarrow> if compiles r then Some (Trie_pattern r) else Some (Alternation ordered)))"

text \<open>\<open>pattern.match\<close> at the start of a text: what is left of it.\<close>

definition pattern_match :: "pattern \<Rightarrow> string \<Rightarrow> string option" where
  "pattern_match p s =
     (case p of
        Trie_pattern r \<Rightarrow> (case alts r s of [] \<Rightarrow> None | x # _ \<Rightarrow> Some x)
      | Alternation ws \<Rightarrow> first_some (\<lambda>w. if starts_with s w then Some (drop (length w) s) else None) ws)"

text \<open>\<open>pattern.sub(repl, s)\<close> over the matcher \<open>m\<close>.\<close>

function re_sub :: "(string \<Rightarrow> string option) \<Rightarrow> string \<Rightarrow> string \<Rightarrow> string" where
  "re_sub m repl s =
     (case m s of
        Some r \<Rightarrow> if length r < length s then repl @ re_sub m repl r
                  else repl @ (if s = [] then [] else hd s # re_sub m repl (tl s))
      | None \<Rightarrow> if s = [] then [] else hd s # re_sub m repl (tl s))"
  by auto
termination
  by (relation "measure (\<lambda>(m, repl, s). length s)") auto

declare re_sub.simps [simp del]

section \<open>Cut secrets\<close>

definition MIN_CUT_PREFIX :: nat where
  "MIN_CUT_PREFIX = 8"

definition is_decimal :: "char \<Rightarrow> bool" where
  "is_decimal c = (48 \<le> (of_char c :: nat) \<and> (of_char c :: nat) \<le> 57)"

definition cut_at :: "string \<Rightarrow> nat option" where
  "cut_at s =
     (if \<not> starts_with s ''...[truncated '' then None
      else (let r = drop 14 s; ds = takeWhile is_decimal r
            in if ds \<noteq> [] \<and> starts_with (drop (length ds) r) '' chars]'' then Some (14 + length ds + 7) else None))"

fun next_cut :: "string \<Rightarrow> (string \<times> string \<times> string) option" where
  "next_cut [] = None"
| "next_cut (c # s) =
     (case cut_at (c # s) of
        Some n \<Rightarrow> Some ([], take n (c # s), drop n (c # s))
      | None \<Rightarrow> map_option (\<lambda>(b, x, r). (c # b, x, r)) (next_cut s))"

definition cut_prefixes :: "string list \<Rightarrow> (string, string list) pydict" where
  "cut_prefixes secrets =
     fold (\<lambda>w d. if length w > MIN_CUT_PREFIX
                 then dict_set (take MIN_CUT_PREFIX w)
                        ((case dict_get d (take MIN_CUT_PREFIX w) of None \<Rightarrow> [] | Some ws \<Rightarrow> ws) @ [w]) d
                 else d) secrets []"

definition mask_before :: "(string, string list) pydict \<Rightarrow> nat \<Rightarrow> string \<Rightarrow> string" where
  "mask_before prefixes longest before =
     (case find (\<lambda>i. list_ex (\<lambda>w. starts_with w (drop i before))
                       (case dict_get prefixes (take MIN_CUT_PREFIX (drop i before)) of None \<Rightarrow> [] | Some ws \<Rightarrow> ws))
             [length before - longest ..< length before + 1 - MIN_CUT_PREFIX] of
        None \<Rightarrow> before
      | Some i \<Rightarrow> take i before @ REDACTED_VALUE)"

lemma cut_at_pos: "cut_at s = Some n \<Longrightarrow> 0 < n"
  by (auto simp: cut_at_def Let_def split: if_splits)

lemma next_cut_parts: "next_cut s = Some (b, x, r) \<Longrightarrow> s = b @ x @ r \<and> x \<noteq> []"
proof (induction s arbitrary: b)
  case (Cons c s)
  show ?case
  proof (cases "cut_at (c # s)")
    case None
    with Cons show ?thesis by auto
  next
    case (Some n)
    then show ?thesis using Cons.prems cut_at_pos [OF Some] by (auto simp: append_take_drop_id)
  qed
qed simp

function mask_cuts :: "(string, string list) pydict \<Rightarrow> nat \<Rightarrow> string \<Rightarrow> string" where
  "mask_cuts prefixes longest text =
     (case next_cut text of
        None \<Rightarrow> text
      | Some (before, marker, rest) \<Rightarrow> mask_before prefixes longest before @ marker @ mask_cuts prefixes longest rest)"
  by auto
termination
  by (relation "measure (\<lambda>(p, l, s). length s)") (auto dest!: next_cut_parts)

declare mask_cuts.simps [simp del]

definition mask_cut_prefix :: "string \<Rightarrow> (string, string list) pydict \<Rightarrow> nat \<Rightarrow> string" where
  "mask_cut_prefix text prefixes longest =
     (if prefixes = [] \<or> \<not> occurs_in ''...[truncated '' text then text else mask_cuts prefixes longest text)"

section \<open>Spellings\<close>

definition dict_fromkeys :: "'a list \<Rightarrow> 'a list" where
  "dict_fromkeys xs = rev (remdups (rev xs))"

definition forms_of :: "string \<Rightarrow> nat \<Rightarrow> string list" where
  "forms_of val floor =
     (let encoded = code_text (b64_encode (latin_bytes val));
          url_safe = code_text (to_urlsafe (b64_encode (latin_bytes val)));
          candidates = [strip val, repr_body val, json_body val, url_quote [] val, url_quote [47] val,
                        url_quote_plus val, encoded, rstrip_char (CHR ''='') encoded, url_safe,
                        rstrip_char (CHR ''='') url_safe]
      in dict_fromkeys (filter (\<lambda>form. form \<noteq> val \<and> floor \<le> length form) candidates) @ [val])"

section \<open>The registry\<close>

definition MAX_SECRETS :: nat where "MAX_SECRETS = 4096"

definition MIN_SECRET_LENGTH :: nat where "MIN_SECRET_LENGTH = 8"

definition MIN_EXPLICIT_LENGTH :: nat where "MIN_EXPLICIT_LENGTH = 4"

definition MAX_DECLARED_PER_RUN :: nat where "MAX_DECLARED_PER_RUN = 256"

record Compiled =
  co_pattern :: pattern
  co_numbers :: "string list"
  co_cut_prefixes :: "(string, string list) pydict"
  co_longest :: nat

record Registry =
  mk_secrets :: "(string, bool) pydict"
  mk_pinned :: "(string, (string, bool) pydict) pydict"
  mk_declared :: "(string, nat) pydict"
  mk_compiled :: "Compiled option"
  mk_stale :: bool

definition new_registry :: Registry where
  "new_registry = \<lparr>mk_secrets = [], mk_pinned = [], mk_declared = [], mk_compiled = None, mk_stale = False\<rparr>"

fun mask_leaves :: "pyval \<Rightarrow> bool \<Rightarrow> string list" where
  "mask_leaves (PStr s) numbers = [s]"
| "mask_leaves (PInt n) numbers = (if numbers then [int_text n] else [])"
| "mask_leaves (PDict d) numbers = concat (map (\<lambda>(k, v). mask_leaves v numbers) d)"
| "mask_leaves (PList xs) numbers = concat (map (\<lambda>v. mask_leaves v numbers) xs)"
| "mask_leaves _ numbers = []"

definition pins_of :: "Registry \<Rightarrow> string \<Rightarrow> (string, bool) pydict" where
  "pins_of g run = (case dict_get (mk_pinned g) run of None \<Rightarrow> [] | Some d \<Rightarrow> d)"

definition declared_of :: "Registry \<Rightarrow> string \<Rightarrow> nat" where
  "declared_of g run = (case dict_get (mk_declared g) run of None \<Rightarrow> 0 | Some n \<Rightarrow> n)"

definition flag_of :: "(string, bool) pydict \<Rightarrow> string \<Rightarrow> bool" where
  "flag_of d w = (case dict_get d w of None \<Rightarrow> False | Some b \<Rightarrow> b)"

definition allowed :: "string \<Rightarrow> string \<Rightarrow> Registry \<Rightarrow> Registry \<times> bool" where
  "allowed run val g =
     (if dict_has (pins_of g run) val then (g, True)
      else if declared_of g run \<ge> MAX_DECLARED_PER_RUN then (g, False)
      else (g\<lparr>mk_declared := dict_set run (declared_of g run + 1) (mk_declared g)\<rparr>, True))"

definition remember :: "string \<Rightarrow> bool \<Rightarrow> Registry \<Rightarrow> Registry" where
  "remember val explicit g =
     (let e = (flag_of (mk_secrets g) val \<or> explicit);
          d = dict_set val e (dict_pop val (mk_secrets g))
      in g\<lparr>mk_secrets := drop (length d - MAX_SECRETS) d\<rparr>)"

definition register_form :: "string option \<Rightarrow> bool \<Rightarrow> string \<Rightarrow> Registry \<Rightarrow> Registry" where
  "register_form run explicit form g =
     (case run of
        Some r \<Rightarrow> g\<lparr>mk_pinned := dict_set r (dict_set form (flag_of (pins_of g r) form \<or> explicit) (pins_of g r)) (mk_pinned g)\<rparr>
      | None \<Rightarrow> remember form explicit g)"

definition register_leaf ::
  "string option \<Rightarrow> bool \<Rightarrow> bool \<Rightarrow> nat \<Rightarrow> string \<Rightarrow> Registry \<times> string list \<Rightarrow> Registry \<times> string list" where
  "register_leaf run explicit declared floor leaf gw =
     (let (g, withheld) = gw;
          (g1, ok) = (case run of Some r \<Rightarrow> if declared then allowed r leaf g else (g, True) | None \<Rightarrow> (g, True))
      in if ok then (fold (register_form run explicit) (forms_of leaf floor) g1, withheld)
         else (g1, withheld @ [leaf]))"

definition register_secret ::
  "pyval \<Rightarrow> string option \<Rightarrow> bool \<Rightarrow> bool \<Rightarrow> Registry \<Rightarrow> Registry \<times> string list" where
  "register_secret val run explicit declared g =
     (let floor = (if explicit then MIN_EXPLICIT_LENGTH else MIN_SECRET_LENGTH);
          leaves = filter (\<lambda>leaf. floor \<le> length leaf) (mask_leaves val explicit)
      in if leaves = [] then (g, [])
         else (let (g1, withheld) = fold (register_leaf run explicit declared floor) leaves (g, [])
               in (g1\<lparr>mk_stale := True\<rparr>, withheld)))"

definition release_run :: "string \<Rightarrow> Registry \<Rightarrow> Registry" where
  "release_run run g =
     (let g1 = g\<lparr>mk_pinned := dict_pop run (mk_pinned g)\<rparr>;
          g2 = fold (\<lambda>(v, e). remember v e) (pins_of g run) g1
      in g2\<lparr>mk_declared := dict_pop run (mk_declared g2), mk_stale := True\<rparr>)"

definition forget_secrets :: "Registry \<Rightarrow> Registry" where
  "forget_secrets g = new_registry"

definition every_secret :: "Registry \<Rightarrow> (string, bool) pydict" where
  "every_secret g =
     fold (\<lambda>(run, pins). fold (\<lambda>(v, e) d. dict_set v (flag_of d v \<or> e) d) pins) (mk_pinned g) (mk_secrets g)"

definition compile_registry :: "(regex \<Rightarrow> bool) \<Rightarrow> Registry \<Rightarrow> Compiled option" where
  "compile_registry compiles g =
     (let every = every_secret g
      in case pattern_for compiles (dict_keys every) of
           None \<Rightarrow> None
         | Some p \<Rightarrow> Some \<lparr>co_pattern = p, co_numbers = map fst (filter snd every),
                           co_cut_prefixes = cut_prefixes (dict_keys every),
                           co_longest = Max (set (map length (dict_keys every)))\<rparr>)"

definition current :: "(regex \<Rightarrow> bool) \<Rightarrow> Registry \<Rightarrow> Registry \<times> Compiled option" where
  "current compiles g =
     (if \<not> mk_stale g then (g, mk_compiled g)
      else (let c = compile_registry compiles g in (g\<lparr>mk_compiled := c, mk_stale := False\<rparr>, c)))"

definition masked_text :: "Compiled \<Rightarrow> string \<Rightarrow> string" where
  "masked_text c s =
     mask_cut_prefix (re_sub (pattern_match (co_pattern c)) REDACTED_VALUE s) (co_cut_prefixes c) (co_longest c)"

fun masked :: "Compiled \<Rightarrow> pyval \<Rightarrow> pyval" where
  "masked c (PStr s) = PStr (masked_text c s)"
| "masked c (PInt n) = (if int_text n \<in> set (co_numbers c) then PStr REDACTED_VALUE else PInt n)"
| "masked c (PDict d) =
     PDict (fold (\<lambda>(k, v) e. dict_set k v e) (map (\<lambda>(k, v). (masked_text c k, masked c v)) d) [])"
| "masked c (PList xs) = PList (map (masked c) xs)"
| "masked c v = v"

definition mask :: "(regex \<Rightarrow> bool) \<Rightarrow> pyval \<Rightarrow> Registry \<Rightarrow> Registry \<times> pyval" where
  "mask compiles v g =
     (let (g1, c) = current compiles g in (g1, case c of None \<Rightarrow> v | Some c \<Rightarrow> masked c v))"

definition mask_also :: "(regex \<Rightarrow> bool) \<Rightarrow> pyval \<Rightarrow> string list \<Rightarrow> Registry \<Rightarrow> Registry \<times> pyval" where
  "mask_also compiles v secrets g =
     (let (g1, v1) = mask compiles v g
      in case pattern_for compiles (concat (map (\<lambda>s. forms_of s MIN_SECRET_LENGTH) secrets)) of
           None \<Rightarrow> (g1, v1)
         | Some p \<Rightarrow> (g1, masked \<lparr>co_pattern = p, co_numbers = [], co_cut_prefixes = [], co_longest = 0\<rparr> v1))"

section \<open>The trie pattern matches the longest secret\<close>

fun trie_matches :: "string \<Rightarrow> trie \<Rightarrow> string list" where
  "trie_matches [] t = (if is_end t then [[]] else [])"
| "trie_matches (c # s) t =
     (case map_of (children t) c of None \<Rightarrow> [] | Some u \<Rightarrow> trie_matches s u) @ (if is_end t then [c # s] else [])"

fun trie_has :: "string \<Rightarrow> trie \<Rightarrow> bool" where
  "trie_has [] t = is_end t"
| "trie_has (c # w) t = (case map_of (children t) c of None \<Rightarrow> False | Some u \<Rightarrow> trie_has w u)"

fun trie_ok :: "trie \<Rightarrow> bool" where
  "trie_ok (Node e cs) = ((e \<or> cs \<noteq> []) \<and> distinct (map fst cs) \<and> list_all (\<lambda>(c, t). trie_ok t) cs)"

definition kids_ok :: "(char \<times> trie) list \<Rightarrow> bool" where
  "kids_ok cs = (distinct (map fst cs) \<and> list_all (\<lambda>(c, t). trie_ok t) cs)"

definition kid_matches :: "(char \<times> trie) list \<Rightarrow> string \<Rightarrow> string list" where
  "kid_matches cs s =
     (case s of [] \<Rightarrow> [] | c # r \<Rightarrow> (case map_of cs c of None \<Rightarrow> [] | Some u \<Rightarrow> trie_matches r u))"

lemma trie_matches_node: "trie_matches s (Node e cs) = kid_matches cs s @ (if e then [s] else [])"
  by (cases s) (auto simp: kid_matches_def)

lemma chain_ok: "trie_ok t \<Longrightarrow> trie_ok (snd (chain c t))"
  by (induction c t rule: chain.induct) (auto split: prod.splits)

lemma chain_matches:
  "(if starts_with s (fst (chain c t)) then trie_matches (drop (length (fst (chain c t))) s) (snd (chain c t)) else [])
   = (case s of [] \<Rightarrow> [] | d # r \<Rightarrow> if d = c then trie_matches r t else [])"
proof (induction c t arbitrary: s rule: chain.induct)
  case (1 c d t)
  show ?case
  proof (cases s)
    case Nil
    then show ?thesis by (simp split: prod.split)
  next
    case (Cons e r)
    have "trie_matches r (Node False [(d, t)]) = (case r of [] \<Rightarrow> [] | f # q \<Rightarrow> if f = d then trie_matches q t else [])"
      by (cases r) auto
    then show ?thesis using 1 [of r] Cons by (auto split: prod.splits)
  qed
qed (auto split: list.splits)

lemma branches_match:
  "branches t depth = Some r \<Longrightarrow> trie_ok t \<Longrightarrow> alts r s = trie_matches s t"
  "branch_parts cs depth = Some ps \<Longrightarrow> kids_ok cs \<Longrightarrow> concat (map (\<lambda>r. alts r s) ps) = kid_matches cs s"
proof (induction t depth and cs depth arbitrary: r s and ps s rule: branches_branch_parts.induct)
  case (1 e cs depth)
  then obtain parts where p: "branch_parts cs depth = Some parts" and d: "\<not> depth > MAX_NESTING"
    by (auto split: if_splits option.splits)
  have k: "kids_ok cs" using 1 by (simp add: kids_ok_def)
  have ih: "concat (map (\<lambda>r. alts r s) parts) = kid_matches cs s"
    using 1(1) [OF d p k] .
  show ?case
  proof (cases "parts = []")
    case True
    have "cs = []" using p True by (cases cs) (auto split: option.splits)
    then show ?thesis using 1 p True d by (auto simp: trie_matches_node kid_matches_def split: list.splits)
  next
    case False
    have b: "alts (if length parts = 1 then hd parts else Alt parts) s = kid_matches cs s"
      using ih False by (cases parts) auto
    show ?thesis
      using 1(2) p d False b by (auto simp: trie_matches_node Let_def split: if_splits)
  qed
next
  case (2 depth)
  then show ?case by (auto simp: kid_matches_def split: list.splits)
next
  case (3 c t cs depth)
  let ?x = "fst (chain c t)" and ?u = "snd (chain c t)"
  obtain q ps' where q: "branches ?u (Suc depth) = Some q" and ps': "branch_parts cs depth = Some ps'"
    and ps: "ps = Seq (Lit ?x) q # ps'"
    using 3(3) by (auto split: option.splits)
  have ok: "trie_ok t" "kids_ok cs" "c \<notin> fst ` set cs" using 3(4) by (auto simp: kids_ok_def)
  have a: "alts q s' = trie_matches s' ?u" for s'
    using 3(1) [OF q] chain_ok ok(1) by blast
  have rest: "concat (map (\<lambda>r. alts r s) ps') = kid_matches cs s"
    using 3(2) [OF q ps'] ok(2) by blast
  have here: "alts (Seq (Lit ?x) q) s = (case s of [] \<Rightarrow> [] | d # r \<Rightarrow> if d = c then trie_matches r t else [])"
    using chain_matches [of s c t] a by (cases "starts_with s ?x") auto
  have "map_of cs c = None" using ok(3) by (simp add: map_of_eq_None_iff)
  then have "alts (Seq (Lit ?x) q) s @ kid_matches cs s = kid_matches ((c, t) # cs) s"
    unfolding here by (cases s) (auto simp: kid_matches_def)
  then show ?case
    unfolding ps using rest by (simp del: alts.simps)
qed

lemma map_of_child_update:
  "map_of (child_update c f cs) d =
     (if d = c then Some (f (case map_of cs c of None \<Rightarrow> Node False [] | Some t \<Rightarrow> t)) else map_of cs d)"
  by (induction cs) auto

lemma trie_has_insert: "trie_has v (trie_insert w t) \<longleftrightarrow> v = w \<or> trie_has v t"
proof (induction w arbitrary: v t)
  case Nil
  then show ?case by (cases v) auto
next
  case (Cons c w)
  have empty: "\<not> trie_has u (Node False [])" for u by (cases u) auto
  show ?case
  proof (cases v)
    case (Cons d u)
    then show ?thesis
      using Cons.IH empty by (auto simp: map_of_child_update split: option.splits)
  qed simp
qed

lemma child_update_ok:
  "kids_ok cs \<Longrightarrow> (\<And>t. kids_ok (children t) \<Longrightarrow> trie_ok (f t)) \<Longrightarrow> kids_ok (child_update c f cs)"
proof (induction cs)
  case Nil
  then show ?case by (simp add: kids_ok_def)
next
  case (Cons p cs)
  have sub: "trie_ok t \<Longrightarrow> kids_ok (children t)" for t by (cases t) (simp add: kids_ok_def)
  have keys: "fst ` set (child_update c f ds) = insert c (fst ` set ds)" for ds
  proof (induction ds)
    case (Cons q ds)
    then show ?case by (cases q) auto
  qed simp
  show ?case
    using Cons sub keys by (cases p) (auto simp: kids_ok_def)
qed

lemma trie_insert_ok: "kids_ok (children t) \<Longrightarrow> trie_ok (trie_insert w t)"
proof (induction w arbitrary: t)
  case Nil
  then show ?case by (simp add: kids_ok_def)
next
  case (Cons c w)
  have "child_update c (trie_insert w) (children t) \<noteq> []"
    by (cases "children t") (auto split: if_splits prod.splits)
  then show ?case
    using child_update_ok [OF Cons.prems, of "trie_insert w" c] Cons.IH by (simp add: kids_ok_def)
qed

lemma fold_trie_insert:
  "kids_ok (children t) \<Longrightarrow> ws \<noteq> [] \<Longrightarrow>
     trie_ok (fold trie_insert ws t) \<and> (\<forall>v. trie_has v (fold trie_insert ws t) \<longleftrightarrow> v \<in> set ws \<or> trie_has v t)"
proof (induction ws arbitrary: t)
  case (Cons w ws)
  have ok: "trie_ok (trie_insert w t)" by (rule trie_insert_ok [OF Cons.prems(1)])
  then have k: "kids_ok (children (trie_insert w t))"
    by (cases "trie_insert w t") (simp add: kids_ok_def)
  show ?case
  proof (cases "ws = []")
    case True
    then show ?thesis using ok by (auto simp: trie_has_insert)
  next
    case False
    then show ?thesis using Cons.IH [OF k False] by (auto simp: trie_has_insert)
  qed
qed simp

lemma trie_matches_lengths:
  "trie_matches s t = map (\<lambda>n. drop n s) (rev (filter (\<lambda>n. trie_has (take n s) t) [0..<Suc (length s)]))"
proof (induction s arbitrary: t)
  case Nil
  then show ?case by simp
next
  case (Cons c s)
  have up: "[0..<Suc (length (c # s))] = 0 # map Suc [0..<Suc (length s)]"
    by (metis length_Cons map_Suc_upt upt_conv_Cons zero_less_Suc)
  show ?case
    unfolding up
    by (cases "map_of (children t) c") (auto simp: Cons filter_map comp_def rev_map)
qed


lemma starts_with_take: "starts_with s v \<longleftrightarrow> length v \<le> length s \<and> v = take (length v) s"
  unfolding starts_with_iff by (metis append_eq_conv_conj append_take_drop_id length_append le_add1)

lemma trie_matches_first:
  "(case trie_matches s t of [] \<Rightarrow> None | x # _ \<Rightarrow> Some x) = Some r \<longleftrightarrow>
     (\<exists>w. s = w @ r \<and> trie_has w t \<and> (\<forall>v. starts_with s v \<and> trie_has v t \<longrightarrow> length v \<le> length w))"
proof -
  define ns where "ns = filter (\<lambda>n. trie_has (take n s) t) [0..<Suc (length s)]"
  have ms: "trie_matches s t = map (\<lambda>n. drop n s) (rev ns)"
    unfolding ns_def by (rule trie_matches_lengths)
  have mem: "n \<in> set ns \<longleftrightarrow> n \<le> length s \<and> trie_has (take n s) t" for n
    unfolding ns_def by (auto simp del: upt_Suc)
  have words: "starts_with s v \<and> trie_has v t \<longleftrightarrow> length v \<in> set ns \<and> v = take (length v) s" for v
    by (auto simp: starts_with_take mem)
  have sorted: "sorted ns"
    unfolding ns_def by (rule sorted_wrt_filter) (rule sorted_upt)
  show ?thesis
  proof (cases ns rule: rev_cases)
    case Nil
    then show ?thesis using words ms by (auto simp: starts_with_iff)
  next
    case (snoc ks m)
    have top: "n \<le> m" if "n \<in> set ns" for n
      using that sorted unfolding snoc by (auto simp: sorted_append)
    have m: "m \<le> length s" "trie_has (take m s) t" using mem [of m] snoc by auto
    have first: "(case trie_matches s t of [] \<Rightarrow> None | x # _ \<Rightarrow> Some x) = Some (drop m s)"
      unfolding ms snoc by simp
    have "starts_with s (take m s)" using m by (simp add: starts_with_take)
    moreover have "length v \<le> m" if "starts_with s v \<and> trie_has v t" for v
      using words that top by blast
    ultimately have "s = w @ r \<and> trie_has w t \<and> (\<forall>v. starts_with s v \<and> trie_has v t \<longrightarrow> length v \<le> length w)
        \<longleftrightarrow> w = take m s \<and> r = drop m s" for w
      using m by (auto simp: starts_with_iff)
    then show ?thesis using first by auto
  qed
qed

lemma first_longest:
  "sorted_wrt (\<lambda>a b. length b \<le> length a) ws \<Longrightarrow>
   first_some (\<lambda>w. if starts_with s w then Some (drop (length w) s) else None) ws = Some r \<longleftrightarrow>
     (\<exists>w\<in>set ws. s = w @ r \<and> (\<forall>v\<in>set ws. starts_with s v \<longrightarrow> length v \<le> length w))"
proof (induction ws)
  case (Cons u ws)
  then have ih: "first_some (\<lambda>w. if starts_with s w then Some (drop (length w) s) else None) ws = Some r \<longleftrightarrow>
     (\<exists>w\<in>set ws. s = w @ r \<and> (\<forall>v\<in>set ws. starts_with s v \<longrightarrow> length v \<le> length w))"
    and le: "\<forall>w\<in>set ws. length w \<le> length u" by auto
  show ?case
  proof (cases "starts_with s u")
    case True
    then obtain x where x: "s = u @ x" by (auto simp: starts_with_iff)
    have "w = u" if "s = w @ r" "length u \<le> length w" "w \<in> set ws" for w
      using that x le by (metis append_eq_append_conv dual_order.antisym)
    then show ?thesis using True x le by (auto simp: dual_order.antisym)
  next
    case False
    then show ?thesis using ih by (auto simp: starts_with_iff)
  qed
qed simp

lemma ordered_secrets_sorted: "sorted_wrt (\<lambda>a b. length b \<le> length a) (ordered_secrets secrets)"
proof -
  have "sorted_wrt (\<lambda>a b. length a \<le> length b) (sort_key length (remdups secrets))"
    using sorted_sort_key [of length "remdups secrets"] by (simp add: sorted_wrt_map)
  then show ?thesis by (simp add: ordered_secrets_def sorted_wrt_rev)
qed

lemma set_ordered_secrets [simp]: "set (ordered_secrets secrets) = set secrets"
  by (simp add: ordered_secrets_def)

lemma pattern_match_longest:
  assumes "pattern_for compiles secrets = Some p"
  shows "pattern_match p s = Some r \<longleftrightarrow>
     (\<exists>w\<in>set secrets. s = w @ r \<and> (\<forall>v\<in>set secrets. starts_with s v \<longrightarrow> length v \<le> length w))"
proof -
  let ?o = "ordered_secrets secrets"
  let ?t = "fold trie_insert ?o (Node False [])"
  have ne: "?o \<noteq> []" using assms by (auto simp: pattern_for_def Let_def split: if_splits)
  have t: "trie_ok ?t" "\<And>v. trie_has v ?t \<longleftrightarrow> v \<in> set secrets"
  proof -
    have "\<not> trie_has v (Node False [])" for v by (cases v) auto
    then show "trie_ok ?t" "\<And>v. trie_has v ?t \<longleftrightarrow> v \<in> set secrets"
      using fold_trie_insert [OF _ ne, of "Node False []"] by (auto simp: kids_ok_def)
  qed
  consider "p = Alternation ?o" | q where "p = Trie_pattern q" "branches ?t 0 = Some q"
    using assms ne by (auto simp: pattern_for_def Let_def split: option.splits if_splits)
  then show ?thesis
  proof cases
    case 1
    then show ?thesis
      using first_longest [OF ordered_secrets_sorted, of s secrets r] by (simp add: pattern_match_def)
  next
    case 2
    then have "alts q s = trie_matches s ?t" using branches_match(1) t(1) by blast
    then show ?thesis
      using trie_matches_first [of s ?t r] t(2) 2 by (auto simp: pattern_match_def)
  qed
qed


section \<open>Masked text\<close>

text \<open>\<open>redacts s t\<close>: \<open>t\<close> is \<open>s\<close> with parts replaced by the marker.\<close>

inductive redacts :: "string \<Rightarrow> string \<Rightarrow> bool" where
  redacts_Nil: "redacts [] []"
| redacts_Cons: "redacts s t \<Longrightarrow> redacts (c # s) (c # t)"
| redacts_mark: "redacts s t \<Longrightarrow> redacts (x @ s) (REDACTED_VALUE @ t)"

lemma redacts_refl: "redacts s s"
  by (induction s) (auto intro: redacts.intros)

lemma redacts_append: "redacts a b \<Longrightarrow> redacts c d \<Longrightarrow> redacts (a @ c) (b @ d)"
  by (induction rule: redacts.induct) (auto intro: redacts.intros)

definition markless :: "string \<Rightarrow> bool" where
  "markless w = (w \<noteq> [] \<and> CHR ''*'' \<notin> set w)"

lemma redacts_starts:
  "redacts s t \<Longrightarrow> CHR ''*'' \<notin> set w \<Longrightarrow> starts_with t w \<Longrightarrow> starts_with s w"
proof (induction arbitrary: w rule: redacts.induct)
  case (redacts_Cons s t c)
  then show ?case by (cases w) auto
next
  case (redacts_mark s t x)
  then have "w = []" by (cases w) (auto simp: REDACTED_VALUE_def)
  then show ?case by (simp add: starts_with_iff)
qed simp

lemma occurs_mark: "markless w \<Longrightarrow> occurs_in w (REDACTED_VALUE @ t) \<Longrightarrow> occurs_in w t"
proof -
  assume "markless w" and "occurs_in w (REDACTED_VALUE @ t)"
  then have "w \<noteq> []" "CHR ''*'' \<notin> set w" "occurs_in w (CHR ''*'' # CHR ''*'' # CHR ''*'' # t)"
    by (auto simp: markless_def REDACTED_VALUE_def)
  then show ?thesis by (cases w) auto
qed

lemma occurs_append_right: "occurs_in w s \<Longrightarrow> occurs_in w (x @ s)"
  by (auto simp: occurs_in_iff) (metis append.assoc)

lemma redacts_occurs: "redacts s t \<Longrightarrow> markless w \<Longrightarrow> occurs_in w t \<Longrightarrow> occurs_in w s"
proof (induction rule: redacts.induct)
  case (redacts_Cons s t c)
  then show ?case
    using redacts_starts [OF redacts.redacts_Cons [OF redacts_Cons.hyps], of w c] by (auto simp: markless_def)
next
  case (redacts_mark s t x)
  then show ?case using occurs_mark occurs_append_right by blast
qed simp

lemma re_sub_starts:
  "CHR ''*'' \<notin> set w \<Longrightarrow> starts_with (re_sub m REDACTED_VALUE s) w \<Longrightarrow> w = [] \<or> (m s = None \<and> starts_with s w)"
proof (induction w arbitrary: s)
  case (Cons c w)
  have out: "re_sub m REDACTED_VALUE s
      = (case m s of None \<Rightarrow> if s = [] then [] else hd s # re_sub m REDACTED_VALUE (tl s)
         | Some r \<Rightarrow> REDACTED_VALUE @ (if length r < length s then re_sub m REDACTED_VALUE r
                      else if s = [] then [] else hd s # re_sub m REDACTED_VALUE (tl s)))"
    by (subst re_sub.simps) (auto split: option.split)
  have m: "m s = None" "s \<noteq> []"
    using Cons.prems unfolding out by (auto simp: REDACTED_VALUE_def split: option.splits if_splits)
  then have "c = hd s" and w: "starts_with (re_sub m REDACTED_VALUE (tl s)) w"
    using Cons.prems unfolding out by (auto split: if_splits)
  moreover have "starts_with (tl s) w"
    using Cons.IH [of "tl s"] Cons.prems(1) w by (auto simp: starts_with_iff)
  ultimately show ?case using m by (cases s) auto
qed simp

lemma re_sub_clean:
  assumes m: "\<And>s. starts_with s w \<Longrightarrow> \<exists>r. m s = Some r \<and> length r < length s" and w: "markless w"
  shows "\<not> occurs_in w (re_sub m REDACTED_VALUE s)"
proof (induction "length s" arbitrary: s rule: less_induct)
  case less
  have w': "CHR ''*'' \<notin> set w" "w \<noteq> []" using w by (auto simp: markless_def)
  have step: "\<not> occurs_in w (hd s # re_sub m REDACTED_VALUE (tl s))" if "\<not> starts_with s w" "s \<noteq> []"
  proof -
    have "\<not> occurs_in w (re_sub m REDACTED_VALUE (tl s))" using less that(2) by simp
    moreover have "\<not> starts_with (hd s # re_sub m REDACTED_VALUE (tl s)) w"
    proof
      assume st: "starts_with (hd s # re_sub m REDACTED_VALUE (tl s)) w"
      then obtain v where v: "w = hd s # v" "starts_with (re_sub m REDACTED_VALUE (tl s)) v"
        using w' by (cases w) auto
      then have "starts_with (tl s) v"
        using re_sub_starts [of v m "tl s"] w' by (auto simp: starts_with_iff)
      then have "starts_with s w" using v(1) that(2) by (cases s) auto
      then show False using that(1) by simp
    qed
    ultimately show ?thesis by simp
  qed
  show ?case
  proof (cases "m s")
    case None
    then have "\<not> starts_with s w" using m by fastforce
    then show ?thesis using None step w' by (subst re_sub.simps) simp
  next
    case (Some r)
    show ?thesis
    proof (cases "length r < length s")
      case True
      then have "\<not> occurs_in w (re_sub m REDACTED_VALUE r)" using less by blast
      then show ?thesis using Some True occurs_mark [OF w] by (subst re_sub.simps) auto
    next
      case False
      have "\<not> occurs_in w (if s = [] then [] else hd s # re_sub m REDACTED_VALUE (tl s))"
      proof -
        have "\<not> starts_with s w" using m Some False by fastforce
        then show ?thesis using step w' by simp
      qed
      then have "\<not> occurs_in w (REDACTED_VALUE @ (if s = [] then [] else hd s # re_sub m REDACTED_VALUE (tl s)))"
        using occurs_mark [OF w] by blast
      then show ?thesis using Some False by (subst re_sub.simps) simp
    qed
  qed
qed


lemma mask_before_redacts: "redacts b (mask_before prefixes longest b)"
proof -
  have "redacts (take i b @ drop i b @ []) (take i b @ REDACTED_VALUE @ [])" for i
    by (intro redacts_append redacts_refl redacts_mark redacts_Nil)
  then show ?thesis by (auto simp: mask_before_def redacts_refl split: option.split)
qed

lemma mask_cuts_redacts: "redacts s (mask_cuts prefixes longest s)"
proof (induction prefixes longest s rule: mask_cuts.induct)
  case (1 prefixes longest s)
  show ?case
  proof (cases "next_cut s")
    case None
    then show ?thesis by (subst mask_cuts.simps) (simp add: redacts_refl)
  next
    case (Some q)
    obtain b x r where q: "q = (b, x, r)" by (cases q)
    have s: "s = b @ x @ r" using next_cut_parts Some q by simp
    have "redacts r (mask_cuts prefixes longest r)" using 1 Some q by simp
    then have "redacts (b @ x @ r) (mask_before prefixes longest b @ x @ mask_cuts prefixes longest r)"
      by (intro redacts_append redacts_refl mask_before_redacts)
    then show ?thesis using Some q s by (subst mask_cuts.simps) simp
  qed
qed

lemma mask_cut_prefix_redacts: "redacts s (mask_cut_prefix s prefixes longest)"
  by (simp add: mask_cut_prefix_def redacts_refl mask_cuts_redacts)

lemma masked_text_clean:
  assumes "pattern_for compiles secrets = Some (co_pattern c)" "w \<in> set secrets" "markless w"
  shows "\<not> occurs_in w (masked_text c s)"
proof -
  have "\<exists>r. pattern_match (co_pattern c) s' = Some r \<and> length r < length s'" if "starts_with s' w" for s'
  proof -
    let ?P = "\<lambda>v. v \<in> set secrets \<and> starts_with s' v"
    have "\<exists>v. ?P v \<and> (\<forall>u. ?P u \<longrightarrow> length u \<le> length v)"
      using that assms(2) by (intro ex_has_greatest_nat [of ?P w length "Suc (length s')"])
        (auto simp: starts_with_take less_Suc_eq_le)
    then obtain v where v: "v \<in> set secrets" "starts_with s' v"
      and max: "\<And>u. u \<in> set secrets \<Longrightarrow> starts_with s' u \<Longrightarrow> length u \<le> length v" by blast
    obtain r where r: "s' = v @ r" using v by (auto simp: starts_with_iff)
    then have "pattern_match (co_pattern c) s' = Some r"
      using pattern_match_longest [OF assms(1)] v max by blast
    moreover have "0 < length v"
      using max [OF assms(2) that] assms(3) by (cases w) (auto simp: markless_def)
    ultimately show ?thesis using r by simp
  qed
  then have "\<not> occurs_in w (re_sub (pattern_match (co_pattern c)) REDACTED_VALUE s)"
    using re_sub_clean assms(3) by blast
  then show ?thesis
    unfolding masked_text_def using redacts_occurs [OF mask_cut_prefix_redacts assms(3)] by blast
qed

text \<open>Every text of a value: its strings and the keys of its mappings.\<close>

fun texts :: "pyval \<Rightarrow> string list" where
  "texts (PStr s) = [s]"
| "texts (PDict d) = concat (map (\<lambda>(k, v). k # texts v) d)"
| "texts (PList xs) = concat (map texts xs)"
| "texts _ = []"

lemma dict_set_member: "(a, b) \<in> set (dict_set k v d) \<Longrightarrow> (a, b) = (k, v) \<or> (a, b) \<in> set d"
  by (induction d) (auto split: if_splits)

lemma dict_build_member:
  "(a, b) \<in> set (fold (\<lambda>(k, v) e. dict_set k v e) kvs d) \<Longrightarrow> (a, b) \<in> set kvs \<or> (a, b) \<in> set d"
proof (induction kvs arbitrary: d)
  case (Cons p kvs)
  then show ?case using dict_set_member by (cases p) fastforce
qed simp

lemma masked_clean:
  assumes "pattern_for compiles secrets = Some (co_pattern c)" "w \<in> set secrets" "markless w"
  shows "t \<in> set (texts (masked c v)) \<Longrightarrow> \<not> occurs_in w t"
proof (induction v)
  case (PStr s)
  then show ?case using masked_text_clean [OF assms] by simp
next
  case (PInt n)
  have "\<not> occurs_in w REDACTED_VALUE"
    using occurs_mark [OF assms(3), of "[]"] assms(3) by (auto simp: markless_def)
  then show ?case using PInt by (auto split: if_splits)
next
  case (PList xs)
  then show ?case by auto
next
  case (PDict d)
  let ?kvs = "map (\<lambda>(k, v). (masked_text c k, masked c v)) d"
  obtain a b where "(a, b) \<in> set (fold (\<lambda>(k, v) e. dict_set k v e) ?kvs [])" and t: "t = a \<or> t \<in> set (texts b)"
    using PDict.prems by auto
  then have "(a, b) \<in> set ?kvs" using dict_build_member by fastforce
  then obtain k v where "(k, v) \<in> set d" "a = masked_text c k" "b = masked c v" by auto
  then show ?case
    using t PDict.IH [of "(k, v)" v] masked_text_clean [OF assms, of k] by auto
qed simp_all

section \<open>Runs of the registry\<close>

datatype registry_op = Register pyval "string option" bool bool | Release string | Forget | Mask pyval

fun registry_do :: "(regex \<Rightarrow> bool) \<Rightarrow> registry_op \<Rightarrow> Registry \<Rightarrow> Registry" where
  "registry_do compiles (Register v run e d) g = fst (register_secret v run e d g)"
| "registry_do compiles (Release run) g = release_run run g"
| "registry_do compiles Forget g = forget_secrets g"
| "registry_do compiles (Mask v) g = fst (mask compiles v g)"

lemma remember_fields [simp]:
  "mk_pinned (remember v e g) = mk_pinned g" "mk_declared (remember v e g) = mk_declared g"
  "mk_stale (remember v e g) = mk_stale g" "mk_compiled (remember v e g) = mk_compiled g"
  by (simp_all add: remember_def Let_def)

lemma remember_bounded: "length (mk_secrets (remember v e g)) \<le> MAX_SECRETS"
  by (simp add: remember_def Let_def)

lemma fold_remember_fields [simp]:
  "mk_pinned (fold (\<lambda>(v, e). remember v e) kvs g) = mk_pinned g"
  "mk_declared (fold (\<lambda>(v, e). remember v e) kvs g) = mk_declared g"
  by (induction kvs arbitrary: g) auto

lemma fold_remember_bounded:
  "length (mk_secrets g) \<le> MAX_SECRETS \<Longrightarrow> length (mk_secrets (fold (\<lambda>(v, e). remember v e) kvs g)) \<le> MAX_SECRETS"
  by (induction kvs arbitrary: g) (auto simp: remember_bounded)

text \<open>A property of the registry that its elementary changes keep is kept by \<open>register_secret\<close>.\<close>

locale registry_law =
  fixes law :: "Registry \<Rightarrow> bool"
  assumes law_remember: "law g \<Longrightarrow> law (remember v e g)"
    and law_pin: "law g \<Longrightarrow> law (g\<lparr>mk_pinned := dict_set r (dict_set w b (pins_of g r)) (mk_pinned g)\<rparr>)"
    and law_count: "law g \<Longrightarrow> declared_of g r < MAX_DECLARED_PER_RUN \<Longrightarrow>
           law (g\<lparr>mk_declared := dict_set r (declared_of g r + 1) (mk_declared g)\<rparr>)"
    and law_cache: "law g \<Longrightarrow> law (g\<lparr>mk_compiled := c, mk_stale := b\<rparr>)"
    and law_stale: "law g \<Longrightarrow> law (g\<lparr>mk_stale := b\<rparr>)"
begin

lemma law_form: "law g \<Longrightarrow> law (register_form run e form g)"
  by (cases run) (auto simp: register_form_def law_remember law_pin)

lemma law_forms: "law g \<Longrightarrow> law (fold (register_form run e) forms g)"
  by (induction forms arbitrary: g) (auto intro: law_form)

lemma law_allowed: "law g \<Longrightarrow> law (fst (allowed r leaf g))"
  by (auto simp: allowed_def intro: law_count [simplified])

lemma law_leaf: "law (fst gw) \<Longrightarrow> law (fst (register_leaf run e d floor leaf gw))"
  using law_allowed [of "fst gw" _ leaf]
  by (cases gw) (auto simp: register_leaf_def Let_def law_forms split: prod.splits option.splits if_splits,
      (metis fst_conv law_forms)+)

lemma law_leaves: "law (fst gw) \<Longrightarrow> law (fst (fold (register_leaf run e d floor) leaves gw))"
proof (induction leaves arbitrary: gw)
  case (Cons l leaves)
  then show ?case using law_leaf [OF Cons.prems] by simp
qed simp

lemma law_register: "law g \<Longrightarrow> law (fst (register_secret v run e d g))"
proof -
  assume "law g"
  then have "law (fst (fold (register_leaf run e d floor) leaves (g, [])))" for floor leaves
    using law_leaves [of "(g, [])"] by simp
  then have "law ((fst (fold (register_leaf run e d floor) leaves (g, [])))\<lparr>mk_stale := True\<rparr>)" for floor leaves
    by (rule law_stale)
  then show ?thesis
    using \<open>law g\<close> by (simp add: register_secret_def Let_def case_prod_beta)
qed

lemma law_mask: "law g \<Longrightarrow> law (fst (mask compiles v g))"
  by (auto simp: mask_def current_def Let_def law_cache split: prod.split)

end

definition registry_bounded :: "Registry \<Rightarrow> bool" where
  "registry_bounded g = (length (mk_secrets g) \<le> MAX_SECRETS \<and> (\<forall>r. declared_of g r \<le> MAX_DECLARED_PER_RUN))"

interpretation bounded: registry_law registry_bounded
  by unfold_locales (auto simp: registry_bounded_def remember_bounded declared_of_def dict_simps split: option.splits)

lemma pins_of_set: "pins_of (g\<lparr>mk_pinned := dict_set r d (mk_pinned g)\<rparr>) q = (if q = r then d else pins_of g q)"
  by (simp add: pins_of_def dict_simps)

lemma dict_has_set: "dict_has (dict_set k v d) j \<longleftrightarrow> j = k \<or> dict_has d j"
  by (auto simp: dict_has_def dict_simps)

definition pins_kept :: "string \<Rightarrow> string \<Rightarrow> Registry \<Rightarrow> bool" where
  "pins_kept r w g = dict_has (pins_of g r) w"

interpretation pinned: registry_law "pins_kept r w" for r w
  by unfold_locales (auto simp: pins_kept_def pins_of_set dict_has_set, auto simp: pins_of_def)

lemma registry_bounded_do: "registry_bounded g \<Longrightarrow> registry_bounded (registry_do compiles op g)"
proof (cases op)
  case (Register v run e d)
  assume "registry_bounded g"
  then show ?thesis using Register by (simp add: bounded.law_register)
next
  case (Release r)
  assume b: "registry_bounded g"
  then show ?thesis using Release
    by (auto simp: release_run_def Let_def registry_bounded_def declared_of_def dict_simps fold_remember_bounded
        split: option.splits)
next
  case Forget
  then show ?thesis by (simp add: forget_secrets_def new_registry_def registry_bounded_def declared_of_def)
next
  case (Mask v)
  assume "registry_bounded g"
  then show ?thesis using Mask by (simp add: bounded.law_mask)
qed

lemma pins_kept_do:
  "pins_kept r w g \<Longrightarrow> op \<noteq> Release r \<Longrightarrow> op \<noteq> Forget \<Longrightarrow> pins_kept r w (registry_do compiles op g)"
proof (cases op)
  case (Release q)
  assume "pins_kept r w g" "op \<noteq> Release r"
  then show ?thesis using Release
    by (simp add: pins_kept_def release_run_def Let_def pins_of_def dict_simps)
qed (simp_all add: pinned.law_register pinned.law_mask)

text \<open>The compiled pattern is the one of the registry unless the registry is marked stale.\<close>

definition cache_ok :: "(regex \<Rightarrow> bool) \<Rightarrow> Registry \<Rightarrow> bool" where
  "cache_ok compiles g = (\<not> mk_stale g \<longrightarrow> mk_compiled g = compile_registry compiles g)"

lemma compile_registry_cong:
  "mk_pinned g = mk_pinned h \<Longrightarrow> mk_secrets g = mk_secrets h \<Longrightarrow> compile_registry compiles g = compile_registry compiles h"
  by (simp add: compile_registry_def every_secret_def)

lemma cache_ok_do: "cache_ok compiles g \<Longrightarrow> cache_ok compiles (registry_do compiles op g)"
proof (cases op)
  case (Register v run e d)
  assume "cache_ok compiles g"
  then show ?thesis using Register
    by (auto simp: cache_ok_def register_secret_def Let_def split: prod.splits if_splits)
next
  case (Mask v)
  assume c: "cache_ok compiles g"
  have "compile_registry compiles (g\<lparr>mk_compiled := x, mk_stale := b\<rparr>) = compile_registry compiles g" for x b
    by (rule compile_registry_cong) simp_all
  then show ?thesis using c Mask
    by (auto simp: cache_ok_def mask_def current_def Let_def)
next
  case Forget
  then show ?thesis
    by (simp add: cache_ok_def forget_secrets_def new_registry_def compile_registry_def every_secret_def
        pattern_for_def ordered_secrets_def)
qed (simp add: cache_ok_def release_run_def Let_def)

lemma new_registry_ok: "cache_ok compiles new_registry" "registry_bounded new_registry"
  by (simp_all add: cache_ok_def registry_bounded_def declared_of_def new_registry_def compile_registry_def
      every_secret_def pattern_for_def ordered_secrets_def)

lemma registry_run_ok:
  "cache_ok compiles g \<Longrightarrow> cache_ok compiles (fold (registry_do compiles) ops g)"
  "registry_bounded g \<Longrightarrow> registry_bounded (fold (registry_do compiles) ops g)"
  "pins_kept r w g \<Longrightarrow> Release r \<notin> set ops \<Longrightarrow> Forget \<notin> set ops \<Longrightarrow> pins_kept r w (fold (registry_do compiles) ops g)"
  by (induction ops arbitrary: g) (simp_all add: cache_ok_do registry_bounded_do pins_kept_do eq_commute)

text \<open>The registry every run masks against stays bounded: after any sequence of registrations, releases
  and maskings it remembers at most 4096 secrets beside the pinned ones, and no open run has more than
  256 values its author declared counted against it.\<close>

theorem registry_stays_bounded:
  "length (mk_secrets (fold (registry_do compiles) ops new_registry)) \<le> 4096
   \<and> declared_of (fold (registry_do compiles) ops new_registry) run \<le> 256"
  using registry_run_ok(2) [OF new_registry_ok(2), of compiles ops]
  by (simp add: registry_bounded_def MAX_SECRETS_def MAX_DECLARED_PER_RUN_def)

lemma keys_fold_pins:
  "dict_has d w \<or> dict_has pins w \<Longrightarrow> dict_has (fold (\<lambda>(v, e) d. dict_set v (flag_of d v \<or> e) d) pins d) w"
proof (induction pins arbitrary: d)
  case Nil
  then show ?case by (simp add: dict_has_def)
next
  case (Cons p pins)
  obtain v e where p: "p = (v, e)" by (cases p)
  have "dict_has (dict_set v (flag_of d v \<or> e) d) w \<or> dict_has pins w"
    using Cons.prems p by (auto simp: dict_has_set) (auto simp: dict_has_def split: if_splits)
  then show ?case using Cons.IH p by simp
qed

lemma keys_fold_runs:
  "dict_has d w \<or> (\<exists>r pins. (r, pins) \<in> set runs \<and> dict_has pins w) \<Longrightarrow>
   dict_has (fold (\<lambda>(run, pins). fold (\<lambda>(v, e) d. dict_set v (flag_of d v \<or> e) d) pins) runs d) w"
proof (induction runs arbitrary: d)
  case (Cons p runs)
  obtain q pins where p: "p = (q, pins)" by (cases p)
  show ?case
    using Cons.IH [of "fold (\<lambda>(v, e) d. dict_set v (flag_of d v \<or> e) d) pins d"] Cons.prems
      keys_fold_pins [of d w pins] p by auto
qed simp

lemma dict_get_in_set: "dict_get d k = Some v \<Longrightarrow> (k, v) \<in> set d"
  by (induction d) (auto split: if_splits)

lemma dict_has_keys: "dict_has d k \<longleftrightarrow> k \<in> set (dict_keys d)"
  unfolding dict_has_def by (induction d) auto

lemma pinned_in_every: "pins_kept r w g \<Longrightarrow> w \<in> set (dict_keys (every_secret g))"
proof -
  assume "pins_kept r w g"
  then obtain pins where "(r, pins) \<in> set (mk_pinned g)" "dict_has pins w"
    by (auto simp: pins_kept_def pins_of_def dict_has_def dest: dict_get_in_set split: option.splits)
  then have "dict_has (every_secret g) w"
    unfolding every_secret_def by (intro keys_fold_runs) auto
  then show ?thesis by (simp add: dict_has_keys)
qed

lemma pattern_for_Some: "secrets \<noteq> [] \<Longrightarrow> \<exists>p. pattern_for compiles secrets = Some p"
proof -
  assume "secrets \<noteq> []"
  then have "ordered_secrets secrets \<noteq> []" by (metis set_empty set_ordered_secrets)
  then show ?thesis
    by (cases "branches (fold trie_insert (ordered_secrets secrets) (Node False [])) 0")
      (simp_all add: pattern_for_def Let_def)
qed

lemma mask_clean:
  assumes "cache_ok compiles g" "pins_kept r w g" "markless w" "t \<in> set (texts (snd (mask compiles u g)))"
  shows "\<not> occurs_in w t"
proof -
  let ?ws = "dict_keys (every_secret g)"
  have w: "w \<in> set ?ws" by (rule pinned_in_every [OF assms(2)])
  then obtain p where p: "pattern_for compiles ?ws = Some p"
    using pattern_for_Some [of ?ws compiles] by (metis empty_iff list.set(1))
  then obtain c where c: "compile_registry compiles g = Some c" "co_pattern c = p"
    by (auto simp: compile_registry_def Let_def)
  have "snd (current compiles g) = Some c"
    using assms(1) c by (auto simp: current_def cache_ok_def Let_def)
  then have "t \<in> set (texts (masked c u))"
    using assms(4) by (auto simp: mask_def split: prod.splits)
  then show ?thesis using masked_clean [OF _ w assms(3)] p c by blast
qed

lemma forms_of_last: "val \<in> set (forms_of val floor)"
  by (simp add: forms_of_def Let_def)

lemma forms_pin: "w \<in> set forms \<or> pins_kept r w g \<Longrightarrow> pins_kept r w (fold (register_form (Some r) e) forms g)"
proof (induction forms arbitrary: g)
  case (Cons f forms)
  have "w \<in> set forms \<or> pins_kept r w (register_form (Some r) e f g)"
    using Cons.prems by (auto simp: register_form_def pins_kept_def pins_of_set dict_has_set)
  then show ?case using Cons.IH by simp
qed simp

lemma leaf_pin:
  "leaf \<notin> set (snd (register_leaf (Some r) e d floor leaf gw)) \<Longrightarrow>
   pins_kept r leaf (fst (register_leaf (Some r) e d floor leaf gw))"
  using forms_pin [OF disjI1 [OF forms_of_last]]
  by (cases gw) (auto simp: register_leaf_def Let_def split: prod.splits if_splits)

lemma withheld_grows:
  "x \<in> set (snd gw) \<Longrightarrow> x \<in> set (snd (fold (register_leaf run e d floor) leaves gw))"
proof (induction leaves arbitrary: gw)
  case (Cons l leaves)
  have "x \<in> set (snd (register_leaf run e d floor l gw))"
    using Cons.prems by (cases gw) (auto simp: register_leaf_def Let_def split: prod.splits option.splits if_splits)
  then show ?case using Cons.IH by simp
qed simp

lemma leaves_pin:
  "leaf \<in> set leaves \<Longrightarrow> leaf \<notin> set (snd (fold (register_leaf (Some r) e d floor) leaves gw)) \<Longrightarrow>
   pins_kept r leaf (fst (fold (register_leaf (Some r) e d floor) leaves gw))"
proof (induction leaves arbitrary: gw)
  case (Cons l leaves)
  show ?case
  proof (cases "leaf = l")
    case True
    let ?gw = "register_leaf (Some r) e d floor l gw"
    have "leaf \<notin> set (snd ?gw)" using Cons.prems withheld_grows [of leaf ?gw] by auto
    then have "pins_kept r leaf (fst ?gw)" using leaf_pin True by blast
    then show ?thesis using pinned.law_leaves by simp
  next
    case False
    then show ?thesis using Cons by simp
  qed
qed simp

lemma register_pins:
  "leaf \<in> set (mask_leaves v e) \<Longrightarrow> (if e then MIN_EXPLICIT_LENGTH else MIN_SECRET_LENGTH) \<le> length leaf \<Longrightarrow>
   leaf \<notin> set (snd (register_secret v (Some r) e d g)) \<Longrightarrow> pins_kept r leaf (fst (register_secret v (Some r) e d g))"
  using leaves_pin [of leaf "filter (\<lambda>leaf. (if e then MIN_EXPLICIT_LENGTH else MIN_SECRET_LENGTH) \<le> length leaf) (mask_leaves v e)"
      r e d "if e then MIN_EXPLICIT_LENGTH else MIN_SECRET_LENGTH" "(g, [])"]
  by (auto simp: register_secret_def Let_def pins_kept_def pins_of_def filter_empty_conv split: prod.splits if_splits)

text \<open>C10. A secret registered for a run is never written down while the run is open. After any sequence of
  registry operations, a text in the registered value that is long enough (8 characters, 4 when
  declared secret), holds no star and was not turned away by the run's allowance does not occur in any
  string or key of any value \<open>mask\<close> gives back, whatever was registered, released for other runs or
  masked in between.\<close>

theorem pinned_secret_masked:
  assumes "g = fst (register_secret v (Some run) explicit declared (fold (registry_do compiles) before new_registry))"
    and "leaf \<in> set (mask_leaves v explicit)" and "(if explicit then 4 else 8) \<le> length leaf" and "CHR ''*'' \<notin> set leaf"
    and "leaf \<notin> set (snd (register_secret v (Some run) explicit declared (fold (registry_do compiles) before new_registry)))"
    and "Release run \<notin> set after" and "Forget \<notin> set after"
    and "t \<in> set (texts (snd (mask compiles u (fold (registry_do compiles) after g))))"
  shows "\<not> occurs_in leaf t"
proof -
  let ?g0 = "fold (registry_do compiles) before new_registry"
  have "cache_ok compiles (registry_do compiles (Register v (Some run) explicit declared) ?g0)"
    by (intro cache_ok_do registry_run_ok(1) new_registry_ok(1))
  then have c: "cache_ok compiles (fold (registry_do compiles) after g)"
    using assms(1) registry_run_ok(1) by simp
  have "pins_kept run leaf g"
    unfolding assms(1)
    using assms(2,3,5) by (intro register_pins) (auto simp: MIN_EXPLICIT_LENGTH_def MIN_SECRET_LENGTH_def)
  then have p: "pins_kept run leaf (fold (registry_do compiles) after g)"
    using registry_run_ok(3) assms(6,7) by blast
  have "leaf \<noteq> []" using assms(3) by (auto split: if_splits)
  then have "markless leaf" using assms(4) by (simp add: markless_def)
  then show ?thesis using mask_clean [OF c p _ assms(8)] by blast
qed

theorem pinned_secret_masked_witness:
  "\<not> list_ex (occurs_in ''s3cr3t-key'')
     (texts (snd (mask (\<lambda>_. True) (PList [PStr ''x s3cr3t-key''])
        (fst (register_secret (PStr ''s3cr3t-key'') (Some ''r'') False False new_registry)))))"
proof -
  have w: "snd (register_secret (PStr ''s3cr3t-key'') (Some ''r'') False False new_registry) = []"
    by (simp add: register_secret_def register_leaf_def MIN_SECRET_LENGTH_def)
  show ?thesis
    unfolding list_ex_iff
    using pinned_secret_masked [where v = "PStr ''s3cr3t-key''" and run = "''r''" and explicit = False and declared = False
        and compiles = "\<lambda>_. True" and before = "[]" and after = "[]" and leaf = "''s3cr3t-key''"] w
    by auto
qed

text \<open>C25. The folded pattern finds what the plain alternation of the secrets finds: at every position it
  matches exactly when some secret starts there, and what it matches is the longest such secret. The
  trie, its folding of single children into literals, its greedy optional tails and the fallback for
  deep tries make no difference.\<close>

theorem pattern_finds_longest:
  assumes "pattern_for compiles secrets = Some p"
  shows "pattern_match p s = Some r \<longleftrightarrow>
     (\<exists>w\<in>set secrets. s = w @ r \<and> (\<forall>v\<in>set secrets. starts_with s v \<longrightarrow> length v \<le> length w))"
  using pattern_match_longest [OF assms] .

theorem pattern_finds_longest_witness:
  "pattern_match (the (pattern_for (\<lambda>_. True) [''ab'', ''abc'', ''b''])) ''abcd'' = Some ''d''"
proof -
  have p: "pattern_for (\<lambda>_. True) [''ab'', ''abc'', ''b''] = Some (the (pattern_for (\<lambda>_. True) [''ab'', ''abc'', ''b'']))"
    using pattern_for_Some [of "[''ab'', ''abc'', ''b'']" "\<lambda>_. True"] by auto
  show ?thesis
    using pattern_finds_longest [OF p, of "''abcd''" "''d''"] by simp
qed

end
