(* ===== verification/Trace.thy ===== *)
theory Trace
  imports Masking
begin

text \<open>
  The execution trace: \<^verbatim>\<open>logging/trace.py\<close>.

  \<open>ExecutionTrace\<close> holds the counter, the issued ids and the lines written. The digest of a payload,
  \<open>blake2b\<close> over its JSON text with sorted keys, is the argument \<open>digest\<close>; the registry of secrets
  is read through \<open>compiles\<close> and \<open>g\<close>. The loop that searches a free id ends only if the digest tells
  payloads apart, so \<open>unique_id\<close> is a partial function and \<open>None\<close> means it does not return.
\<close>

section \<open>Ids\<close>

fun jsonable :: "pyval \<Rightarrow> pyval" where
  "jsonable (PDict d) = PDict (map (\<lambda>(k, v). (k, jsonable v)) (filter (\<lambda>(k, v). v \<noteq> PNone) d))"
| "jsonable (PList xs) = PList (map jsonable xs)"
| "jsonable v = v"

definition event_data :: "(regex \<Rightarrow> bool) \<Rightarrow> Registry \<Rightarrow> pyval \<Rightarrow> pyval" where
  "event_data compiles g data = snd (mask compiles (jsonable data) g)"

definition event_digest :: "(pyval \<Rightarrow> string) \<Rightarrow> (regex \<Rightarrow> bool) \<Rightarrow> Registry \<Rightarrow> pyval \<Rightarrow> string" where
  "event_digest digest compiles g data = digest (event_data compiles g data)"

definition written_id :: "(pyval \<Rightarrow> string) \<Rightarrow> string \<Rightarrow> string list \<Rightarrow> string \<Rightarrow> pyval \<Rightarrow> string" where
  "written_id digest tck_id scope event_type payload =
     join_with ''/'' ([if tck_id = [] then ''tck'' else tck_id] @ scope @ [event_type, digest payload])"

definition event_id ::
  "(pyval \<Rightarrow> string) \<Rightarrow> (regex \<Rightarrow> bool) \<Rightarrow> Registry \<Rightarrow> string \<Rightarrow> string list \<Rightarrow> string \<Rightarrow> pyval \<Rightarrow> string" where
  "event_id digest compiles g tck_id scope event_type data =
     written_id digest tck_id scope event_type (event_data compiles g data)"

section \<open>The trace of a run\<close>

definition SOURCE_LIFECYCLE :: string where
  "SOURCE_LIFECYCLE = ''testlab/player/lifecycle''"

record Envelope =
  ev_id :: string
  ev_source :: string
  ev_type :: string
  ev_sequence :: nat
  ev_data :: pyval

record ExecutionTrace =
  et_tck_id :: string
  et_sequence :: nat
  et_issued :: "string set"
  et_lines :: "Envelope list"

definition new_trace :: "string \<Rightarrow> ExecutionTrace" where
  "new_trace tck_id =
     \<lparr>et_tck_id = (if tck_id = [] then ''tck'' else tck_id), et_sequence = 0, et_issued = {}, et_lines = []\<rparr>"

text \<open>\<open>{**payload, "occurrence": n}\<close>; an event's data is a mapping.\<close>

definition with_occurrence :: "nat \<Rightarrow> pyval \<Rightarrow> pyval" where
  "with_occurrence n payload =
     (case payload of PDict d \<Rightarrow> PDict (dict_set ''occurrence'' (PInt (int n)) d) | _ \<Rightarrow> payload)"

partial_function (option) unique_id ::
  "(pyval \<Rightarrow> string) \<Rightarrow> string set \<Rightarrow> nat \<Rightarrow> pyval \<Rightarrow> (pyval \<times> string) option" where
  "unique_id ident issued occurrence payload =
     (if ident payload \<notin> issued then Some (payload, ident payload)
      else unique_id ident issued (occurrence + 1) (with_occurrence (occurrence + 1) payload))"

declare unique_id.simps [code]

definition trace_emit ::
  "(pyval \<Rightarrow> string) \<Rightarrow> (regex \<Rightarrow> bool) \<Rightarrow> Registry \<Rightarrow> string \<Rightarrow> (string, pyval) pydict \<Rightarrow> string \<Rightarrow> string list
   \<Rightarrow> ExecutionTrace \<Rightarrow> (ExecutionTrace \<times> Envelope) option" where
  "trace_emit digest compiles g event_type data source scope t =
     (case unique_id (written_id digest (et_tck_id t) scope event_type) (et_issued t) 1 (event_data compiles g (PDict data)) of
        None \<Rightarrow> None
      | Some (payload, identifier) \<Rightarrow>
          (let envelope = \<lparr>ev_id = identifier, ev_source = source, ev_type = event_type,
                           ev_sequence = et_sequence t + 1, ev_data = payload\<rparr>
           in Some (t\<lparr>et_sequence := et_sequence t + 1, et_issued := insert identifier (et_issued t),
                      et_lines := et_lines t @ [envelope]\<rparr>, envelope)))"

section \<open>What is written is clean\<close>

fun none_free :: "pyval \<Rightarrow> bool" where
  "none_free (PDict d) = list_all (\<lambda>(k, v). v \<noteq> PNone \<and> none_free v) d"
| "none_free (PList xs) = list_all none_free xs"
| "none_free v = True"

lemma jsonable_PNone: "jsonable v = PNone \<longleftrightarrow> v = PNone"
  by (cases v) auto

lemma jsonable_none_free: "none_free (jsonable v)"
  by (induction v) (auto simp: list_all_iff jsonable_PNone)

lemma jsonable_id: "none_free v \<Longrightarrow> jsonable v = v"
proof (induction v)
  case (PList xs)
  then show ?case by (auto simp: list_all_iff intro!: map_idI)
next
  case (PDict d)
  then have "filter (\<lambda>(k, v). v \<noteq> PNone) d = d" by (auto simp: list_all_iff filter_id_conv)
  moreover have "map (\<lambda>(k, v). (k, jsonable v)) d = d"
    using PDict by (fastforce simp: list_all_iff intro!: map_idI)
  ultimately show ?case by simp
qed simp_all

text \<open>The written form of an event has no empty field left at any depth, and writing it again changes
  nothing: whoever recomputes an event's id from the line reads the payload the trace hashed.\<close>

theorem written_form_stable:
  "none_free (jsonable v) \<and> jsonable (jsonable v) = jsonable v"
  by (simp add: jsonable_none_free jsonable_id)

section \<open>Ids are unique and the search for one ends\<close>

lemma unique_id_fresh: "unique_id ident issued n p = Some y \<Longrightarrow> snd y \<notin> issued \<and> snd y = ident (fst y)"
  by (rule unique_id.raw_induct [where P = "\<lambda>ident issued n p y. snd y \<notin> issued \<and> snd y = ident (fst y)"])
    (fastforce split: if_splits)+

lemma unique_id_free: "ident p \<notin> issued \<Longrightarrow> unique_id ident issued n p = Some (p, ident p)"
  by (subst unique_id.simps) simp

lemma unique_id_taken:
  "ident p \<in> issued \<Longrightarrow> unique_id ident issued n p = unique_id ident issued (n + 1) (with_occurrence (n + 1) p)"
  by (subst unique_id.simps) simp

text \<open>The payloads the loop tries, in order.\<close>

definition attempt_payload :: "pyval \<Rightarrow> nat \<Rightarrow> nat \<Rightarrow> pyval" where
  "attempt_payload p n k = (if k = 0 then p else with_occurrence (n + k) p)"

lemma dict_set_twice: "dict_set k v (dict_set k w d) = dict_set k v d"
  by (induction d) auto

lemma with_occurrence_twice: "with_occurrence m (with_occurrence n p) = with_occurrence m p"
  by (simp add: with_occurrence_def dict_set_twice split: pyval.splits)

lemma unique_id_attempts:
  assumes "ident (attempt_payload p n k) \<notin> issued"
  shows "\<exists>r. unique_id ident issued n p = Some r"
  using assms
proof (induction k arbitrary: p n)
  case 0
  then show ?case by (subst unique_id.simps) (simp add: attempt_payload_def)
next
  case (Suc k)
  have "attempt_payload (with_occurrence (n + 1) p) (n + 1) k = attempt_payload p n (Suc k)"
    by (auto simp: attempt_payload_def with_occurrence_twice)
  then have "\<exists>r. unique_id ident issued (n + 1) (with_occurrence (n + 1) p) = Some r"
    using Suc by simp
  then show ?case by (subst unique_id.simps) auto
qed

lemma unique_id_ends:
  assumes "finite issued" and "inj (\<lambda>k. ident (attempt_payload p n k))"
  shows "\<exists>r. unique_id ident issued n p = Some r"
proof -
  have "infinite (range (\<lambda>k. ident (attempt_payload p n k)))"
    using assms(2) by (simp add: finite_image_iff)
  then have "\<not> range (\<lambda>k. ident (attempt_payload p n k)) \<subseteq> issued"
    using assms(1) infinite_super by blast
  then show ?thesis using unique_id_attempts by blast
qed

text \<open>The traces a run reaches, one \<open>emit\<close> after the other; secrets may be registered in between.\<close>

inductive traced :: "(pyval \<Rightarrow> string) \<Rightarrow> (regex \<Rightarrow> bool) \<Rightarrow> ExecutionTrace \<Rightarrow> bool" for digest compiles where
  traced_new: "traced digest compiles (new_trace tck_id)"
| traced_emit: "traced digest compiles t \<Longrightarrow>
    trace_emit digest compiles g event_type data source scope t = Some (u, e) \<Longrightarrow> traced digest compiles u"

definition trace_ok :: "ExecutionTrace \<Rightarrow> bool" where
  "trace_ok t = (et_issued t = set (map ev_id (et_lines t)) \<and> distinct (map ev_id (et_lines t))
     \<and> map ev_sequence (et_lines t) = [1..<Suc (et_sequence t)])"

lemma trace_ok_emit:
  assumes "trace_ok t" and "trace_emit digest compiles g ty data source scope t = Some (u, e)"
  shows "trace_ok u"
proof -
  obtain payload i where "unique_id (written_id digest (et_tck_id t) scope ty) (et_issued t) 1 (event_data compiles g (PDict data))
        = Some (payload, i)"
    and u: "u = t\<lparr>et_sequence := et_sequence t + 1, et_issued := insert i (et_issued t), et_lines := et_lines t @
        [\<lparr>ev_id = i, ev_source = source, ev_type = ty, ev_sequence = et_sequence t + 1, ev_data = payload\<rparr>]\<rparr>"
    using assms(2) by (auto simp: trace_emit_def Let_def split: option.splits prod.splits)
  then have "i \<notin> et_issued t" using unique_id_fresh by fastforce
  then show ?thesis using assms(1) unfolding u trace_ok_def by (auto simp: image_iff)
qed

text \<open>No two events of a trace share an id, and their sequence numbers count from one without a gap, in
  the order of the lines, for every digest function and whatever is traced.\<close>

theorem trace_ids_unique:
  assumes "traced digest compiles t"
  shows "distinct (map ev_id (et_lines t)) \<and> map ev_sequence (et_lines t) = [1..<Suc (length (et_lines t))]"
proof -
  have ok: "trace_ok t" using assms
  proof (induction rule: traced.induct)
    case (traced_new tck_id)
    show ?case by (simp add: trace_ok_def new_trace_def)
  next
    case (traced_emit t g ty data source scope u e)
    then show ?case using trace_ok_emit by blast
  qed
  then have "length (et_lines t) = et_sequence t"
    unfolding trace_ok_def by (metis diff_Suc_1 length_map length_upt)
  then show ?thesis using ok by (simp add: trace_ok_def)
qed

text \<open>Writing an event always ends when the digest tells the occurrences of one payload apart: the search
  for a free id tries at most one payload more than there are issued ids. The result is then the next
  line of the trace.\<close>

theorem trace_emit_returns:
  assumes "finite (et_issued t)"
    and "inj (\<lambda>k. written_id digest (et_tck_id t) scope event_type
                   (attempt_payload (event_data compiles g (PDict data)) 1 k))"
  shows "\<exists>u e. trace_emit digest compiles g event_type data source scope t = Some (u, e) \<and> et_lines u = et_lines t @ [e]"
proof -
  obtain r where "unique_id (written_id digest (et_tck_id t) scope event_type) (et_issued t) 1
      (event_data compiles g (PDict data)) = Some r"
    using unique_id_ends [OF assms] by blast
  then show ?thesis by (cases r) (simp add: trace_emit_def Let_def)
qed

text \<open>For the witnesses: a digest that prints the payload, and no secrets.\<close>

definition demo_emit :: "ExecutionTrace \<Rightarrow> (ExecutionTrace \<times> Envelope) option" where
  "demo_emit = trace_emit (\<lambda>p. [if p = PDict [(''n'', PInt 1)] then CHR ''a'' else CHR ''b'']) (\<lambda>_. True) new_registry
     ''tck.test.start'' [(''n'', PInt 1)] SOURCE_LIFECYCLE [''t1'']"

lemma demo_payload: "event_data (\<lambda>_. True) new_registry (PDict [(''n'', PInt 1)]) = PDict [(''n'', PInt 1)]"
  by (simp add: event_data_def mask_def current_def new_registry_def)

definition demo_line :: "char \<Rightarrow> nat \<Rightarrow> pyval \<Rightarrow> Envelope" where
  "demo_line c n payload = \<lparr>ev_id = ''ccm/t1/tck.test.start/'' @ [c], ev_source = SOURCE_LIFECYCLE,
     ev_type = ''tck.test.start'', ev_sequence = n, ev_data = payload\<rparr>"

definition demo_first :: ExecutionTrace where
  "demo_first = \<lparr>et_tck_id = ''ccm'', et_sequence = 1, et_issued = {''ccm/t1/tck.test.start/a''},
     et_lines = [demo_line (CHR ''a'') 1 (PDict [(''n'', PInt 1)])]\<rparr>"

definition demo_second :: ExecutionTrace where
  "demo_second = \<lparr>et_tck_id = ''ccm'', et_sequence = 2,
     et_issued = {''ccm/t1/tck.test.start/b'', ''ccm/t1/tck.test.start/a''},
     et_lines = [demo_line (CHR ''a'') 1 (PDict [(''n'', PInt 1)]),
                 demo_line (CHR ''b'') 2 (PDict [(''n'', PInt 1), (''occurrence'', PInt 2)])]\<rparr>"

lemmas demo_trace = demo_emit_def trace_emit_def demo_payload new_trace_def written_id_def Let_def demo_line_def

lemma demo_emit_first: "demo_emit (new_trace ''ccm'') = Some (demo_first, last (et_lines demo_first))"
  by (simp add: demo_trace demo_first_def unique_id_free)

lemma demo_emit_second: "demo_emit demo_first = Some (demo_second, last (et_lines demo_second))"
  by (simp add: demo_trace demo_first_def demo_second_def unique_id_taken unique_id_free with_occurrence_def)

theorem trace_ids_unique_witness:
  "distinct (map ev_id (et_lines demo_second)) \<and> map ev_sequence (et_lines demo_second) = [1, 2]"
proof -
  have "traced (\<lambda>p. [if p = PDict [(''n'', PInt 1)] then CHR ''a'' else CHR ''b'']) (\<lambda>_. True) demo_second"
    using traced_emit [OF traced_emit [OF traced_new demo_emit_first [unfolded demo_emit_def]]
        demo_emit_second [unfolded demo_emit_def]] .
  then show ?thesis
    using trace_ids_unique by (fastforce simp: demo_second_def upt_rec)
qed

definition demo_digest :: "pyval \<Rightarrow> string" where
  "demo_digest p = (case p of PDict d \<Rightarrow> (case dict_get d ''occurrence'' of Some (PInt n) \<Rightarrow> replicate (nat n) (CHR ''x'') | _ \<Rightarrow> [])
     | _ \<Rightarrow> [])"

theorem trace_emit_returns_witness:
  "\<exists>u e. trace_emit demo_digest (\<lambda>_. True) new_registry ''tck.start'' [] SOURCE_LIFECYCLE [] (new_trace ''ccm'') = Some (u, e)
     \<and> et_lines u = [e]"
proof -
  have d: "event_data (\<lambda>_. True) new_registry (PDict []) = PDict []"
    by (simp add: event_data_def mask_def current_def new_registry_def)
  have "inj (\<lambda>k. demo_digest (attempt_payload (PDict []) 1 k))"
    by (auto simp: inj_def attempt_payload_def with_occurrence_def demo_digest_def replicate_eq_replicate)
  then have i: "inj (\<lambda>k. written_id demo_digest (et_tck_id (new_trace ''ccm'')) [] ''tck.start''
      (attempt_payload (event_data (\<lambda>_. True) new_registry (PDict [])) 1 k))"
    unfolding d by (simp add: written_id_def new_trace_def inj_def)
  show ?thesis
    using trace_emit_returns [OF _ i, of SOURCE_LIFECYCLE] by (simp add: new_trace_def)
qed

end
