(* ===== verification/Monitor.thy ===== *)
theory Monitor
  imports Checkpoint_Tracker Results Trace
begin

text \<open>
  The engine's event publisher: \<^verbatim>\<open>player/execution/monitor.py\<close> with its halves
  \<^verbatim>\<open>_monitor_steps.py\<close>, \<^verbatim>\<open>_monitor_inbound.py\<close>, \<^verbatim>\<open>_monitor_selection.py\<close> and
  \<^verbatim>\<open>_monitor_checkpoints.py\<close>, the trace it writes through (\<^verbatim>\<open>_trace_publisher.py\<close>,
  \<^verbatim>\<open>_trace_events.py\<close>) and the event models of \<^verbatim>\<open>models/runtime/events.py\<close>.

  The monitor's state is its trace lines, the run's tracker, the counters of \<open>_occurrence\<close> and what it
  handed to its callbacks, in order. A line is named by its sequence number: \<open>trace_emit\<close> of theory
  \<open>Trace\<close> gives line after line an id of its own. The tracker publishes into its own record; what a hook
  added there is what the monitor publishes, in the order it was added. What belongs to other modules
  comes as arguments in \<open>wire_env\<close>: pydantic's dump of a model and the redaction of \<^verbatim>\<open>logging/wire\<close>.
\<close>

section \<open>Events\<close>

record SelectionOption =
  so_id :: string
  so_label :: string
  so_description :: "string option"
  so_details :: "(string, pyval) pydict"

record Selection =
  se_presentation :: string
  se_options :: "SelectionOption list"
  se_action :: pyval

record CallbackResult =
  cb_listener_name :: string
  cb_path :: string
  cb_method :: string
  cb_headers :: pyval
  cb_query_params :: pyval
  cb_payload :: pyval
  cb_received_at :: "string option"
  cb_timed_out :: bool
  cb_refused :: "string option"
  cb_response :: "pyval option"

text \<open>The fields every step event shares.\<close>

record StepEventBase =
  se_job_id :: string
  se_test_id :: string
  se_step_id :: "string option"
  se_attempt :: nat
  se_checkpoint :: "CheckpointRef option"

datatype ExecutionEvent =
    JobStartedEvent string string
  | JobPausedEvent string nat
  | JobResumedEvent string nat
  | JobHeldEvent string "string list" "(string \<times> string) list" nat
  | JobRestoredEvent string "string list" "(string \<times> string) list" nat
  | JobCompletedEvent string
  | JobFailedEvent string "string option"
  | JobCancelledEvent string
  | TestStartedEvent string string nat nat
  | TestCompletedEvent string TestResult nat
  | TestAwaitingEvent string string nat nat
  | StepStartedEvent StepEventBase nat string string string "(string \<times> pyval) list option"
  | StepCallEvent StepEventBase string nat HttpExchange
  | StepCompletedEvent StepEventBase StepResult
  | StepFailedEvent StepEventBase StepResult
  | StepSkippedEvent StepEventBase StepResult
  | StepListeningEvent StepEventBase string pyval
  | StepWaitingEvent StepEventBase string pyval int nat
  | StepSuspendedEvent StepEventBase string pyval int int nat
  | StepReceivedEvent StepEventBase string pyval CallbackResult int
  | StepSelectingEvent StepEventBase string Selection int nat
  | StepSelectedEvent StepEventBase string SelectionOption int
  | AssertionResultEvent StepEventBase string nat AssertionResult
  | CheckpointsPlannedEvent string "CheckpointStatus list"
  | CheckpointUpdatedEvent string nat nat "Cause option" CheckpointStatus

fun event_kind :: "ExecutionEvent \<Rightarrow> string" where
  "event_kind (JobStartedEvent _ _) = ''job_started''"
| "event_kind (JobPausedEvent _ _) = ''job_paused''"
| "event_kind (JobResumedEvent _ _) = ''job_resumed''"
| "event_kind (JobHeldEvent _ _ _ _) = ''job_held''"
| "event_kind (JobRestoredEvent _ _ _ _) = ''job_restored''"
| "event_kind (JobCompletedEvent _) = ''job_completed''"
| "event_kind (JobFailedEvent _ _) = ''job_failed''"
| "event_kind (JobCancelledEvent _) = ''job_cancelled''"
| "event_kind (TestStartedEvent _ _ _ _) = ''test_started''"
| "event_kind (TestCompletedEvent _ _ _) = ''test_completed''"
| "event_kind (TestAwaitingEvent _ _ _ _) = ''test_awaiting''"
| "event_kind (StepStartedEvent _ _ _ _ _ _) = ''step_started''"
| "event_kind (StepCallEvent _ _ _ _) = ''step_call''"
| "event_kind (StepCompletedEvent _ _) = ''step_completed''"
| "event_kind (StepFailedEvent _ _) = ''step_failed''"
| "event_kind (StepSkippedEvent _ _) = ''step_skipped''"
| "event_kind (StepListeningEvent _ _ _) = ''step_listening''"
| "event_kind (StepWaitingEvent _ _ _ _ _) = ''step_waiting''"
| "event_kind (StepSuspendedEvent _ _ _ _ _ _) = ''step_suspended''"
| "event_kind (StepReceivedEvent _ _ _ _ _) = ''step_received''"
| "event_kind (StepSelectingEvent _ _ _ _ _) = ''step_selecting''"
| "event_kind (StepSelectedEvent _ _ _ _) = ''step_selected''"
| "event_kind (AssertionResultEvent _ _ _ _) = ''assertion_result''"
| "event_kind (CheckpointsPlannedEvent _ _) = ''checkpoints_planned''"
| "event_kind (CheckpointUpdatedEvent _ _ _ _ _) = ''checkpoint_updated''"

text \<open>\<open>kind.replace("_", ".", 1)\<close>.\<close>

fun wire_name :: "string \<Rightarrow> string" where
  "wire_name [] = []"
| "wire_name (c # s) = (if c = CHR ''_'' then CHR ''.'' # s else c # wire_name s)"

section \<open>Trace lines\<close>

record wire_env =
  we_dump_status :: "CheckpointStatus \<Rightarrow> pyval"
  we_dump_ref :: "CheckpointRef \<Rightarrow> pyval"
  we_as_recorded :: "StepResult \<Rightarrow> StepResult"
  we_redact :: "pyval \<Rightarrow> pyval"
  we_safe_headers :: "pyval \<Rightarrow> pyval"
  we_redact_answer :: "pyval \<Rightarrow> pyval"

record TraceLine =
  tl_type :: string
  tl_data :: "(string, pyval) pydict"
  tl_source :: string
  tl_scope :: "string list"

record TracePublisher =
  tp_tracing :: bool
  tp_lines :: "TraceLine list"

definition last_sequence :: "TracePublisher \<Rightarrow> nat option" where
  "last_sequence p = (if tp_lines p = [] then None else Some (length (tp_lines p)))"

definition envelope :: "TracePublisher \<Rightarrow> nat option \<Rightarrow> TraceLine option" where
  "envelope p eid = (if eid = None \<or> eid \<noteq> last_sequence p then None else Some (last (tp_lines p)))"

definition publisher_emit ::
  "string \<Rightarrow> (string, pyval) pydict \<Rightarrow> string \<Rightarrow> string list \<Rightarrow> TracePublisher \<Rightarrow> TracePublisher \<times> nat option" where
  "publisher_emit event_type data source scope p =
     (if \<not> tp_tracing p then (p, None)
      else (p\<lparr>tp_lines := tp_lines p @ [\<lparr>tl_type = event_type, tl_data = data,
                tl_source = (if source = [] then SOURCE_LIFECYCLE else source), tl_scope = scope\<rparr>]\<rparr>,
            Some (Suc (length (tp_lines p)))))"

definition pstr_opt :: "string option \<Rightarrow> pyval" where
  "pstr_opt s = (case s of None \<Rightarrow> PNone | Some t \<Rightarrow> PStr t)"

definition pstrs :: "string list \<Rightarrow> pyval" where
  "pstrs ss = PList (map PStr ss)"

definition pnat :: "nat \<Rightarrow> pyval" where
  "pnat n = PInt (int n)"

definition error_entry :: "string \<Rightarrow> string \<Rightarrow> bool \<Rightarrow> pyval" where
  "error_entry code message retryable =
     PDict [(''code'', PStr code), (''message'', PStr message), (''retryable'', PBool retryable)]"

definition run_started :: "string \<Rightarrow> string \<Rightarrow> TracePublisher \<Rightarrow> TracePublisher \<times> nat option" where
  "run_started job_id tck_id = publisher_emit ''tck.start'' [(''tck_id'', PStr tck_id), (''run_id'', PStr job_id)] SOURCE_LIFECYCLE []"

definition run_ended :: "string \<Rightarrow> string \<Rightarrow> string option \<Rightarrow> TracePublisher \<Rightarrow> TracePublisher \<times> nat option" where
  "run_ended job_id status error =
     publisher_emit ''tck.end''
       ([(''status'', PStr status), (''run_id'', PStr job_id)]
        @ (case error of None \<Rightarrow> [] | Some e \<Rightarrow> if e = [] then [] else [(''errors'', PList [error_entry ''RUN_FAILED'' e False])]))
       SOURCE_LIFECYCLE []"

definition pstr_dict :: "(string \<times> string) list \<Rightarrow> pyval" where
  "pstr_dict d = PDict (map (\<lambda>(k, v). (k, PStr v)) d)"

definition run_held ::
  "string list \<Rightarrow> (string \<times> string) list \<Rightarrow> nat \<Rightarrow> TracePublisher \<Rightarrow> TracePublisher \<times> nat option" where
  "run_held withdrawn kept occurrence =
     publisher_emit ''tck.held'' ([(''withdrawn'', pstrs withdrawn), (''occurrence'', pnat occurrence)]
       @ (if kept = [] then [] else [(''kept'', pstr_dict kept)])) SOURCE_LIFECYCLE []"

definition run_restored ::
  "string list \<Rightarrow> (string \<times> string) list \<Rightarrow> nat \<Rightarrow> TracePublisher \<Rightarrow> TracePublisher \<times> nat option" where
  "run_restored restored lost occurrence =
     publisher_emit ''tck.restored'' ([(''restored'', pstrs restored), (''occurrence'', pnat occurrence)]
       @ (if lost = [] then [] else [(''lost'', pstr_dict lost)])) SOURCE_LIFECYCLE []"

definition SOURCE_CHECKPOINTS :: string where
  "SOURCE_CHECKPOINTS = ''testlab/player/checkpoints''"

definition trace_checkpoints_planned :: "(string, pyval) pydict \<Rightarrow> TracePublisher \<Rightarrow> TracePublisher \<times> nat option" where
  "trace_checkpoints_planned data = publisher_emit ''checkpoints.planned'' data SOURCE_CHECKPOINTS [''checkpoints'']"

definition trace_checkpoint_updated :: "nat \<Rightarrow> (string, pyval) pydict \<Rightarrow> TracePublisher \<Rightarrow> TracePublisher \<times> nat option" where
  "trace_checkpoint_updated index data =
     publisher_emit ''checkpoint.updated'' data SOURCE_CHECKPOINTS [''checkpoints'', nat_text index]"

definition trace_test_started :: "string \<Rightarrow> nat \<Rightarrow> nat \<Rightarrow> TracePublisher \<Rightarrow> TracePublisher \<times> nat option" where
  "trace_test_started test index attempt =
     publisher_emit ''tck.test.start'' ([(''test_id'', PStr test), (''index'', pnat index)]
       @ (if 1 < attempt then [(''attempt'', pnat attempt)] else [])) SOURCE_LIFECYCLE [test]"

definition trace_test_awaiting :: "string \<Rightarrow> nat \<Rightarrow> nat \<Rightarrow> TracePublisher \<Rightarrow> TracePublisher \<times> nat option" where
  "trace_test_awaiting test index occurrence =
     publisher_emit ''tck.test.awaiting'' ([(''test_id'', PStr test), (''index'', pnat index)]
       @ (if 1 < occurrence then [(''occurrence'', pnat occurrence)] else [])) SOURCE_LIFECYCLE [test]"

section \<open>The trace's vocabulary\<close>

definition step_event_type :: "StepStatus \<Rightarrow> string" where
  "step_event_type s = (case s of Step_PASSED \<Rightarrow> ''tck.test.step.passed'' | Step_SKIPPED \<Rightarrow> ''tck.test.step.skipped''
     | _ \<Rightarrow> ''tck.test.step.failed'')"

definition test_event_type :: "TestStatus \<Rightarrow> string" where
  "test_event_type s = (case s of Test_COMPLETED \<Rightarrow> ''tck.test.passed'' | Test_SKIPPED \<Rightarrow> ''tck.test.skipped''
     | _ \<Rightarrow> ''tck.test.failed'')"

definition with_get :: "Assertion \<Rightarrow> string \<Rightarrow> pyval" where
  "with_get a k = (case as_with a of None \<Rightarrow> PNone | Some d \<Rightarrow> (case dict_get d k of None \<Rightarrow> PNone | Some v \<Rightarrow> v))"

definition last_segment :: "string \<Rightarrow> string" where
  "last_segment s = last (split_on (CHR ''/'') s)"

definition or_list :: "'a list option \<Rightarrow> 'a list \<Rightarrow> 'a list" where
  "or_list a b = (case a of None \<Rightarrow> b | Some xs \<Rightarrow> if xs = [] then b else xs)"

definition validation_of :: "AssertionResult \<Rightarrow> string list \<Rightarrow> pyval" where
  "validation_of r step_cac =
     (let declared = ar_assertion r;
          inp = with_get declared ''input'';
          path = with_get declared ''path'';
          field0 = (if truthy inp then py_str inp else []);
          field = (if truthy path then (if field0 \<noteq> [] then field0 @ ''.'' @ py_str path else py_str path) else field0);
          operator = with_get declared ''operator'';
          assertion = (if truthy operator then operator else PStr (last_segment (as_uses declared)));
          inputs = (''assertion'', assertion) # (if ar_expected r = PNone then [] else [(''expected'', ar_expected r)]);
          cac = or_list (as_cac declared) (if ar_step_cac r = [] then step_cac else ar_step_cac r);
          message = (if ar_message r = [] then py_str assertion @ '' did not hold for '' @ [CHR 0x27] @ field @ [CHR 0x27]
                     else ar_message r)
      in PDict ([(''source'', PStr (as_uses declared)), (''field'', PStr field), (''inputs'', PDict inputs),
                 (''outputs'', PDict [(''actual'', ar_actual r), (''passed'', PBool (ar_passed r))])]
                @ (if ar_step_path r = [] then [] else [(''step'', pstrs (ar_step_path r))])
                @ (if cac = [] then [] else [(''cac'', pstrs cac)])
                @ (if ar_passed r then []
                   else [(''errors'', PList [PDict [(''code'', PStr ''ASSERTION_FAILED''), (''message'', PStr message),
                          (''severity'', PStr (if ar_severity r = HARD then ''HARD'' else ''SOFT'')),
                          (''retryable'', PBool False)]])])))"

definition nonempty :: "string option \<Rightarrow> string option" where
  "nonempty s = (case s of None \<Rightarrow> None | Some t \<Rightarrow> if t = [] then None else Some t)"

definition errors_of :: "StepResult \<Rightarrow> pyval list" where
  "errors_of r =
     (case nonempty (sr_error r) of
        None \<Rightarrow> []
      | Some e \<Rightarrow>
          (let fault = starts_with e ENGINE_FAULT_PREFIX;
               code = (case nonempty (sr_error_code r) of Some c \<Rightarrow> c
                       | None \<Rightarrow> if fault then ''ENGINE_FAULT'' else ''STEP_FAILED'');
               message = (if fault then drop (length ENGINE_FAULT_PREFIX) e else e);
               origin = (case nonempty (sr_error_origin r) of Some c \<Rightarrow> c | None \<Rightarrow> if fault then ''engine'' else ''sut'')
           in [PDict ([(''code'', PStr code), (''message'', PStr message), (''retryable'', PBool False), (''origin'', PStr origin)]
                 @ (case sr_error_context r of None \<Rightarrow> [] | Some c \<Rightarrow> if c = [] then [] else [(''context'', PDict c)]))]))"

definition outputs_of :: "StepResult \<Rightarrow> pyval" where
  "outputs_of r = (case sr_output r of PNone \<Rightarrow> PNone | PDict d \<Rightarrow> PDict d | v \<Rightarrow> PDict [(''value'', v)])"

definition step_data :: "StepResult \<Rightarrow> (string, pyval) pydict" where
  "step_data r =
     [(''attempt'', PInt 1), (''duration_ms'', PInt (case sr_duration_s r of None \<Rightarrow> 0 | Some n \<Rightarrow> n)),
      (''outputs'', outputs_of r), (''validations'', PList (map (\<lambda>a. validation_of a (sr_cac r)) (sr_assertions r)))]
     @ (if sr_cac r = [] then [] else [(''cac'', pstrs (sr_cac r))])
     @ (case sr_inputs r of None \<Rightarrow> [] | Some d \<Rightarrow> if d = [] then [] else [(''inputs'', PDict d)])
     @ (if errors_of r = [] then [] else [(''errors'', PList (errors_of r))])"

definition call_data :: "nat \<Rightarrow> HttpExchange \<Rightarrow> (string, pyval) pydict" where
  "call_data index call =
     [(''index'', pnat index), (''context'', pstr_opt (hx_context call)), (''started_at'', pstr_opt (hx_started_at call)),
      (''request'', hx_request call)]
     @ (case hx_response call of None \<Rightarrow> [] | Some v \<Rightarrow> [(''response'', v)])
     @ (case nonempty (hx_error call) of None \<Rightarrow> []
        | Some e \<Rightarrow> [(''errors'', PList [error_entry ''TRANSPORT_FAILED'' e True])])"

definition test_data :: "TestResult \<Rightarrow> (string, pyval) pydict" where
  "test_data r =
     (let s = tr_assertion_summary r;
          errors = (if tr_status r = Test_CANCELLED
                    then [error_entry ''TEST_CANCELLED'' ''The run was interrupted in this test, which verified nothing.'' False]
                    else [])
                   @ (case nonempty (tr_error r) of None \<Rightarrow> [] | Some e \<Rightarrow> [error_entry ''TEST_FAILED'' e False])
      in [(''test_id'', PStr (if tr_test_id r = [] then tr_test_name r else tr_test_id r)),
          (''duration_ms'', PInt (case tr_total_duration_s r of None \<Rightarrow> 0 | Some n \<Rightarrow> n)),
          (''assertions'', PDict [(''declared'', pnat (su_declared s)), (''total'', pnat (su_total s)),
             (''passed'', pnat (su_passed s)), (''failed_hard'', pnat (su_failed_hard s)), (''failed_soft'', pnat (su_failed_soft s))]),
          (''passed'', pnat (su_passed s)), (''failed'', pnat (su_failed_hard s + su_failed_soft s))]
         @ (if tr_status r = Test_CANCELLED then [(''status'', PStr ''CANCELLED'')] else [])
         @ (if errors = [] then [] else [(''errors'', PList errors)]))"

definition trace_test_ended :: "TestResult \<Rightarrow> nat \<Rightarrow> TracePublisher \<Rightarrow> TracePublisher \<times> nat option" where
  "trace_test_ended r attempt =
     publisher_emit (test_event_type (tr_status r)) (test_data r @ (if 1 < attempt then [(''attempt'', pnat attempt)] else []))
       SOURCE_LIFECYCLE [if tr_test_id r = [] then tr_test_name r else tr_test_id r]"

definition or_text :: "string option \<Rightarrow> string \<Rightarrow> string" where
  "or_text s t = (case nonempty s of None \<Rightarrow> t | Some u \<Rightarrow> u)"

definition trace_step_started ::
  "string \<Rightarrow> string option \<Rightarrow> nat \<Rightarrow> string \<Rightarrow> string \<Rightarrow> (string \<times> pyval) list option \<Rightarrow> (string, pyval) pydict
   \<Rightarrow> TracePublisher \<Rightarrow> TracePublisher \<times> nat option" where
  "trace_step_started test step_id step_index step_type phase inputs marks =
     publisher_emit ''tck.test.step.start''
       (marks @ [(''index'', pnat step_index), (''phase'', PStr phase)]
        @ (case inputs of None \<Rightarrow> [] | Some d \<Rightarrow> if d = [] then [] else [(''inputs'', PDict d)]))
       step_type [test, phase, or_text step_id (nat_text step_index)]"

definition step_scope :: "string \<Rightarrow> string \<Rightarrow> string option \<Rightarrow> string \<Rightarrow> string list" where
  "step_scope test phase step_id step_type = [test, phase, or_text step_id (last_segment step_type)]"

text \<open>\<open>{**a, **b}\<close>.\<close>

definition dict_merge :: "(string, pyval) pydict \<Rightarrow> (string, pyval) pydict \<Rightarrow> (string, pyval) pydict" where
  "dict_merge a b = fold (\<lambda>(k, v) d. dict_set k v d) b a"

definition trace_step_call ::
  "string \<Rightarrow> string option \<Rightarrow> string \<Rightarrow> string \<Rightarrow> nat \<Rightarrow> HttpExchange \<Rightarrow> (string, pyval) pydict
   \<Rightarrow> TracePublisher \<Rightarrow> TracePublisher \<times> nat option" where
  "trace_step_call test step_id step_type phase index call marks =
     publisher_emit ''tck.test.step.call'' (dict_merge marks (call_data index call)) step_type
       (step_scope test phase step_id step_type @ [''calls'', nat_text index])"

definition phase_label :: "StepPhase \<Rightarrow> string" where
  "phase_label p = (case p of Phase_SETUP \<Rightarrow> ''setup'' | Phase_EXECUTION \<Rightarrow> ''execution'' | Phase_TEARDOWN \<Rightarrow> ''teardown'')"

definition trace_step_ended ::
  "string \<Rightarrow> string option \<Rightarrow> StepResult \<Rightarrow> (string, pyval) pydict \<Rightarrow> TracePublisher \<Rightarrow> TracePublisher \<times> nat option" where
  "trace_step_ended test step_id r marks =
     publisher_emit (step_event_type (sr_status r)) (dict_merge (step_data r) marks) (sr_step_type r)
       [test, phase_label (sr_phase r), or_text step_id (sr_step_name r)]"

definition trace_step_event ::
  "string \<Rightarrow> string \<Rightarrow> string option \<Rightarrow> string \<Rightarrow> string \<Rightarrow> (string, pyval) pydict \<Rightarrow> (string, pyval) pydict
   \<Rightarrow> TracePublisher \<Rightarrow> TracePublisher \<times> nat option" where
  "trace_step_event event_type test step_id step_type phase data marks =
     publisher_emit event_type (dict_merge marks data) step_type (step_scope test phase step_id step_type)"

definition received_data :: "pyval \<Rightarrow> CallbackResult \<Rightarrow> int \<Rightarrow> (string, pyval) pydict" where
  "received_data listener request waited_ms =
     [(''listener'', listener),
      (''request'', PDict [(''method'', PStr (cb_method request)), (''path'', PStr (cb_path request)),
         (''headers'', cb_headers request), (''query_params'', cb_query_params request), (''body'', cb_payload request)]),
      (''received_at'', pstr_opt (cb_received_at request)), (''waited_ms'', PInt waited_ms)]
     @ (case cb_response request of None \<Rightarrow> [] | Some v \<Rightarrow> [(''response'', v)])
     @ (case nonempty (cb_refused request) of None \<Rightarrow> [] | Some s \<Rightarrow> [(''refused'', PStr s)])"

section \<open>The monitor\<close>

record Monitor =
  mo_trace :: TracePublisher
  mo_checkpoints :: "Tracker option"
  mo_occurrences :: "(string list, nat) pydict"
  mo_dispatched :: "(string \<times> ExecutionEvent \<times> TraceLine option) list"

definition new_monitor :: "bool \<Rightarrow> Monitor" where
  "new_monitor tracing = \<lparr>mo_trace = \<lparr>tp_tracing = tracing, tp_lines = []\<rparr>, mo_checkpoints = None,
     mo_occurrences = [], mo_dispatched = []\<rparr>"

text \<open>\<open>_publish\<close>: the event goes out under its wire name, with the line it was traced as.\<close>

definition publish :: "ExecutionEvent \<Rightarrow> nat option \<Rightarrow> Monitor \<Rightarrow> Monitor" where
  "publish event eid m =
     m\<lparr>mo_dispatched := mo_dispatched m @
         [(wire_name (event_kind event), event,
           if event_kind event = ''assertion_result'' then None else envelope (mo_trace m) eid)]\<rparr>"

definition traced_publish ::
  "(TracePublisher \<Rightarrow> TracePublisher \<times> nat option) \<Rightarrow> ExecutionEvent \<Rightarrow> Monitor \<Rightarrow> Monitor" where
  "traced_publish emit event m =
     (let (p, eid) = emit (mo_trace m) in publish event eid (m\<lparr>mo_trace := p\<rparr>))"

definition on_checkpoints_planned :: "wire_env \<Rightarrow> string \<Rightarrow> CheckpointStatus list \<Rightarrow> Monitor \<Rightarrow> Monitor" where
  "on_checkpoints_planned env job_id checkpoints =
     traced_publish (trace_checkpoints_planned [(''kind'', PStr ''checkpoints_planned''),
         (''checkpoints'', PList (map (we_dump_status env) checkpoints))])
       (CheckpointsPlannedEvent job_id checkpoints)"

definition on_checkpoint_updated ::
  "wire_env \<Rightarrow> string \<Rightarrow> nat \<Rightarrow> nat \<Rightarrow> Cause option \<Rightarrow> CheckpointStatus \<Rightarrow> Monitor \<Rightarrow> Monitor" where
  "on_checkpoint_updated env job_id index revision cause checkpoint =
     traced_publish (trace_checkpoint_updated index
         [(''kind'', PStr ''checkpoint_updated''), (''index'', pnat index), (''revision'', pnat revision),
          (''cause'', case cause of None \<Rightarrow> PNone | Some c \<Rightarrow> PStr (cause_kind c)),
          (''cause_sequence'', case cause of None \<Rightarrow> PNone
             | Some c \<Rightarrow> (case cause_sequence c of None \<Rightarrow> PNone | Some n \<Rightarrow> PInt n)),
          (''checkpoint'', we_dump_status env checkpoint)])
       (CheckpointUpdatedEvent job_id index revision cause checkpoint)"

fun publish_checkpoint :: "wire_env \<Rightarrow> string \<Rightarrow> published_event \<Rightarrow> Monitor \<Rightarrow> Monitor" where
  "publish_checkpoint env job_id (Planned cs) = on_checkpoints_planned env job_id cs"
| "publish_checkpoint env job_id (Updated i revision cause c) = on_checkpoint_updated env job_id i revision cause c"

text \<open>\<open>_follow\<close>: the tracker's hook runs, and the tracker publishes through this monitor.\<close>

definition follow :: "wire_env \<Rightarrow> string \<Rightarrow> (Tracker \<Rightarrow> Tracker) \<Rightarrow> Monitor \<Rightarrow> Monitor" where
  "follow env job_id hook m =
     (case mo_checkpoints m of
        None \<Rightarrow> m
      | Some t \<Rightarrow>
          (let u = hook t
           in fold (publish_checkpoint env job_id) (drop (length (t_published t)) (t_published u)) (m\<lparr>mo_checkpoints := Some u\<rparr>)))"

definition follow_checkpoints :: "wire_env \<Rightarrow> string \<Rightarrow> PlannedCheckpoint list \<Rightarrow> PlannedCheckpoint list \<Rightarrow> Monitor \<Rightarrow> Monitor" where
  "follow_checkpoints env job_id kept left_out m =
     follow env job_id plan (m\<lparr>mo_checkpoints := Some (init_tracker kept True left_out)\<rparr>)"

definition monitor_cause :: "string \<Rightarrow> Monitor \<Rightarrow> Cause" where
  "monitor_cause kind m = \<lparr>cause_kind = kind, cause_sequence = map_option int (last_sequence (mo_trace m))\<rparr>"

definition monitor_marks :: "Monitor \<Rightarrow> nat \<times> CheckpointRef option \<times> nat" where
  "monitor_marks m =
     (case mo_checkpoints m of
        None \<Rightarrow> (1, None, 0)
      | Some t \<Rightarrow> (case current_frame t of None \<Rightarrow> (1, None, 0) | Some f \<Rightarrow> (f_attempt f, ref t, f_pauses f)))"

definition trace_marks :: "wire_env \<Rightarrow> nat \<times> CheckpointRef option \<times> nat \<Rightarrow> (string, pyval) pydict" where
  "trace_marks env marks =
     (let (attempt, r, pauses) = marks
      in [(''attempt'', pnat attempt)] @ (case r of None \<Rightarrow> [] | Some c \<Rightarrow> [(''checkpoint'', we_dump_ref env c)])
         @ (if pauses = 0 then [] else [(''pauses'', pnat pauses)]))"

definition occurrence :: "string list \<Rightarrow> Monitor \<Rightarrow> Monitor \<times> nat" where
  "occurrence key m =
     (let n = Suc (case dict_get (mo_occurrences m) key of None \<Rightarrow> 0 | Some k \<Rightarrow> k)
      in (m\<lparr>mo_occurrences := dict_set key n (mo_occurrences m)\<rparr>, n))"

definition step_base :: "string \<Rightarrow> string \<Rightarrow> string option \<Rightarrow> Monitor \<Rightarrow> StepEventBase" where
  "step_base job_id test step_id m =
     (let (attempt, r, pauses) = monitor_marks m
      in \<lparr>se_job_id = job_id, se_test_id = test, se_step_id = step_id, se_attempt = attempt, se_checkpoint = r\<rparr>)"

definition monitor_pauses :: "Monitor \<Rightarrow> nat" where
  "monitor_pauses m = snd (snd (monitor_marks m))"

section \<open>Job and test lifecycle\<close>

definition on_job_started :: "string \<Rightarrow> string \<Rightarrow> Monitor \<Rightarrow> Monitor" where
  "on_job_started job_id tck_id = traced_publish (run_started job_id tck_id) (JobStartedEvent job_id tck_id)"

definition on_job_paused :: "string \<Rightarrow> Monitor \<Rightarrow> Monitor" where
  "on_job_paused job_id m = (let (m1, n) = occurrence [''job_paused'', job_id] m in publish (JobPausedEvent job_id n) None m1)"

definition on_job_resumed :: "string \<Rightarrow> Monitor \<Rightarrow> Monitor" where
  "on_job_resumed job_id m = (let (m1, n) = occurrence [''job_resumed'', job_id] m in publish (JobResumedEvent job_id n) None m1)"

definition on_job_held :: "string \<Rightarrow> string list \<Rightarrow> (string \<times> string) list \<Rightarrow> Monitor \<Rightarrow> Monitor" where
  "on_job_held job_id withdrawn kept m =
     (let (m1, n) = occurrence [''job_held'', job_id] m
      in traced_publish (run_held withdrawn kept n) (JobHeldEvent job_id withdrawn kept n) m1)"

definition on_job_restored :: "string \<Rightarrow> string list \<Rightarrow> (string \<times> string) list \<Rightarrow> Monitor \<Rightarrow> Monitor" where
  "on_job_restored job_id restored lost m =
     (let (m1, n) = occurrence [''job_restored'', job_id] m
      in traced_publish (run_restored restored lost n) (JobRestoredEvent job_id restored lost n) m1)"

definition followed ::
  "wire_env \<Rightarrow> string \<Rightarrow> ExecutionEvent \<Rightarrow> (Cause \<Rightarrow> Tracker \<Rightarrow> Tracker) \<Rightarrow> Monitor \<Rightarrow> Monitor" where
  "followed env job_id event hook m = follow env job_id (hook (monitor_cause (event_kind event) m)) m"

definition on_job_completed :: "wire_env \<Rightarrow> string \<Rightarrow> Monitor \<Rightarrow> Monitor" where
  "on_job_completed env job_id m =
     (let e = JobCompletedEvent job_id
      in followed env job_id e job_ended (traced_publish (run_ended job_id ''PASSED'' None) e m))"

definition on_job_failed :: "wire_env \<Rightarrow> string \<Rightarrow> string option \<Rightarrow> Monitor \<Rightarrow> Monitor" where
  "on_job_failed env job_id error m =
     (let e = JobFailedEvent job_id error
      in followed env job_id e job_ended (traced_publish (run_ended job_id ''FAILED'' error) e m))"

definition on_job_cancelled :: "wire_env \<Rightarrow> string \<Rightarrow> Monitor \<Rightarrow> Monitor" where
  "on_job_cancelled env job_id m =
     (let e = JobCancelledEvent job_id
      in followed env job_id e job_ended (traced_publish (run_ended job_id ''CANCELLED'' None) e m))"

definition on_test_started :: "wire_env \<Rightarrow> string \<Rightarrow> string \<Rightarrow> nat \<Rightarrow> nat \<Rightarrow> bool \<Rightarrow> Monitor \<Rightarrow> Monitor" where
  "on_test_started env job_id test index attempt skipped m =
     (let e = TestStartedEvent job_id test index attempt;
          m1 = traced_publish (trace_test_started test index attempt) e m
      in if skipped then m1 else followed env job_id e (test_started test) m1)"

definition on_test_awaiting :: "string \<Rightarrow> string \<Rightarrow> nat \<Rightarrow> Monitor \<Rightarrow> Monitor" where
  "on_test_awaiting job_id test index m =
     (let (m1, n) = occurrence [''test_awaiting'', job_id, test] m
      in traced_publish (trace_test_awaiting test index n) (TestAwaitingEvent job_id test index n) m1)"

definition on_test_completed :: "wire_env \<Rightarrow> string \<Rightarrow> TestResult \<Rightarrow> nat \<Rightarrow> bool \<Rightarrow> Monitor \<Rightarrow> Monitor" where
  "on_test_completed env job_id result attempt cancelled m =
     (let e = TestCompletedEvent job_id (result\<lparr>tr_execution := map (we_as_recorded env) (tr_execution result)\<rparr>) attempt;
          test_id = (if tr_test_id result = [] then tr_test_name result else tr_test_id result)
      in followed env job_id e (\<lambda>c. test_ended test_id (tr_status result) c cancelled)
           (traced_publish (trace_test_ended result attempt) e m))"

section \<open>Step lifecycle\<close>

definition on_step_started ::
  "wire_env \<Rightarrow> string \<Rightarrow> string \<Rightarrow> string option \<Rightarrow> nat \<Rightarrow> string \<Rightarrow> string \<Rightarrow> string \<Rightarrow> (string \<times> pyval) list option
   \<Rightarrow> Monitor \<Rightarrow> Monitor" where
  "on_step_started env job_id test step_id step_index step_type step_name phase inputs0 m =
     (let inputs = map_option (\<lambda>d. case we_redact env (PDict d) of PDict e \<Rightarrow> e | _ \<Rightarrow> []) inputs0
      in traced_publish (trace_step_started test step_id step_index step_type phase inputs (trace_marks env (monitor_marks m)))
           (StepStartedEvent (step_base job_id test step_id m) step_index step_type step_name phase inputs) m)"

definition on_step_call ::
  "wire_env \<Rightarrow> string \<Rightarrow> string \<Rightarrow> string option \<Rightarrow> string \<Rightarrow> string \<Rightarrow> nat \<Rightarrow> HttpExchange \<Rightarrow> Monitor \<Rightarrow> Monitor" where
  "on_step_call env job_id test step_id step_type phase index call m =
     traced_publish (trace_step_call test step_id step_type phase index call (trace_marks env (monitor_marks m)))
       (StepCallEvent (step_base job_id test step_id m) step_type index call) m"

definition step_outcome_event :: "StepEventBase \<Rightarrow> StepStatus \<Rightarrow> StepResult \<Rightarrow> ExecutionEvent" where
  "step_outcome_event base status written =
     (case status of Step_FAILED \<Rightarrow> StepFailedEvent base written | Step_SKIPPED \<Rightarrow> StepSkippedEvent base written
      | _ \<Rightarrow> StepCompletedEvent base written)"

definition on_step_completed ::
  "wire_env \<Rightarrow> string \<Rightarrow> string \<Rightarrow> string option \<Rightarrow> StepResult \<Rightarrow> bool \<Rightarrow> int \<Rightarrow> Monitor \<Rightarrow> Monitor" where
  "on_step_completed env job_id test step_id result cancelled now m =
     (let written = we_as_recorded env result;
          base = step_base job_id test step_id m;
          (p, eid) = trace_step_ended test step_id written (trace_marks env (monitor_marks m)) (mo_trace m);
          m1 = m\<lparr>mo_trace := p\<rparr>;
          m2 = fold (\<lambda>(i, a). publish (AssertionResultEvent base (sr_step_name result) i a) eid)
                 (enumerate 0 (sr_assertions written)) m1;
          e = step_outcome_event base (sr_status result) written
      in followed env job_id e (\<lambda>c. ended (sr_status result) (Some c) cancelled now) (publish e eid m2))"

definition on_step_listening ::
  "wire_env \<Rightarrow> string \<Rightarrow> string \<Rightarrow> string option \<Rightarrow> string \<Rightarrow> string \<Rightarrow> pyval \<Rightarrow> Monitor \<Rightarrow> Monitor" where
  "on_step_listening env job_id test step_id step_type phase listener m =
     traced_publish (trace_step_event ''tck.test.step.listening'' test step_id step_type phase
         [(''listener'', listener)] (trace_marks env (monitor_marks m)))
       (StepListeningEvent (step_base job_id test step_id m) step_type listener) m"

definition on_step_waiting ::
  "wire_env \<Rightarrow> string \<Rightarrow> string \<Rightarrow> string option \<Rightarrow> string \<Rightarrow> string \<Rightarrow> pyval \<Rightarrow> int \<Rightarrow> int \<Rightarrow> Monitor \<Rightarrow> Monitor" where
  "on_step_waiting env job_id test step_id step_type phase listener timeout_s now m =
     (let e = StepWaitingEvent (step_base job_id test step_id m) step_type listener timeout_s (monitor_pauses m)
      in followed env job_id e (\<lambda>c. asked c now)
           (traced_publish (trace_step_event ''tck.test.step.waiting'' test step_id step_type phase
               [(''listener'', listener), (''timeout_s'', PInt timeout_s)] (trace_marks env (monitor_marks m))) e m))"

definition on_step_suspended ::
  "wire_env \<Rightarrow> string \<Rightarrow> string \<Rightarrow> string option \<Rightarrow> string \<Rightarrow> string \<Rightarrow> pyval \<Rightarrow> int \<Rightarrow> int \<Rightarrow> Monitor \<Rightarrow> Monitor" where
  "on_step_suspended env job_id test step_id step_type phase listener remaining_s waited_ms m0 =
     (let m = follow env job_id suspended m0
      in traced_publish (trace_step_event ''tck.test.step.suspended'' test step_id step_type phase
             [(''listener'', listener), (''remaining_s'', PInt remaining_s), (''waited_ms'', PInt waited_ms)]
             (trace_marks env (monitor_marks m)))
           (StepSuspendedEvent (step_base job_id test step_id m) step_type listener remaining_s waited_ms (monitor_pauses m)) m)"

definition on_step_received ::
  "wire_env \<Rightarrow> string \<Rightarrow> string \<Rightarrow> string option \<Rightarrow> string \<Rightarrow> string \<Rightarrow> pyval \<Rightarrow> CallbackResult \<Rightarrow> int \<Rightarrow> int \<Rightarrow> int
   \<Rightarrow> Monitor \<Rightarrow> Monitor" where
  "on_step_received env job_id test step_id step_type phase listener request0 waited_ms at_ask now m =
     (let request = request0\<lparr>cb_headers := we_safe_headers env (cb_headers request0),
                             cb_query_params := we_redact env (cb_query_params request0),
                             cb_payload := we_redact env (cb_payload request0),
                             cb_response := map_option (we_redact_answer env) (cb_response request0)\<rparr>;
          e = StepReceivedEvent (step_base job_id test step_id m) step_type listener request waited_ms
      in followed env job_id e
           (\<lambda>c. if cb_refused request \<noteq> None then refused c now else answered c waited_ms at_ask now)
           (traced_publish (trace_step_event ''tck.test.step.received'' test step_id step_type phase
               (received_data listener request waited_ms) (trace_marks env (monitor_marks m))) e m))"

definition dump_option :: "SelectionOption \<Rightarrow> pyval" where
  "dump_option opt = PDict [(''id'', PStr (so_id opt)), (''label'', PStr (so_label opt)),
     (''description'', pstr_opt (so_description opt)), (''details'', PDict (so_details opt))]"

definition dump_selection :: "Selection \<Rightarrow> pyval" where
  "dump_selection s = PDict [(''presentation'', PStr (se_presentation s)),
     (''options'', PList (map dump_option (se_options s))), (''action'', se_action s)]"

definition on_step_selecting ::
  "wire_env \<Rightarrow> string \<Rightarrow> string \<Rightarrow> string option \<Rightarrow> string \<Rightarrow> string \<Rightarrow> Selection \<Rightarrow> int \<Rightarrow> int \<Rightarrow> Monitor \<Rightarrow> Monitor" where
  "on_step_selecting env job_id test step_id step_type phase selection timeout_s now m0 =
     (let put_again = (case mo_checkpoints m0 of None \<Rightarrow> False
                       | Some t \<Rightarrow> (case current_frame t of None \<Rightarrow> False | Some f \<Rightarrow> f_asked f));
          m = (if put_again then follow env job_id suspended m0 else m0);
          e = StepSelectingEvent (step_base job_id test step_id m) step_type selection timeout_s (monitor_pauses m)
      in followed env job_id e (\<lambda>c. asked c now)
           (traced_publish (trace_step_event ''tck.test.step.selecting'' test step_id step_type phase
               [(''selection'', dump_selection selection), (''timeout_s'', PInt timeout_s)]
               (trace_marks env (monitor_marks m))) e m))"

definition on_step_selected ::
  "wire_env \<Rightarrow> string \<Rightarrow> string \<Rightarrow> string option \<Rightarrow> string \<Rightarrow> string \<Rightarrow> SelectionOption \<Rightarrow> int \<Rightarrow> int \<Rightarrow> int
   \<Rightarrow> Monitor \<Rightarrow> Monitor" where
  "on_step_selected env job_id test step_id step_type phase opt waited_ms at_ask now m =
     (let e = StepSelectedEvent (step_base job_id test step_id m) step_type opt waited_ms
      in followed env job_id e (\<lambda>c. answered c waited_ms at_ask now)
           (traced_publish (trace_step_event ''tck.test.step.selected'' test step_id step_type phase
               [(''value'', PStr (so_id opt)), (''option'', dump_option opt), (''waited_ms'', PInt waited_ms)]
               (trace_marks env (monitor_marks m))) e m))"

section \<open>What a hook publishes\<close>

definition event_cause_in :: "Cause option set \<Rightarrow> published_event \<Rightarrow> bool" where
  "event_cause_in cs e = (case e of Planned _ \<Rightarrow> None \<in> cs | Updated _ _ c _ \<Rightarrow> c \<in> cs)"

text \<open>\<open>adds cs t u\<close>: from \<open>t\<close> to \<open>u\<close> the tracker published more, for the causes in \<open>cs\<close> only.\<close>

definition adds :: "Cause option set \<Rightarrow> Tracker \<Rightarrow> Tracker \<Rightarrow> bool" where
  "adds cs t u = (\<exists>new. t_published u = t_published t @ new \<and> (\<forall>e\<in>set new. event_cause_in cs e))"

lemma adds_refl: "t_published u = t_published t \<Longrightarrow> adds cs t u"
  by (simp add: adds_def)

lemma adds_trans: "adds cs t u \<Longrightarrow> adds cs u v \<Longrightarrow> adds cs t v"
  by (force simp: adds_def)

lemma adds_set: "c \<in> cs \<Longrightarrow> adds cs t (tracker_set i c changes t)"
  by (auto simp: adds_def tracker_set_def Let_def event_cause_in_def)

lemma adds_fold: "(\<And>i u. adds cs u (f i u)) \<Longrightarrow> adds cs t (fold f is t)"
  by (induction "is" arbitrary: t) (auto intro: adds_trans adds_refl)

lemma adds_current: "adds cs t (on_current g t)"
  by (auto simp: on_current_def intro: adds_refl split: list.split)

lemma adds_ask: "c \<in> cs \<Longrightarrow> adds cs t (tracker_ask c at t)"
  unfolding tracker_ask_def
  by (auto intro: adds_trans [OF adds_current adds_set] adds_refl split: option.split)

lemma adds_end: "c \<in> cs \<Longrightarrow> adds cs t (tracker_end frame outcome c cancelled at t)"
  unfolding tracker_end_def Let_def
  by (rule adds_trans [OF _ adds_fold]) (auto intro: adds_set adds_refl split: option.split)

lemmas adds_rules = adds_refl adds_set adds_fold adds_current adds_ask adds_end

lemma adds_hooks:
  "adds {None} t (plan t)" "adds {None} t (step_enter test path t)" "adds {None} t (step_leave cancelled at t)"
  "adds {None} t (begin_step at t)" "adds {None} t (ended outcome None cancelled at t)"
  "adds {None} t (not_taken branch t)" "adds {None} t (suspended t)"
proof -
  show "adds {None} t (plan t)" by (auto simp: plan_def adds_def event_cause_in_def)
  show "adds {None} t (step_enter test path t)" by (simp add: step_enter_def Let_def adds_refl)
  show "adds {None} t (step_leave cancelled at t)"
    unfolding step_leave_def Let_def
    by (auto intro: adds_refl adds_trans [OF adds_refl adds_end] split: list.split)
  show "adds {None} t (begin_step at t)" unfolding begin_step_def by (auto intro: adds_rules split: option.split)
  show "adds {None} t (ended outcome None cancelled at t)"
    unfolding ended_def by (auto intro: adds_refl adds_trans [OF adds_current adds_end] split: option.split)
  show "adds {None} t (not_taken branch t)" unfolding not_taken_def
    by (cases "current_frame t") (simp_all add: adds_refl, rule adds_fold, auto intro: adds_set adds_refl)
  show "adds {None} t (suspended t)" unfolding suspended_def by (rule adds_current)
qed

lemma adds_nested_enter: "adds {None} t (fst (nested_enter at now t))"
  unfolding nested_enter_def
  by (auto intro: adds_refl adds_trans [OF adds_hooks(2) adds_hooks(4)] split: option.split prod.split)

lemma adds_ask_first: "adds {Some c} t (ask_first c at frame t)"
  by (auto simp: ask_first_def intro: adds_rules)

lemma adds_caused_hooks:
  "adds {Some c} t (job_ended c t)" "adds {Some c} t (test_started test c t)"
  "adds {Some c} t (test_ended test status c cancelled t)" "adds {Some c} t (ended outcome (Some c) cancelled at t)"
  "adds {Some c} t (asked c at t)" "adds {Some c} t (answered c w a at t)" "adds {Some c} t (refused c at t)"
proof -
  show "adds {Some c} t (job_ended c t)" unfolding job_ended_def by (rule adds_fold) (auto intro: adds_set adds_refl)
  show "adds {Some c} t (test_started test c t)" unfolding test_started_def by (rule adds_fold) (auto intro: adds_set)
  show "adds {Some c} t (test_ended test status c cancelled t)"
    unfolding test_ended_def by (rule adds_fold) (auto intro: adds_set adds_refl split: option.split)
  show "adds {Some c} t (ended outcome (Some c) cancelled at t)"
    unfolding ended_def by (auto intro: adds_refl adds_trans [OF adds_current adds_end] split: option.split)
  show "adds {Some c} t (asked c at t)" unfolding asked_def by (auto intro: adds_rules split: option.split)
  show "adds {Some c} t (answered c w a at t)"
    unfolding answered_def
    by (auto intro: adds_refl adds_trans [OF adds_trans [OF adds_ask_first adds_current] adds_set] split: option.split)
  show "adds {Some c} t (refused c at t)"
    unfolding refused_def by (auto intro: adds_refl adds_trans [OF adds_ask_first adds_current] split: option.split)
qed

section \<open>Causes come straight before their changes\<close>

definition is_update :: "TraceLine \<Rightarrow> bool" where
  "is_update l = (tl_type l = ''checkpoint.updated'')"

definition caused_by :: "TraceLine list \<Rightarrow> TraceLine \<Rightarrow> bool" where
  "caused_by before l =
     (\<forall>n. is_update l \<and> dict_get (tl_data l) ''cause_sequence'' = Some (PInt n) \<longrightarrow>
        1 \<le> n \<and> nat n \<le> length before \<and> \<not> is_update (before ! (nat n - 1)) \<and> list_all is_update (drop (nat n) before))"

fun causes_ok :: "TraceLine list \<Rightarrow> TraceLine list \<Rightarrow> bool" where
  "causes_ok before [] = True"
| "causes_ok before (l # ls) = (caused_by before l \<and> causes_ok (before @ [l]) ls)"

lemma causes_ok_append: "causes_ok before (ls @ ms) \<longleftrightarrow> causes_ok before ls \<and> causes_ok (before @ ls) ms"
  by (induction ls arbitrary: before) auto


abbreviation lines_of :: "Monitor \<Rightarrow> TraceLine list" where
  "lines_of m \<equiv> tp_lines (mo_trace m)"

definition monitor_ok :: "Monitor \<Rightarrow> bool" where
  "monitor_ok m = (causes_ok [] (lines_of m) \<and> (tp_tracing (mo_trace m) \<or> lines_of m = []))"

text \<open>The last line is not an update, or there is none.\<close>

definition settled :: "Monitor \<Rightarrow> bool" where
  "settled m = (lines_of m = [] \<or> \<not> is_update (last (lines_of m)))"

lemma publish_trace [simp]: "mo_trace (publish e eid m) = mo_trace m" "mo_checkpoints (publish e eid m) = mo_checkpoints m"
  by (simp_all add: publish_def)

lemma traced_publish_emit:
  "mo_trace (traced_publish (publisher_emit ty data source scope) e m) =
     (if tp_tracing (mo_trace m)
      then (mo_trace m)\<lparr>tp_lines := lines_of m @ [\<lparr>tl_type = ty, tl_data = data,
             tl_source = (if source = [] then SOURCE_LIFECYCLE else source), tl_scope = scope\<rparr>]\<rparr>
      else mo_trace m)"
  by (auto simp: traced_publish_def publisher_emit_def Let_def)

lemma traced_publish_ok:
  assumes "monitor_ok m" and "ty \<noteq> ''checkpoint.updated''"
  shows "monitor_ok (traced_publish (publisher_emit ty data source scope) e m)
    \<and> settled (traced_publish (publisher_emit ty data source scope) e m)"
  using assms
  by (auto simp: monitor_ok_def settled_def traced_publish_emit causes_ok_append caused_by_def is_update_def)

lemma traced_publish_checkpoints [simp]: "mo_checkpoints (traced_publish emit e m) = mo_checkpoints m"
  by (simp add: traced_publish_def case_prod_beta)

lemma publish_caused:
  assumes "\<forall>e\<in>set new. event_cause_in {Some c} e" and "cause_sequence c = (if base = [] then None else Some (int (length base)))"
    and "base = [] \<or> \<not> is_update (last base)" and "lines_of m = base @ us" and "list_all is_update us" and "monitor_ok m"
  shows "monitor_ok (fold (publish_checkpoint env job) new m)"
  using assms
proof (induction new arbitrary: m us)
  case (Cons e new)
  obtain i rv st where e: "e = Updated i rv (Some c) st"
    using Cons.prems(1) by (cases e) (auto simp: event_cause_in_def)
  let ?m = "publish_checkpoint env job e m"
  show ?case
  proof (cases "tp_tracing (mo_trace m)")
    case False
    then have same: "mo_trace ?m = mo_trace m"
      by (simp add: e on_checkpoint_updated_def trace_checkpoint_updated_def traced_publish_emit)
    then have "monitor_ok (fold (publish_checkpoint env job) new ?m)"
      using Cons.prems by (intro Cons.IH [of ?m us]) (auto simp: monitor_ok_def)
    then show ?thesis by simp
  next
    case True
    obtain l where l: "lines_of ?m = base @ (us @ [l])" "is_update l" "tp_tracing (mo_trace ?m)"
      and d: "dict_get (tl_data l) ''cause_sequence'' = Some (if base = [] then PNone else PInt (int (length base)))"
      using True Cons.prems(2,4)
      by (auto simp: e on_checkpoint_updated_def trace_checkpoint_updated_def traced_publish_emit is_update_def)
    have "caused_by (base @ us) l"
      using d Cons.prems(3,5) by (cases base rule: rev_cases) (auto simp: caused_by_def nth_append nat_add_distrib)
    then have "monitor_ok ?m"
      using l Cons.prems(4,6) by (simp add: monitor_ok_def causes_ok_append)
    then have "monitor_ok (fold (publish_checkpoint env job) new ?m)"
      using Cons.prems l by (intro Cons.IH [of ?m "us @ [l]"]) auto
    then show ?thesis by simp
  qed
qed simp

lemma publish_causeless:
  assumes "\<forall>e\<in>set new. event_cause_in {None} e" and "monitor_ok m"
  shows "monitor_ok (fold (publish_checkpoint env job) new m)"
  using assms
proof (induction new arbitrary: m)
  case (Cons e new)
  have "monitor_ok (publish_checkpoint env job e m)"
    using Cons.prems
    by (cases e) (auto simp: event_cause_in_def monitor_ok_def on_checkpoint_updated_def on_checkpoints_planned_def
        trace_checkpoint_updated_def trace_checkpoints_planned_def traced_publish_emit causes_ok_append caused_by_def
        is_update_def)
  then show ?case using Cons by simp
qed simp

lemma follow_causeless:
  assumes "\<And>t. adds {None} t (hook t)" and "monitor_ok m"
  shows "monitor_ok (follow env job hook m)"
proof (cases "mo_checkpoints m")
  case None
  then show ?thesis using assms(2) by (simp add: follow_def)
next
  case (Some t)
  obtain new where "t_published (hook t) = t_published t @ new" "\<forall>e\<in>set new. event_cause_in {None} e"
    using assms(1) [of t] by (auto simp: adds_def)
  moreover have "monitor_ok (m\<lparr>mo_checkpoints := Some (hook t)\<rparr>)" using assms(2) by (simp add: monitor_ok_def)
  ultimately show ?thesis using Some publish_causeless by (simp add: follow_def Let_def)
qed

lemma followed_ok:
  assumes "\<And>c t. adds {Some c} t (hook c t)" and "monitor_ok m" and "settled m"
  shows "monitor_ok (followed env job e hook m)"
proof (cases "mo_checkpoints m")
  case None
  then show ?thesis using assms(2) by (simp add: followed_def follow_def)
next
  case (Some t)
  let ?c = "monitor_cause (event_kind e) m"
  obtain new where new: "t_published (hook ?c t) = t_published t @ new" "\<forall>e\<in>set new. event_cause_in {Some ?c} e"
    using assms(1) [of ?c t] by (auto simp: adds_def)
  have "monitor_ok (fold (publish_checkpoint env job) new (m\<lparr>mo_checkpoints := Some (hook ?c t)\<rparr>))"
    by (rule publish_caused [where base = "lines_of m" and us = "[]", OF new(2)])
      (use assms(2,3) in \<open>auto simp: monitor_cause_def last_sequence_def settled_def monitor_ok_def\<close>)
  then show ?thesis using Some new by (simp add: followed_def follow_def Let_def)
qed


section \<open>Runs of a monitor\<close>

text \<open>Everything the engine calls on a monitor; the last six rules are the runner's own calls on the run's
  tracker, which publishes through the monitor.\<close>

inductive monitor_step :: "wire_env \<Rightarrow> string \<Rightarrow> Monitor \<Rightarrow> Monitor \<Rightarrow> bool" for env job where
  "monitor_step env job m (on_job_started job tck m)"
| "monitor_step env job m (on_job_paused job m)"
| "monitor_step env job m (on_job_resumed job m)"
| "monitor_step env job m (on_job_held job withdrawn kept m)"
| "monitor_step env job m (on_job_restored job withdrawn kept m)"
| "monitor_step env job m (on_job_completed env job m)"
| "monitor_step env job m (on_job_failed env job error m)"
| "monitor_step env job m (on_job_cancelled env job m)"
| "monitor_step env job m (on_test_started env job test index attempt skipped m)"
| "monitor_step env job m (on_test_awaiting job test index m)"
| "monitor_step env job m (on_test_completed env job test_result attempt cancelled m)"
| "monitor_step env job m (on_step_started env job test step index step_type name phase inputs m)"
| "monitor_step env job m (on_step_call env job test step step_type phase index call m)"
| "monitor_step env job m (on_step_completed env job test step result cancelled now m)"
| "monitor_step env job m (on_step_listening env job test step step_type phase listener m)"
| "monitor_step env job m (on_step_waiting env job test step step_type phase listener timeout now m)"
| "monitor_step env job m (on_step_suspended env job test step step_type phase listener remaining waited m)"
| "monitor_step env job m (on_step_received env job test step step_type phase listener request waited at_ask now m)"
| "monitor_step env job m (on_step_selecting env job test step step_type phase selection timeout now m)"
| "monitor_step env job m (on_step_selected env job test step step_type phase opt waited at_ask now m)"
| "monitor_step env job m (follow_checkpoints env job planned left_out m)"
| "monitor_step env job m (follow env job (step_enter test path) m)"
| "monitor_step env job m (follow env job (step_leave cancelled now) m)"
| "monitor_step env job m (follow env job (begin_step now) m)"
| "monitor_step env job m (follow env job (\<lambda>t. fst (nested_enter at now t)) m)"
| "monitor_step env job m (follow env job (ended outcome None cancelled now) m)"
| "monitor_step env job m (follow env job (not_taken branch) m)"

inductive monitor_run :: "wire_env \<Rightarrow> string \<Rightarrow> Monitor \<Rightarrow> bool" for env job where
  mrun_new: "monitor_run env job (new_monitor tracing)"
| mrun_step: "monitor_run env job m \<Longrightarrow> monitor_step env job m u \<Longrightarrow> monitor_run env job u"

lemma occurrence_ok [simp]:
  "monitor_ok (fst (occurrence key m)) = monitor_ok m"
  by (simp add: occurrence_def Let_def monitor_ok_def)

lemma publish_ok [simp]: "monitor_ok (publish e eid m) = monitor_ok m" "settled (publish e eid m) = settled m"
  by (simp_all add: monitor_ok_def settled_def)

lemmas trace_emits = run_started_def run_ended_def run_held_def run_restored_def trace_test_started_def
  trace_test_awaiting_def trace_test_ended_def trace_step_started_def trace_step_call_def trace_step_ended_def
  trace_step_event_def test_event_type_def step_event_type_def

lemma fold_publish_ok [simp]:
  "monitor_ok (fold (\<lambda>(i, a). publish (f i a) eid) xs m) = monitor_ok m"
  "settled (fold (\<lambda>(i, a). publish (f i a) eid) xs m) = settled m"
  by (induction xs arbitrary: m) auto

lemma step_ended_ok:
  "monitor_ok m \<Longrightarrow> trace_step_ended test step r marks (mo_trace m) = (p, eid) \<Longrightarrow>
   monitor_ok (m\<lparr>mo_trace := p\<rparr>) \<and> settled (m\<lparr>mo_trace := p\<rparr>)"
  by (auto simp: trace_step_ended_def publisher_emit_def monitor_ok_def settled_def causes_ok_append caused_by_def
      is_update_def step_event_type_def split: if_splits StepStatus.splits)

lemma monitor_ok_step: "monitor_step env job m u \<Longrightarrow> monitor_ok m \<Longrightarrow> monitor_ok u"
proof (induction rule: monitor_step.induct)
  case (14 m test step result cancelled now)
  show ?case
    unfolding on_step_completed_def Let_def
    using step_ended_ok [OF 14] by (auto intro!: followed_ok adds_caused_hooks split: prod.split)
next
  case (21 m planned left_out)
  then have "monitor_ok (m\<lparr>mo_checkpoints := Some (init_tracker planned True left_out)\<rparr>)" by (simp add: monitor_ok_def)
  then show ?case unfolding follow_checkpoints_def by (rule follow_causeless [OF adds_hooks(1)])
next
  case (17 m test step step_type phase listener remaining waited)
  have "monitor_ok (follow env job suspended m)" by (rule follow_causeless [OF adds_hooks(7) 17])
  then show ?case by (simp add: on_step_suspended_def Let_def trace_emits traced_publish_ok)
next
  case (19 m test step step_type phase selection timeout now)
  have "monitor_ok (follow env job suspended m)" by (rule follow_causeless [OF adds_hooks(7) 19])
  then show ?case
    using 19 by (auto simp: on_step_selecting_def Let_def trace_emits traced_publish_ok intro!: followed_ok adds_caused_hooks)
qed (auto simp: on_job_started_def on_job_paused_def on_job_resumed_def on_job_held_def on_job_restored_def
    on_job_completed_def on_job_failed_def on_job_cancelled_def on_test_started_def on_test_awaiting_def on_test_completed_def
    on_step_started_def on_step_call_def on_step_listening_def on_step_waiting_def on_step_received_def on_step_selected_def
    trace_emits Let_def case_prod_beta traced_publish_ok
    intro!: followed_ok follow_causeless adds_caused_hooks adds_hooks adds_nested_enter split: TestStatus.split)

lemma monitor_ok_run: "monitor_run env job m \<Longrightarrow> monitor_ok m"
proof (induction rule: monitor_run.induct)
  case (mrun_new tracing)
  show ?case by (simp add: monitor_ok_def new_monitor_def)
next
  case (mrun_step m u)
  then show ?case using monitor_ok_step by blast
qed

lemma causes_ok_nth: "causes_ok before ls \<Longrightarrow> k < length ls \<Longrightarrow> caused_by (before @ take k ls) (ls ! k)"
proof (induction ls arbitrary: before k)
  case (Cons l ls)
  then show ?case by (cases k) force+
qed simp

text \<open>C26. A change of a checkpoint is published straight after the event that caused it. In every trace a
  run writes, the \<open>cause_sequence\<close> of a \<open>checkpoint.updated\<close> line is the number of an earlier line,
  that line is the event of something else than a checkpoint, and only further checkpoint changes lie
  between the two.\<close>

theorem changes_follow_their_cause:
  assumes "monitor_run env job m" and "k < length (tp_lines (mo_trace m))"
    and "tl_type (tp_lines (mo_trace m) ! k) = ''checkpoint.updated''"
    and "dict_get (tl_data (tp_lines (mo_trace m) ! k)) ''cause_sequence'' = Some (PInt n)"
  shows "1 \<le> n \<and> nat n \<le> k \<and> tl_type (tp_lines (mo_trace m) ! (nat n - 1)) \<noteq> ''checkpoint.updated''
     \<and> (\<forall>j. nat n \<le> j \<and> j < k \<longrightarrow> tl_type (tp_lines (mo_trace m) ! j) = ''checkpoint.updated'')"
proof -
  let ?ls = "tp_lines (mo_trace m)"
  have "caused_by (take k ?ls) (?ls ! k)"
    using monitor_ok_run [OF assms(1)] causes_ok_nth [of "[]" ?ls k] assms(2) by (simp add: monitor_ok_def)
  then have n: "1 \<le> n" "nat n \<le> k" "\<not> is_update (take k ?ls ! (nat n - 1))" "list_all is_update (drop (nat n) (take k ?ls))"
    using assms(2-4) by (auto simp: caused_by_def is_update_def)
  have "is_update (?ls ! j)" if "nat n \<le> j" "j < k" for j
  proof -
    have "drop (nat n) (take k ?ls) ! (j - nat n) = ?ls ! j" and "j - nat n < length (drop (nat n) (take k ?ls))"
      using that assms(2) by auto
    then show ?thesis using n(4) by (metis list_all_length)
  qed
  then show ?thesis using n by (auto simp: is_update_def)
qed

section \<open>Repeated events are numbered\<close>

fun occurrence_of :: "ExecutionEvent \<Rightarrow> (string list \<times> nat) option" where
  "occurrence_of (JobPausedEvent j n) = Some ([''job_paused'', j], n)"
| "occurrence_of (JobResumedEvent j n) = Some ([''job_resumed'', j], n)"
| "occurrence_of (JobHeldEvent j w k n) = Some ([''job_held'', j], n)"
| "occurrence_of (JobRestoredEvent j r l n) = Some ([''job_restored'', j], n)"
| "occurrence_of (TestAwaitingEvent j t i n) = Some ([''test_awaiting'', j, t], n)"
| "occurrence_of _ = None"

definition numbers :: "string list \<Rightarrow> Monitor \<Rightarrow> nat list" where
  "numbers key m = concat (map (\<lambda>(w, e, l). case occurrence_of e of Some (k, n) \<Rightarrow> if k = key then [n] else [] | None \<Rightarrow> [])
     (mo_dispatched m))"

definition counted :: "string list \<Rightarrow> Monitor \<Rightarrow> nat" where
  "counted key m = (case dict_get (mo_occurrences m) key of None \<Rightarrow> 0 | Some n \<Rightarrow> n)"

definition numbered :: "Monitor \<Rightarrow> bool" where
  "numbered m = (\<forall>key. numbers key m = [1..<Suc (counted key m)])"

lemma publish_numbered: "occurrence_of e = None \<Longrightarrow> numbered (publish e eid m) = numbered m"
  by (simp add: numbered_def numbers_def counted_def publish_def)

lemma traced_publish_numbered: "occurrence_of e = None \<Longrightarrow> numbered (traced_publish emit e m) = numbered m"
  by (simp add: traced_publish_def case_prod_beta publish_numbered) (simp add: numbered_def numbers_def counted_def)

lemma occurrence_numbered:
  assumes "numbered m" and "\<And>n. occurrence_of (f n) = Some (key, n)"
  shows "numbered (publish (f (snd (occurrence key m))) eid (fst (occurrence key m)))"
  using assms by (auto simp: numbered_def numbers_def counted_def publish_def occurrence_def Let_def dict_simps)

lemma occurrence_traced_numbered:
  assumes "numbered m" and "\<And>n. occurrence_of (f n) = Some (key, n)"
  shows "numbered (traced_publish (emit (snd (occurrence key m))) (f (snd (occurrence key m))) (fst (occurrence key m)))"
proof -
  have "numbered (traced_publish em e u) = numbered (publish e None u)" for em e u
    by (simp add: traced_publish_def case_prod_beta numbered_def numbers_def counted_def publish_def)
  then show ?thesis using occurrence_numbered [OF assms, where eid = None] by simp
qed

lemma follow_numbered: "numbered (follow env job hook m) = numbered m"
proof -
  have "numbered (publish_checkpoint env job e u) = numbered u" for e u
    by (cases e) (simp_all add: on_checkpoints_planned_def on_checkpoint_updated_def traced_publish_numbered)
  then have "numbered (fold (publish_checkpoint env job) es u) = numbered u" for es u
    by (induction es arbitrary: u) auto
  then show ?thesis
    by (simp add: follow_def Let_def split: option.split) (simp add: numbered_def numbers_def counted_def)
qed

lemma fold_publish_numbered:
  "(\<And>i a. occurrence_of (f i a) = None) \<Longrightarrow> numbered (fold (\<lambda>(i, a). publish (f i a) eid) xs m) = numbered m"
  by (induction xs arbitrary: m) (auto simp: publish_numbered)

lemma numbered_fields: "numbered (m\<lparr>mo_trace := p\<rparr>) = numbered m" "numbered (m\<lparr>mo_checkpoints := c\<rparr>) = numbered m"
  by (simp_all add: numbered_def numbers_def counted_def)

lemma step_outcome_event_none: "occurrence_of (step_outcome_event base status w) = None"
  by (simp add: step_outcome_event_def split: StepStatus.split)

lemma numbered_step: "monitor_step env job m u \<Longrightarrow> numbered m \<Longrightarrow> numbered u"
  by (induction rule: monitor_step.induct)
    (simp_all add: on_job_started_def on_job_paused_def on_job_resumed_def on_job_held_def on_job_restored_def
      on_job_completed_def on_job_failed_def on_job_cancelled_def on_test_started_def on_test_awaiting_def on_test_completed_def
      on_step_started_def on_step_call_def on_step_completed_def on_step_listening_def on_step_waiting_def on_step_suspended_def
      on_step_received_def on_step_selecting_def on_step_selected_def follow_checkpoints_def followed_def Let_def case_prod_beta
      follow_numbered traced_publish_numbered publish_numbered fold_publish_numbered numbered_fields
      step_outcome_event_none occurrence_numbered occurrence_traced_numbered)

text \<open>An event that can happen again in a run says which time it is: for every job and test, the pauses,
  resumes, holds, restores and announcements a run publishes carry the numbers 1, 2, 3 and so on, in
  the order they are published, so no two of them are equal.\<close>

theorem repeated_events_numbered:
  assumes "monitor_run env job m"
  shows "numbers key m = [1..<Suc (length (numbers key m))]"
proof -
  have "numbered m" using assms
  proof (induction rule: monitor_run.induct)
    case (mrun_new tracing)
    show ?case by (simp add: numbered_def numbers_def counted_def new_monitor_def)
  next
    case (mrun_step m u)
    then show ?case using numbered_step by blast
  qed
  then show ?thesis unfolding numbered_def by (metis diff_Suc_1 length_upt)
qed

definition demo_env :: wire_env where
  "demo_env = \<lparr>we_dump_status = (\<lambda>c. PStr (ce_position c)), we_dump_ref = (\<lambda>r. pnat (cr_index r)),
     we_as_recorded = (\<lambda>r. r), we_redact = (\<lambda>v. v), we_safe_headers = (\<lambda>v. v), we_redact_answer = (\<lambda>v. v)\<rparr>"

definition demo_planned :: Monitor where
  "demo_planned = follow_checkpoints demo_env ''j'' [\<lparr>pc_entry = demo_entry, pc_path = [SStr ''execution'', SInt 0], pc_asks = True\<rparr>] []
     (new_monitor True)"

definition demo_failed :: Monitor where
  "demo_failed = on_job_failed demo_env ''j'' None demo_planned"

lemma demo_failed_run: "monitor_run demo_env ''j'' demo_failed"
  unfolding demo_failed_def demo_planned_def
  by (rule mrun_step [OF mrun_step [OF mrun_new monitor_step.intros(21)] monitor_step.intros(7)])

lemma demo_failed_lines:
  "map tl_type (tp_lines (mo_trace demo_failed)) = [''checkpoints.planned'', ''tck.end'', ''checkpoint.updated'']
   \<and> dict_get (tl_data (tp_lines (mo_trace demo_failed) ! 2)) ''cause_sequence'' = Some (PInt 2)"
  by (simp add: demo_failed_def demo_planned_def follow_checkpoints_def follow_def plan_def init_tracker_def new_monitor_def
      on_checkpoints_planned_def trace_checkpoints_planned_def traced_publish_def publisher_emit_def publish_def
      on_job_failed_def run_ended_def followed_def job_ended_def monitor_cause_def last_sequence_def tracker_set_def
      model_copy_def new_status_def OPEN_def Let_def on_checkpoint_updated_def trace_checkpoint_updated_def CheckpointEntry.defs)

theorem changes_follow_their_cause_witness:
  "tl_type (tp_lines (mo_trace demo_failed) ! 2) = ''checkpoint.updated''
   \<and> tl_type (tp_lines (mo_trace demo_failed) ! 1) \<noteq> ''checkpoint.updated''"
proof -
  have len: "length (tp_lines (mo_trace demo_failed)) = 3"
    using demo_failed_lines by (metis length_map length_Cons list.size(3) numeral_3_eq_3)
  have ty: "tl_type (tp_lines (mo_trace demo_failed) ! 2) = ''checkpoint.updated''"
    using demo_failed_lines nth_map [of 2 "tp_lines (mo_trace demo_failed)" tl_type] len by simp
  show ?thesis
    using changes_follow_their_cause [OF demo_failed_run _ ty, of 2] demo_failed_lines len ty by simp
qed

theorem repeated_events_numbered_witness:
  "numbers [''job_paused'', ''j''] (on_job_paused ''j'' (on_job_paused ''j'' (new_monitor False))) = [1, 2]"
proof -
  have "monitor_run demo_env ''j'' (on_job_paused ''j'' (on_job_paused ''j'' (new_monitor False)))"
    by (rule mrun_step [OF mrun_step [OF mrun_new monitor_step.intros(2)] monitor_step.intros(2)])
  moreover have "length (numbers [''job_paused'', ''j''] (on_job_paused ''j'' (on_job_paused ''j'' (new_monitor False)))) = 2"
    by (simp add: numbers_def on_job_paused_def occurrence_def publish_def new_monitor_def Let_def)
  moreover have "[1..<Suc 2] = [1, 2 :: nat]" by (simp add: upt_rec)
  ultimately show ?thesis
    using repeated_events_numbered [of demo_env "''j''" _ "[''job_paused'', ''j'']"] by metis
qed

end
