(* ===== verification/Hold.thy ===== *)
theory Hold
  imports Jobs Monitor
begin

text \<open>
  A paused run on hold: \<^verbatim>\<open>player/execution/hold.py\<close>.

  What a run offers lives in a connector, whose state is the type variable; an offer's \<open>withdraw\<close> and
  \<open>restore\<close> are functions on it that answer the new state and, when they raise, the exception as its
  message and the name of its type. \<open>pause_point\<close> waits in the middle for the gate to open, so it is two
  definitions: \<open>pause_point_begin\<close> up to the wait, \<open>pause_point_end\<close> from it, once for a gate that opened
  and once for a cancellation raised out of the wait.
\<close>

section \<open>Offers\<close>

record 'w Offer =
  of_definition_id :: string
  of_withdraw :: "'w \<Rightarrow> 'w \<times> (string \<times> string) option"
  of_restore :: "'w \<Rightarrow> 'w \<times> (string \<times> string) option"

record 'w RunHold =
  rh_bound :: bool
  rh_job_id :: string
  rh_monitored :: bool
  rh_offers :: "(string, 'w Offer) pydict"

definition new_hold :: "'w RunHold" where
  "new_hold = \<lparr>rh_bound = False, rh_job_id = [], rh_monitored = False, rh_offers = []\<rparr>"

definition bind_hold :: "string \<Rightarrow> 'w RunHold \<Rightarrow> 'w RunHold" where
  "bind_hold job_id h = h\<lparr>rh_bound := True, rh_job_id := job_id, rh_monitored := True\<rparr>"

definition offer ::
  "string \<Rightarrow> ('w \<Rightarrow> 'w \<times> (string \<times> string) option) \<Rightarrow> ('w \<Rightarrow> 'w \<times> (string \<times> string) option) \<Rightarrow> 'w RunHold \<Rightarrow> 'w RunHold" where
  "offer definition_id withdraw restore h =
     h\<lparr>rh_offers := dict_set definition_id
         \<lparr>of_definition_id = definition_id, of_withdraw = withdraw, of_restore = restore\<rparr> (rh_offers h)\<rparr>"

definition forget_offer :: "string \<Rightarrow> 'w RunHold \<Rightarrow> 'w RunHold" where
  "forget_offer definition_id h = h\<lparr>rh_offers := dict_pop definition_id (rh_offers h)\<rparr>"

definition offers :: "'w RunHold \<Rightarrow> string list" where
  "offers h = dict_keys (rh_offers h)"

text \<open>\<open>str(exc) or type(exc).__name__\<close>.\<close>

definition exc_text :: "string \<times> string \<Rightarrow> string" where
  "exc_text e = (if fst e = [] then snd e else fst e)"

definition withdraw_one ::
  "'w Offer \<Rightarrow> string list \<times> (string, string) pydict \<times> 'w \<Rightarrow> string list \<times> (string, string) pydict \<times> 'w" where
  "withdraw_one off st =
     (let (withdrawn, kept, w) = st; (w1, exc) = of_withdraw off w
      in case exc of
           Some e \<Rightarrow> (withdrawn, dict_set (of_definition_id off) (exc_text e) kept, w1)
         | None \<Rightarrow> (withdrawn @ [of_definition_id off], kept, w1))"

definition withdraw_offers :: "'w RunHold \<Rightarrow> 'w \<Rightarrow> string list \<times> (string, string) pydict \<times> 'w" where
  "withdraw_offers h w =
     (let (withdrawn, kept, w1) = fold withdraw_one (rev (dict_values (rh_offers h))) ([], [], w)
      in (rev withdrawn, kept, w1))"

definition restore_one ::
  "'w RunHold \<Rightarrow> string \<Rightarrow> string list \<times> (string, string) pydict \<times> 'w \<Rightarrow> string list \<times> (string, string) pydict \<times> 'w" where
  "restore_one h definition_id st =
     (let (restored, lost, w) = st
      in case dict_get (rh_offers h) definition_id of
           None \<Rightarrow> st
         | Some off \<Rightarrow>
             (let (w1, exc) = of_restore off w
              in case exc of
                   Some e \<Rightarrow> (restored, dict_set definition_id (exc_text e) lost, w1)
                 | None \<Rightarrow> (restored @ [definition_id], lost, w1)))"

definition restore_offers :: "'w RunHold \<Rightarrow> string list \<Rightarrow> 'w \<Rightarrow> string list \<times> (string, string) pydict \<times> 'w" where
  "restore_offers h withdrawn w = fold (restore_one h) withdrawn ([], [], w)"

section \<open>Pausing\<close>

text \<open>What a hold changes: the jobs, the connector and the run's monitor.\<close>

record ('r, 'w) Held =
  hd_jobs :: "'r JobManager"
  hd_connector :: 'w
  hd_monitor :: Monitor

definition pause_requested :: "'w RunHold \<Rightarrow> 'r JobManager \<Rightarrow> bool" where
  "pause_requested h m = (rh_bound h \<and> \<not> snd (get_pause_event (rh_job_id h) m))"

definition clear_request :: "string \<Rightarrow> ('r, 'w) Held \<Rightarrow> ('r, 'w) Held" where
  "clear_request i s = s\<lparr>hd_jobs := set_pause_request i False (fst (get_pause_request i (hd_jobs s)))\<rparr>"

text \<open>\<open>None\<close>: the run was not held and goes on; \<open>Some withdrawn\<close>: it waits at its gate.\<close>

definition pause_point_begin :: "'w RunHold \<Rightarrow> ('r, 'w) Held \<Rightarrow> ('r, 'w) Held \<times> string list option" where
  "pause_point_begin h s =
     (if \<not> rh_bound h then (s, None)
      else if \<not> pause_requested h (hd_jobs s) then (clear_request (rh_job_id h) s, None)
      else
        (let s1 = s\<lparr>hd_jobs := hold_job (rh_job_id h) True (fst (get_pause_event (rh_job_id h) (hd_jobs s)))\<rparr>;
             (withdrawn, kept, w) = withdraw_offers h (hd_connector s1);
             s2 = s1\<lparr>hd_connector := w\<rparr>
         in (if rh_monitored h then s2\<lparr>hd_monitor := on_job_held (rh_job_id h) withdrawn kept (hd_monitor s2)\<rparr> else s2,
             Some withdrawn)))"

definition pause_point_end :: "'w RunHold \<Rightarrow> string list \<Rightarrow> bool \<Rightarrow> ('r, 'w) Held \<Rightarrow> ('r, 'w) Held" where
  "pause_point_end h withdrawn opened s =
     (let s1 = (if opened then clear_request (rh_job_id h) s else s);
          (restored, lost, w) = restore_offers h withdrawn (hd_connector s1);
          s2 = s1\<lparr>hd_connector := w, hd_jobs := hold_job (rh_job_id h) False (hd_jobs s1)\<rparr>
      in if opened \<and> rh_monitored h
         then s2\<lparr>hd_monitor := on_job_restored (rh_job_id h) restored lost (hd_monitor s2)\<rparr> else s2)"

text \<open>\<open>until_pause_requested\<close>: one round of its loop, when the request is set. \<open>True\<close>: it returns.\<close>

definition pause_request_round :: "'w RunHold \<Rightarrow> ('r, 'w) Held \<Rightarrow> ('r, 'w) Held \<times> bool" where
  "pause_request_round h s =
     (if pause_requested h (hd_jobs s) then (s, True) else (clear_request (rh_job_id h) s, False))"

section \<open>What is withdrawn comes back\<close>

text \<open>The offers of a hold are filed under their own ids.\<close>

definition hold_wf :: "'w RunHold \<Rightarrow> bool" where
  "hold_wf h = (dict_wf (rh_offers h) \<and> (\<forall>(k, off)\<in>set (rh_offers h). of_definition_id off = k))"

inductive hold_built :: "'w RunHold \<Rightarrow> bool" where
  "hold_built new_hold"
| "hold_built h \<Longrightarrow> hold_built (bind_hold i h)"
| "hold_built h \<Longrightarrow> hold_built (offer d w r h)"
| "hold_built h \<Longrightarrow> hold_built (forget_offer d h)"

lemma dict_set_keys: "fst ` set (dict_set k v d) = insert k (fst ` set d)"
proof (induction d)
  case (Cons p d)
  then show ?case by (cases p) auto
qed simp

lemma hold_built_wf: "hold_built h \<Longrightarrow> hold_wf h"
proof (induction rule: hold_built.induct)
  case 1
  show ?case by (simp add: hold_wf_def new_hold_def dict_wf_def)
next
  case (2 h i)
  then show ?case by (simp add: hold_wf_def bind_hold_def)
next
  case (3 h d w r)
  then show ?case
    using dict_set_member [where d = "rh_offers h"] by (fastforce simp: hold_wf_def offer_def dict_simps)
next
  case (4 h d)
  then show ?case by (auto simp: hold_wf_def forget_offer_def dict_pop_def dict_wf_def distinct_map_filter)
qed

text \<open>
  What the connector promises of an offer's calls, of the contract definitions \<open>pub\<close> sees on it: a
  withdrawal takes the offer's definition away and a restore puts it there, and one that raises changes
  nothing.
\<close>

definition offer_law :: "('w \<Rightarrow> string set) \<Rightarrow> 'w Offer \<Rightarrow> bool" where
  "offer_law pub off = (\<forall>w.
     (case of_withdraw off w of (w1, None) \<Rightarrow> pub w1 = pub w - {of_definition_id off} | (w1, Some _) \<Rightarrow> pub w1 = pub w)
     \<and> (case of_restore off w of (w1, None) \<Rightarrow> pub w1 = insert (of_definition_id off) (pub w) | (w1, Some _) \<Rightarrow> pub w1 = pub w))"

definition offers_law :: "('w \<Rightarrow> string set) \<Rightarrow> 'w RunHold \<Rightarrow> bool" where
  "offers_law pub h = list_all (offer_law pub) (dict_values (rh_offers h))"

lemma fold_withdraw:
  assumes "fold withdraw_one offs (wd, kp, w) = (wd', kp', w')" and "list_all (offer_law pub) offs"
    and "distinct (map of_definition_id offs)" and "\<forall>off\<in>set offs. \<not> dict_has kp (of_definition_id off)"
  shows "wd' = wd @ filter (\<lambda>k. \<not> dict_has kp' k) (map of_definition_id offs)
     \<and> (\<forall>k. dict_has kp' k \<longrightarrow> dict_has kp k \<or> k \<in> of_definition_id ` set offs)
     \<and> (\<forall>k. dict_has kp k \<longrightarrow> dict_has kp' k)
     \<and> pub w' = pub w - set (filter (\<lambda>k. \<not> dict_has kp' k) (map of_definition_id offs))"
  using assms
proof (induction offs arbitrary: wd kp w)
  case (Cons off offs)
  let ?k = "of_definition_id off"
  obtain w1 exc where x: "of_withdraw off w = (w1, exc)" by (cases "of_withdraw off w")
  have law: "pub w1 = (if exc = None then pub w - {?k} else pub w)"
    using Cons.prems(2) x by (auto simp: offer_law_def split: option.splits dest!: spec [of _ w])
  define kp1 where "kp1 = (case exc of None \<Rightarrow> kp | Some e \<Rightarrow> dict_set ?k (exc_text e) kp)"
  define wd1 where "wd1 = (if exc = None then wd @ [?k] else wd)"
  have "withdraw_one off (wd, kp, w) = (wd1, kp1, w1)"
    using x by (simp add: withdraw_one_def wd1_def kp1_def split: option.splits)
  then have run: "fold withdraw_one offs (wd1, kp1, w1) = (wd', kp', w')"
    using Cons.prems(1) by simp
  have has1: "dict_has kp1 j \<longleftrightarrow> dict_has kp j \<or> (exc \<noteq> None \<and> j = ?k)" for j
    by (auto simp: kp1_def dict_has_set split: option.splits)
  have free: "\<forall>off\<in>set offs. \<not> dict_has kp1 (of_definition_id off)"
    using Cons.prems(3,4) unfolding has1 by (metis distinct.simps(2) image_eqI list.set_intros(2) list.simps(9) set_map)
  have "list_all (offer_law pub) offs" "distinct (map of_definition_id offs)"
    using Cons.prems(2,3) by simp_all
  note ih = Cons.IH [OF run this free]
  have mine: "dict_has kp' ?k \<longleftrightarrow> exc \<noteq> None"
    using ih has1 Cons.prems(3,4) by auto
  then show ?case
    using ih has1 law by (auto simp: wd1_def)
qed simp

lemma withdraw_offers_spec:
  assumes "hold_wf h" and "offers_law pub h" and "withdraw_offers h w = (withdrawn, kept, w')"
  shows "withdrawn = filter (\<lambda>k. \<not> dict_has kept k) (offers h) \<and> (\<forall>k. dict_has kept k \<longrightarrow> k \<in> set (offers h))
     \<and> pub w' = pub w - set withdrawn"
proof -
  let ?offs = "rev (dict_values (rh_offers h))"
  obtain wd where run: "fold withdraw_one ?offs ([], [], w) = (wd, kept, w')" and wd: "withdrawn = rev wd"
    using assms(3) by (auto simp: withdraw_offers_def Let_def split: prod.splits)
  have ids: "map of_definition_id (dict_values (rh_offers h)) = offers h"
    using assms(1) by (auto simp: hold_wf_def offers_def comp_def)
  then have ids': "map of_definition_id ?offs = rev (offers h)" by (metis rev_map)
  have "distinct (rev (offers h))" using assms(1) by (simp add: hold_wf_def dict_wf_def offers_def)
  then have "wd = filter (\<lambda>k. \<not> dict_has kept k) (rev (offers h)) \<and> (\<forall>k. dict_has kept k \<longrightarrow> k \<in> set (offers h))
     \<and> pub w' = pub w - set (filter (\<lambda>k. \<not> dict_has kept k) (rev (offers h)))"
    using fold_withdraw [OF run, of pub] assms(2) ids'
    by (simp add: offers_law_def dict_has_def list_all_rev) (metis list.set_map set_rev)
  then show ?thesis by (auto simp: wd rev_filter)
qed


lemma fold_restore:
  assumes "fold (restore_one h) ids (rs, ls, w) = (rs', ls', w')" and "hold_wf h" and "offers_law pub h"
    and "distinct ids" and "set ids \<subseteq> set (offers h)" and "\<forall>k\<in>set ids. \<not> dict_has ls k"
  shows "rs' = rs @ filter (\<lambda>k. \<not> dict_has ls' k) ids \<and> (\<forall>k. dict_has ls' k \<longleftrightarrow> dict_has ls k \<or> (k \<in> set ids \<and> dict_has ls' k))
     \<and> pub w' = pub w \<union> set (filter (\<lambda>k. \<not> dict_has ls' k) ids)"
  using assms
proof (induction ids arbitrary: rs ls w)
  case (Cons k ids)
  obtain off where off: "dict_get (rh_offers h) k = Some off"
    using Cons.prems(5) by (metis dict_has_def dict_has_keys list.set_intros(1) not_Some_eq offers_def subsetD)
  then have id: "of_definition_id off = k" and l: "offer_law pub off"
    using Cons.prems(2,3) dict_get_in_set [OF off] by (auto simp: hold_wf_def offers_law_def list_all_iff)
  obtain w1 exc where x: "of_restore off w = (w1, exc)" by (cases "of_restore off w")
  have law: "pub w1 = (if exc = None then insert k (pub w) else pub w)"
    using l [unfolded offer_law_def, rule_format, of w] x id by (auto split: option.splits)
  define ls1 where "ls1 = (case exc of None \<Rightarrow> ls | Some e \<Rightarrow> dict_set k (exc_text e) ls)"
  define rs1 where "rs1 = (if exc = None then rs @ [k] else rs)"
  have "restore_one h k (rs, ls, w) = (rs1, ls1, w1)"
    using x off by (simp add: restore_one_def ls1_def rs1_def split: option.splits)
  then have run: "fold (restore_one h) ids (rs1, ls1, w1) = (rs', ls', w')"
    using Cons.prems(1) by simp
  have has1: "dict_has ls1 j \<longleftrightarrow> dict_has ls j \<or> (exc \<noteq> None \<and> j = k)" for j
    by (auto simp: ls1_def dict_has_set split: option.splits)
  have free: "\<forall>j\<in>set ids. \<not> dict_has ls1 j" "distinct ids" "set ids \<subseteq> set (offers h)"
    using Cons.prems(4-6) unfolding has1 by auto
  note ih = Cons.IH [OF run Cons.prems(2,3) free(2,3,1)]
  have mine: "dict_has ls' k \<longleftrightarrow> exc \<noteq> None"
    using ih has1 Cons.prems(4,6) by auto
  show ?case
    using ih has1 mine law by (auto simp: rs1_def)
qed auto

lemma restore_offers_spec:
  assumes "hold_wf h" and "offers_law pub h" and "distinct ids" and "set ids \<subseteq> set (offers h)"
    and "restore_offers h ids w = (restored, lost, w')"
  shows "restored = filter (\<lambda>k. \<not> dict_has lost k) ids \<and> (\<forall>k. dict_has lost k \<longrightarrow> k \<in> set ids)
     \<and> pub w' = pub w \<union> set restored"
proof -
  have run: "fold (restore_one h) ids ([], [], w) = (restored, lost, w')" using assms(5) by (simp add: restore_offers_def)
  show ?thesis using fold_restore [OF run assms(1-4)] by (auto simp: dict_has_def)
qed

text \<open>A paused run is on hold with its offers taken down: when a bound run whose gate is closed reaches a
  pause point, it is marked held and waits; every contract definition it created is either withdrawn
  or reported as kept; the withdrawn ones, in the order they were created, are no longer on the
  connector, and nothing else the connector shows has changed.\<close>

theorem held_run_withdraws:
  assumes "hold_built h" and "offers_law pub h" and "pause_requested h (hd_jobs s)"
  shows "\<exists>s' withdrawn kept. pause_point_begin h s = (s', Some withdrawn) \<and> is_held (rh_job_id h) (hd_jobs s')
     \<and> withdrawn = filter (\<lambda>k. k \<notin> set (dict_keys kept)) (offers h) \<and> set (dict_keys kept) \<subseteq> set (offers h)
     \<and> pub (hd_connector s') = pub (hd_connector s) - set withdrawn
     \<and> (rh_monitored h \<longrightarrow> (\<exists>n l. last (mo_dispatched (hd_monitor s')) = (''job.held'', JobHeldEvent (rh_job_id h) withdrawn kept n, l)))"
proof -
  obtain withdrawn kept w where x: "withdraw_offers h (hd_connector s) = (withdrawn, kept, w)"
    by (cases "withdraw_offers h (hd_connector s)")
  have b: "rh_bound h" using assms(3) by (simp add: pause_requested_def)
  let ?s = "fst (pause_point_begin h s)"
  have run: "pause_point_begin h s = (?s, Some withdrawn)" "is_held (rh_job_id h) (hd_jobs ?s)" "hd_connector ?s = w"
    using x b assms(3) by (simp_all add: pause_point_begin_def Let_def is_held_def hold_job_def)
  have "rh_monitored h \<longrightarrow> (\<exists>n l. last (mo_dispatched (hd_monitor ?s)) = (''job.held'', JobHeldEvent (rh_job_id h) withdrawn kept n, l))"
    using x b assms(3)
    by (simp add: pause_point_begin_def Let_def on_job_held_def traced_publish_def publish_def case_prod_beta)
  then show ?thesis
    using withdraw_offers_spec [OF hold_built_wf [OF assms(1)] assms(2) x] run
    by (intro exI [of _ ?s] exI [of _ withdrawn] exI [of _ kept]) (auto simp: dict_has_keys)
qed

text \<open>A hold gives everything back, however it ends. If the connector shows the withdrawn definitions
  before the pause and nobody touches it during the wait, then after the gate opens, or after a
  cancellation is raised out of the wait, every definition is there again except those the connector
  refuses to take back, and the run is no longer held. Jobs and monitor may change while it waits.\<close>

theorem hold_gives_back:
  assumes "hold_built h" and "offers_law pub h" and "pause_point_begin h s = (s1, Some withdrawn)"
    and "set withdrawn \<subseteq> pub (hd_connector s)" and "hd_connector s2 = hd_connector s1"
  shows "\<exists>lost. fst (snd (restore_offers h withdrawn (hd_connector s2))) = lost
     \<and> pub (hd_connector (pause_point_end h withdrawn opened s2)) = pub (hd_connector s) - set (dict_keys lost)
     \<and> set (dict_keys lost) \<subseteq> set withdrawn
     \<and> \<not> is_held (rh_job_id h) (hd_jobs (pause_point_end h withdrawn opened s2))"
proof -
  have wf: "hold_wf h" by (rule hold_built_wf [OF assms(1)])
  obtain kept w where x: "withdraw_offers h (hd_connector s) = (withdrawn, kept, w)" and w: "hd_connector s1 = w"
    using assms(3) by (auto simp: pause_point_begin_def Let_def split: if_splits prod.splits)
  note wd = withdraw_offers_spec [OF wf assms(2) x]
  obtain restored lost w' where r: "restore_offers h withdrawn (hd_connector s2) = (restored, lost, w')"
    by (cases "restore_offers h withdrawn (hd_connector s2)")
  have "distinct withdrawn" "set withdrawn \<subseteq> set (offers h)"
    using wd wf by (auto simp: hold_wf_def dict_wf_def offers_def)
  note rs = restore_offers_spec [OF wf assms(2) this r]
  have end_w: "hd_connector (pause_point_end h withdrawn opened s2) = w'"
    and end_h: "\<not> is_held (rh_job_id h) (hd_jobs (pause_point_end h withdrawn opened s2))"
    using r by (auto simp: pause_point_end_def Let_def clear_request_def is_held_def hold_job_def)
  have "pub w' = pub (hd_connector s) - set (dict_keys lost)"
    using rs wd w assms(4,5) by (auto simp: dict_has_keys)
  then show ?thesis
    using r rs end_w end_h by (auto simp: dict_has_keys)
qed

text \<open>For the witnesses: a connector that is the set of its contract definitions, and a run with two offers,
  one of which the connector will not delete.\<close>

definition demo_hold :: "string set RunHold" where
  "demo_hold = offer ''cd2'' (\<lambda>w. (w, Some ([], ''ConflictError''))) (\<lambda>w. (insert ''cd2'' w, None))
     (offer ''cd1'' (\<lambda>w. (w - {''cd1''}, None)) (\<lambda>w. (insert ''cd1'' w, None)) (bind_hold ''j1'' new_hold))"

definition demo_held :: "(unit, string set) Held" where
  "demo_held = \<lparr>hd_jobs = demo_paused, hd_connector = {''cd1'', ''cd2''}, hd_monitor = new_monitor True\<rparr>"

lemma demo_hold_built: "hold_built demo_hold"
  unfolding demo_hold_def by (intro hold_built.intros)

lemma demo_hold_law: "offers_law (\<lambda>w. w) demo_hold"
  by (auto simp: demo_hold_def offers_law_def offer_law_def offer_def bind_hold_def new_hold_def)

lemma demo_hold_requested: "pause_requested demo_hold (hd_jobs demo_held)"
  by (simp add: pause_requested_def demo_hold_def demo_held_def offer_def bind_hold_def new_hold_def get_pause_event_def
      demo_jobs dict_simps)

theorem held_run_withdraws_witness:
  "\<exists>s'. pause_point_begin demo_hold demo_held = (s', Some [''cd1'']) \<and> hd_connector s' = {''cd2''}"
proof -
  obtain s' withdrawn kept where r: "pause_point_begin demo_hold demo_held = (s', Some withdrawn)"
    and c: "hd_connector s' = hd_connector demo_held - set withdrawn"
    using held_run_withdraws [OF demo_hold_built demo_hold_law demo_hold_requested] by auto
  have "snd (pause_point_begin demo_hold demo_held) = Some [''cd1'']"
    using demo_hold_requested
    by (simp add: pause_point_begin_def demo_hold_def demo_held_def offer_def bind_hold_def new_hold_def withdraw_offers_def
        withdraw_one_def Let_def)
  then show ?thesis using r c by (auto simp: demo_held_def)
qed

theorem hold_gives_back_witness:
  "hd_connector (pause_point_end demo_hold [''cd1''] True (fst (pause_point_begin demo_hold demo_held))) = {''cd1'', ''cd2''}"
proof -
  have b: "pause_point_begin demo_hold demo_held = (fst (pause_point_begin demo_hold demo_held), Some [''cd1''])"
    using demo_hold_requested
    by (simp add: pause_point_begin_def demo_hold_def demo_held_def offer_def bind_hold_def new_hold_def withdraw_offers_def
        withdraw_one_def Let_def)
  have "fst (snd (restore_offers demo_hold [''cd1''] w)) = []" for w
    by (simp add: restore_offers_def restore_one_def demo_hold_def offer_def bind_hold_def new_hold_def)
  then show ?thesis
    using hold_gives_back [OF demo_hold_built demo_hold_law b, of "fst (pause_point_begin demo_hold demo_held)" True]
    by (simp add: demo_held_def)
qed

end
