(* ===== verification/Server.thy ===== *)
theory Server
  imports Hold
begin

text \<open>
  The server in front of a player: its job routes (\<^verbatim>\<open>server/routes/jobs.py\<close>), its event stream
  (\<^verbatim>\<open>server/streaming/\<close>) and the id checks of its package store (\<^verbatim>\<open>server/storage.py\<close>).

  A route answers an \<open>http\<close> value: the status code with the JSON content, or the raised
  \<open>HTTPException\<close>. The store and the file system are arguments of the routes that ask them; a background
  task is recorded with the arguments it was started with.
\<close>

section \<open>Routes\<close>

datatype http = Answer nat "(string \<times> string) list" | HTTPException nat string

record background_task =
  bt_target :: string
  bt_runtime_vars :: "(string, pyval) pydict"
  bt_job_id :: "string option"

record 'r Server =
  sv_jobs :: "'r JobManager"
  sv_monitor :: Monitor
  sv_background :: "background_task list"

definition status_text :: "JobStatus \<Rightarrow> string" where
  "status_text s = (case s of Job_QUEUED \<Rightarrow> ''QUEUED'' | Job_RUNNING \<Rightarrow> ''RUNNING'' | Job_WAITING \<Rightarrow> ''WAITING''
     | Job_PAUSED \<Rightarrow> ''PAUSED'' | Job_COMPLETED \<Rightarrow> ''COMPLETED'' | Job_FAILED \<Rightarrow> ''FAILED'' | Job_CANCELLED \<Rightarrow> ''CANCELLED''
     | Job_TIMED_OUT \<Rightarrow> ''TIMED_OUT'')"

definition quoted :: "string \<Rightarrow> string" where
  "quoted s = [CHR 0x27] @ s @ [CHR 0x27]"

definition not_found :: "string \<Rightarrow> http" where
  "not_found i = HTTPException 404 (''Job '' @ quoted i @ '' not found'')"

text \<open>\<open>str(exc)\<close> of what the selection board raises.\<close>

fun job_error_message :: "job_error \<Rightarrow> string" where
  "job_error_message (KeyError i) = quoted i"
| "job_error_message (LookupError_not_waiting i) = ''Job '' @ quoted i @ '' is not waiting for a selection''"
| "job_error_message (LookupError_other_step i want given) =
     ''Job '' @ quoted i @ '' is waiting for a selection at step '' @ quoted (case want of None \<Rightarrow> ''None'' | Some a \<Rightarrow> a)
     @ '', not '' @ quoted given"
| "job_error_message (ValueError_not_offered v options) =
     quoted v @ '' is not one of the options offered: '' @ join_with '', '' options"
| "job_error_message (ValueError_cannot_pause i s) = ''Cannot pause job '' @ quoted i @ '' in state '' @ status_text s"

text \<open>The file name, its stem and its suffix, as \<open>pathlib\<close> splits them.\<close>

definition path_name :: "string \<Rightarrow> string" where
  "path_name p = (case filter (\<lambda>s. s \<noteq> [] \<and> s \<noteq> ''.'') (split_on (CHR ''/'') p) of [] \<Rightarrow> [] | ps \<Rightarrow> last ps)"

definition split_suffix :: "string \<Rightarrow> string \<times> string" where
  "split_suffix n =
     (let r = takeWhile (\<lambda>c. c \<noteq> CHR ''.'') (rev n); stem = take (length n - length r - 1) n
      in if CHR ''.'' \<in> set n \<and> stem \<noteq> [] \<and> r \<noteq> [] then (stem, ''.'' @ rev r) else (n, []))"

definition path_stem :: "string \<Rightarrow> string" where
  "path_stem p = fst (split_suffix (path_name p))"

definition path_suffix :: "string \<Rightarrow> string" where
  "path_suffix p = snd (split_suffix (path_name p))"

definition run_test_target ::
  "(string \<Rightarrow> string option) \<Rightarrow> (string \<Rightarrow> bool) \<Rightarrow> (string \<Rightarrow> bool) \<Rightarrow> string option \<Rightarrow> string option \<Rightarrow> http + string" where
  "run_test_target get_path contains file_exists package_id path =
     (case (nonempty package_id, nonempty path) of
        (None, None) \<Rightarrow> Inl (HTTPException 400 (''Provide '' @ quoted ''package_id'' @ '' or '' @ quoted ''path''))
      | (Some p, _) \<Rightarrow>
          (case get_path p of None \<Rightarrow> Inl (HTTPException 404 (''Package '' @ quoted p @ '' not found'')) | Some t \<Rightarrow> Inr t)
      | (None, Some t) \<Rightarrow>
          if \<not> contains t then Inl (HTTPException 403 (quoted ''path'' @ '' must name a package in the server'' @ [CHR 0x27] @ ''s package store''))
          else if \<not> file_exists t then Inl (HTTPException 404 (''File not found: '' @ t))
          else if path_suffix t \<noteq> ''.tck'' then Inl (HTTPException 400 (quoted (path_name t) @ '' is not a compiled package''))
          else Inr t)"

definition run_test_route ::
  "(string \<Rightarrow> string option) \<Rightarrow> (string \<Rightarrow> bool) \<Rightarrow> (string \<Rightarrow> bool) \<Rightarrow> string option \<Rightarrow> string option \<Rightarrow> (string, pyval) pydict
   \<Rightarrow> string \<Rightarrow> int \<Rightarrow> 'r Server \<Rightarrow> 'r Server \<times> http" where
  "run_test_route get_path contains file_exists package_id path runtime_vars fresh now s =
     (case run_test_target get_path contains file_exists package_id path of
        Inl e \<Rightarrow> (s, e)
      | Inr target \<Rightarrow>
          (let (jobs, job) = create_job (path_stem target) None None fresh now (sv_jobs s)
           in (s\<lparr>sv_jobs := jobs,
                 sv_background := sv_background s @ [\<lparr>bt_target = target, bt_runtime_vars = runtime_vars, bt_job_id = None\<rparr>]\<rparr>,
               Answer 202 [(''job_id'', jb_job_id job), (''status'', status_text (job_status job))])))"

definition JobStatus_of :: "string \<Rightarrow> JobStatus option" where
  "JobStatus_of t = find (\<lambda>s. status_text s = t)
     [Job_QUEUED, Job_RUNNING, Job_WAITING, Job_PAUSED, Job_COMPLETED, Job_FAILED, Job_CANCELLED, Job_TIMED_OUT]"

definition list_jobs_route :: "string option \<Rightarrow> 'r Server \<Rightarrow> http + 'r Job list" where
  "list_jobs_route status s =
     (case nonempty status of
        None \<Rightarrow> Inr (list_jobs None 50 0 (sv_jobs s))
      | Some t \<Rightarrow>
          (case JobStatus_of (map upper_char t) of
             None \<Rightarrow> Inl (HTTPException 400 (''Invalid status: '' @ t))
           | Some x \<Rightarrow> Inr (list_jobs (Some x) 50 0 (sv_jobs s))))"

definition get_job_route :: "string \<Rightarrow> 'r Server \<Rightarrow> http + 'r Job" where
  "get_job_route i s = (case get_job i (sv_jobs s) of None \<Rightarrow> Inl (not_found i) | Some j \<Rightarrow> Inr j)"

definition cancel_job_route :: "wire_env \<Rightarrow> string \<Rightarrow> int \<Rightarrow> 'r Server \<Rightarrow> 'r Server \<times> http" where
  "cancel_job_route env i now s =
     (case get_job i (sv_jobs s) of
        None \<Rightarrow> (s, not_found i)
      | Some j \<Rightarrow>
          (case cancel i now (sv_jobs s) of
             Inl _ \<Rightarrow> (s, HTTPException 500 [])
           | Inr jobs \<Rightarrow>
               (s\<lparr>sv_jobs := jobs, sv_monitor := on_job_cancelled env i (sv_monitor s)\<rparr>,
                Answer 200 [(''job_id'', i), (''status'', ''CANCELLED'')])))"

definition pause_job_route :: "string \<Rightarrow> int \<Rightarrow> 'r Server \<Rightarrow> 'r Server \<times> http" where
  "pause_job_route i now s =
     (case get_job i (sv_jobs s) of
        None \<Rightarrow> (s, not_found i)
      | Some j \<Rightarrow>
          if job_status j \<noteq> Job_RUNNING
          then (s, HTTPException 409 (''Job '' @ quoted i @ '' is not running (status: '' @ status_text (job_status j) @ '')''))
          else (case pause i now (sv_jobs s) of
              Inl _ \<Rightarrow> (s, HTTPException 500 [])
            | Inr jobs \<Rightarrow>
                (s\<lparr>sv_jobs := jobs, sv_monitor := on_job_paused i (sv_monitor s)\<rparr>,
                 Answer 200 [(''job_id'', i), (''status'', ''PAUSED'')])))"

definition resume_job_route :: "string \<Rightarrow> int \<Rightarrow> 'r Server \<Rightarrow> 'r Server \<times> http" where
  "resume_job_route i now s =
     (case get_job i (sv_jobs s) of
        None \<Rightarrow> (s, not_found i)
      | Some j \<Rightarrow>
          if job_status j \<noteq> Job_PAUSED
          then (s, HTTPException 409 (''Job '' @ quoted i @ '' is not paused (status: '' @ status_text (job_status j) @ '')''))
          else (case resume i now (sv_jobs s) of
              Inl _ \<Rightarrow> (s, HTTPException 500 [])
            | Inr jobs \<Rightarrow>
                (s\<lparr>sv_jobs := jobs, sv_monitor := on_job_resumed i (sv_monitor s)\<rparr>,
                 Answer 200 [(''job_id'', i), (''status'', ''RUNNING'')])))"

text \<open>The body of \<open>select_option\<close>: its \<open>value\<close> when it is a text, and its \<open>step_id\<close>.\<close>

definition select_option_route :: "string \<Rightarrow> string option \<Rightarrow> string option \<Rightarrow> 'r Server \<Rightarrow> 'r Server \<times> http" where
  "select_option_route i val step_id s =
     (case get_job i (sv_jobs s) of
        None \<Rightarrow> (s, not_found i)
      | Some _ \<Rightarrow>
          (case nonempty val of
             None \<Rightarrow> (s, HTTPException 400 (''Provide '' @ quoted ''value''))
           | Some v \<Rightarrow>
               (case board_answer i v step_id (jm_selections (sv_jobs s)) of
                  Inl (ValueError_not_offered w options) \<Rightarrow> (s, HTTPException 400 (job_error_message (ValueError_not_offered w options)))
                | Inl e \<Rightarrow> (s, HTTPException 409 (job_error_message e))
                | Inr b \<Rightarrow> (s\<lparr>sv_jobs := (sv_jobs s)\<lparr>jm_selections := b\<rparr>\<rparr>,
                             Answer 200 [(''job_id'', i), (''value'', v)]))))"

section \<open>The job of a session\<close>

text \<open>\<open>TestlabPlayer.open_session\<close>, as far as the job goes: the id is checked, a job of that id is taken up or
  one is created, and it is started.\<close>

definition run_id_char :: "char \<Rightarrow> bool" where
  "run_id_char c = (let n = of_char c :: nat in (65 \<le> n \<and> n \<le> 90) \<or> (97 \<le> n \<and> n \<le> 122) \<or> (48 \<le> n \<and> n \<le> 57))"

definition valid_run_id :: "string \<Rightarrow> bool" where
  "valid_run_id s = (s \<noteq> [] \<and> run_id_char (hd s) \<and> list_all (\<lambda>c. run_id_char c \<or> c = CHR ''.'' \<or> c = CHR ''-'') (tl s))"

definition session_job ::
  "string \<Rightarrow> string option \<Rightarrow> string \<Rightarrow> int \<Rightarrow> 'r JobManager \<Rightarrow> string + ('r JobManager \<times> string)" where
  "session_job tck_id given fresh now m =
     (if (case given of None \<Rightarrow> False | Some i \<Rightarrow> \<not> valid_run_id i)
      then Inl ''run id must contain only letters, numbers, dots and hyphens''
      else (let found = (case nonempty given of None \<Rightarrow> None | Some i \<Rightarrow> get_job i m);
                (m1, i) = (case found of Some j \<Rightarrow> (m, jb_job_id j)
                           | None \<Rightarrow> (let (m', j) = create_job tck_id None given fresh now m in (m', jb_job_id j)))
            in case start i now m1 of Inl _ \<Rightarrow> Inl ''KeyError'' | Inr m2 \<Rightarrow> Inr (m2, i)))"

section \<open>The event stream\<close>

record BufferedEvent =
  be_id :: nat
  be_event :: string
  be_data :: pyval

record EventBuffer =
  eb_buffers :: "(string, BufferedEvent list) pydict"
  eb_counters :: "(string, nat) pydict"
  eb_max_per_job :: nat

definition new_buffer :: "nat \<Rightarrow> EventBuffer" where
  "new_buffer max_per_job = \<lparr>eb_buffers = [], eb_counters = [], eb_max_per_job = max_per_job\<rparr>"

definition next_id :: "string \<Rightarrow> EventBuffer \<Rightarrow> EventBuffer \<times> nat" where
  "next_id i b =
     (let n = Suc (case dict_get (eb_counters b) i of None \<Rightarrow> 0 | Some k \<Rightarrow> k)
      in (b\<lparr>eb_counters := dict_set i n (eb_counters b)\<rparr>, n))"

definition buffered :: "EventBuffer \<Rightarrow> string \<Rightarrow> BufferedEvent list" where
  "buffered b i = (case dict_get (eb_buffers b) i of None \<Rightarrow> [] | Some es \<Rightarrow> es)"

text \<open>\<open>buf[-n:]\<close>, which is the whole list for 0.\<close>

definition last_slice :: "nat \<Rightarrow> 'a list \<Rightarrow> 'a list" where
  "last_slice n xs = (if n = 0 then xs else drop (length xs - n) xs)"

definition buffer_append :: "string \<Rightarrow> BufferedEvent \<Rightarrow> EventBuffer \<Rightarrow> EventBuffer" where
  "buffer_append i e b =
     (let buf = buffered b i @ [e]
      in b\<lparr>eb_buffers := dict_set i (if length buf > eb_max_per_job b then last_slice (eb_max_per_job b) buf else buf)
            (eb_buffers b)\<rparr>)"

definition get_events_after :: "string \<Rightarrow> int \<Rightarrow> EventBuffer \<Rightarrow> BufferedEvent list" where
  "get_events_after i last_id b = filter (\<lambda>e. int (be_id e) > last_id) (buffered b i)"

definition buffer_clear :: "string \<Rightarrow> EventBuffer \<Rightarrow> EventBuffer" where
  "buffer_clear i b = b\<lparr>eb_buffers := dict_pop i (eb_buffers b), eb_counters := dict_pop i (eb_counters b)\<rparr>"

definition TERMINAL_EVENTS :: "string list" where
  "TERMINAL_EVENTS = [''job.completed'', ''job.failed'', ''job.cancelled'']"

text \<open>
  The streams of a server. A connection is its job and its queue, which the callback registered on the
  player's monitor fills; \<open>open\<close> tells whether its generator still runs, and \<open>sent\<close> what it yielded.
\<close>

record Connection =
  cn_job :: string
  cn_queue :: "(string \<times> pyval) list"
  cn_open :: bool
  cn_sent :: "BufferedEvent list"

record Streams =
  st_buffer :: EventBuffer
  st_connections :: "Connection list"

text \<open>\<open>create_event_queue\<close> and the replay of \<open>sse_event_generator\<close>.\<close>

definition stream_connect :: "string \<Rightarrow> int option \<Rightarrow> Streams \<Rightarrow> Streams" where
  "stream_connect i last_event_id s =
     s\<lparr>st_connections := st_connections s @
         [\<lparr>cn_job = i, cn_queue = [], cn_open = True,
           cn_sent = (case last_event_id of None \<Rightarrow> [] | Some n \<Rightarrow> get_events_after i n (st_buffer s))\<rparr>]\<rparr>"

text \<open>The monitor publishes: every registered callback pushes the event on its queue.\<close>

definition stream_publish :: "string \<Rightarrow> pyval \<Rightarrow> Streams \<Rightarrow> Streams" where
  "stream_publish event payload s =
     s\<lparr>st_connections := map (\<lambda>c. c\<lparr>cn_queue := cn_queue c @ [(event, payload)]\<rparr>) (st_connections s)\<rparr>"

text \<open>One turn of the generator of connection \<open>k\<close>: the next event of its queue, or after the idle limit a
  timeout, which ends it.\<close>

definition stream_send :: "nat \<Rightarrow> string \<Rightarrow> pyval \<Rightarrow> bool \<Rightarrow> Streams \<Rightarrow> Streams" where
  "stream_send k event payload ends s =
     (let c = st_connections s ! k;
          (b1, n) = next_id (cn_job c) (st_buffer s);
          e = \<lparr>be_id = n, be_event = event, be_data = payload\<rparr>
      in s\<lparr>st_buffer := buffer_append (cn_job c) e b1,
           st_connections := (st_connections s)[k := c\<lparr>cn_sent := cn_sent c @ [e], cn_open := \<not> ends\<rparr>]\<rparr>)"

definition stream_serve :: "nat \<Rightarrow> Streams \<Rightarrow> Streams" where
  "stream_serve k s =
     (let c = st_connections s ! k
      in if \<not> (k < length (st_connections s) \<and> cn_open c) then s
         else (case cn_queue c of
             [] \<Rightarrow> s
           | (event, payload) # q \<Rightarrow>
               stream_send k event payload (event \<in> set TERMINAL_EVENTS)
                 (s\<lparr>st_connections := (st_connections s)[k := c\<lparr>cn_queue := q\<rparr>]\<rparr>)))"

definition stream_timeout :: "nat \<Rightarrow> Streams \<Rightarrow> Streams" where
  "stream_timeout k s =
     (if k < length (st_connections s) \<and> cn_open (st_connections s ! k)
      then stream_send k ''stream.timeout'' (PDict [(''reason'', PStr ''No events received within timeout'')]) True s else s)"

definition stream_disconnect :: "nat \<Rightarrow> Streams \<Rightarrow> Streams" where
  "stream_disconnect k s =
     (if k < length (st_connections s)
      then s\<lparr>st_connections := (st_connections s)[k := (st_connections s ! k)\<lparr>cn_open := False\<rparr>]\<rparr> else s)"

section \<open>What the routes do\<close>

definition status_of :: "string \<Rightarrow> 'r Server \<Rightarrow> JobStatus option" where
  "status_of i s = map_option job_status (get_job i (sv_jobs s))"

text \<open>The server pauses exactly the running jobs and resumes exactly the paused ones: the answer is 200
  when the job is in the right state, and the job is then PAUSED or RUNNING; otherwise the answer is
  404 or 409 and the server is as it was.\<close>

theorem pause_resume_routes:
  "(case pause_job_route i now s of
      (s', Answer code _) \<Rightarrow> code = 200 \<and> status_of i s = Some Job_RUNNING \<and> status_of i s' = Some Job_PAUSED
    | (s', HTTPException code _) \<Rightarrow> code \<in> {404, 409} \<and> status_of i s \<noteq> Some Job_RUNNING \<and> s' = s)
   \<and> (case resume_job_route i now s of
      (s', Answer code _) \<Rightarrow> code = 200 \<and> status_of i s = Some Job_PAUSED \<and> status_of i s' = Some Job_RUNNING
    | (s', HTTPException code _) \<Rightarrow> code \<in> {404, 409} \<and> status_of i s \<noteq> Some Job_PAUSED \<and> s' = s)"
  by (auto simp: pause_job_route_def resume_job_route_def not_found_def status_of_def get_job_def manager_defs
      set_pause_event_def set_pause_request_def dict_simps split: option.splits)

text \<open>A finished job stays as it is when its cancellation is requested, and the server still answers and
  announces that it was cancelled.\<close>

lemma cancel_route_of_finished_job:
  assumes "get_job i (sv_jobs s) = Some j" and "job_status j = Job_COMPLETED"
  shows "\<exists>s'. cancel_job_route env i now s = (s', Answer 200 [(''job_id'', i), (''status'', ''CANCELLED'')])
     \<and> get_job i (sv_jobs s') = Some j
     \<and> sv_monitor s' = on_job_cancelled env i (sv_monitor s)"
  using assms by (simp add: cancel_job_route_def cancel_def require_job_def get_job_def)

lemma run_test_target_fails:
  "run_test_target get_path contains file_exists package_id path = Inl e \<Longrightarrow> e \<noteq> Answer code content"
  by (auto simp: run_test_target_def split: option.splits if_splits)

text \<open>The route that starts a package hands out a job nobody runs: the background task is started without
  the job's id, so its session creates and starts another job.\<close>

lemma submitted_job_stays_queued:
  assumes "run_test_route get_path contains file_exists package_id path vars fresh now s = (s', Answer 202 content)"
    and "fresh \<noteq> []" and "fresh' \<noteq> fresh" and "fresh' \<noteq> []"
  shows "\<exists>task. sv_background s' = sv_background s @ [task] \<and> bt_job_id task = None
     \<and> content = [(''job_id'', fresh), (''status'', ''QUEUED'')]
     \<and> (\<exists>m. session_job tck (bt_job_id task) fresh' now' (sv_jobs s') = Inr (m, fresh')
            \<and> map_option job_status (get_job fresh m) = Some Job_QUEUED)"
  using assms run_test_target_fails [of get_path contains file_exists package_id path]
  by (auto simp: run_test_route_def session_job_def create_job_def Let_def nonempty_def get_job_def manager_defs
      status_text_def dict_simps split: sum.splits option.splits if_splits prod.splits)

lemma listing_stops_at_fifty: "list_jobs_route None s = Inr (take 50 (dict_values (jm_jobs (sv_jobs s))))"
  by (simp add: list_jobs_route_def nonempty_def list_jobs_def)

text \<open>A stream carries what every job publishes and ends with the first job that ends: the queue of a
  connection takes every event of the monitor, whichever job it is about.\<close>

lemma stream_ends_with_any_job:
  assumes "st_connections s = [c]" and "cn_open c" and "cn_queue c = []" and "event \<in> set TERMINAL_EVENTS"
  shows "map cn_open (st_connections (stream_serve 0 (stream_publish event payload s))) = [False]
     \<and> map (be_event \<circ> last \<circ> cn_sent) (st_connections (stream_serve 0 (stream_publish event payload s))) = [event]"
  using assms by (simp add: stream_serve_def stream_send_def stream_publish_def next_id_def Let_def)

text \<open>What is published while no generator runs is not in the buffer, so a client that comes back with its
  last event id gets none of it.\<close>

lemma unserved_events_not_replayed:
  "st_buffer (stream_publish event payload s) = st_buffer s"
  "cn_sent (last (st_connections (stream_connect i last_id (stream_publish event payload s))))
   = cn_sent (last (st_connections (stream_connect i last_id s)))"
  by (simp_all add: stream_publish_def stream_connect_def split: option.split)

section \<open>Replay\<close>

text \<open>The buffer of a job whose \<open>n\<close> events were numbered and stored one after the other.\<close>

fun buffer_run :: "string \<Rightarrow> (string \<times> pyval) list \<Rightarrow> EventBuffer \<Rightarrow> EventBuffer" where
  "buffer_run i [] b = b"
| "buffer_run i ((event, payload) # es) b =
     (let (b1, n) = next_id i b in buffer_run i es (buffer_append i \<lparr>be_id = n, be_event = event, be_data = payload\<rparr> b1))"

definition numbered_events :: "nat \<Rightarrow> (string \<times> pyval) list \<Rightarrow> BufferedEvent list" where
  "numbered_events n es = map (\<lambda>(k, event, payload). \<lparr>be_id = k, be_event = event, be_data = payload\<rparr>) (enumerate (Suc n) es)"

definition buffer_count :: "EventBuffer \<Rightarrow> string \<Rightarrow> nat" where
  "buffer_count b i = (case dict_get (eb_counters b) i of None \<Rightarrow> 0 | Some k \<Rightarrow> k)"

lemma last_slice_snoc:
  "0 < n \<Longrightarrow> (let buf = last_slice n xs @ [x] in if length buf > n then last_slice n buf else buf) = last_slice n (xs @ [x])"
  by (cases "length xs < n") (auto simp: last_slice_def Let_def Suc_diff_le)

lemma buffer_run_append: "buffer_run i (es @ fs) b = buffer_run i fs (buffer_run i es b)"
  by (induction es arbitrary: b) (auto simp: Let_def split: prod.split)

lemma numbered_events_snoc: "numbered_events n (es @ [(ev, pl)]) =
    numbered_events n es @ [\<lparr>be_id = Suc (n + length es), be_event = ev, be_data = pl\<rparr>]"
  by (simp add: numbered_events_def enumerate_append_eq)

lemma buffer_run_contents:
  assumes "0 < m"
  shows "buffered (buffer_run i es (new_buffer m)) i = last_slice m (numbered_events 0 es)
     \<and> buffer_count (buffer_run i es (new_buffer m)) i = length es
     \<and> eb_max_per_job (buffer_run i es (new_buffer m)) = m"
proof (induction es rule: rev_induct)
  case Nil
  show ?case by (simp add: buffered_def buffer_count_def new_buffer_def last_slice_def numbered_events_def)
next
  case (snoc e es)
  obtain ev pl where e: "e = (ev, pl)" by (cases e)
  show ?case
    using snoc last_slice_snoc [OF assms, of "numbered_events 0 es"]
    by (auto simp: e buffer_run_append numbered_events_snoc next_id_def buffer_append_def buffered_def buffer_count_def
        Let_def dict_simps split: option.splits)
qed

lemma numbered_events_ids: "map be_id (numbered_events n es) = [Suc n..<Suc (n + length es)]"
  by (induction es arbitrary: n) (auto simp: numbered_events_def upt_rec)

text \<open>C27. A stream that is picked up again misses nothing the buffer was given, as long as no more than its
  capacity came in between: after any number of events stored for a job, the replay after event
  \<open>k\<close> is exactly the events \<open>k + 1\<close>, \<open>k + 2\<close> and so on, in order, numbered without a gap; and the
  buffer never holds more than its capacity.\<close>

theorem replay_is_complete:
  assumes "0 < capacity" and "k \<le> length es" and "length es \<le> k + capacity"
  shows "get_events_after i (int k) (buffer_run i es (new_buffer capacity)) = drop k (numbered_events 0 es)
     \<and> map be_id (drop k (numbered_events 0 es)) = [Suc k..<Suc (length es)]
     \<and> length (buffered (buffer_run i es (new_buffer capacity)) i) \<le> capacity"
proof -
  let ?N = "numbered_events 0 es"
  have b: "buffered (buffer_run i es (new_buffer capacity)) i = last_slice capacity ?N"
    using buffer_run_contents [OF assms(1)] by blast
  have ids: "map be_id ?N = [1..<Suc (length es)]" using numbered_events_ids [of 0 es] by simp
  have len: "length ?N = length es" by (simp add: numbered_events_def)
  have id_nth: "be_id (?N ! j) = Suc j" if "j < length es" for j
    using that ids len by (metis (no_types, lifting) add.commute nth_map nth_upt plus_1_eq_Suc Suc_less_eq)
  have old: "\<not> int (be_id e) > int k" if "e \<in> set (drop d (take k ?N))" for d e
  proof -
    have "e \<in> set (take k ?N)" using that by (meson in_set_dropD)
    then show ?thesis by (auto simp: in_set_conv_nth id_nth len)
  qed
  have new: "int (be_id e) > int k" if "e \<in> set (drop k ?N)" for e
    using that by (auto simp: in_set_conv_nth id_nth len)
  let ?d = "length es - capacity"
  have "?d \<le> k" using assms(3) by simp
  then have split: "last_slice capacity ?N = drop ?d (take k ?N) @ drop k ?N"
    using assms(1,2) len by (simp add: last_slice_def) (metis append_take_drop_id drop_append length_take min.absorb2 drop0 diff_is_0_eq)
  have "get_events_after i (int k) (buffer_run i es (new_buffer capacity)) = drop k ?N"
    unfolding get_events_after_def b split using old new by (auto simp: filter_empty_conv filter_id_conv)
  moreover have "map be_id (drop k ?N) = [Suc k..<Suc (length es)]"
    by (auto simp: drop_map [symmetric] ids drop_upt)
  moreover have "length (last_slice capacity ?N) \<le> capacity"
    using assms(1) by (simp add: last_slice_def)
  ultimately show ?thesis unfolding b by blast
qed

theorem replay_is_complete_witness:
  "map be_id (get_events_after ''j'' 1 (buffer_run ''j'' [(''a'', PNone), (''b'', PNone), (''c'', PNone)] (new_buffer 2))) = [2, 3]"
  using replay_is_complete [of 2 1 "[(''a'', PNone), (''b'', PNone), (''c'', PNone)]" "''j''"]
  by (simp add: numeral_eq_Suc)

end
