(* ===== verification/Context.thy ===== *)
theory Context
  imports Results "HOL-Library.Char_ord" "HOL-Library.List_Lexorder"
begin

text \<open>
  What the steps of a run share (\<^verbatim>\<open>player/execution/context.py\<close>): the variables, with the names that hold
  authored templates and the prefixes that are sealed (\<^verbatim>\<open>_context_seal.py\<close>), the record of what became of
  the steps (\<^verbatim>\<open>_step_outcomes.py\<close>), the phase the outputs are published under; and the exceptions of
  \<^verbatim>\<open>models/primitives/exceptions.py\<close> as values.

  An exception is what the runner reads off it: its class, as far as the runner asks for it, its message,
  \<open>code\<close>, \<open>origin\<close> and \<open>diagnostics\<close>, and the checks of nested steps it carries. Long dashes in messages
  are written \<open>--\<close>.
\<close>

section \<open>Exceptions\<close>

record NestedChecks =
  nc_checks :: "AssertionResult list"
  nc_declared :: nat

datatype exc_kind = Test_Lab_Error | Engine_Error | Value_Error | Other_Exception

record exc =
  ex_kind :: exc_kind
  ex_message :: string
  ex_code :: "string option"
  ex_origin :: "string option"
  ex_diagnostics :: "(string, pyval) pydict option"
  ex_nested :: "NestedChecks option"

definition authoring_error :: "string \<Rightarrow> exc" where
  "authoring_error message = \<lparr>ex_kind = Test_Lab_Error, ex_message = message, ex_code = Some ''AUTHORING_ERROR'',
     ex_origin = Some ''authoring'', ex_diagnostics = None, ex_nested = None\<rparr>"

definition value_error :: "string \<Rightarrow> exc" where
  "value_error message = \<lparr>ex_kind = Value_Error, ex_message = message, ex_code = None, ex_origin = None,
     ex_diagnostics = None, ex_nested = None\<rparr>"

definition sealed_variable_error :: "string \<Rightarrow> exc" where
  "sealed_variable_error name =
     (authoring_error ([CHR 0x27] @ name @ [CHR 0x27] @ '' is fixed for this run: the infrastructure bindings are the host''
        @ [CHR 0x27] @ ''s to set, not a test'' @ [CHR 0x27] @ ''s. Publish the value under a name of your own.''))
     \<lparr>ex_code := Some ''SEALED_VARIABLE'', ex_diagnostics := Some [(''variable'', PStr name)]\<rparr>"

text \<open>\<open>_CODE_OF_ORIGIN\<close>.\<close>

definition code_of_origin :: "string \<Rightarrow> string option" where
  "code_of_origin origin = dict_get
     [(''authoring'', ''AUTHORING_ERROR''), (''infrastructure'', ''INFRASTRUCTURE_ERROR''),
      (''connector'', ''CONNECTOR_ERROR''), (''engine'', ''ENGINE_FAULT'')] origin"

definition dotted :: "string list \<Rightarrow> string" where
  "dotted = join_with ''.''"

text \<open>\<open>_remedy\<close>: the longest proper prefix of the reference that is in scope, cut at a dot.\<close>

definition remedy :: "string \<Rightarrow> string list \<Rightarrow> string" where
  "remedy reference available =
     (let segments = split_on (CHR ''.'') reference; quote = (\<lambda>s. [CHR 0x27] @ s @ [CHR 0x27])
      in case find (\<lambda>n. dotted (take n segments) \<in> set available) (rev [1..<length segments]) of
           None \<Rightarrow> []
         | Some n \<Rightarrow>
             (let prefix = dotted (take n segments); rest = dotted (drop n segments);
                  inner = dotted (drop 2 (split_on (CHR ''.'') prefix)); owner = (if inner = [] then prefix else inner)
              in '' '' @ quote prefix @ '' is in scope but '' @ quote rest @ '' is a path into its value,''
                 @ '' and a reference is a name rather than a path. Declare it as `returns: { '' @ owner @ ''.'' @ rest
                 @ '': ... }` on the step that produces it, then reference '' @ quote reference @ ''.''))"

definition unresolved_reference_error :: "string \<Rightarrow> string list \<Rightarrow> string \<Rightarrow> exc" where
  "unresolved_reference_error reference available origin =
     (let listed = (let t = join_with '', '' (take 20 (sort available)) in if t = [] then ''nothing'' else t);
          more = (if length available \<le> 20 then [] else '' (and '' @ nat_text (length available - 20) @ '' more)'');
          e = authoring_error ([CHR 0x27] @ reference @ [CHR 0x27] @ '' resolves to nothing.'' @ remedy reference available
                @ '' In scope: '' @ listed @ more @ ''.'')
      in if origin = ''authoring'' then e else e\<lparr>ex_origin := Some origin, ex_code := code_of_origin origin\<rparr>)"

definition template_depth_error :: "string \<Rightarrow> exc" where
  "template_depth_error reference =
     authoring_error ([CHR 0x27] @ ''${{ '' @ reference @ '' }}'' @ [CHR 0x27] @ '' nests references more than 16 deep -- ''
       @ ''test data or an env value that names itself, directly or through another.'')"

definition credential_misuse_error :: "string \<Rightarrow> string \<Rightarrow> exc" where
  "credential_misuse_error name where_text =
     (let r = ''${{ '' @ name @ '' }}''; q = [CHR 0x27]; d = [CHR 0x22]
      in (authoring_error (q @ r @ q @ '' is a credential and may only be the whole value of a request header in http/http_request''
            @ (if where_text = [] then [] else '' ('' @ where_text @ '')'') @ '' -- e.g. '' @ q @ ''headers: { x-api-key: ''
            @ d @ r @ d @ '' }'' @ q @ ''. It cannot be interpolated into text or passed to any other input.''))
         \<lparr>ex_code := Some ''CREDENTIAL_MISUSE'', ex_diagnostics := Some [(''credential'', PStr name)]\<rparr>)"

section \<open>What became of the steps\<close>

record StepOutcome =
  so_status :: StepStatus
  so_origin :: "string option"

record StepOutcomes =
  os_outcomes :: "(string, StepOutcome) pydict"
  os_stopped_by :: "string option"

definition no_outcomes :: StepOutcomes where
  "no_outcomes = \<lparr>os_outcomes = [], os_stopped_by = None\<rparr>"

definition failure_origin :: "StepResult \<Rightarrow> string" where
  "failure_origin r =
     (case sr_error_origin r of
        Some (c # s) \<Rightarrow> c # s
      | _ \<Rightarrow> if starts_with (case sr_error r of None \<Rightarrow> [] | Some t \<Rightarrow> t) ENGINE_FAULT_PREFIX then ''engine'' else ''sut'')"

definition nonempty_text :: "string option \<Rightarrow> bool" where
  "nonempty_text s = (s \<noteq> None \<and> s \<noteq> Some [])"

definition record_outcome :: "string option \<Rightarrow> string option \<Rightarrow> StepStatus \<Rightarrow> string option \<Rightarrow> StepOutcomes \<Rightarrow> StepOutcomes" where
  "record_outcome namespace step_id status origin o1 =
     (if nonempty_text namespace \<and> nonempty_text step_id
      then o1\<lparr>os_outcomes := dict_set (the namespace @ ''.'' @ the step_id) \<lparr>so_status = status, so_origin = origin\<rparr> (os_outcomes o1)\<rparr>
      else o1)"

definition record_result :: "string option \<Rightarrow> string option \<Rightarrow> StepResult \<Rightarrow> StepOutcomes \<Rightarrow> StepOutcomes" where
  "record_result namespace step_id r =
     record_outcome namespace step_id (sr_status r) (if sr_status r = Step_FAILED then Some (failure_origin r) else None)"

definition outcome_of :: "StepOutcomes \<Rightarrow> string \<Rightarrow> StepOutcome option" where
  "outcome_of o1 step = dict_get (os_outcomes o1) step"

definition record_stop :: "string \<Rightarrow> StepOutcomes \<Rightarrow> StepOutcomes" where
  "record_stop origin o1 = (case os_stopped_by o1 of None \<Rightarrow> o1\<lparr>os_stopped_by := Some origin\<rparr> | Some _ \<Rightarrow> o1)"

section \<open>The context\<close>

record StepContext =
  cx_variables :: "(string, pyval) pydict"
  cx_templates :: "string set"
  cx_sealed :: "string list"
  cx_resource_prefix :: string
  cx_test_cac :: "string list"
  cx_step_namespace :: "string option"
  cx_steps :: StepOutcomes

definition new_context :: "string \<Rightarrow> StepContext" where
  "new_context prefix = \<lparr>cx_variables = [], cx_templates = {}, cx_sealed = [], cx_resource_prefix = prefix,
     cx_test_cac = [], cx_step_namespace = None, cx_steps = no_outcomes\<rparr>"

definition resource_id :: "StepContext \<Rightarrow> string \<Rightarrow> string" where
  "resource_id x local_id =
     (if local_id = [] \<or> starts_with local_id (cx_resource_prefix x) then local_id else cx_resource_prefix x @ local_id)"

definition bind_test_cac :: "string list option \<Rightarrow> StepContext \<Rightarrow> StepContext" where
  "bind_test_cac cac x = x\<lparr>cx_test_cac := (case cac of None \<Rightarrow> [] | Some cs \<Rightarrow> cs)\<rparr>"

definition bind_step_namespace :: "string option \<Rightarrow> StepContext \<Rightarrow> StepContext" where
  "bind_step_namespace namespace x = x\<lparr>cx_step_namespace := namespace\<rparr>"

definition seal :: "string \<Rightarrow> StepContext \<Rightarrow> StepContext" where
  "seal prefix x = (if prefix \<in> set (cx_sealed x) then x else x\<lparr>cx_sealed := cx_sealed x @ [prefix]\<rparr>)"

definition writable :: "StepContext \<Rightarrow> string \<Rightarrow> bool" where
  "writable x name = (\<not> list_ex (starts_with name) (cx_sealed x))"

definition set_variable :: "string \<Rightarrow> pyval \<Rightarrow> StepContext \<Rightarrow> exc + StepContext" where
  "set_variable name v x =
     (if writable x name
      then Inr (x\<lparr>cx_variables := dict_set name v (cx_variables x), cx_templates := cx_templates x - {name}\<rparr>)
      else Inl (sealed_variable_error name))"

definition set_template :: "string \<Rightarrow> pyval \<Rightarrow> StepContext \<Rightarrow> exc + StepContext" where
  "set_template name v x =
     (if writable x name
      then Inr (x\<lparr>cx_variables := dict_set name v (cx_variables x), cx_templates := insert name (cx_templates x)\<rparr>)
      else Inl (sealed_variable_error name))"

definition unset_variable :: "string \<Rightarrow> StepContext \<Rightarrow> exc + StepContext" where
  "unset_variable name x =
     (if writable x name
      then Inr (x\<lparr>cx_variables := dict_pop name (cx_variables x), cx_templates := cx_templates x - {name}\<rparr>)
      else Inl (sealed_variable_error name))"

definition is_template :: "StepContext \<Rightarrow> string \<Rightarrow> bool" where
  "is_template x name = (name \<in> cx_templates x)"

definition has_variable :: "StepContext \<Rightarrow> string \<Rightarrow> bool" where
  "has_variable x name = dict_has (cx_variables x) name"

definition get_variable :: "StepContext \<Rightarrow> string \<Rightarrow> pyval" where
  "get_variable x name = (case dict_get (cx_variables x) name of None \<Rightarrow> PNone | Some v \<Rightarrow> v)"

definition get_str :: "StepContext \<Rightarrow> string \<Rightarrow> string \<Rightarrow> string" where
  "get_str x name fallback =
     (case dict_get (cx_variables x) name of None \<Rightarrow> fallback | Some v \<Rightarrow> if v = PNone then fallback else py_str v)"

section \<open>Sealed names\<close>

lemmas context_ops = set_variable_def set_template_def unset_variable_def

datatype context_op = Set string pyval | Template string pyval | Unset string | Seal string

fun context_do :: "context_op \<Rightarrow> StepContext \<Rightarrow> exc + StepContext" where
  "context_do (Set n v) x = set_variable n v x"
| "context_do (Template n v) x = set_template n v x"
| "context_do (Unset n) x = unset_variable n x"
| "context_do (Seal p) x = Inr (seal p x)"

text \<open>A run of writes in which a refused one leaves the context as it was, as an exception does.\<close>

definition context_try :: "StepContext \<Rightarrow> context_op \<Rightarrow> StepContext" where
  "context_try x w = (case context_do w x of Inl _ \<Rightarrow> x | Inr y \<Rightarrow> y)"

lemma sealed_grows: "set (cx_sealed x) \<subseteq> set (cx_sealed (context_try x w))"
  by (cases w) (auto simp: context_try_def context_ops seal_def)

lemma writable_sealed: "starts_with name prefix \<Longrightarrow> prefix \<in> set (cx_sealed x) \<Longrightarrow> \<not> writable x name"
  by (auto simp: writable_def list_ex_iff)

lemma sealed_kept_once:
  assumes "\<not> writable x name"
  shows "dict_get (cx_variables (context_try x w)) name = dict_get (cx_variables x) name
     \<and> is_template (context_try x w) name = is_template x name \<and> \<not> writable (context_try x w) name"
  using assms by (cases w) (auto simp: context_try_def context_ops seal_def is_template_def writable_def dict_simps)

lemma sealed_kept:
  "\<not> writable x name \<Longrightarrow> dict_get (cx_variables (foldl context_try x ws)) name = dict_get (cx_variables x) name
     \<and> is_template (foldl context_try x ws) name = is_template x name \<and> \<not> writable (foldl context_try x ws) name"
  by (induction ws arbitrary: x) (simp_all add: sealed_kept_once)

text \<open>C28. A sealed name is fixed for the rest of the run: whatever is written, overwritten, turned into a template,
  unset or sealed afterwards, a name under a sealed prefix keeps the value and the kind it had, and every later
  write to it is refused.\<close>

theorem sealed_names_fixed:
  assumes "starts_with name prefix"
  shows "dict_get (cx_variables (foldl context_try (seal prefix x) ws)) name = dict_get (cx_variables x) name
     \<and> is_template (foldl context_try (seal prefix x) ws) name = is_template x name
     \<and> set_variable name v (foldl context_try (seal prefix x) ws) = Inl (sealed_variable_error name)
     \<and> unset_variable name (foldl context_try (seal prefix x) ws) = Inl (sealed_variable_error name)"
proof -
  have "\<not> writable (seal prefix x) name"
    using assms by (intro writable_sealed [of _ prefix]) (auto simp: seal_def)
  from sealed_kept [OF this, of ws] show ?thesis
    by (auto simp: context_ops seal_def is_template_def)
qed

theorem sealed_names_fixed_witness:
  "dict_get (cx_variables (foldl context_try
      (seal ''infrastructure.'' ((new_context []) \<lparr>cx_variables := [(''infrastructure.sut.url'', PStr ''a'')]\<rparr>))
      [Set ''infrastructure.sut.url'' (PStr ''b''), Set ''x'' PNone])) ''infrastructure.sut.url'' = Some (PStr ''a'')"
  using sealed_names_fixed [of "''infrastructure.sut.url''" "''infrastructure.''"
      "(new_context []) \<lparr>cx_variables := [(''infrastructure.sut.url'', PStr ''a'')]\<rparr>"
      "[Set ''infrastructure.sut.url'' (PStr ''b''), Set ''x'' PNone]"]
  by (simp add: starts_with_iff)

lemma resource_id_once: "resource_id x (resource_id x i) = resource_id x i"
  by (simp add: resource_id_def)

lemma resource_id_scoped: "resource_id x i = [] \<or> starts_with (resource_id x i) (cx_resource_prefix x)"
  by (simp add: resource_id_def)

end
