(* ===== verification/Resolver.thy ===== *)
theory Resolver
  imports Context
begin

text \<open>
  References in a step's parameters: the grammar of \<open>${{ \<dots> }}\<close> (\<^verbatim>\<open>syntax/patterns.py\<close>), the names that reach
  into a mock's call (\<^verbatim>\<open>syntax/call_scope.py\<close>), who an unresolved reference belongs to
  (\<^verbatim>\<open>player/loading/reference_origin.py\<close>) and the resolution itself (\<^verbatim>\<open>player/loading/resolver.py\<close>).

  The two regular expressions are matched by hand: after \<open>${{\<close> the body runs to the first \<open>}}\<close>, must not be
  empty, and the captured group is the body without its padding, or the last blank of an all-blank body.
\<close>

section \<open>The reference grammar\<close>

fun until_close :: "string \<Rightarrow> (string \<times> string) option" where
  "until_close [] = None"
| "until_close (c # s) =
     (if c = CHR ''}'' \<and> starts_with s ''}'' then Some ([], tl s)
      else map_option (\<lambda>(b, r). (c # b, r)) (until_close s))"

definition EXPR_REF :: "string \<Rightarrow> (string \<times> string) option" where
  "EXPR_REF s =
     (if \<not> starts_with s ''${{'' then None
      else (case until_close (drop 3 s) of
              None \<Rightarrow> None
            | Some (b, r) \<Rightarrow> if b = [] then None else Some (if strip b = [] then [last b] else strip b, r)))"

definition EXPR_REF_FULL :: "string \<Rightarrow> string option" where
  "EXPR_REF_FULL s =
     (case EXPR_REF s of None \<Rightarrow> None | Some (e, r) \<Rightarrow> if r = [] \<or> r = [CHR 0x0A] then Some e else None)"

lemma until_close_shorter: "until_close s = Some (b, r) \<Longrightarrow> length r < length s"
  by (induction s arbitrary: b) (auto split: if_splits simp: starts_with_iff less_Suc_eq)

lemma EXPR_REF_shorter [termination_simp]: "EXPR_REF s = Some (e, r) \<Longrightarrow> length r < length s"
  using until_close_shorter [of "drop 3 s"] by (fastforce simp: EXPR_REF_def split: if_splits option.splits)

text \<open>\<open>EXPR_REF.sub\<close> with a replacement that may raise, and \<open>EXPR_REF.finditer\<close>.\<close>

function expr_sub :: "(string \<Rightarrow> 'e + string) \<Rightarrow> string \<Rightarrow> 'e + string" where
  "expr_sub f s =
     (case s of
        [] \<Rightarrow> Inr []
      | c # t \<Rightarrow>
          (case EXPR_REF s of
             Some (e, r) \<Rightarrow>
               (case f e of
                  Inl x \<Rightarrow> Inl x
                | Inr u \<Rightarrow> (case expr_sub f r of Inl x \<Rightarrow> Inl x | Inr w \<Rightarrow> Inr (u @ w)))
           | None \<Rightarrow> (case expr_sub f t of Inl x \<Rightarrow> Inl x | Inr w \<Rightarrow> Inr (c # w))))"
  by pat_completeness auto
termination by (relation "measure (\<lambda>(f, s). length s)") (auto dest: EXPR_REF_shorter)

function expr_refs :: "string \<Rightarrow> string list" where
  "expr_refs s =
     (case s of
        [] \<Rightarrow> []
      | c # t \<Rightarrow> (case EXPR_REF s of Some (e, r) \<Rightarrow> e # expr_refs r | None \<Rightarrow> expr_refs t))"
  by pat_completeness auto
termination by (relation "measure length") (auto dest: EXPR_REF_shorter)

declare expr_sub.simps [simp del] expr_refs.simps [simp del]

section \<open>Call-scoped references\<close>

definition REQUEST :: string where
  "REQUEST = ''*.request''"

definition PROCESS :: string where
  "PROCESS = ''*.process''"

definition ROOT_SEGMENTS :: nat where
  "ROOT_SEGMENTS = 3"

definition is_call_scoped :: "string \<Rightarrow> bool" where
  "is_call_scoped reference = starts_with reference ''*.''"

text \<open>\<open>str.isdigit\<close> also accepts the three superscript digits of Latin-1, which \<open>int\<close> then refuses.\<close>

definition is_digit_char :: "char \<Rightarrow> bool" where
  "is_digit_char c = (let n = of_char c :: nat in (48 \<le> n \<and> n \<le> 57) \<or> n \<in> {178, 179, 185})"

definition is_digits :: "string \<Rightarrow> bool" where
  "is_digits s = (s \<noteq> [] \<and> list_all is_digit_char s)"

definition digits_value :: "string \<Rightarrow> nat option" where
  "digits_value s = (if list_all (\<lambda>c. of_char c \<le> (57 :: nat)) s then Some (foldl (\<lambda>n c. 10 * n + (of_char c - 48)) 0 s) else None)"

text \<open>\<open>_walk\<close>: \<open>Inr None\<close> is \<open>MISSING\<close>.\<close>

fun walk :: "pyval \<Rightarrow> string list \<Rightarrow> exc + pyval option" where
  "walk v [] = Inr (Some v)"
| "walk v (p # path) =
     (case v of
        PDict d \<Rightarrow> (case dict_get d p of Some u \<Rightarrow> walk u path | None \<Rightarrow> Inr None)
      | PList xs \<Rightarrow>
          if \<not> is_digits p then Inr None
          else (case digits_value p of
                  None \<Rightarrow> Inl (value_error (''invalid literal for int() with base 10: '' @ str_repr p))
                | Some n \<Rightarrow> if n < length xs then walk (xs ! n) path else Inr None)
      | _ \<Rightarrow> Inr None)"

definition lookup :: "string \<Rightarrow> (string, pyval) pydict \<Rightarrow> exc + pyval option" where
  "lookup reference vars =
     (let parts = split_on (CHR ''.'') reference
      in case find (\<lambda>n. dict_has vars (dotted (take n parts))) (rev [ROOT_SEGMENTS..<Suc (length parts)]) of
           None \<Rightarrow> Inr None
         | Some n \<Rightarrow> walk (the (dict_get vars (dotted (take n parts)))) (drop n parts))"

section \<open>Whose an unresolved reference is\<close>

definition name_of :: "string \<Rightarrow> string" where
  "name_of expr = (if starts_with expr ''env.'' then drop 4 expr else expr)"

definition STEP_NAMESPACES :: "(string \<times> nat) list" where
  "STEP_NAMESPACES = [(''execution.'', 2), (''setup.'', 2), (''teardown.'', 2), (PROCESS @ ''.'', 3)]"

definition step_of :: "string \<Rightarrow> string option" where
  "step_of name = map_option (\<lambda>(namespace, segments). dotted (take segments (split_on (CHR ''.'') name)))
     (find (\<lambda>(namespace, segments). starts_with name namespace) STEP_NAMESPACES)"

definition or_authoring :: "string option \<Rightarrow> string" where
  "or_authoring s = (case s of Some (c # t) \<Rightarrow> c # t | _ \<Rightarrow> ''authoring'')"

definition reference_origin :: "string \<Rightarrow> StepContext \<Rightarrow> string" where
  "reference_origin expr x =
     (let name = name_of expr
      in if starts_with name (REQUEST @ ''.'') then ''sut''
         else (case step_of name of
                 None \<Rightarrow> ''authoring''
               | Some step \<Rightarrow>
                   if list_ex (\<lambda>v. starts_with v (step @ ''.'')) (dict_keys (cx_variables x)) then ''authoring''
                   else (case outcome_of (cx_steps x) step of
                           None \<Rightarrow> or_authoring (os_stopped_by (cx_steps x))
                         | Some out \<Rightarrow> or_authoring (so_origin out))))"

section \<open>Resolution\<close>

definition MAX_TEMPLATE_DEPTH :: nat where
  "MAX_TEMPLATE_DEPTH = 16"

definition require :: "string \<Rightarrow> StepContext \<Rightarrow> exc + (string \<times> pyval)" where
  "require expr x =
     (let name = name_of expr;
          missing = Inl (unresolved_reference_error expr (dict_keys (cx_variables x)) (reference_origin expr x))
      in if has_variable x name then Inr (name, get_variable x name)
         else if is_call_scoped name
              then (case lookup name (cx_variables x) of
                      Inl e \<Rightarrow> Inl e | Inr None \<Rightarrow> missing | Inr (Some v) \<Rightarrow> Inr (name, v))
              else missing)"

definition admitted :: "pyval \<Rightarrow> bool \<Rightarrow> exc + pyval" where
  "admitted v credential_ok =
     (case v of
        PCred c \<Rightarrow> if credential_ok then Inr v else Inl (credential_misuse_error (cred_name c) [])
      | _ \<Rightarrow> (case find_credential v of
                None \<Rightarrow> Inr v | Some h \<Rightarrow> Inl (credential_misuse_error (cred_name h) ''inside a structured value'')))"

definition as_text :: "pyval \<Rightarrow> exc + string" where
  "as_text v = (case v of PCred c \<Rightarrow> Inl (credential_misuse_error (cred_name c) ''interpolated into a larger string'')
     | _ \<Rightarrow> Inr (py_str v))"

text \<open>A comprehension whose items may raise: the first that does ends it.\<close>

fun map_err :: "('a \<Rightarrow> 'e + 'b) \<Rightarrow> 'a list \<Rightarrow> 'e + 'b list" where
  "map_err f [] = Inr []"
| "map_err f (x # xs) =
     (case f x of Inl e \<Rightarrow> Inl e | Inr y \<Rightarrow> (case map_err f xs of Inl e \<Rightarrow> Inl e | Inr ys \<Rightarrow> Inr (y # ys)))"

lemma map_err_cong [fundef_cong]:
  "xs = ys \<Longrightarrow> (\<And>x. x \<in> set ys \<Longrightarrow> f x = g x) \<Longrightarrow> map_err f xs = map_err g ys"
proof (induction ys arbitrary: xs)
  case (Cons y ys)
  have "map_err f ys = map_err g ys" using Cons.prems by (intro Cons.IH) auto
  then show ?case using Cons.prems by (auto split: sum.split)
qed simp

definition keyed :: "('v \<Rightarrow> 'e + 'w) \<Rightarrow> ('k \<times> 'v) \<Rightarrow> 'e + ('k \<times> 'w)" where
  "keyed f kv = (case f (snd kv) of Inl e \<Rightarrow> Inl e | Inr w \<Rightarrow> Inr (fst kv, w))"

lemma keyed_cong [fundef_cong]: "kv = kv' \<Longrightarrow> f (snd kv') = g (snd kv') \<Longrightarrow> keyed f kv = keyed g kv'"
  by (simp add: keyed_def)

function resolve_str :: "string \<Rightarrow> StepContext \<Rightarrow> nat \<Rightarrow> bool \<Rightarrow> exc + pyval"
  and resolve_value :: "pyval \<Rightarrow> StepContext \<Rightarrow> nat \<Rightarrow> exc + pyval" where
  "resolve_str s x depth credential_ok =
     (if \<not> occurs_in ''${{'' s then Inr (PStr s)
      else (case EXPR_REF_FULL s of
              Some expr \<Rightarrow>
                (case require expr x of
                   Inl e \<Rightarrow> Inl e
                 | Inr (name, resolved) \<Rightarrow>
                     if \<not> is_template x name then admitted resolved credential_ok
                     else if depth \<ge> MAX_TEMPLATE_DEPTH then Inl (template_depth_error expr)
                     else (case resolved of
                             PStr t \<Rightarrow> resolve_str t x (Suc depth) credential_ok
                           | _ \<Rightarrow> resolve_value resolved x (Suc depth)))
            | None \<Rightarrow>
                (case expr_sub (\<lambda>expr. case require expr x of Inl e \<Rightarrow> Inl e | Inr (name, v) \<Rightarrow> as_text v) s of
                   Inl e \<Rightarrow> Inl e | Inr t \<Rightarrow> Inr (PStr t))))"
| "resolve_value v x depth =
     (case v of
        PStr s \<Rightarrow> resolve_str s x depth False
      | PDict d \<Rightarrow> (case map_err (keyed (\<lambda>item. resolve_value item x depth)) d of Inl e \<Rightarrow> Inl e | Inr e \<Rightarrow> Inr (PDict e))
      | PList xs \<Rightarrow> (case map_err (\<lambda>item. resolve_value item x depth) xs of Inl e \<Rightarrow> Inl e | Inr ys \<Rightarrow> Inr (PList ys))
      | _ \<Rightarrow> admitted v False)"
  by pat_completeness auto
termination
  by (relation "measures [\<lambda>p. case p of Inl (s, x, d, k) \<Rightarrow> MAX_TEMPLATE_DEPTH - d | Inr (v, x, d) \<Rightarrow> MAX_TEMPLATE_DEPTH - d,
     \<lambda>p. case p of Inl _ \<Rightarrow> 0 | Inr (v, x, d) \<Rightarrow> Suc (size v)]")
    (auto dest: pyval_list_smaller pyval_dict_smaller)

declare resolve_str.simps [simp del] resolve_value.simps [simp del]

definition resolve_carrier :: "pyval \<Rightarrow> StepContext \<Rightarrow> exc + pyval" where
  "resolve_carrier v x =
     (case v of
        PStr s \<Rightarrow> resolve_str s x 0 True
      | PDict d \<Rightarrow>
          (case map_err (keyed (\<lambda>item. case item of PStr s \<Rightarrow> resolve_str s x 0 True | _ \<Rightarrow> resolve_value item x 0)) d of
             Inl e \<Rightarrow> Inl e | Inr e \<Rightarrow> Inr (PDict e))
      | _ \<Rightarrow> resolve_value v x 0)"

definition resolve_params ::
  "(string, pyval) pydict \<Rightarrow> StepContext \<Rightarrow> string list \<Rightarrow> string list \<Rightarrow> exc + (string, pyval) pydict" where
  "resolve_params params x deferred credential_params =
     map_err (\<lambda>(key, v).
       case (if key \<in> set deferred then Inr v
             else if key \<in> set credential_params then resolve_carrier v x
             else resolve_value v x 0)
       of Inl e \<Rightarrow> Inl e | Inr w \<Rightarrow> Inr (key, w)) params"

text \<open>\<open>try_resolve_params\<close> answers nothing for TestLab's own errors and lets any other exception out.\<close>

definition try_resolve_params ::
  "(string, pyval) pydict \<Rightarrow> StepContext \<Rightarrow> string list \<Rightarrow> string list \<Rightarrow> exc + (string, pyval) pydict option" where
  "try_resolve_params params x deferred credential_params =
     (case resolve_params params x deferred credential_params of
        Inr p \<Rightarrow> Inr (Some p)
      | Inl e \<Rightarrow> if ex_kind e \<in> {Test_Lab_Error, Engine_Error} then Inr None else Inl e)"

section \<open>Where credentials can go\<close>

text \<open>Resolution goes down a value or, at most \<open>MAX_TEMPLATE_DEPTH\<close> times, into a template.\<close>

lemma resolve_induct [case_names str val]:
  assumes str: "\<And>s d ok. (\<And>t k. d < MAX_TEMPLATE_DEPTH \<Longrightarrow> Q t (Suc d) k)
      \<Longrightarrow> (\<And>v. d < MAX_TEMPLATE_DEPTH \<Longrightarrow> P v (Suc d)) \<Longrightarrow> Q s d ok"
    and val: "\<And>v d. (\<And>s. v = PStr s \<Longrightarrow> Q s d False) \<Longrightarrow> (\<And>kvs k u. v = PDict kvs \<Longrightarrow> (k, u) \<in> set kvs \<Longrightarrow> P u d)
      \<Longrightarrow> (\<And>xs u. v = PList xs \<Longrightarrow> u \<in> set xs \<Longrightarrow> P u d) \<Longrightarrow> P v d"
  shows "Q s d ok" and "P v d"
proof -
  have "(\<forall>s ok. Q s d ok) \<and> (\<forall>v. P v d)" for d
  proof (induction "MAX_TEMPLATE_DEPTH - d" arbitrary: d rule: less_induct)
    case (less d)
    have q: "Q s d ok" for s ok
      by (rule str) (use less [of "Suc d"] in auto)
    have "P v d" for v
      by (induction v; rule val) (auto simp: q)
    with q show ?case by blast
  qed
  then show "Q s d ok" and "P v d" by blast+
qed

lemma resolve_value_eqs:
  "resolve_value (PStr s) x d = resolve_str s x d False"
  "resolve_value (PDict kvs) x d =
     (case map_err (keyed (\<lambda>item. resolve_value item x d)) kvs of Inl e \<Rightarrow> Inl e | Inr e \<Rightarrow> Inr (PDict e))"
  "resolve_value (PList xs) x d =
     (case map_err (\<lambda>item. resolve_value item x d) xs of Inl e \<Rightarrow> Inl e | Inr ys \<Rightarrow> Inr (PList ys))"
  "resolve_value PNone x d = Inr PNone" "resolve_value (PBool b) x d = Inr (PBool b)"
  "resolve_value (PInt n) x d = Inr (PInt n)" "resolve_value (PCred c) x d = Inl (credential_misuse_error (cred_name c) [])"
  by (simp_all add: resolve_value.simps [of _ x d] admitted_def)

lemma map_err_mem: "map_err f xs = Inr ys \<Longrightarrow> y \<in> set ys \<Longrightarrow> \<exists>x\<in>set xs. f x = Inr y"
  by (induction xs arbitrary: ys) (auto split: sum.splits)

lemma admitted_Inr: "admitted v ok = Inr w \<Longrightarrow> w = v \<and> (\<not> holds_credential v \<or> (ok \<and> (\<exists>c. v = PCred c)))"
proof -
  have "find_credential v = None \<longleftrightarrow> \<not> holds_credential v" by (rule find_holds)
  then show "admitted v ok = Inr w \<Longrightarrow> ?thesis"
    by (cases v) (auto simp: admitted_def split: if_splits option.splits)
qed

lemma resolved_credentials:
  shows "resolve_str s x d ok = Inr w \<Longrightarrow> \<not> holds_credential w \<or> (ok \<and> (\<exists>c. w = PCred c))"
    and "resolve_value v x d = Inr u \<Longrightarrow> \<not> holds_credential u"
proof (induction s d ok and v d arbitrary: w and u rule: resolve_induct)
  case (str s d ok)
  have "\<not> holds_credential w \<or> (ok \<and> (\<exists>c. w = PCred c))" if "admitted r ok = Inr w" for r
    using admitted_Inr [OF that] by blast
  moreover have "\<not> holds_credential w" if "d < MAX_TEMPLATE_DEPTH" "resolve_value r x (Suc d) = Inr w" for r
    using str(2) [OF that] .
  moreover have "\<not> holds_credential w \<or> (ok \<and> (\<exists>c. w = PCred c))"
    if "d < MAX_TEMPLATE_DEPTH" "resolve_str t x (Suc d) ok = Inr w" for t
    using str(1) [OF that] .
  ultimately show ?case
    using str(3) unfolding resolve_str.simps [of s]
    by (auto simp: not_le split: if_splits option.splits sum.splits prod.splits pyval.splits)
next
  case (val v d)
  show ?case
  proof (cases v)
    case (PDict kvs)
    with val(4) obtain e where e: "map_err (keyed (\<lambda>item. resolve_value item x d)) kvs = Inr e" "u = PDict e"
      by (auto simp: resolve_value_eqs split: sum.splits)
    have "\<not> holds_credential t" if "(k, t) \<in> set e" for k t
      using map_err_mem [OF e(1) that] val(2) [OF PDict] by (fastforce simp: keyed_def split: sum.splits)
    then show ?thesis using e by (auto simp: list_ex_iff)
  next
    case (PList xs)
    with val(4) obtain e where e: "map_err (\<lambda>item. resolve_value item x d) xs = Inr e" "u = PList e"
      by (auto simp: resolve_value_eqs split: sum.splits)
    have "\<not> holds_credential t" if "t \<in> set e" for t
      using map_err_mem [OF e(1) that] val(3) [OF PList] by auto
    then show ?thesis using e by (auto simp: list_ex_iff)
  next
    case (PStr s)
    then show ?thesis using val(1) [OF PStr] val(4) by (auto simp: resolve_value_eqs)
  qed (use val(4) in \<open>auto simp: resolve_value_eqs\<close>)
qed

text \<open>C7. A credential reaches a step only where the step asked for it. Once a block is resolved, a parameter that is
  neither deferred nor declared a carrier holds no handle at any depth, whatever the variables hold and however
  templates nest; and a carrier is itself a handle or holds them only as the direct values of a mapping.\<close>

theorem credentials_only_in_carriers:
  assumes "resolve_params params x deferred carriers = Inr resolved" and "(key, v) \<in> set resolved" and "key \<notin> set deferred"
  shows "if key \<in> set carriers
         then \<not> holds_credential v \<or> (\<exists>c. v = PCred c)
              \<or> (\<exists>d. v = PDict d \<and> list_all (\<lambda>(k, item). \<not> holds_credential item \<or> (\<exists>c. item = PCred c)) d)
         else \<not> holds_credential v"
proof -
  obtain v0 where v0: "(if key \<in> set carriers then resolve_carrier v0 x else resolve_value v0 x 0) = Inr v"
    using map_err_mem [OF assms(1) [unfolded resolve_params_def] assms(2)] assms(3)
    by (auto split: sum.splits if_splits)
  show ?thesis
  proof (cases "key \<in> set carriers")
    case False
    then show ?thesis using v0 resolved_credentials(2) by auto
  next
    case True
    then have r: "resolve_carrier v0 x = Inr v" using v0 by simp
    show ?thesis
    proof (cases v0)
      case (PDict d)
      then obtain e where e: "v = PDict e"
          "map_err (keyed (\<lambda>item. case item of PStr s \<Rightarrow> resolve_str s x 0 True | _ \<Rightarrow> resolve_value item x 0)) d = Inr e"
        using r by (auto simp: resolve_carrier_def split: sum.splits)
      have "\<not> holds_credential item \<or> (\<exists>c. item = PCred c)" if "(k, item) \<in> set e" for k item
        using map_err_mem [OF e(2) that] resolved_credentials
        by (fastforce simp: keyed_def split: sum.splits pyval.splits)
      then show ?thesis using True e(1) by (auto simp: list_all_iff)
    qed (use True r resolved_credentials in \<open>fastforce simp: resolve_carrier_def\<close>)+
  qed
qed

definition demo_vars :: StepContext where
  "demo_vars = (new_context []) \<lparr>cx_variables := [(''key'', PCred (demo_handle ''s3cret'')), (''body'', PStr ''${{ key }}''),
     (''host'', PStr ''h.example''), (''url'', PStr ''${{ env.host }}'')], cx_templates := {''url''}\<rparr>"

theorem credentials_only_in_carriers_witness:
  "resolve_params [(''headers'', PDict [(''x-api-key'', PStr ''${{ env.key }}'')]), (''url'', PStr ''${{ url }}'')] demo_vars [] [''headers'']
     = Inr [(''headers'', PDict [(''x-api-key'', PCred (demo_handle ''s3cret''))]), (''url'', PStr ''h.example'')]
   \<and> \<not> holds_credential (PStr ''h.example'')"
proof -
  have "resolve_params [(''headers'', PDict [(''x-api-key'', PStr ''${{ env.key }}'')]), (''url'', PStr ''${{ url }}'')] demo_vars [] [''headers'']
     = Inr [(''headers'', PDict [(''x-api-key'', PCred (demo_handle ''s3cret''))]), (''url'', PStr ''h.example'')]"
    by code_simp
  from credentials_only_in_carriers [OF this, of "''url''" "PStr ''h.example''"] this show ?thesis by simp
qed

section \<open>Secrets do not influence resolution\<close>

definition blind_context :: "StepContext \<Rightarrow> StepContext" where
  "blind_context x = x\<lparr>cx_variables := map (\<lambda>(k, v). (k, blind v)) (cx_variables x)\<rparr>"

lemma first_some_map:
  "(\<And>a. a \<in> set as \<Longrightarrow> f (h a) = map_option k (g a)) \<Longrightarrow> first_some f (map h as) = map_option k (first_some g as)"
  by (induction as) (auto split: option.split)

lemma find_credential_blind: "find_credential (blind v) = map_option (\<lambda>c. c\<lparr>cred_value := []\<rparr>) (find_credential v)"
  by (induction v) (auto intro!: first_some_map simp del: map_map)

lemma blind_keys: "dict_keys (cx_variables (blind_context x)) = dict_keys (cx_variables x)"
  by (auto simp: blind_context_def)

lemma blind_steps: "cx_steps (blind_context x) = cx_steps x"
  by (simp add: blind_context_def)

lemma blind_get: "dict_get (cx_variables (blind_context x)) k = map_option blind (dict_get (cx_variables x) k)"
  by (simp add: blind_context_def dict_get_map_value)

lemma walk_blind: "walk (blind v) path = map_ok (map_option blind) (walk v path)"
proof (induction v path rule: walk.induct)
  case (2 v p path)
  then show ?case by (cases v) (auto simp: dict_get_map_value split: option.splits)
qed simp

lemma has_blind: "dict_has (cx_variables (blind_context x)) k = dict_has (cx_variables x) k"
  by (simp add: dict_has_iff blind_keys)

lemma lookup_blind: "lookup r (cx_variables (blind_context x)) = map_ok (map_option blind) (lookup r (cx_variables x))"
proof (cases "find (\<lambda>n. dict_has (cx_variables x) (dotted (take n (split_on (CHR ''.'') r))))
    (rev [ROOT_SEGMENTS..<Suc (length (split_on (CHR ''.'') r))])")
  case None
  then show ?thesis unfolding lookup_def Let_def has_blind None by simp
next
  case (Some n)
  then have "dict_has (cx_variables x) (dotted (take n (split_on (CHR ''.'') r)))"
    by (auto simp: find_Some_iff)
  then show ?thesis unfolding lookup_def Let_def has_blind Some
    by (auto simp: blind_get walk_blind dict_has_def)
qed

lemma require_blind: "require e (blind_context x) = map_ok (\<lambda>(n, v). (n, blind v)) (require e x)"
proof -
  have o: "reference_origin e (blind_context x) = reference_origin e x"
    unfolding reference_origin_def blind_keys blind_steps ..
  have g: "get_variable (blind_context x) n = blind (get_variable x n)" for n
    by (simp add: get_variable_def blind_get split: option.split)
  show ?thesis
    unfolding require_def Let_def lookup_blind o blind_keys has_variable_def has_blind
    by (auto simp: g split: sum.splits option.splits)
qed

lemma admitted_blind: "admitted (blind v) ok = map_ok blind (admitted v ok)"
  using find_credential_blind [of v]
  by (cases v) (auto simp: admitted_def split: option.splits)

lemma as_text_blind: "as_text (blind v) = as_text v"
  using py_str_blind [of v] by (cases v) (auto simp: as_text_def)

lemma map_err_map_sum:
  assumes "\<And>a. a \<in> set as \<Longrightarrow> f (h a) = map_ok h' (g a)"
  shows "map_err f (map h as) = map_ok (map h') (map_err g as)"
  using assms by (induction as) (auto split: sum.splits)

lemma resolve_blind:
  shows "resolve_str s (blind_context x) d ok = map_ok blind (resolve_str s x d ok)"
    and "resolve_value (blind v) (blind_context x) d = map_ok blind (resolve_value v x d)"
proof (induction s d ok and v d rule: resolve_induct)
  case (str s d ok)
  have tmpl: "is_template (blind_context x) n = is_template x n" for n
    by (simp add: is_template_def blind_context_def)
  have sub: "(\<lambda>expr. case require expr (blind_context x) of Inl e \<Rightarrow> Inl e | Inr (name, v) \<Rightarrow> as_text v)
      = (\<lambda>expr. case require expr x of Inl e \<Rightarrow> Inl e | Inr (name, v) \<Rightarrow> as_text v)"
    by (rule ext) (auto simp: require_blind as_text_blind split: sum.splits)
  have into: "(case blind r of PStr t \<Rightarrow> resolve_str t (blind_context x) (Suc d) ok | _ \<Rightarrow> resolve_value (blind r) (blind_context x) (Suc d))
      = map_ok blind (case r of PStr t \<Rightarrow> resolve_str t x (Suc d) ok | _ \<Rightarrow> resolve_value r x (Suc d))"
    if "d < MAX_TEMPLATE_DEPTH" for r
    using str(1) [OF that] str(2) [OF that, of r] by (cases r) auto
  show ?case
    unfolding resolve_str.simps [of s] sub
    by (auto simp: require_blind tmpl admitted_blind into not_le split: option.splits sum.splits)
next
  case (val v d)
  show ?case
  proof (cases v)
    case (PDict kvs)
    have "map_err (keyed (\<lambda>item. resolve_value item (blind_context x) d)) (map (\<lambda>(k, v). (k, blind v)) kvs)
        = map_ok (map (\<lambda>(k, v). (k, blind v))) (map_err (keyed (\<lambda>item. resolve_value item x d)) kvs)"
      using val(2) [OF PDict] by (intro map_err_map_sum) (auto simp: keyed_def split: sum.splits)
    then show ?thesis by (auto simp: PDict resolve_value_eqs split: sum.splits)
  next
    case (PList xs)
    have "map_err (\<lambda>item. resolve_value item (blind_context x) d) (map blind xs)
        = map_ok (map blind) (map_err (\<lambda>item. resolve_value item x d) xs)"
      using val(3) [OF PList] by (intro map_err_map_sum) auto
    then show ?thesis by (auto simp: PList resolve_value_eqs split: sum.splits)
  qed (use val(1) in \<open>auto simp: resolve_value_eqs\<close>)
qed

definition blind_dict :: "(string, pyval) pydict \<Rightarrow> (string, pyval) pydict" where
  "blind_dict = map (\<lambda>(k, v). (k, blind v))"

lemma resolve_carrier_blind: "resolve_carrier (blind v) (blind_context x) = map_ok blind (resolve_carrier v x)"
proof (cases v)
  case (PDict kvs)
  have "map_err (keyed (\<lambda>item. case item of PStr s \<Rightarrow> resolve_str s (blind_context x) 0 True | _ \<Rightarrow> resolve_value item (blind_context x) 0))
        (map (\<lambda>(k, v). (k, blind v)) kvs)
      = map_ok (map (\<lambda>(k, v). (k, blind v)))
        (map_err (keyed (\<lambda>item. case item of PStr s \<Rightarrow> resolve_str s x 0 True | _ \<Rightarrow> resolve_value item x 0)) kvs)"
  proof (intro map_err_map_sum)
    fix a assume "a \<in> set kvs"
    show "keyed (\<lambda>item. case item of PStr s \<Rightarrow> resolve_str s (blind_context x) 0 True | _ \<Rightarrow> resolve_value item (blind_context x) 0)
        (case a of (k, v) \<Rightarrow> (k, blind v))
      = map_ok (\<lambda>(k, v). (k, blind v)) (keyed (\<lambda>item. case item of PStr s \<Rightarrow> resolve_str s x 0 True | _ \<Rightarrow> resolve_value item x 0) a)"
      using resolve_blind(2) [of "snd a" x 0] resolve_blind(1) [of _ x 0 True]
      by (cases a; cases "snd a") (auto simp: keyed_def split: sum.splits)
  qed
  then show ?thesis by (auto simp: PDict resolve_carrier_def split: sum.splits)
qed (use resolve_blind(1) [of _ x 0 True] resolve_blind(2) [of v x 0] in \<open>simp_all add: resolve_carrier_def\<close>)

text \<open>C8. Resolving parameters does not depend on any secret: with two contexts that differ only in what their
  handles hold, a block resolves to the same parameters but for the secrets inside the handles, or fails with the
  very same error, message and diagnostics included.\<close>

theorem resolution_blind_to_secrets:
  assumes "blind_context x = blind_context y" and "blind_dict params = params"
  shows "map_ok blind_dict (resolve_params params x deferred carriers)
     = map_ok blind_dict (resolve_params params y deferred carriers)"
proof -
  have r: "resolve_params (blind_dict params) (blind_context z) deferred carriers
      = map_ok blind_dict (resolve_params params z deferred carriers)" for z
    unfolding resolve_params_def blind_dict_def
    by (intro map_err_map_sum) (auto simp: resolve_blind resolve_carrier_blind split: sum.splits)
  show ?thesis using r [of x] r [of y] assms by simp
qed

theorem resolution_blind_to_secrets_witness:
  "map_ok blind_dict (resolve_params [(''q'', PStr ''k=${{ key }}'')] demo_vars [] [])
   = map_ok blind_dict (resolve_params [(''q'', PStr ''k=${{ key }}'')]
       (demo_vars\<lparr>cx_variables := dict_set ''key'' (PCred (demo_handle ''other'')) (cx_variables demo_vars)\<rparr>) [] [])"
  by (rule resolution_blind_to_secrets)
    (simp_all add: blind_context_def blind_dict_def demo_vars_def new_context_def demo_handle_def new_credential_def)

section \<open>Only authored references are read\<close>

text \<open>The expressions a value writes, and the variables an expression can read.\<close>

fun refs_in :: "pyval \<Rightarrow> string set" where
  "refs_in (PStr s) = set (expr_refs s)"
| "refs_in (PDict kvs) = (\<Union>(k, v) \<in> set kvs. refs_in v)"
| "refs_in (PList xs) = (\<Union>v \<in> set xs. refs_in v)"
| "refs_in v = {}"

definition reads :: "string \<Rightarrow> string \<Rightarrow> bool" where
  "reads expr n = (name_of expr = n \<or> (is_call_scoped (name_of expr) \<and> starts_with (name_of expr) (n @ ''.'')))"

definition mentions :: "pyval \<Rightarrow> string \<Rightarrow> bool" where
  "mentions v n = (\<exists>e \<in> refs_in v. reads e n)"

text \<open>What every context built by its operations satisfies, and that its templates leave \<open>n\<close> alone.\<close>

definition templates_held :: "StepContext \<Rightarrow> bool" where
  "templates_held x = (cx_templates x \<subseteq> set (dict_keys (cx_variables x)))"

definition templates_mention :: "StepContext \<Rightarrow> string \<Rightarrow> bool" where
  "templates_mention x n = (\<exists>k \<in> cx_templates x. mentions (get_variable x k) n)"

lemma templates_held_try: "templates_held x \<Longrightarrow> templates_held (context_try x w)"
  by (cases w) (auto simp: templates_held_def context_try_def context_ops seal_def fst_dict_set fst_dict_pop)

lemma expr_sub_cong: "(\<And>e. e \<in> set (expr_refs s) \<Longrightarrow> f e = g e) \<Longrightarrow> expr_sub f s = expr_sub g s"
proof (induction s rule: expr_refs.induct)
  case (1 s)
  show ?case
  proof (cases s)
    case (Cons c t)
    then show ?thesis
      using 1 by (cases "EXPR_REF s") (auto simp: expr_sub.simps [of _ "c # t"] expr_refs.simps [of "c # t"] split: sum.splits)
  qed (simp add: expr_sub.simps)
qed

lemma EXPR_REF_FULL_refs:
  assumes "EXPR_REF_FULL s = Some e"
  shows "e \<in> set (expr_refs s)"
proof -
  obtain r where r: "EXPR_REF s = Some (e, r)"
    using assms by (auto simp: EXPR_REF_FULL_def split: option.splits if_splits)
  then have "s \<noteq> []" by (auto simp: EXPR_REF_def)
  then show ?thesis using r by (auto simp: expr_refs.simps [of s] neq_Nil_conv)
qed

lemma dotted_take_prefix:
  assumes "n < length (split_on (CHR ''.'') r)" and "0 < n"
  shows "starts_with r (dotted (take n (split_on (CHR ''.'') r)) @ ''.'')"
proof -
  have j: "join_with ''.'' (as @ bs) = join_with ''.'' as @ ''.'' @ join_with ''.'' bs" if "as \<noteq> []" "bs \<noteq> []" for as bs
    using that by (induction "''.''" as rule: join_with.induct) (auto simp: neq_Nil_conv)
  let ?p = "split_on (CHR ''.'') r"
  have "r = join_with ''.'' (take n ?p @ drop n ?p)" by (simp add: join_split)
  also have "\<dots> = dotted (take n ?p) @ ''.'' @ dotted (drop n ?p)"
    unfolding dotted_def using assms by (intro j) auto
  finally show ?thesis by (metis append_assoc starts_with_append)
qed

lemma dotted_split: "dotted (split_on (CHR ''.'') r) = r"
  by (simp add: dotted_def join_split)

text \<open>Overwriting a variable that is data changes nothing a reference to other names reads.\<close>

lemma lookup_other:
  assumes "dict_has vars n" and "r \<noteq> n" and "\<not> starts_with r (n @ ''.'')"
  shows "lookup r (dict_set n v vars) = lookup r vars"
proof -
  let ?p = "split_on (CHR ''.'') r"
  have keys: "dict_has (dict_set n v vars) k = dict_has vars k" for k
    using assms(1) by (auto simp: dict_has_iff keys_dict_set)
  have other: "dotted (take m ?p) \<noteq> n" if "0 < m" "m \<le> length ?p" for m
    using that assms dotted_take_prefix [of m r] dotted_split [of r] by (cases "m = length ?p") auto
  show ?thesis
  proof (cases "find (\<lambda>n. dict_has vars (dotted (take n ?p))) (rev [ROOT_SEGMENTS..<Suc (length ?p)])")
    case None
    then show ?thesis unfolding lookup_def Let_def keys None by simp
  next
    case (Some m)
    then have "0 < m \<and> m \<le> length ?p"
      using find_SomeD [OF Some] by (auto simp: ROOT_SEGMENTS_def)
    then have "dotted (take m ?p) \<noteq> n" using other by blast
    then show ?thesis unfolding lookup_def Let_def keys Some by (simp add: dict_get_set)
  qed
qed

definition overwrite :: "string \<Rightarrow> pyval \<Rightarrow> StepContext \<Rightarrow> StepContext" where
  "overwrite n v x = x\<lparr>cx_variables := dict_set n v (cx_variables x)\<rparr>"

lemma require_other:
  assumes "has_variable x n" and "\<not> reads e n"
  shows "require e (overwrite n v x) = require e x"
proof -
  have keys: "dict_keys (cx_variables (overwrite n v x)) = dict_keys (cx_variables x)"
    using assms(1) by (simp add: overwrite_def has_variable_def dict_has_iff keys_dict_set)
  have st: "cx_steps (overwrite n v x) = cx_steps x" by (simp add: overwrite_def)
  have o: "reference_origin e (overwrite n v x) = reference_origin e x"
    unfolding reference_origin_def keys st ..
  have g: "get_variable (overwrite n v x) (name_of e) = get_variable x (name_of e)"
    "has_variable (overwrite n v x) (name_of e) = has_variable x (name_of e)"
    using assms by (auto simp: get_variable_def has_variable_def overwrite_def reads_def dict_get_set dict_has_def)
  have l: "is_call_scoped (name_of e) \<Longrightarrow> lookup (name_of e) (cx_variables (overwrite n v x)) = lookup (name_of e) (cx_variables x)"
    using assms by (simp add: overwrite_def reads_def has_variable_def lookup_other)
  show ?thesis
    unfolding require_def Let_def keys o g using l by simp
qed

lemma require_template:
  assumes "templates_held x" and "require e x = Inr (name, r)" and "is_template x name"
  shows "r = get_variable x name \<and> name \<in> cx_templates x"
  using assms
  by (auto simp: require_def Let_def templates_held_def is_template_def has_variable_def dict_has_iff
      split: if_splits sum.splits option.splits)

lemma resolve_other:
  assumes "has_variable x n" and "templates_held x" and "\<not> templates_mention x n"
  shows "(\<forall>e \<in> set (expr_refs s). \<not> reads e n) \<Longrightarrow> resolve_str s (overwrite n v x) d ok = resolve_str s x d ok"
    and "\<not> mentions u n \<Longrightarrow> resolve_value u (overwrite n v x) d = resolve_value u x d"
proof (induction s d ok and u d rule: resolve_induct)
  case (str s d ok)
  have tmpl: "is_template (overwrite n v x) k = is_template x k" for k
    by (simp add: is_template_def overwrite_def)
  have sub: "expr_sub (\<lambda>expr. case require expr (overwrite n v x) of Inl e \<Rightarrow> Inl e | Inr (name, v) \<Rightarrow> as_text v) s
      = expr_sub (\<lambda>expr. case require expr x of Inl e \<Rightarrow> Inl e | Inr (name, v) \<Rightarrow> as_text v) s"
    using str.prems require_other [OF assms(1)] by (intro expr_sub_cong) auto
  have full: "require e (overwrite n v x) = require e x" if "EXPR_REF_FULL s = Some e" for e
    using str.prems EXPR_REF_FULL_refs [OF that] require_other [OF assms(1)] by auto
  have into: "(case r of PStr t \<Rightarrow> resolve_str t (overwrite n v x) (Suc d) ok | _ \<Rightarrow> resolve_value r (overwrite n v x) (Suc d))
      = (case r of PStr t \<Rightarrow> resolve_str t x (Suc d) ok | _ \<Rightarrow> resolve_value r x (Suc d))"
    if "d < MAX_TEMPLATE_DEPTH" "require e x = Inr (name, r)" "is_template x name" for e name r
  proof -
    have m: "\<not> mentions r n" using require_template [OF assms(2) that(2,3)] assms(3) by (auto simp: templates_mention_def)
    show ?thesis using str(1) [OF that(1)] str(2) [OF that(1) m] m by (cases r) (auto simp: mentions_def)
  qed
  show ?case
    unfolding resolve_str.simps [of s] sub using full into
    by (auto simp: tmpl not_le split: option.splits sum.splits)
next
  case (val u d)
  show ?case
  proof (cases u)
    case (PDict kvs)
    have "map_err (keyed (\<lambda>item. resolve_value item (overwrite n v x) d)) kvs = map_err (keyed (\<lambda>item. resolve_value item x d)) kvs"
      using val(2) [OF PDict] val.prems PDict by (intro map_err_cong) (auto simp: keyed_def mentions_def)
    then show ?thesis by (simp add: PDict resolve_value_eqs)
  next
    case (PList xs)
    have "map_err (\<lambda>item. resolve_value item (overwrite n v x) d) xs = map_err (\<lambda>item. resolve_value item x d) xs"
      using val(3) [OF PList] val.prems PList by (intro map_err_cong) (auto simp: mentions_def)
    then show ?thesis by (simp add: PList resolve_value_eqs)
  qed (use val in \<open>auto simp: resolve_value_eqs mentions_def\<close>)
qed

text \<open>C11. What a remote service answered chooses nothing: a variable that neither the parameters of a step nor any
  template names has no influence on what the step is given, even when the data the run holds writes references
  to it. Overwriting such a variable, a credential for instance, leaves the resolved parameters, or the error, as
  they were.\<close>

theorem only_authored_references_read:
  assumes "templates_held x" and "has_variable x n" and "\<not> templates_mention x n" and "\<not> mentions (PDict params) n"
  shows "resolve_params params (overwrite n v x) deferred carriers = resolve_params params x deferred carriers"
proof -
  have v: "\<not> mentions u n" if "(k, u) \<in> set params" for k u
    using assms(4) that by (force simp: mentions_def)
  have s: "\<forall>e \<in> set (expr_refs s). \<not> reads e n" if "\<not> mentions (PStr s) n" for s
    using that by (auto simp: mentions_def)
  note other = resolve_other [OF assms(2,1,3)]
  have c: "resolve_carrier u (overwrite n v x) = resolve_carrier u x" if "\<not> mentions u n" for u
  proof (cases u)
    case (PDict kvs)
    have "map_err (keyed (\<lambda>item. case item of PStr s \<Rightarrow> resolve_str s (overwrite n v x) 0 True | _ \<Rightarrow> resolve_value item (overwrite n v x) 0)) kvs
        = map_err (keyed (\<lambda>item. case item of PStr s \<Rightarrow> resolve_str s x 0 True | _ \<Rightarrow> resolve_value item x 0)) kvs"
    proof (rule map_err_cong [OF refl])
      fix kv assume "kv \<in> set kvs"
      then have "\<not> mentions (snd kv) n" using that PDict by (force simp: mentions_def)
      then show "keyed (\<lambda>item. case item of PStr s \<Rightarrow> resolve_str s (overwrite n v x) 0 True | _ \<Rightarrow> resolve_value item (overwrite n v x) 0) kv
          = keyed (\<lambda>item. case item of PStr s \<Rightarrow> resolve_str s x 0 True | _ \<Rightarrow> resolve_value item x 0) kv"
        using other(2) [of "snd kv"] other(1) [OF s] by (cases "snd kv") (auto simp: keyed_def)
    qed
    then show ?thesis by (simp add: PDict resolve_carrier_def)
  qed (use that other(2) [OF that] other(1) [OF s] in \<open>simp_all add: resolve_carrier_def\<close>)
  show ?thesis
    unfolding resolve_params_def
    by (rule map_err_cong [OF refl]) (use c v other(2) in \<open>auto split: sum.splits\<close>)
qed

theorem only_authored_references_read_witness:
  "resolve_params [(''url'', PStr ''${{ url }}''), (''text'', PStr ''got ${{ body }}'')]
      (overwrite ''key'' (PStr ''plain'') demo_vars) [] []
   = resolve_params [(''url'', PStr ''${{ url }}''), (''text'', PStr ''got ${{ body }}'')] demo_vars [] []"
proof (rule only_authored_references_read)
  have e: "expr_refs ''${{ env.host }}'' = [''env.host'']" "expr_refs ''${{ url }}'' = [''url'']"
    "expr_refs ''got ${{ body }}'' = [''body'']"
    by code_simp+
  show "templates_held demo_vars" "has_variable demo_vars ''key''"
    by (simp_all add: templates_held_def demo_vars_def has_variable_def dict_has_iff)
  show "\<not> templates_mention demo_vars ''key''"
    by (simp add: templates_mention_def demo_vars_def get_variable_def mentions_def e reads_def name_of_def is_call_scoped_def)
  show "\<not> mentions (PDict [(''url'', PStr ''${{ url }}''), (''text'', PStr ''got ${{ body }}'')]) ''key''"
    by (simp add: mentions_def e reads_def name_of_def is_call_scoped_def)
qed

text \<open>A template that names itself ends with an error of the step, not with a run that hangs.\<close>

lemma self_reference_ends:
  assumes "EXPR_REF_FULL s = Some e" and "occurs_in ''${{'' s" and "require e x = Inr (name, PStr s)" and "is_template x name"
  shows "d \<le> MAX_TEMPLATE_DEPTH \<Longrightarrow> resolve_str s x d ok = Inl (template_depth_error e)"
proof (induction "MAX_TEMPLATE_DEPTH - d" arbitrary: d)
  case 0
  then show ?case using assms by (simp add: resolve_str.simps [of s])
next
  case (Suc k)
  then have "resolve_str s x (Suc d) ok = Inl (template_depth_error e)" by simp
  then show ?case using assms Suc by (simp add: resolve_str.simps [of s x d])
qed

end
