(* ===== verification/Path_Extraction.thy ===== *)
theory Path_Extraction
  imports Resolver
begin

text \<open>
  Reading a name off what a step produced (\<^verbatim>\<open>steps/_checks/extraction.py\<close>, \<^verbatim>\<open>steps/_checks/published_names.py\<close>).

  A step output is its value and the captured request and response. What a path leads to is a \<open>subject\<close>: a
  plain value, or one of the objects an output carries. \<open>attr\<close> is Python's \<open>getattr\<close> on a value that is no
  document, a text or a number; of a captured request or response only the declared fields are attributes.
  \<open>declared\<close> are the names a step class declares.
\<close>

record HttpResponse =
  rs_status_code :: int
  rs_headers :: pyval
  rs_body :: pyval
  rs_duration_ms :: pyval

record HttpRequest =
  rq_method :: string
  rq_url :: string
  rq_headers :: pyval
  rq_params :: pyval
  rq_body :: pyval

record StepOutput =
  ou_value :: pyval
  ou_request :: "HttpRequest option"
  ou_response :: "HttpResponse option"
  ou_nested :: "NestedChecks option"

datatype subject = Plain pyval | Request_object HttpRequest | Response_object HttpResponse | Checks_object NestedChecks
  | Output_object StepOutput

abbreviation missing :: subject where
  "missing \<equiv> Plain PNone"

section \<open>Paths\<close>

text \<open>\<open>_split_path\<close>: dots inside brackets do not split; empty parts are dropped.\<close>

fun split_parts :: "string \<Rightarrow> string \<Rightarrow> nat \<Rightarrow> string list" where
  "split_parts [] current depth = [current]"
| "split_parts (c # s) current depth =
     (let depth' = (if c = CHR ''['' then Suc depth else if c = CHR '']'' then depth - 1 else depth)
      in if c = CHR ''.'' \<and> depth' = 0 then current # split_parts s [] depth' else split_parts s (current @ [c]) depth')"

definition split_path :: "string \<Rightarrow> string list" where
  "split_path path = filter (\<lambda>p. p \<noteq> []) (split_parts path [] 0)"

definition doc_get :: "(string, pyval) pydict \<Rightarrow> string \<Rightarrow> pyval" where
  "doc_get d key = (case dict_get d key of None \<Rightarrow> PNone | Some v \<Rightarrow> v)"

text \<open>\<open>_PREDICATE_RE\<close>: a name, and in brackets a key, an equals sign and a value that ends the segment.\<close>

definition PREDICATE_RE :: "string \<Rightarrow> (string \<times> string \<times> string) option" where
  "PREDICATE_RE part =
     (let name = takeWhile (\<lambda>c. c \<noteq> CHR ''['') part; r = drop (Suc (length name)) part;
          key = takeWhile (\<lambda>c. c \<noteq> CHR ''='' \<and> c \<noteq> CHR '']'') r; r1 = drop (length key) r;
          val = takeWhile (\<lambda>c. c \<noteq> CHR '']'') (tl r1); r2 = dropWhile (\<lambda>c. c \<noteq> CHR '']'') (tl r1)
      in if name \<noteq> [] \<and> CHR ''['' \<in> set part \<and> key \<noteq> [] \<and> r1 \<noteq> [] \<and> hd r1 = CHR ''='' \<and> (r2 = '']'' \<or> r2 = CHR '']'' # [CHR 0x0A])
         then Some (name, key, val) else None)"

definition is_quoted :: "string \<Rightarrow> bool" where
  "is_quoted s = (2 \<le> length s \<and> hd s = CHR 0x27 \<and> last s = CHR 0x27)"

definition match_predicate_value :: "pyval \<Rightarrow> string \<Rightarrow> bool" where
  "match_predicate_value actual expected =
     (if actual = PNone then False
      else if is_quoted expected then py_str actual = butlast (tl expected)
      else (case actual of
              PStr s \<Rightarrow> s = expected
            | PBool b \<Rightarrow> lower (py_str actual) = lower expected
            | _ \<Rightarrow> py_str actual = expected))"

text \<open>One round of \<open>_iter_predicate_values\<close> for one node.\<close>

definition values_at :: "string \<Rightarrow> pyval \<Rightarrow> exc + pyval list" where
  "values_at segment node =
     (case node of
        PDict d \<Rightarrow> Inr (filter (\<lambda>v. v \<noteq> PNone) [doc_get d segment])
      | PList xs \<Rightarrow>
          if is_digits segment
          then (case digits_value segment of
                  None \<Rightarrow> Inl (value_error (''invalid literal for int() with base 10: '' @ str_repr segment))
                | Some n \<Rightarrow> Inr (if n < length xs then [xs ! n] else []))
          else Inr (concat (map (\<lambda>e. case e of PDict d \<Rightarrow> filter (\<lambda>v. v \<noteq> PNone) [doc_get d segment] | _ \<Rightarrow> []) xs))
      | _ \<Rightarrow> Inr [])"

fun predicate_values :: "string list \<Rightarrow> pyval list \<Rightarrow> exc + pyval list" where
  "predicate_values [] current = Inr current"
| "predicate_values (segment # segments) current =
     (case map_err (values_at segment) current of
        Inl e \<Rightarrow> Inl e
      | Inr vss \<Rightarrow> if concat vss = [] then Inr [] else predicate_values segments (concat vss))"

fun find_by_predicate :: "pyval list \<Rightarrow> string \<Rightarrow> string \<Rightarrow> exc + pyval" where
  "find_by_predicate [] key val = Inr PNone"
| "find_by_predicate (item # items) key val =
     (case predicate_values (split_path key) [item] of
        Inl e \<Rightarrow> Inl e
      | Inr vs \<Rightarrow> if list_ex (\<lambda>v. match_predicate_value v val) vs then Inr item else find_by_predicate items key val)"

text \<open>The first item whose answer is something: a loop that returns from inside and may raise.\<close>

fun first_found :: "('a \<Rightarrow> exc + pyval) \<Rightarrow> 'a list \<Rightarrow> exc + pyval" where
  "first_found f [] = Inr PNone"
| "first_found f (x # xs) = (case f x of Inl e \<Rightarrow> Inl e | Inr v \<Rightarrow> if v = PNone then first_found f xs else Inr v)"

lemma first_found_cong [fundef_cong]:
  "xs = ys \<Longrightarrow> (\<And>x. x \<in> set ys \<Longrightarrow> f x = g x) \<Longrightarrow> first_found f xs = first_found g ys"
proof (induction ys arbitrary: xs)
  case (Cons y ys)
  have "first_found f ys = first_found g ys" using Cons.prems by (intro Cons.IH) auto
  then show ?case using Cons.prems by (auto split: sum.split)
qed simp

fun resolve_path_segment :: "pyval \<Rightarrow> string \<Rightarrow> exc + pyval" where
  "resolve_path_segment current part =
     (case PREDICATE_RE part of
        Some (name, key, val) \<Rightarrow>
          (case current of
             PList xs \<Rightarrow> first_found (\<lambda>e. resolve_path_segment e part) xs
           | PDict d \<Rightarrow> (case doc_get d name of PList items \<Rightarrow> find_by_predicate items key val | _ \<Rightarrow> Inr PNone)
           | _ \<Rightarrow> Inr PNone)
      | None \<Rightarrow>
          (case current of
             PDict d \<Rightarrow> Inr (doc_get d part)
           | PList xs \<Rightarrow>
               if is_digits part
               then (case digits_value part of
                       None \<Rightarrow> Inl (value_error (''invalid literal for int() with base 10: '' @ str_repr part))
                     | Some n \<Rightarrow> Inr (if n < length xs then xs ! n else PNone))
               else Inr PNone
           | _ \<Rightarrow> Inr PNone))"

declare resolve_path_segment.simps [simp del]

fun traverse :: "pyval \<Rightarrow> string list \<Rightarrow> exc + pyval" where
  "traverse current [] = Inr current"
| "traverse current (part # parts) =
     (if current = PNone then Inr PNone
      else (case resolve_path_segment current part of Inl e \<Rightarrow> Inl e | Inr v \<Rightarrow> traverse v parts))"

definition traverse_dict :: "pyval \<Rightarrow> string \<Rightarrow> exc + pyval" where
  "traverse_dict data path = traverse data (split_path path)"

section \<open>Step outputs\<close>

definition response_attr :: "HttpResponse \<Rightarrow> string \<Rightarrow> pyval option" where
  "response_attr r name =
     (if name = ''status_code'' then Some (PInt (rs_status_code r)) else if name = ''headers'' then Some (rs_headers r)
      else if name = ''body'' then Some (rs_body r) else if name = ''duration_ms'' then Some (rs_duration_ms r) else None)"

definition request_attr :: "HttpRequest \<Rightarrow> string \<Rightarrow> pyval option" where
  "request_attr r name =
     (if name = ''method'' then Some (PStr (rq_method r)) else if name = ''url'' then Some (PStr (rq_url r))
      else if name = ''headers'' then Some (rq_headers r) else if name = ''params'' then Some (rq_params r)
      else if name = ''body'' then Some (rq_body r) else None)"

definition or_none :: "pyval option \<Rightarrow> pyval" where
  "or_none v = (case v of None \<Rightarrow> PNone | Some u \<Rightarrow> u)"

text \<open>\<open>public_attr\<close>: a name that starts with an underscore, and anything asked of a handle, answers nothing.\<close>

definition public_attr :: "(pyval \<Rightarrow> string \<Rightarrow> pyval) \<Rightarrow> subject \<Rightarrow> string \<Rightarrow> pyval" where
  "public_attr attr obj name =
     (if starts_with name ''_'' then PNone
      else (case obj of
              Plain (PCred c) \<Rightarrow> PNone
            | Plain v \<Rightarrow> attr v name
            | Response_object r \<Rightarrow> or_none (response_attr r name)
            | Request_object r \<Rightarrow> or_none (request_attr r name)
            | Checks_object n \<Rightarrow> if name = ''declared'' then PInt (int (nc_declared n)) else PNone
            | Output_object _ \<Rightarrow> PNone))"

definition UNIVERSAL_RETURNS :: "string list" where
  "UNIVERSAL_RETURNS = [''value'', ''request'', ''response'', ''status_code'', ''headers'', ''body'', ''duration_ms'',
     ''response_body'', ''response_headers'']"

text \<open>The fields of a step's output model: their names and aliases.\<close>

definition declared_names :: "(string \<times> string option) list \<Rightarrow> string set" where
  "declared_names fs = set UNIVERSAL_RETURNS \<union> fst ` set fs
     \<union> set (concat (map (\<lambda>(n, alias). case alias of Some (c # s) \<Rightarrow> [c # s] | _ \<Rightarrow> []) fs))"

definition is_dict :: "pyval \<Rightarrow> bool" where
  "is_dict v = (case v of PDict _ \<Rightarrow> True | _ \<Rightarrow> False)"

definition is_document :: "pyval \<Rightarrow> bool" where
  "is_document v = (case v of PDict _ \<Rightarrow> True | PList _ \<Rightarrow> True | _ \<Rightarrow> False)"

definition own_field :: "StepOutput \<Rightarrow> string \<Rightarrow> bool" where
  "own_field ou first = (case ou_value ou of PDict d \<Rightarrow> dict_has d first | _ \<Rightarrow> False)"

definition resolve_response_body :: "StepOutput \<Rightarrow> pyval" where
  "resolve_response_body ou =
     (if ou_value ou \<noteq> PNone then ou_value ou else (case ou_response ou of None \<Rightarrow> PNone | Some r \<Rightarrow> rs_body r))"

definition resolve_response_headers :: "StepOutput \<Rightarrow> pyval" where
  "resolve_response_headers ou = (case ou_response ou of None \<Rightarrow> PNone | Some r \<Rightarrow> rs_headers r)"

definition slot :: "StepOutput \<Rightarrow> string \<Rightarrow> subject" where
  "slot ou name =
     (if name = ''value'' then Plain (ou_value ou)
      else if name = ''request'' then (case ou_request ou of None \<Rightarrow> missing | Some r \<Rightarrow> Request_object r)
      else if name = ''response'' then (case ou_response ou of None \<Rightarrow> missing | Some r \<Rightarrow> Response_object r)
      else if name = ''nested'' then (case ou_nested ou of None \<Rightarrow> missing | Some n \<Rightarrow> Checks_object n)
      else missing)"

definition fallback_resolution :: "StepOutput \<Rightarrow> string \<Rightarrow> subject" where
  "fallback_resolution ou first =
     (case (case ou_response ou of None \<Rightarrow> None | Some r \<Rightarrow> response_attr r first) of
        Some v \<Rightarrow> Plain v
      | None \<Rightarrow>
          (let body = (case ou_response ou of Some r \<Rightarrow> (case rs_body r of PDict d \<Rightarrow> doc_get d first | _ \<Rightarrow> PNone) | None \<Rightarrow> PNone)
           in if body \<noteq> PNone then Plain body else slot ou first))"

definition resolve_from_value_dict :: "pyval \<Rightarrow> string \<Rightarrow> string option \<Rightarrow> string \<Rightarrow> exc + pyval" where
  "resolve_from_value_dict v first rest full_path =
     (case resolve_path_segment v first of
        Inl e \<Rightarrow> Inl e
      | Inr r \<Rightarrow>
          if r \<noteq> PNone then Inr r
          else if rest = None \<and> (CHR ''.'' \<in> set full_path \<or> CHR ''['' \<in> set full_path) then traverse_dict v full_path
          else Inr PNone)"

definition resolve_first_segment ::
  "StepOutput \<Rightarrow> string \<Rightarrow> string option \<Rightarrow> string \<Rightarrow> string set option \<Rightarrow> exc + subject" where
  "resolve_first_segment ou first rest full_path declared =
     (case (if first \<in> {''response_body'', ''response_headers''} \<and> \<not> own_field ou first
            then Inr (if first = ''response_body'' then resolve_response_body ou else resolve_response_headers ou)
            else if is_dict (ou_value ou) then resolve_from_value_dict (ou_value ou) first rest full_path
            else Inr PNone)
      of Inl e \<Rightarrow> Inl e
       | Inr v \<Rightarrow>
           if v \<noteq> PNone then Inr (Plain v)
           else (case declared of
                   Some names \<Rightarrow> Inr (if first \<notin> names then missing else fallback_resolution ou first)
                 | None \<Rightarrow> Inr (fallback_resolution ou first)))"

definition extract_from_step_output ::
  "(pyval \<Rightarrow> string \<Rightarrow> pyval) \<Rightarrow> StepOutput \<Rightarrow> string \<Rightarrow> string set option \<Rightarrow> exc + subject" where
  "extract_from_step_output attr ou path declared =
     (let segments = split_path path; first = (case segments of [] \<Rightarrow> path | s # _ \<Rightarrow> s);
          rest = (if 1 < length segments then Some (dotted (tl segments)) else None)
      in case resolve_first_segment ou first rest path declared of
           Inl e \<Rightarrow> Inl e
         | Inr resolved \<Rightarrow>
             if rest \<noteq> None \<and> rest \<noteq> Some [] \<and> resolved \<noteq> missing
             then (case resolved of
                     Plain v \<Rightarrow> if is_document v then map_ok Plain (traverse_dict v (the rest))
                               else Inr (Plain (public_attr attr resolved (the rest)))
                   | _ \<Rightarrow> Inr (Plain (public_attr attr resolved (the rest))))
             else if resolved = missing \<and> is_dict (ou_value ou) then map_ok Plain (traverse_dict (ou_value ou) path)
             else Inr resolved)"

text \<open>\<open>extract_path\<close>, for a step output and for a value that was extracted before.\<close>

definition extract_output ::
  "(pyval \<Rightarrow> string \<Rightarrow> pyval) \<Rightarrow> StepOutput \<Rightarrow> string \<Rightarrow> string set option \<Rightarrow> exc + subject" where
  "extract_output = extract_from_step_output"

definition extract_value :: "(pyval \<Rightarrow> string \<Rightarrow> pyval) \<Rightarrow> subject \<Rightarrow> string \<Rightarrow> exc + subject" where
  "extract_value attr obj path =
     (case obj of
        Plain v \<Rightarrow> if is_document v then map_ok Plain (traverse_dict v path) else Inr (Plain (public_attr attr obj path))
      | Output_object ou \<Rightarrow> extract_output attr ou path None
      | _ \<Rightarrow> Inr (Plain (public_attr attr obj path)))"

text \<open>\<open>names_a_published_output\<close> and \<open>_root_of\<close>.\<close>

definition root_of :: "string \<Rightarrow> string" where
  "root_of path = (let segments = split_path path in takeWhile (\<lambda>c. c \<noteq> CHR ''['') (case segments of [] \<Rightarrow> path | s # _ \<Rightarrow> s))"

definition names_a_published_output :: "string \<Rightarrow> string set option \<Rightarrow> bool" where
  "names_a_published_output path published = (case published of None \<Rightarrow> True | Some names \<Rightarrow> root_of path \<in> names)"

section \<open>What a path can read\<close>

lemma split_parts_not_Nil [simp]: "split_parts s current depth \<noteq> []"
  by (induction s current depth rule: split_parts.induct) (auto simp: Let_def)

lemma dotted_split_parts: "dotted (split_parts s current depth) = current @ s"
proof (induction s current depth rule: split_parts.induct)
  case (2 c s current depth)
  have j: "dotted (p # ps) = p @ ''.'' @ dotted ps" if "ps \<noteq> []" for p ps
    using that by (cases ps) (simp_all add: dotted_def)
  show ?case using 2 by (auto simp: Let_def j)
qed (simp add: dotted_def)

lemma split_parts_plain:
  "list_all (\<lambda>c. \<not> (c = CHR ''['' \<or> c = CHR '']'' \<or> c = CHR ''.'')) p \<Longrightarrow>
   split_parts (p @ r) current 0 = split_parts r (current @ p) 0"
  by (induction p arbitrary: current) (auto simp: Let_def)

lemma split_parts_dotted:
  "ps \<noteq> [] \<Longrightarrow> list_all (list_all (\<lambda>c. \<not> (c = CHR ''['' \<or> c = CHR '']'' \<or> c = CHR ''.''))) ps \<Longrightarrow>
   split_parts (dotted ps) [] 0 = ps"
proof (induction ps)
  case (Cons p ps)
  show ?case
  proof (cases ps)
    case Nil
    then show ?thesis using Cons split_parts_plain [of p "[]" "[]"] by (simp add: dotted_def)
  next
    case (Cons q qs)
    have d: "dotted (p # ps) = p @ CHR ''.'' # dotted ps" using Cons by (simp add: dotted_def)
    have "split_parts (p @ CHR ''.'' # dotted ps) [] 0 = split_parts (CHR ''.'' # dotted ps) p 0"
      using Cons.prems(2) split_parts_plain [of p "CHR ''.'' # dotted ps" "[]"] by simp
    then show ?thesis using Cons.IH Cons.prems(2) Cons d by simp
  qed
qed simp

text \<open>A document with one value at the end of a path of keys.\<close>

fun nest :: "string list \<Rightarrow> pyval \<Rightarrow> pyval" where
  "nest [] v = v"
| "nest (k # ks) v = PDict [(k, nest ks v)]"

definition plain_key :: "string \<Rightarrow> bool" where
  "plain_key k = (k \<noteq> [] \<and> list_all (\<lambda>c. \<not> (c = CHR ''['' \<or> c = CHR '']'' \<or> c = CHR ''.'')) k)"

lemma PREDICATE_RE_plain: "plain_key k \<Longrightarrow> PREDICATE_RE k = None"
  by (auto simp: PREDICATE_RE_def plain_key_def Let_def list_all_iff)

lemma traverse_nest: "list_all plain_key ks \<Longrightarrow> traverse (nest ks v) ks = Inr v"
proof (induction ks)
  case (Cons k ks)
  then show ?case by (simp add: resolve_path_segment.simps [of _ k] PREDICATE_RE_plain doc_get_def)
qed simp

lemma path_finds_nested:
  assumes "list_all plain_key ks" and "ks \<noteq> []"
  shows "traverse_dict (nest ks v) (dotted ks) = Inr v"
proof -
  have "split_parts (dotted ks) [] 0 = ks"
    using assms by (intro split_parts_dotted) (auto simp: plain_key_def list_all_iff)
  moreover have "filter (\<lambda>p. p \<noteq> []) ks = ks"
    using assms(1) by (auto simp: filter_id_conv plain_key_def list_all_iff)
  ultimately show ?thesis using traverse_nest [OF assms(1)] by (simp add: traverse_dict_def split_path_def)
qed

definition first_segment :: "string \<Rightarrow> string" where
  "first_segment path = (case split_path path of [] \<Rightarrow> path | s # _ \<Rightarrow> s)"

text \<open>A name the step never declared reads nothing of the captured traffic: whatever request, response and
  nested checks an output carries, a path whose first segment is not declared gives the same answer, taken from
  the value the step returned or nothing at all.\<close>

theorem undeclared_reads_only_value:
  assumes "first_segment path \<notin> names" and "set UNIVERSAL_RETURNS \<subseteq> names"
  shows "extract_output attr ou path (Some names)
     = extract_output attr \<lparr>ou_value = ou_value ou, ou_request = None, ou_response = None, ou_nested = None\<rparr> path (Some names)"
proof -
  have "first_segment path \<notin> {''response_body'', ''response_headers''}"
    using assms by (auto simp: UNIVERSAL_RETURNS_def)
  then have key: "resolve_first_segment ou (first_segment path) rest path (Some names)
      = resolve_first_segment \<lparr>ou_value = ou_value ou, ou_request = None, ou_response = None, ou_nested = None\<rparr>
          (first_segment path) rest path (Some names)" for rest
    using assms(1) unfolding resolve_first_segment_def by (auto split: sum.split)
  show ?thesis
    unfolding extract_output_def extract_from_step_output_def Let_def first_segment_def [symmetric] key StepOutput.select_convs ..
qed

definition demo_answer :: StepOutput where
  "demo_answer = \<lparr>ou_value = PDict [(''items'', PList [PDict [(''id'', PStr ''urn:a.b''), (''n'', PInt 7)]])], ou_request = None,
     ou_response = Some \<lparr>rs_status_code = 200, rs_headers = PNone, rs_body = PDict [(''token'', PStr ''t'')], rs_duration_ms = PNone\<rparr>,
     ou_nested = None\<rparr>"

theorem undeclared_reads_only_value_witness:
  "extract_output (\<lambda>_ _. PNone) demo_answer ''token'' (Some (declared_names [(''items'', None)])) = Inr missing
   \<and> extract_output (\<lambda>_ _. PNone) demo_answer ''token'' None = Inr (Plain (PStr ''t''))
   \<and> extract_output (\<lambda>_ _. PNone) demo_answer ''items[id='urn:a.b'].n'' (Some (declared_names [(''items'', None)])) = Inr (Plain (PInt 7))"
proof -
  have f: "first_segment ''token'' = ''token''" by code_simp
  have n: "declared_names [(''items'', None)] = insert ''items'' (set UNIVERSAL_RETURNS)" by (auto simp: declared_names_def)
  have "extract_output (\<lambda>_ _. PNone) demo_answer ''token'' (Some (declared_names [(''items'', None)]))
      = extract_output (\<lambda>_ _. PNone) \<lparr>ou_value = ou_value demo_answer, ou_request = None, ou_response = None, ou_nested = None\<rparr>
          ''token'' (Some (declared_names [(''items'', None)]))"
    by (rule undeclared_reads_only_value) (auto simp: f n UNIVERSAL_RETURNS_def)
  also have "\<dots> = Inr missing" by code_simp
  finally show ?thesis by (intro conjI) (assumption, code_simp+)
qed

end
