(* ===== verification/Checks.thy ===== *)
theory Checks
  imports Path_Extraction Complex_Main "HOL-Library.Product_Lexorder"
begin

text \<open>
  The checks of a step: operands and operators (\<^verbatim>\<open>steps/assertions/operands.py\<close>, \<^verbatim>\<open>operators.py\<close>), what a
  \<open>validate:\<close> entry names (\<^verbatim>\<open>vocabulary.py\<close>) and its evaluation (\<^verbatim>\<open>engine.py\<close>, \<^verbatim>\<open>steps/_checks/schema.py\<close>).

  Numbers are compared as Python's floats: a finite float is its rational value, an integer is rounded to 53
  significant bits, ties to even, and refused beyond the largest float. What lies outside the repository is the
  environment of a check: \<open>float\<close> of a text, the regular expressions of \<open>re\<close>, JSON decoding and the JSON
  Schema validator, the text of an object, and the checks extensions register. A request, a response or a whole
  output that a check names is compared as its text.
\<close>

section \<open>Operands\<close>

datatype pyfloat = Finite rat | Infinite bool | NaN

record check_env =
  en_float_text :: "string \<Rightarrow> pyfloat option"
  en_search :: "string \<Rightarrow> string \<Rightarrow> bool option"
  en_json :: "string \<Rightarrow> string + pyval"
  en_type_name :: "pyval \<Rightarrow> string"
  en_schema_error :: "pyval \<Rightarrow> string option"
  en_schema_errors :: "pyval \<Rightarrow> pyval \<Rightarrow> ((nat + string) list \<times> string) list"
  en_object_text :: "subject \<Rightarrow> string"
  en_attr :: "pyval \<Rightarrow> string \<Rightarrow> pyval"
  en_registered :: "string \<Rightarrow> (subject \<Rightarrow> (string, pyval) pydict \<Rightarrow> exc + (bool \<times> string \<times> pyval \<times> pyval)) option"

text \<open>What a comparison that cannot be attempted raises: the \<open>OperandError\<close> its operator reports, or another exception.\<close>

datatype operand_failure = OperandError string | Raised exc

fun bits :: "nat \<Rightarrow> nat" where
  "bits n = (if n = 0 then 0 else Suc (bits (n div 2)))"

declare bits.simps [simp del]

definition round_half_even :: "nat \<Rightarrow> nat \<Rightarrow> nat" where
  "round_half_even n k =
     (let q = n div 2 ^ k; r = n mod 2 ^ k; half = 2 ^ (k - 1)
      in if k = 0 then n else if r > half \<or> (r = half \<and> odd q) then Suc q else q)"

text \<open>The integer a float rounds \<open>n\<close> to; \<open>None\<close> is the \<open>OverflowError\<close>.\<close>

definition float_of_nat :: "nat \<Rightarrow> nat option" where
  "float_of_nat n =
     (let k = bits n - 53; m = round_half_even n k * 2 ^ k in if m < 2 ^ 1024 then Some m else None)"

definition float_of_int :: "int \<Rightarrow> pyfloat option" where
  "float_of_int n = map_option (\<lambda>m. Finite (of_int (if n < 0 then - int m else int m))) (float_of_nat (nat \<bar>n\<bar>))"

definition overflow_error :: exc where
  "overflow_error = \<lparr>ex_kind = Other_Exception, ex_message = ''int too large to convert to float'', ex_code = None, ex_origin = None,
     ex_diagnostics = None, ex_nested = None\<rparr>"

text \<open>\<open>float(value)\<close>: \<open>Inl None\<close> for what the adapters turn into an \<open>OperandError\<close>.\<close>

definition py_float :: "check_env \<Rightarrow> pyval \<Rightarrow> exc option + pyfloat" where
  "py_float env v =
     (case v of
        PBool b \<Rightarrow> Inr (Finite (if b then 1 else 0))
      | PInt n \<Rightarrow> (case float_of_int n of None \<Rightarrow> Inl (Some overflow_error) | Some f \<Rightarrow> Inr f)
      | PStr s \<Rightarrow> (case en_float_text env s of None \<Rightarrow> Inl None | Some f \<Rightarrow> Inr f)
      | _ \<Rightarrow> Inl None)"

definition float_less :: "pyfloat \<Rightarrow> pyfloat \<Rightarrow> bool" where
  "float_less x y =
     (case (x, y) of
        (Finite a, Finite b) \<Rightarrow> a < b
      | (Finite _, Infinite up) \<Rightarrow> up
      | (Infinite up, Finite _) \<Rightarrow> \<not> up
      | (Infinite a, Infinite b) \<Rightarrow> \<not> a \<and> b
      | _ \<Rightarrow> False)"

definition float_le :: "pyfloat \<Rightarrow> pyfloat \<Rightarrow> bool" where
  "float_le x y = (float_less x y \<or> (x = y \<and> x \<noteq> NaN))"

text \<open>Two conversions in a row, left first.\<close>

definition operand_case :: "string \<Rightarrow> exc option + 'a \<Rightarrow> ('a \<Rightarrow> operand_failure + 'b) \<Rightarrow> operand_failure + 'b" where
  "operand_case message v k =
     (case v of Inl None \<Rightarrow> Inl (OperandError message) | Inl (Some e) \<Rightarrow> Inl (Raised e) | Inr x \<Rightarrow> k x)"

definition numeric :: "check_env \<Rightarrow> (pyfloat \<Rightarrow> pyfloat \<Rightarrow> bool) \<Rightarrow> pyval \<Rightarrow> pyval \<Rightarrow> operand_failure + bool" where
  "numeric env compare actual expected =
     (let message = ''Cannot compare '' @ py_repr actual @ '' with '' @ py_repr expected @ '' numerically''
      in operand_case message (py_float env actual) (\<lambda>l. operand_case message (py_float env expected) (\<lambda>r. Inr (compare l r))))"

text \<open>\<open>len(value)\<close>, and \<open>int(text)\<close>: blanks around, a sign, digits with single underscores between them.\<close>

definition py_len :: "pyval \<Rightarrow> nat option" where
  "py_len v = (case v of PStr s \<Rightarrow> Some (length s) | PList xs \<Rightarrow> Some (length xs) | PDict d \<Rightarrow> Some (length d) | _ \<Rightarrow> None)"

definition ascii_digit :: "char \<Rightarrow> bool" where
  "ascii_digit c = (let n = of_char c :: nat in 48 \<le> n \<and> n \<le> 57)"

definition int_of_text :: "string \<Rightarrow> int option" where
  "int_of_text s =
     (let t = strip s; neg = starts_with t ''-''; u = (if neg \<or> starts_with t ''+'' then tl t else t); groups = split_on (CHR ''_'') u
      in if list_all (\<lambda>g. g \<noteq> [] \<and> list_all ascii_digit g) groups
         then Some (let n = int (foldl (\<lambda>k c. 10 * k + (of_char c - 48)) 0 (concat groups)) in if neg then - n else n) else None)"

definition wanted_count :: "pyval \<Rightarrow> int option" where
  "wanted_count v = (case v of PBool b \<Rightarrow> Some (if b then 1 else 0) | PInt n \<Rightarrow> Some n | PStr s \<Rightarrow> int_of_text s | _ \<Rightarrow> None)"

definition sized :: "(int \<Rightarrow> int \<Rightarrow> bool) \<Rightarrow> pyval \<Rightarrow> pyval \<Rightarrow> operand_failure + bool" where
  "sized compare actual expected =
     (case (py_len actual, wanted_count expected) of
        (Some n, Some w) \<Rightarrow> Inr (compare (int n) w)
      | _ \<Rightarrow> Inl (OperandError (''Cannot measure the length of '' @ py_repr actual @ '' against '' @ py_repr expected)))"

definition bounded :: "check_env \<Rightarrow> (pyfloat \<Rightarrow> pyfloat \<Rightarrow> pyfloat \<Rightarrow> bool) \<Rightarrow> pyval \<Rightarrow> pyval \<Rightarrow> operand_failure + bool" where
  "bounded env compare actual expected =
     (case expected of
        PList [low, high] \<Rightarrow>
          if low = PNone \<or> high = PNone then Inl (OperandError (''A range check needs both a '' @ str_repr ''min'' @ '' and a '' @ str_repr ''max''))
          else (let message = ''Cannot place '' @ py_repr actual @ '' between '' @ py_repr low @ '' and '' @ py_repr high
                in operand_case message (py_float env actual) (\<lambda>v. operand_case message (py_float env low)
                     (\<lambda>l. operand_case message (py_float env high) (\<lambda>h. Inr (compare v l h)))))
      | _ \<Rightarrow> Inl (OperandError (''A range check needs both a '' @ str_repr ''min'' @ '' and a '' @ str_repr ''max'')))"

definition yaml_text :: "pyval \<Rightarrow> string" where
  "yaml_text v = (case v of PBool b \<Rightarrow> if b then ''true'' else ''false'' | _ \<Rightarrow> py_str v)"

definition is_bool :: "pyval \<Rightarrow> bool" where
  "is_bool v = (case v of PBool _ \<Rightarrow> True | _ \<Rightarrow> False)"

definition same :: "pyval \<Rightarrow> pyval \<Rightarrow> bool" where
  "same actual expected =
     (py_eq actual expected
      \<or> (if is_bool actual \<or> is_bool expected then lower (yaml_text actual) = lower (yaml_text expected)
         else yaml_text actual = yaml_text expected))"

definition is_member :: "pyval \<Rightarrow> pyval \<Rightarrow> bool" where
  "is_member actual expected = list_ex (\<lambda>v. py_eq actual v) (case expected of PList xs \<Rightarrow> xs | _ \<Rightarrow> [expected])"

definition is_within :: "pyval \<Rightarrow> pyval \<Rightarrow> bool" where
  "is_within actual expected =
     (if actual = PNone \<or> actual = PStr [] then False else occurs_in (yaml_text actual) (yaml_text expected))"

definition has_key :: "pyval \<Rightarrow> pyval \<Rightarrow> operand_failure + bool" where
  "has_key actual expected =
     (case actual of
        PDict d \<Rightarrow>
          (case expected of
             PStr k \<Rightarrow> Inr (dict_has d k)
           | PList _ \<Rightarrow> Inl (OperandError (py_repr expected @ '' cannot be used as a key''))
           | PDict _ \<Rightarrow> Inl (OperandError (py_repr expected @ '' cannot be used as a key''))
           | _ \<Rightarrow> Inr False)
      | _ \<Rightarrow> Inr False)"

definition matches :: "check_env \<Rightarrow> pyval \<Rightarrow> pyval \<Rightarrow> operand_failure + bool" where
  "matches env actual expected =
     (case actual of
        PStr s \<Rightarrow> (case en_search env (py_str expected) s of
                    None \<Rightarrow> Inl (OperandError (py_repr expected @ '' is not a valid regular expression'')) | Some b \<Rightarrow> Inr b)
      | _ \<Rightarrow> Inr False)"

section \<open>Operators\<close>

datatype Arity = UNARY | BINARY | RANGE

record Operator =
  op_name :: string
  op_arity :: Arity
  op_check :: "check_env \<Rightarrow> pyval \<Rightarrow> pyval \<Rightarrow> operand_failure + bool"
  op_message :: "pyval \<Rightarrow> pyval \<Rightarrow> string"

definition negated :: "operand_failure + bool \<Rightarrow> operand_failure + bool" where
  "negated r = map_ok (\<lambda>b. \<not> b) r"

definition operator :: "string \<Rightarrow> Arity \<Rightarrow> (check_env \<Rightarrow> pyval \<Rightarrow> pyval \<Rightarrow> operand_failure + bool) \<Rightarrow> (pyval \<Rightarrow> pyval \<Rightarrow> string) \<Rightarrow> Operator" where
  "operator name arity check message = \<lparr>op_name = name, op_arity = arity, op_check = check, op_message = message\<rparr>"

definition range_item :: "pyval \<Rightarrow> nat \<Rightarrow> string" where
  "range_item v k = (case v of PList xs \<Rightarrow> if k < length xs then py_repr (xs ! k) else [] | _ \<Rightarrow> [])"

definition contained :: "pyval \<Rightarrow> pyval \<Rightarrow> bool" where
  "contained actual expected = (actual \<noteq> PNone \<and> occurs_in (py_str expected) (py_str actual))"

definition TABLE :: "Operator list" where
  "TABLE =
     [operator ''not_null'' UNARY (\<lambda>env a e. Inr (a \<noteq> PNone)) (\<lambda>a e. ''Expected a non-null value, got '' @ py_repr a),
      operator ''is_null'' UNARY (\<lambda>env a e. Inr (a = PNone)) (\<lambda>a e. ''Expected null, got '' @ py_repr a),
      operator ''not_empty'' UNARY (\<lambda>env a e. Inr (truthy a)) (\<lambda>a e. ''Expected a non-empty value, got '' @ py_repr a),
      operator ''equals'' BINARY (\<lambda>env a e. Inr (same a e)) (\<lambda>a e. ''Expected '' @ py_repr e @ '', got '' @ py_repr a),
      operator ''not_equals'' BINARY (\<lambda>env a e. Inr (\<not> same a e))
        (\<lambda>a e. ''Expected a value other than '' @ py_repr e @ '', got '' @ py_repr a),
      operator ''contains'' BINARY (\<lambda>env a e. Inr (contained a e)) (\<lambda>a e. ''Expected '' @ py_repr a @ '' to contain '' @ py_repr e),
      operator ''not_contains'' BINARY (\<lambda>env a e. Inr (\<not> contained a e))
        (\<lambda>a e. ''Expected '' @ py_repr a @ '' to NOT contain '' @ py_repr e),
      operator ''is_in'' BINARY (\<lambda>env a e. Inr (is_within a e)) (\<lambda>a e. ''Expected '' @ py_repr a @ '' to occur in '' @ py_repr e),
      operator ''matches_regex'' BINARY matches (\<lambda>a e. ''Pattern '' @ py_repr e @ '' not matched in '' @ py_repr a),
      operator ''one_of'' BINARY (\<lambda>env a e. Inr (is_member a e)) (\<lambda>a e. ''Expected '' @ py_repr a @ '' to be one of '' @ py_repr e),
      operator ''none_of'' BINARY (\<lambda>env a e. Inr (\<not> is_member a e)) (\<lambda>a e. ''Expected '' @ py_repr a @ '' to be none of '' @ py_repr e),
      operator ''has_key'' BINARY (\<lambda>env. has_key) (\<lambda>a e. ''Expected '' @ py_repr a @ '' to have key '' @ py_repr e),
      operator ''not_has_key'' BINARY (\<lambda>env a e. negated (has_key a e)) (\<lambda>a e. ''Expected '' @ py_repr a @ '' to NOT have key '' @ py_repr e),
      operator ''gt'' BINARY (\<lambda>env. numeric env (\<lambda>l r. float_less r l)) (\<lambda>a e. ''Expected '' @ py_repr a @ '' to be greater than '' @ py_repr e),
      operator ''gte'' BINARY (\<lambda>env. numeric env (\<lambda>l r. float_le r l))
        (\<lambda>a e. ''Expected '' @ py_repr a @ '' to be greater than or equal to '' @ py_repr e),
      operator ''lt'' BINARY (\<lambda>env. numeric env float_less) (\<lambda>a e. ''Expected '' @ py_repr a @ '' to be less than '' @ py_repr e),
      operator ''lte'' BINARY (\<lambda>env. numeric env float_le)
        (\<lambda>a e. ''Expected '' @ py_repr a @ '' to be less than or equal to '' @ py_repr e),
      operator ''length_equals'' BINARY (\<lambda>env. sized (\<lambda>n w. n = w)) (\<lambda>a e. ''Expected '' @ py_repr a @ '' to have length '' @ py_repr e),
      operator ''length_gt'' BINARY (\<lambda>env. sized (\<lambda>n w. n > w)) (\<lambda>a e. ''Expected '' @ py_repr a @ '' to be longer than '' @ py_repr e),
      operator ''length_lt'' BINARY (\<lambda>env. sized (\<lambda>n w. n < w)) (\<lambda>a e. ''Expected '' @ py_repr a @ '' to be shorter than '' @ py_repr e),
      operator ''between'' RANGE (\<lambda>env. bounded env (\<lambda>v l h. float_le l v \<and> float_le v h))
        (\<lambda>a e. ''Expected '' @ py_repr a @ '' to be between '' @ range_item e 0 @ '' and '' @ range_item e 1)]"

definition OPERATORS :: "string list" where
  "OPERATORS = map op_name TABLE"

definition operator_named :: "string \<Rightarrow> Operator option" where
  "operator_named name = find (\<lambda>p. op_name p = name) TABLE"

definition arity_of :: "string \<Rightarrow> Arity option" where
  "arity_of name = map_option op_arity (operator_named name)"

definition known_operators :: string where
  "known_operators = ''Known operators: '' @ join_with '', '' (sort OPERATORS)"

definition apply_operator :: "check_env \<Rightarrow> string \<Rightarrow> pyval \<Rightarrow> pyval \<Rightarrow> exc + (bool \<times> string)" where
  "apply_operator env name actual expected =
     (case operator_named name of
        None \<Rightarrow> Inr (False, ''Unknown operator '' @ str_repr name @ ''. '' @ known_operators)
      | Some known \<Rightarrow>
          (case op_check known env actual expected of
             Inl (OperandError m) \<Rightarrow> Inr (False, m)
           | Inl (Raised e) \<Rightarrow> Inl e
           | Inr passed \<Rightarrow> Inr (passed, if passed then [] else op_message known actual expected)))"

section \<open>What an entry names\<close>

datatype AssertionKind = ASSERT | FIELD | SCHEMA | REGISTERED

record ResolvedAssertion =
  ra_kind :: AssertionKind
  ra_operator :: "string option"

definition PREFIX_TO_KIND :: "(string \<times> AssertionKind) list" where
  "PREFIX_TO_KIND = [(''validate/assert'', ASSERT), (''validate/field'', FIELD), (''validate/schema'', SCHEMA)]"

definition DEFAULT_OPERATOR :: string where
  "DEFAULT_OPERATOR = ''not_null''"

definition unknown_operator :: "pyval \<Rightarrow> string option \<Rightarrow> string" where
  "unknown_operator written uses =
     ''Unknown operator '' @ py_repr written @ (case uses of Some (c # u) \<Rightarrow> '' in '' @ str_repr (c # u) | _ \<Rightarrow> []) @ ''. '' @ known_operators"

definition type_error :: "string \<Rightarrow> exc" where
  "type_error message = \<lparr>ex_kind = Other_Exception, ex_message = message, ex_code = None, ex_origin = None,
     ex_diagnostics = None, ex_nested = None\<rparr>"

text \<open>\<open>Inr (Inl message)\<close> is the reason an entry cannot be understood.\<close>

definition resolve_known_prefix :: "AssertionKind \<Rightarrow> (string, pyval) pydict \<Rightarrow> exc + (string + ResolvedAssertion)" where
  "resolve_known_prefix kind params =
     (if kind = SCHEMA then Inr (Inr \<lparr>ra_kind = kind, ra_operator = None\<rparr>)
      else (case (case dict_get params ''operator'' of None \<Rightarrow> PStr DEFAULT_OPERATOR | Some v \<Rightarrow> v) of
              PStr n \<Rightarrow> Inr (if n \<in> set OPERATORS then Inr \<lparr>ra_kind = kind, ra_operator = Some n\<rparr>
                           else Inl (unknown_operator (PStr n) None))
            | PList xs \<Rightarrow> Inl (type_error ''unhashable type: list'')
            | PDict d \<Rightarrow> Inl (type_error ''unhashable type: dict'')
            | v \<Rightarrow> Inr (Inl (unknown_operator v None))))"

definition rpartition :: "char \<Rightarrow> string \<Rightarrow> string \<times> string" where
  "rpartition c s = (let suffix = rev (takeWhile (\<lambda>d. d \<noteq> c) (rev s)) in (take (length s - length suffix - 1) s, suffix))"

definition resolve_assertion :: "check_env \<Rightarrow> string \<Rightarrow> (string, pyval) pydict \<Rightarrow> exc + (string + ResolvedAssertion)" where
  "resolve_assertion env uses params =
     (case dict_get PREFIX_TO_KIND uses of
        Some kind \<Rightarrow> resolve_known_prefix kind params
      | None \<Rightarrow>
          if en_registered env uses \<noteq> None then Inr (Inr \<lparr>ra_kind = REGISTERED, ra_operator = None\<rparr>)
          else (let (prefix, suffix) = rpartition (CHR ''/'') uses
                in case dict_get PREFIX_TO_KIND prefix of
                     None \<Rightarrow> Inr (Inl (''Unknown assertion '' @ str_repr uses @ ''. Assertions are '' @ str_repr ''validate/assert'' @ '', ''
                       @ str_repr ''validate/field'' @ '', '' @ str_repr ''validate/schema''
                       @ '', or one of those with an operator suffix such as '' @ str_repr ''validate/assert/equals'' @ ''.''))
                   | Some kind \<Rightarrow>
                       if kind = SCHEMA
                       then Inr (Inl (''Unknown assertion '' @ str_repr uses @ ''. Assertions are '' @ str_repr ''validate/assert'' @ '', ''
                         @ str_repr ''validate/field'' @ '', '' @ str_repr ''validate/schema''
                         @ '', or one of those with an operator suffix such as '' @ str_repr ''validate/assert/equals'' @ ''.''))
                       else if suffix \<notin> set OPERATORS then Inr (Inl (unknown_operator (PStr suffix) (Some uses)))
                       else Inr (Inr \<lparr>ra_kind = kind, ra_operator = Some suffix\<rparr>)))"

text \<open>\<open>check_operands\<close>, the compiler's check that an entry supplies what its operator reads and nothing it ignores.\<close>

definition OPERANDS :: "Arity \<Rightarrow> string list" where
  "OPERANDS a = (case a of UNARY \<Rightarrow> [] | BINARY \<Rightarrow> [''value''] | RANGE \<Rightarrow> [''max'', ''min''])"

definition NON_OPERANDS :: "string list" where
  "NON_OPERANDS = [''input'', ''path'', ''operator'', ''severity'', ''schema'', ''source'']"

definition check_operands :: "string \<Rightarrow> (string, pyval) pydict \<Rightarrow> string option" where
  "check_operands name params =
     (case arity_of name of
        None \<Rightarrow> None
      | Some a \<Rightarrow>
          (let supplied = filter (\<lambda>k. k \<notin> set NON_OPERANDS) (remdups (dict_keys params));
               ignored = filter (\<lambda>k. k \<notin> set (OPERANDS a)) supplied;
               lacking = filter (\<lambda>k. k \<notin> set supplied) (OPERANDS a)
           in if ignored \<noteq> [] then Some (''Operator '' @ str_repr name @ '' does not read '' @ join_with '', '' (sort (map str_repr ignored)) @ ''. ''
                @ (if OPERANDS a \<noteq> [] then ''It compares against '' @ join_with '', '' (OPERANDS a) @ ''.''
                   else ''It takes no comparison operand -- did you mean to name an operator?''))
              else if lacking \<noteq> [] then Some (''Operator '' @ str_repr name @ '' needs '' @ join_with '', '' lacking @ '', which is not set.'')
              else None))"

definition check_severity :: "pyval \<Rightarrow> string + AssertionSeverity" where
  "check_severity v =
     (case (case v of PStr s \<Rightarrow> AssertionSeverity_of s | _ \<Rightarrow> None) of
        Some s \<Rightarrow> Inr s
      | None \<Rightarrow> Inl (''Unknown severity '' @ py_repr v @ ''. Severity is '' @ str_repr ''HARD'' @ '' (the default: a failure fails the step) or ''
          @ str_repr ''SOFT'' @ '' (a failure is reported as a warning), in any case.''))"

section \<open>Schemas\<close>

definition json_decode :: "check_env \<Rightarrow> pyval \<Rightarrow> string \<Rightarrow> string + pyval" where
  "json_decode env v label =
     (case v of
        PStr s \<Rightarrow> (case en_json env s of
                    Inl e \<Rightarrow> Inl (label @ '' is not valid JSON: '' @ str_repr (take 120 s) @ '' ('' @ e @ '')'') | Inr u \<Rightarrow> Inr u)
      | _ \<Rightarrow> Inr v)"

definition path_key :: "(nat + string) list \<Rightarrow> (nat \<times> nat \<times> string) list" where
  "path_key = map (\<lambda>p. case p of Inl n \<Rightarrow> (0, n, []) | Inr s \<Rightarrow> (1, 0, s))"

definition path_text :: "(nat + string) list \<Rightarrow> string" where
  "path_text p = (let t = join_with ''/'' (map (\<lambda>q. case q of Inl n \<Rightarrow> nat_text n | Inr s \<Rightarrow> s) p) in if t = [] then ''<root>'' else t)"

definition check_schema_validation :: "check_env \<Rightarrow> pyval \<Rightarrow> pyval \<Rightarrow> bool \<times> string" where
  "check_schema_validation env actual expected =
     (if expected = PNone
      then (False, ''No schema provided -- '' @ str_repr ''validate/schema'' @ '' needs a '' @ str_repr ''schema:'' @ '' key'')
      else (case json_decode env expected ''The schema'' of
        Inl problem \<Rightarrow> (False, problem)
      | Inr schema \<Rightarrow> (case json_decode env actual ''The payload'' of
        Inl problem \<Rightarrow> (False, problem)
      | Inr payload \<Rightarrow>
          if \<not> is_dict schema
          then (False, ''Expected a JSON Schema object, got '' @ en_type_name env schema @ ''. Check that the schema reference resolves.'')
          else (case en_schema_error env schema of
            Some m \<Rightarrow> (False, ''Invalid JSON Schema: '' @ m)
          | None \<Rightarrow>
              (let errors = sort_key (\<lambda>e. path_key (fst e)) (en_schema_errors env schema payload)
               in if errors = [] then (True, [])
                  else (False, ''Schema validation failed ('' @ nat_text (length errors) @ '' error(s)): ''
                    @ join_with ''; '' (map (\<lambda>(p, m). path_text p @ '': '' @ m) errors)))))))"

section \<open>The engine\<close>

definition subject_value :: "check_env \<Rightarrow> subject \<Rightarrow> pyval" where
  "subject_value env obj = (case obj of Plain v \<Rightarrow> v | _ \<Rightarrow> PStr (en_object_text env obj))"

definition param :: "(string, pyval) pydict \<Rightarrow> string \<Rightarrow> pyval" where
  "param params key = (case dict_get params key of None \<Rightarrow> PNone | Some v \<Rightarrow> v)"

definition unknown_input :: "(string, pyval) pydict \<Rightarrow> string set option \<Rightarrow> string" where
  "unknown_input params declared =
     (case (declared, param params ''input'') of
        (Some names, PStr s) \<Rightarrow>
          if names_a_published_output s declared then []
          else [CHR 0x27] @ ''input: '' @ s @ [CHR 0x27] @ '' names nothing this step publishes. It publishes: '' @ join_with '', '' (sorted_list_of_set names) @ ''.''
      | _ \<Rightarrow> [])"

text \<open>\<open>extract_path(output, input)\<close> of an entry: without \<open>input\<close> the whole output.\<close>

definition input_subject :: "check_env \<Rightarrow> StepOutput \<Rightarrow> pyval \<Rightarrow> exc + subject" where
  "input_subject env ou inp =
     (case inp of PNone \<Rightarrow> Inr (Output_object ou) | PStr s \<Rightarrow> extract_output (en_attr env) ou s None
      | _ \<Rightarrow> Inl (type_error ''input is not a path''))"

definition extract_subject :: "check_env \<Rightarrow> StepOutput \<Rightarrow> (string, pyval) pydict \<Rightarrow> AssertionKind \<Rightarrow> exc + subject" where
  "extract_subject env ou params kind =
     (case input_subject env ou (param params ''input'') of
        Inl e \<Rightarrow> Inl e
      | Inr obj \<Rightarrow>
          if kind \<noteq> FIELD then Inr obj
          else (case param params ''path'' of
                  PStr (c # p) \<Rightarrow> extract_value (en_attr env) obj (c # p)
                | v \<Rightarrow> if truthy v then Inl (type_error ''path is not a path'') else Inr obj))"

definition resolve_expected :: "(string, pyval) pydict \<Rightarrow> ResolvedAssertion \<Rightarrow> pyval" where
  "resolve_expected params r =
     (if ra_kind r = SCHEMA then param params ''schema''
      else if (case ra_operator r of None \<Rightarrow> False | Some n \<Rightarrow> arity_of n = Some RANGE)
           then PList [param params ''min'', param params ''max'']
           else param params ''value'')"

definition run_check :: "check_env \<Rightarrow> ResolvedAssertion \<Rightarrow> pyval \<Rightarrow> pyval \<Rightarrow> exc + (bool \<times> string)" where
  "run_check env r actual expected =
     (if ra_kind r = SCHEMA then Inr (check_schema_validation env actual expected)
      else apply_operator env (case ra_operator r of None \<Rightarrow> ''None'' | Some n \<Rightarrow> n) actual expected)"

definition check_result :: "Assertion \<Rightarrow> bool \<Rightarrow> pyval \<Rightarrow> pyval \<Rightarrow> string \<Rightarrow> AssertionSeverity \<Rightarrow> AssertionResult" where
  "check_result a passed expected actual message severity =
     \<lparr>ar_assertion = a, ar_passed = passed, ar_expected = expected, ar_actual = actual, ar_message = message, ar_severity = severity,
      ar_step_path = [], ar_step_cac = []\<rparr>"

definition evaluate_one ::
  "check_env \<Rightarrow> StepOutput \<Rightarrow> string set option \<Rightarrow> Assertion \<Rightarrow> exc + AssertionResult" where
  "evaluate_one env ou declared a =
     (let params = (case as_with a of None \<Rightarrow> [] | Some p \<Rightarrow> p);
          written = (case dict_get params ''severity'' of None \<Rightarrow> PStr ''HARD'' | Some v \<Rightarrow> v);
          severity = (case check_severity written of Inl _ \<Rightarrow> HARD | Inr s \<Rightarrow> s)
      in case resolve_assertion env (as_uses a) params of
           Inl e \<Rightarrow> Inl e
         | Inr resolved \<Rightarrow>
             (case (check_severity written, resolved) of
                (Inl m, _) \<Rightarrow> Inr (check_result a False PNone PNone m severity)
              | (Inr _, Inl m) \<Rightarrow> Inr (check_result a False PNone PNone m severity)
              | (Inr _, Inr r) \<Rightarrow>
                  if unknown_input params declared \<noteq> []
                  then Inr (check_result a False PNone PNone (unknown_input params declared) severity)
                  else if ra_kind r = REGISTERED
                  then (case (if param params ''input'' \<noteq> PNone then input_subject env ou (param params ''input'') else Inr (Plain (ou_value ou))) of
                          Inl e \<Rightarrow> Inl e
                        | Inr obj \<Rightarrow>
                            (case the (en_registered env (as_uses a)) obj params of
                               Inl e \<Rightarrow> Inl e
                             | Inr (passed, message, expected, actual) \<Rightarrow>
                                 Inr (check_result (a\<lparr>as_with := Some params\<rparr>) passed expected actual (if passed then [] else message) severity)))
                  else (case extract_subject env ou params (ra_kind r) of
                          Inl e \<Rightarrow> Inl e
                        | Inr obj \<Rightarrow>
                            (let actual = subject_value env obj; expected = resolve_expected params r
                             in case run_check env r actual expected of
                                  Inl e \<Rightarrow> Inl e
                                | Inr (passed, message) \<Rightarrow>
                                    Inr (check_result a passed expected actual (if passed then [] else message) severity)))))"

definition evaluate ::
  "check_env \<Rightarrow> Assertion list \<Rightarrow> StepOutput \<Rightarrow> string set option \<Rightarrow> exc + AssertionResult list" where
  "evaluate env assertions ou declared = map_err (evaluate_one env ou declared) assertions"

section \<open>What a passing check means\<close>

definition params_of :: "Assertion \<Rightarrow> (string, pyval) pydict" where
  "params_of a = (case as_with a of None \<Rightarrow> [] | Some p \<Rightarrow> p)"

definition written_severity :: "Assertion \<Rightarrow> pyval" where
  "written_severity a = (case dict_get (params_of a) ''severity'' of None \<Rightarrow> PStr ''HARD'' | Some v \<Rightarrow> v)"

text \<open>A check that can be carried out: it names a severity, a check, and something the step publishes.\<close>

definition understood :: "check_env \<Rightarrow> string set option \<Rightarrow> Assertion \<Rightarrow> bool" where
  "understood env declared a =
     (\<not> isl (check_severity (written_severity a))
      \<and> (case resolve_assertion env (as_uses a) (params_of a) of Inr (Inr r) \<Rightarrow> True | _ \<Rightarrow> False)
      \<and> unknown_input (params_of a) declared = [])"

lemma evaluate_one_shape:
  assumes "evaluate_one env ou declared a = Inr r"
  shows "(if understood env declared a then (ar_passed r \<longrightarrow> ar_message r = [])
          else \<not> ar_passed r \<and> (isl (check_severity (written_severity a)) \<longrightarrow> ar_severity r = HARD))"
proof -
  let ?sev = "check_severity (written_severity a)" and ?res = "resolve_assertion env (as_uses a) (params_of a)"
  note e = assms [unfolded evaluate_one_def Let_def, folded params_of_def, folded written_severity_def]
  show ?thesis
  proof (cases ?res)
    case (Inl x)
    then show ?thesis using e by simp
  next
    case (Inr res)
    show ?thesis
    proof (cases ?sev)
      case (Inl m)
      then show ?thesis using e \<open>?res = Inr res\<close> by (auto simp: understood_def check_result_def)
    next
      case (Inr s)
      note sev = this
      show ?thesis
      proof (cases res)
        case (Inl m)
        then show ?thesis using e sev \<open>?res = Inr res\<close> by (auto simp: understood_def check_result_def)
      next
        case (Inr rr)
        show ?thesis
        proof (cases "unknown_input (params_of a) declared = []")
          case False
          then show ?thesis using e sev \<open>?res = Inr res\<close> Inr by (auto simp: understood_def check_result_def)
        next
          case True
          have "understood env declared a" using True sev \<open>?res = Inr res\<close> Inr by (simp add: understood_def)
          moreover have "ar_passed r \<longrightarrow> ar_message r = []"
            using e True sev \<open>?res = Inr res\<close> Inr
            by (auto simp: check_result_def split: if_splits sum.splits prod.splits)
          ultimately show ?thesis by simp
        qed
      qed
    qed
  qed
qed

lemma map_err_nth:
  "map_err f xs = Inr ys \<Longrightarrow> length ys = length xs \<and> (\<forall>i < length xs. f (xs ! i) = Inr (ys ! i))"
proof (induction xs arbitrary: ys)
  case (Cons x xs)
  then show ?case by (auto simp: nth_Cons split: sum.splits nat.splits)
qed simp


definition plain_env :: check_env where
  "plain_env = \<lparr>en_float_text = \<lambda>_. None, en_search = \<lambda>p s. Some (occurs_in p s), en_json = \<lambda>_. Inl ''no JSON'', en_type_name = \<lambda>_. ''value'',
     en_schema_error = \<lambda>_. None, en_schema_errors = \<lambda>_ _. [], en_object_text = \<lambda>_. [], en_attr = \<lambda>_ _. PNone, en_registered = \<lambda>_. None\<rparr>"

definition demo_checks :: "Assertion list" where
  "demo_checks =
     [\<lparr>as_uses = ''validate/assert/equals'', as_name = None, as_with = Some [(''input'', PStr ''status_code''), (''value'', PStr ''200'')], as_cac = None\<rparr>,
      \<lparr>as_uses = ''validate/assert'', as_name = None, as_with = Some [(''input'', PStr ''items''), (''severity'', PStr ''mild'')], as_cac = None\<rparr>]"


section \<open>Operators\<close>

definition NEGATIONS :: "(string \<times> string) list" where
  "NEGATIONS = [(''is_null'', ''not_null''), (''equals'', ''not_equals''), (''contains'', ''not_contains''), (''one_of'', ''none_of''), (''has_key'', ''not_has_key'')]"

lemma operator_named_simps:
  "operator_named ''is_null'' = Some (TABLE ! Suc 0)" "operator_named ''not_null'' = Some (TABLE ! 0)"
  "operator_named ''equals'' = Some (TABLE ! 3)" "operator_named ''not_equals'' = Some (TABLE ! 4)"
  "operator_named ''contains'' = Some (TABLE ! 5)" "operator_named ''not_contains'' = Some (TABLE ! 6)"
  "operator_named ''one_of'' = Some (TABLE ! 9)" "operator_named ''none_of'' = Some (TABLE ! 10)"
  "operator_named ''has_key'' = Some (TABLE ! 11)" "operator_named ''not_has_key'' = Some (TABLE ! 12)"
  "operator_named ''gt'' = Some (TABLE ! 13)" "operator_named ''gte'' = Some (TABLE ! 14)"
  "operator_named ''lt'' = Some (TABLE ! 15)" "operator_named ''lte'' = Some (TABLE ! 16)"
  by (simp_all add: operator_named_def TABLE_def operator_def)

lemma table_checks:
  "op_check (TABLE ! 0) = (\<lambda>env a e. Inr (a \<noteq> PNone))" "op_check (TABLE ! Suc 0) = (\<lambda>env a e. Inr (a = PNone))"
  "op_check (TABLE ! 3) = (\<lambda>env a e. Inr (same a e))" "op_check (TABLE ! 4) = (\<lambda>env a e. Inr (\<not> same a e))"
  "op_check (TABLE ! 5) = (\<lambda>env a e. Inr (contained a e))" "op_check (TABLE ! 6) = (\<lambda>env a e. Inr (\<not> contained a e))"
  "op_check (TABLE ! 9) = (\<lambda>env a e. Inr (is_member a e))" "op_check (TABLE ! 10) = (\<lambda>env a e. Inr (\<not> is_member a e))"
  "op_check (TABLE ! 11) = (\<lambda>env. has_key)" "op_check (TABLE ! 12) = (\<lambda>env a e. negated (has_key a e))"
  "op_check (TABLE ! 13) = (\<lambda>env. numeric env (\<lambda>l r. float_less r l))" "op_check (TABLE ! 14) = (\<lambda>env. numeric env (\<lambda>l r. float_le r l))"
  "op_check (TABLE ! 15) = (\<lambda>env. numeric env float_less)" "op_check (TABLE ! 16) = (\<lambda>env. numeric env float_le)"
  by (simp_all add: TABLE_def operator_def)

lemma negation_check:
  assumes "(pos, neg) \<in> set NEGATIONS"
  shows "\<exists>p n. operator_named pos = Some p \<and> operator_named neg = Some n
     \<and> op_check n env a e = negated (op_check p env a e)"
  using assms
  by (auto simp: NEGATIONS_def operator_named_simps table_checks negated_def)

text \<open>An operator and its negation never both hold and, unless the operands cannot be compared at all, never
  both fail: for each of the five pairs, on every pair of values, either exactly one of the two checks passes, or
  both report the same unusable operands.\<close>

theorem negations_are_exact:
  assumes "(pos, neg) \<in> set NEGATIONS"
  shows "(\<exists>held m n. apply_operator env pos a e = Inr (held, m) \<and> apply_operator env neg a e = Inr (\<not> held, n))
     \<or> (\<exists>m. apply_operator env pos a e = Inr (False, m) \<and> apply_operator env neg a e = Inr (False, m))
     \<or> (\<exists>x. apply_operator env pos a e = Inl x \<and> apply_operator env neg a e = Inl x)"
proof -
  obtain p n where pn: "operator_named pos = Some p" "operator_named neg = Some n" "op_check n env a e = negated (op_check p env a e)"
    using negation_check [OF assms] by blast
  show ?thesis
    by (cases "op_check p env a e") (auto simp: apply_operator_def pn negated_def split: operand_failure.splits)
qed

theorem negations_are_exact_witness:
  "apply_operator plain_env ''has_key'' (PDict []) (PList []) = apply_operator plain_env ''not_has_key'' (PDict []) (PList [])
   \<and> (\<exists>m. apply_operator plain_env ''not_has_key'' (PDict []) (PList []) = Inr (False, m))"
proof -
  have "apply_operator plain_env ''has_key'' (PDict []) (PList []) = Inr (False, ''[] cannot be used as a key'')"
    "apply_operator plain_env ''not_has_key'' (PDict []) (PList []) = Inr (False, ''[] cannot be used as a key'')" by code_simp+
  then show ?thesis
    using negations_are_exact [of "''has_key''" "''not_has_key''" plain_env "PDict []" "PList []"]
    by (auto simp: NEGATIONS_def)
qed

lemma bits_bound: "n < 2 ^ k \<Longrightarrow> bits n \<le> k"
proof (induction n arbitrary: k rule: bits.induct)
  case (1 n)
  show ?case
  proof (cases "n = 0")
    case False
    then obtain j where k: "k = Suc j" using 1(2) by (cases k) auto
    then have "n div 2 < 2 ^ j" using 1(2) by simp
    then have "bits (n div 2) \<le> j" using 1(1) False by blast
    then show ?thesis using False k by (simp add: bits.simps [of n])
  qed (simp add: bits.simps)
qed

lemma float_of_small_nat: "n < 2 ^ 53 \<Longrightarrow> float_of_nat n = Some n"
proof -
  assume n: "n < 2 ^ 53"
  then have b: "bits n - 53 = 0" using bits_bound [of n 53] by simp
  have "(2 :: nat) ^ 53 \<le> 2 ^ 1024" by (rule power_increasing) simp_all
  then have "n < 2 ^ 1024" using n by (rule less_le_trans [rotated])
  then show "float_of_nat n = Some n" unfolding float_of_nat_def Let_def b by (simp add: round_half_even_def)
qed

lemma float_of_small_int: "\<bar>n\<bar> < 2 ^ 53 \<Longrightarrow> py_float env (PInt n) = Inr (Finite (of_int n))"
proof -
  assume "\<bar>n\<bar> < 2 ^ 53"
  then have "nat \<bar>n\<bar> < 2 ^ 53" by (simp add: nat_less_iff)
  from float_of_small_nat [OF this] show ?thesis by (auto simp: py_float_def float_of_int_def)
qed

text \<open>C30. Integers of less than 53 bits are compared exactly: on them the four ordering checks decide what they
  say, although every comparison goes through floating point.\<close>

theorem integer_comparisons_exact:
  assumes "\<bar>m\<bar> < 2 ^ 53" and "\<bar>n\<bar> < 2 ^ 53"
  shows "map_ok fst (apply_operator env ''gt'' (PInt m) (PInt n)) = Inr (m > n)
     \<and> map_ok fst (apply_operator env ''gte'' (PInt m) (PInt n)) = Inr (m \<ge> n)
     \<and> map_ok fst (apply_operator env ''lt'' (PInt m) (PInt n)) = Inr (m < n)
     \<and> map_ok fst (apply_operator env ''lte'' (PInt m) (PInt n)) = Inr (m \<le> n)"
proof -
  note f = float_of_small_int [OF assms(1), of env] float_of_small_int [OF assms(2), of env]
  show ?thesis
    by (simp add: apply_operator_def operator_named_simps table_checks numeric_def operand_case_def f float_less_def float_le_def) auto
qed

theorem integer_comparisons_exact_witness:
  "map_ok fst (apply_operator plain_env ''gt'' (PInt 200) (PInt (- 3))) = Inr True"
  using integer_comparisons_exact [of 200 "- 3" plain_env] by simp

text \<open>Beyond them two different integers can be the same number.\<close>

lemma large_integers_collapse:
  "map_ok fst (apply_operator env ''gt'' (PInt 9007199254740993) (PInt 9007199254740992)) = Inr False"
proof -
  have "float_of_nat 9007199254740993 = Some 9007199254740992" "float_of_nat 9007199254740992 = Some 9007199254740992"
    by (simp_all add: float_of_nat_def round_half_even_def bits.simps)
  then show ?thesis
    by (simp add: apply_operator_def operator_named_simps table_checks numeric_def operand_case_def py_float_def float_of_int_def float_less_def)
qed

end
