(* ===== verification/Conditions.thy ===== *)
theory Conditions
  imports Resolver
begin

text \<open>
  The \<open>if:\<close> of a step: its grammar and evaluation (\<^verbatim>\<open>steps/_condition_parsing.py\<close>, \<^verbatim>\<open>steps/conditions.py\<close>) and the name
  the phase runner gives a result, from which a condition reads the step's id (\<^verbatim>\<open>_phase_step.format_step_name\<close>).

  The regular expressions are matched by hand. The expression is stripped before it is matched, so \<open>$\<close> is
  its end, and each repetition is followed by a character it cannot take, so none of them backtracks.
\<close>

section \<open>The grammar\<close>

datatype condition_kind = Status | Outcome | Compare | Truthy

record Condition =
  cd_kind :: condition_kind
  cd_name :: string
  cd_operator :: string
  cd_expected :: string
  cd_legacy :: bool

definition match_literal :: "string \<Rightarrow> string \<Rightarrow> string option" where
  "match_literal p s = (if starts_with s p then Some (drop (length p) s) else None)"

text \<open>The longest non-empty run of characters that satisfy \<open>ok\<close>.\<close>

definition match_run :: "(char \<Rightarrow> bool) \<Rightarrow> string \<Rightarrow> (string \<times> string) option" where
  "match_run ok s = (let w = takeWhile ok s in if w = [] then None else Some (w, dropWhile ok s))"

definition match_operator :: "string \<Rightarrow> (string \<times> string) option" where
  "match_operator s =
     (let r = lstrip s in if starts_with r ''=='' then Some (''=='', lstrip (drop 2 r))
      else if starts_with r ''!='' then Some (''!='', lstrip (drop 2 r)) else None)"

definition match_quoted :: "string \<Rightarrow> string option" where
  "match_quoted s =
     (case s of
        c # t \<Rightarrow> if c = CHR 0x27 \<and> dropWhile (\<lambda>d. d \<noteq> CHR 0x27) t = [CHR 0x27] then Some (takeWhile (\<lambda>d. d \<noteq> CHR 0x27) t) else None
      | [] \<Rightarrow> None)"

definition match_operand :: "string \<Rightarrow> string option" where
  "match_operand s =
     (case match_quoted s of
        Some q \<Rightarrow> Some q
      | None \<Rightarrow> if s \<noteq> [] \<and> list_all (\<lambda>c. \<not> is_space c) s then Some s else None)"

definition STATUS_FN_RE :: "string \<Rightarrow> string option" where
  "STATUS_FN_RE s = find (\<lambda>f. s = f @ ''()'') [''success'', ''failure'', ''always'']"

definition STEP_OUTCOME_RE :: "string \<Rightarrow> (string \<times> string \<times> string) option" where
  "STEP_OUTCOME_RE s =
     (case match_literal ''steps.'' s of
        None \<Rightarrow> None
      | Some r \<Rightarrow>
          (case match_run (\<lambda>c. \<not> is_space c \<and> c \<noteq> CHR ''.'') r of
             None \<Rightarrow> None
           | Some (name, r1) \<Rightarrow>
               (case match_literal ''.outcome'' r1 of
                  None \<Rightarrow> None
                | Some r2 \<Rightarrow>
                    (case match_operator r2 of
                       None \<Rightarrow> None
                     | Some (operator, r3) \<Rightarrow> map_option (\<lambda>v. (name, operator, v)) (match_quoted r3)))))"

text \<open>What follows the name in both comparisons.\<close>

definition comparison_of :: "(string \<times> string) option \<Rightarrow> (string \<times> string \<times> string) option" where
  "comparison_of named =
     (case named of
        None \<Rightarrow> None
      | Some (name, r) \<Rightarrow>
          (case match_operator r of
             None \<Rightarrow> None
           | Some (operator, r1) \<Rightarrow> map_option (\<lambda>v. (name, operator, v)) (match_operand r1)))"

definition VARS_COMPARISON_RE :: "string \<Rightarrow> (string \<times> string \<times> string) option" where
  "VARS_COMPARISON_RE s =
     (case match_literal ''vars.'' s of
        None \<Rightarrow> None
      | Some r \<Rightarrow> comparison_of (match_run (\<lambda>c. \<not> is_space c \<and> c \<noteq> CHR ''='' \<and> c \<noteq> CHR ''!'') r))"

definition VARS_TRUTHY_RE :: "string \<Rightarrow> string option" where
  "VARS_TRUTHY_RE s =
     (case match_literal ''vars.'' s of
        None \<Rightarrow> None
      | Some r \<Rightarrow> (case match_run (\<lambda>c. \<not> is_space c) r of Some (name, []) \<Rightarrow> Some name | _ \<Rightarrow> None))"

definition legacy_name :: "string \<Rightarrow> (string \<times> string) option" where
  "legacy_name s =
     (case match_literal ''${'' s of
        None \<Rightarrow> None
      | Some r \<Rightarrow>
          (case match_run (\<lambda>c. c \<noteq> CHR ''}'') r of
             None \<Rightarrow> None
           | Some (name, r1) \<Rightarrow> map_option (\<lambda>r2. (name, r2)) (match_literal ''}'' r1)))"

definition LEGACY_COMPARISON_RE :: "string \<Rightarrow> (string \<times> string \<times> string) option" where
  "LEGACY_COMPARISON_RE s = comparison_of (legacy_name s)"

definition LEGACY_TRUTHY_RE :: "string \<Rightarrow> string option" where
  "LEGACY_TRUTHY_RE s = (case legacy_name s of Some (name, []) \<Rightarrow> Some name | _ \<Rightarrow> None)"

definition unwrap :: "string \<Rightarrow> string" where
  "unwrap condition =
     (let expr = strip condition
      in if starts_with expr ''${{'' \<and> ends_with expr ''}}'' then strip (take (length expr - 2 - 3) (drop 3 expr)) else expr)"

definition condition :: "condition_kind \<Rightarrow> string \<Rightarrow> string \<Rightarrow> string \<Rightarrow> bool \<Rightarrow> Condition" where
  "condition kind name operator expected legacy =
     \<lparr>cd_kind = kind, cd_name = name, cd_operator = operator, cd_expected = expected, cd_legacy = legacy\<rparr>"

definition parse_condition :: "string \<Rightarrow> Condition option" where
  "parse_condition text =
     (let expr = unwrap text
      in if expr = [] then Some (condition Status ''success'' [] [] False)
         else (case STATUS_FN_RE expr of
           Some f \<Rightarrow> Some (condition Status f [] [] False)
         | None \<Rightarrow> (case STEP_OUTCOME_RE expr of
           Some (n, op, v) \<Rightarrow> Some (condition Outcome n op v False)
         | None \<Rightarrow> (case VARS_COMPARISON_RE expr of
           Some (n, op, v) \<Rightarrow> Some (condition Compare n op v False)
         | None \<Rightarrow> (case VARS_TRUTHY_RE expr of
           Some n \<Rightarrow> Some (condition Truthy n [] [] False)
         | None \<Rightarrow> (case LEGACY_COMPARISON_RE expr of
           Some (n, op, v) \<Rightarrow> Some (condition Compare n op v True)
         | None \<Rightarrow> map_option (\<lambda>n. condition Truthy n [] [] True) (LEGACY_TRUTHY_RE expr)))))))"

section \<open>Names of results\<close>

definition format_step_name :: "string \<Rightarrow> nat \<Rightarrow> string \<Rightarrow> string \<Rightarrow> string option \<Rightarrow> string" where
  "format_step_name test_name idx step_type phase_label step_id =
     (let step_ref = (if nonempty_text step_id then the step_id else nat_text idx)
      in if phase_label = ''execution'' then test_name @ ''['' @ step_ref @ '']:'' @ step_type
         else test_name @ ''['' @ phase_label @ '':'' @ step_ref @ '']:'' @ step_type)"

text \<open>
  \<open>_STEP_ID_IN_NAME_RE\<close>: an opening bracket, an optional phase in lower case letters with its colon, an id without
  brackets and colons, \<open>]:\<close>, and no bracket after it. It is searched from the left; as neither the id nor what
  follows may hold a bracket, it can only start at the last opening bracket.
\<close>

definition bracket :: "char \<Rightarrow> bool" where
  "bracket c = (c = CHR ''['' \<or> c = CHR '']'')"

definition lower_letter :: "char \<Rightarrow> bool" where
  "lower_letter c = (let n = of_char c :: nat in 97 \<le> n \<and> n \<le> 122)"

definition id_in_brackets :: "string \<Rightarrow> string option" where
  "id_in_brackets inner =
     (case split_on (CHR '':'') inner of
        [i] \<Rightarrow> if i = [] then None else Some i
      | [p, i] \<Rightarrow> if i = [] \<or> p = [] \<or> \<not> list_all lower_letter p then None else Some i
      | _ \<Rightarrow> None)"

definition step_id_in_name :: "string \<Rightarrow> string option" where
  "step_id_in_name s =
     (let back = rev s; after = takeWhile (\<lambda>c. \<not> bracket c) back; rest = dropWhile (\<lambda>c. \<not> bracket c) back
      in case rest of
           c # inside \<Rightarrow>
             if c = CHR '']'' \<and> after \<noteq> [] \<and> last after = CHR '':''
             then (case dropWhile (\<lambda>c. \<not> bracket c) inside of
                     d # _ \<Rightarrow> if d = CHR ''['' then id_in_brackets (rev (takeWhile (\<lambda>c. \<not> bracket c) inside)) else None
                   | [] \<Rightarrow> None)
             else None
         | [] \<Rightarrow> None)"

definition find_step_result :: "string \<Rightarrow> StepResult list \<Rightarrow> StepResult option" where
  "find_step_result step_id results = find (\<lambda>r. step_id_in_name (sr_step_name r) = Some step_id) (rev results)"

section \<open>Evaluation\<close>

definition evaluate_status_fn :: "string \<Rightarrow> StepResult list \<Rightarrow> bool" where
  "evaluate_status_fn fn_name previous =
     (if fn_name = ''always'' then True
      else let has_failure = list_ex (\<lambda>r. sr_status r = Step_FAILED) previous
           in if fn_name = ''failure'' then has_failure else \<not> has_failure)"

definition OUTCOME_MAP :: "(StepStatus \<times> string) list" where
  "OUTCOME_MAP = [(Step_PASSED, ''success''), (Step_FAILED, ''failure''), (Step_SKIPPED, ''skipped'')]"

definition OUTCOMES :: "string list" where
  "OUTCOMES = dict_values OUTCOME_MAP"

definition status_word :: "StepStatus \<Rightarrow> string" where
  "status_word s = (case s of Step_PENDING \<Rightarrow> ''pending'' | Step_RUNNING \<Rightarrow> ''running'' | Step_WAITING \<Rightarrow> ''waiting'' | Step_PASSED \<Rightarrow> ''passed''
     | Step_FAILED \<Rightarrow> ''failed'' | Step_SKIPPED \<Rightarrow> ''skipped'')"

definition evaluate_step_outcome :: "string \<Rightarrow> string \<Rightarrow> string \<Rightarrow> StepResult list \<Rightarrow> bool" where
  "evaluate_step_outcome step_name operator expected previous =
     (let actual = (case find_step_result step_name previous of
                      None \<Rightarrow> ''skipped''
                    | Some r \<Rightarrow> (case dict_get OUTCOME_MAP (sr_status r) of Some w \<Rightarrow> w | None \<Rightarrow> status_word (sr_status r)))
      in if operator = ''=='' then actual = expected else actual \<noteq> expected)"

definition to_comparable :: "pyval \<Rightarrow> string" where
  "to_comparable v = (case v of PNone \<Rightarrow> [] | PBool b \<Rightarrow> lower (py_str v) | _ \<Rightarrow> py_str v)"

definition evaluate_comparison :: "string \<Rightarrow> string \<Rightarrow> string \<Rightarrow> StepContext \<Rightarrow> bool" where
  "evaluate_comparison var_name operator expected x =
     (let actual = to_comparable (get_variable x var_name) in if operator = ''=='' then actual = expected else actual \<noteq> expected)"

definition evaluate_truthy :: "string \<Rightarrow> StepContext \<Rightarrow> bool" where
  "evaluate_truthy var_name x = truthy (get_variable x var_name)"

definition should_run :: "string option \<Rightarrow> StepResult list \<Rightarrow> StepContext \<Rightarrow> bool" where
  "should_run condition_text previous x =
     (case condition_text of
        None \<Rightarrow> True
      | Some text \<Rightarrow>
          (case parse_condition text of
             None \<Rightarrow> True
           | Some p \<Rightarrow>
               (case cd_kind p of
                  Status \<Rightarrow> evaluate_status_fn (cd_name p) previous
                | Outcome \<Rightarrow> evaluate_step_outcome (cd_name p) (cd_operator p) (cd_expected p) previous
                | Compare \<Rightarrow> evaluate_comparison (cd_name p) (cd_operator p) (cd_expected p) x
                | Truthy \<Rightarrow> evaluate_truthy (cd_name p) x)))"

section \<open>Reading back what was written\<close>

definition write_condition :: "Condition \<Rightarrow> string" where
  "write_condition c =
     (let q = [CHR 0x27] @ cd_expected c @ [CHR 0x27]
      in case cd_kind c of
           Status \<Rightarrow> cd_name c @ ''()''
         | Outcome \<Rightarrow> ''steps.'' @ cd_name c @ ''.outcome '' @ cd_operator c @ '' '' @ q
         | Compare \<Rightarrow> ''vars.'' @ cd_name c @ '' '' @ cd_operator c @ '' '' @ q
         | Truthy \<Rightarrow> ''vars.'' @ cd_name c)"

definition name_char :: "condition_kind \<Rightarrow> char \<Rightarrow> bool" where
  "name_char kind c = (\<not> is_space c \<and> (if kind = Outcome then c \<noteq> CHR ''.'' else c \<noteq> CHR ''='' \<and> c \<noteq> CHR ''!''))"

definition writable_condition :: "Condition \<Rightarrow> bool" where
  "writable_condition c =
     (\<not> cd_legacy c
      \<and> (if cd_kind c = Status then cd_name c \<in> set [''success'', ''failure'', ''always''] else cd_name c \<noteq> [] \<and> list_all (name_char (cd_kind c)) (cd_name c))
      \<and> (if cd_kind c \<in> {Outcome, Compare} then cd_operator c \<in> {''=='', ''!=''} \<and> CHR 0x27 \<notin> set (cd_expected c)
         else cd_operator c = [] \<and> cd_expected c = []))"

lemma match_literal_append [simp]: "match_literal p (p @ s) = Some s"
  by (simp add: match_literal_def)

lemma match_run_append:
  assumes "w \<noteq> []" and "list_all ok w" and "s = [] \<or> \<not> ok (hd s)"
  shows "match_run ok (w @ s) = Some (w, s)"
proof -
  have "takeWhile ok (w @ s) = w" and "dropWhile ok (w @ s) = s"
    using assms(2,3) by (auto simp: list_all_iff takeWhile_append dropWhile_append takeWhile_eq_all_conv
        intro: neq_Nil_conv split: list.splits) (cases s; simp)+
  then show ?thesis using assms(1) by (simp add: match_run_def Let_def)
qed

lemma spaces [simp]: "is_space (CHR '' '')" "\<not> is_space (CHR ''='')" "\<not> is_space (CHR ''!'')" "\<not> is_space (CHR 0x27)"
  "\<not> is_space (CHR ''$'')" "\<not> is_space (CHR ''}'')" "\<not> is_space (CHR '')'')" "\<not> is_space (CHR ''v'')" "\<not> is_space (CHR ''s'')"
  "\<not> is_space (CHR ''f'')" "\<not> is_space (CHR ''a'')"
  by code_simp+

lemma lstrip_simps [simp]: "lstrip (CHR '' '' # s) = lstrip s" "\<not> is_space c \<Longrightarrow> lstrip (c # s) = c # s"
  by (simp_all add: lstrip_def)

lemma match_operator_written:
  "op \<in> {''=='', ''!=''} \<Longrightarrow> match_operator ('' '' @ op @ '' '' @ [CHR 0x27] @ v @ [CHR 0x27]) = Some (op, [CHR 0x27] @ v @ [CHR 0x27])"
  by (auto simp: match_operator_def Let_def)

lemma match_quoted_written: "CHR 0x27 \<notin> set v \<Longrightarrow> match_quoted ([CHR 0x27] @ v @ [CHR 0x27]) = Some v"
  by (simp add: match_quoted_def dropWhile_append takeWhile_append)

lemma unwrap_bare:
  assumes "s \<noteq> []" and "\<not> is_space (hd s)" and "\<not> is_space (last s)" and "\<not> starts_with s ''${{''"
  shows "unwrap s = s" and "unwrap (''${{ '' @ s @ '' }}'') = s"
proof -
  have st: "strip s = s" using assms by (intro strip_id) auto
  then show "unwrap s = s" using assms(4) by (simp add: unwrap_def)
  have w: "strip (''${{ '' @ s @ '' }}'') = ''${{ '' @ s @ '' }}''" by (intro strip_id) auto
  have l: "lstrip s = s" using assms by (cases s) auto
  have pad: "strip ('' '' @ s @ '' '') = s"
  proof -
    have "lstrip ('' '' @ s @ '' '') = s @ '' ''" using assms by (cases s) auto
    moreover have "dropWhile is_space (rev s) = rev s" using assms by (simp add: dropWhile_eq_self_iff hd_rev)
    then have "rstrip (s @ '' '') = s" by (simp add: rstrip_def)
    ultimately show ?thesis by (simp add: strip_def)
  qed
  have "ends_with (''${{ '' @ s @ '' }}'') ''}}''" unfolding ends_with_iff by (rule exI [of _ "''${{ '' @ s @ '' ''"]) simp
  moreover have "take (length (''${{ '' @ s @ '' }}'') - 2 - 3) (drop 3 (''${{ '' @ s @ '' }}'')) = '' '' @ s @ '' ''"
    by simp
  ultimately show "unwrap (''${{ '' @ s @ '' }}'') = s"
    unfolding unwrap_def Let_def w using pad by simp
qed

lemma match_literal_other: "p \<noteq> [] \<Longrightarrow> s \<noteq> [] \<Longrightarrow> hd s \<noteq> hd p \<Longrightarrow> match_literal p s = None"
  by (cases p; cases s) (simp_all add: match_literal_def)

lemma parse_written:
  assumes "writable_condition c"
  shows "unwrap t = write_condition c \<Longrightarrow> parse_condition t = Some c"
proof -
  assume u: "unwrap t = write_condition c"
  have nolegacy: "\<not> cd_legacy c" using assms by (simp add: writable_condition_def)
  have eq: "c = condition (cd_kind c) (cd_name c) (cd_operator c) (cd_expected c) False"
    using nolegacy by (simp add: condition_def)
  show ?thesis
  proof (cases "cd_kind c")
    case Status
    then show ?thesis using assms u eq
      by (auto simp: parse_condition_def Let_def write_condition_def writable_condition_def STATUS_FN_RE_def)
  next
    case Outcome
    then have n: "cd_name c \<noteq> []" "list_all (\<lambda>c. \<not> is_space c \<and> c \<noteq> CHR ''.'') (cd_name c)"
      and o: "cd_operator c \<in> {''=='', ''!=''}" "CHR 0x27 \<notin> set (cd_expected c)"
      using assms by (auto simp: writable_condition_def name_char_def list_all_iff)
    have w: "write_condition c = ''steps.'' @ cd_name c @ ''.outcome'' @ '' '' @ cd_operator c @ '' '' @ [CHR 0x27] @ cd_expected c @ [CHR 0x27]"
      using Outcome by (simp add: write_condition_def)
    have "STEP_OUTCOME_RE (write_condition c) = Some (cd_name c, cd_operator c, cd_expected c)"
      unfolding w STEP_OUTCOME_RE_def match_literal_append
      by (simp add: match_run_append n o match_operator_written [OF o(1), simplified] match_quoted_written [OF o(2), simplified]
          match_literal_append [of "''.outcome''", simplified] del: match_literal_append)
    moreover have "STATUS_FN_RE (write_condition c) = None"
      unfolding w by (simp add: STATUS_FN_RE_def)
    ultimately show ?thesis using u eq Outcome w by (simp add: parse_condition_def Let_def)
  next
    case Compare
    then have n: "cd_name c \<noteq> []" "list_all (\<lambda>c. \<not> is_space c \<and> c \<noteq> CHR ''='' \<and> c \<noteq> CHR ''!'') (cd_name c)"
      and o: "cd_operator c \<in> {''=='', ''!=''}" "CHR 0x27 \<notin> set (cd_expected c)"
      using assms by (auto simp: writable_condition_def name_char_def list_all_iff)
    have w: "write_condition c = ''vars.'' @ cd_name c @ '' '' @ cd_operator c @ '' '' @ [CHR 0x27] @ cd_expected c @ [CHR 0x27]"
      using Compare by (simp add: write_condition_def)
    have "VARS_COMPARISON_RE (write_condition c) = Some (cd_name c, cd_operator c, cd_expected c)"
      unfolding w VARS_COMPARISON_RE_def match_literal_append comparison_of_def match_operand_def
      by (simp add: match_run_append n o match_operator_written [OF o(1), simplified] match_quoted_written [OF o(2), simplified])
    moreover have "STATUS_FN_RE (write_condition c) = None" "STEP_OUTCOME_RE (write_condition c) = None"
      unfolding w by (simp_all add: STATUS_FN_RE_def STEP_OUTCOME_RE_def match_literal_other)
    ultimately show ?thesis using u eq Compare w by (simp add: parse_condition_def Let_def)
  next
    case Truthy
    then have n: "cd_name c \<noteq> []" "list_all (\<lambda>c. \<not> is_space c \<and> c \<noteq> CHR ''='' \<and> c \<noteq> CHR ''!'') (cd_name c)"
      "list_all (\<lambda>c. \<not> is_space c) (cd_name c)"
      and o: "cd_operator c = []" "cd_expected c = []"
      using assms by (auto simp: writable_condition_def name_char_def list_all_iff)
    have w: "write_condition c = ''vars.'' @ cd_name c @ []" using Truthy by (simp add: write_condition_def)
    have "VARS_COMPARISON_RE (write_condition c) = None" "VARS_TRUTHY_RE (write_condition c) = Some (cd_name c)"
      unfolding w VARS_COMPARISON_RE_def VARS_TRUTHY_RE_def match_literal_append comparison_of_def
      by (simp_all add: match_run_append [OF n(1,2), of "[]", simplified] match_run_append [OF n(1,3), of "[]", simplified]
          match_operator_def lstrip_def)
    moreover have "STATUS_FN_RE (write_condition c) = None" "STEP_OUTCOME_RE (write_condition c) = None"
      unfolding w by (simp_all add: STATUS_FN_RE_def STEP_OUTCOME_RE_def match_literal_other)
    ultimately show ?thesis using u eq Truthy w o by (simp add: parse_condition_def Let_def)
  qed
qed

text \<open>C29. Every condition the grammar describes is read back as it was written, with and without its wrapper: the
  three status functions, a step's outcome and a variable compared with a text, and a variable on its own.\<close>

theorem conditions_read_back:
  assumes "writable_condition c"
  shows "parse_condition (write_condition c) = Some c \<and> parse_condition (''${{ '' @ write_condition c @ '' }}'') = Some c"
proof -
  let ?w = "write_condition c"
  have h: "?w \<noteq> []" "\<not> is_space (hd ?w)" "\<not> is_space (last ?w)" "\<not> starts_with ?w ''${{''"
    using assms by (cases "cd_kind c"; auto simp: write_condition_def writable_condition_def Let_def name_char_def list_all_iff)+
  show ?thesis using parse_written [OF assms] unwrap_bare [OF h] by simp
qed

theorem conditions_read_back_witness:
  "parse_condition ''${{ vars.mode == 'full' }}'' = Some (condition Compare ''mode'' ''=='' ''full'' False)"
  using conditions_read_back [of "condition Compare ''mode'' ''=='' ''full'' False"]
  by (simp add: writable_condition_def condition_def name_char_def write_condition_def is_space_def)

section \<open>Results by step id\<close>

definition plain_id :: "string \<Rightarrow> bool" where
  "plain_id s = (s \<noteq> [] \<and> list_all (\<lambda>c. \<not> bracket c \<and> c \<noteq> CHR '':'') s)"

lemma takeWhile_stop: "list_all P xs \<Longrightarrow> \<not> P y \<Longrightarrow> takeWhile P (xs @ y # ys) = xs \<and> dropWhile P (xs @ y # ys) = y # ys"
  by (induction xs) auto

lemma step_id_in_named:
  assumes "list_all (\<lambda>c. \<not> bracket c) inner" and "list_all (\<lambda>c. \<not> bracket c) step_type"
  shows "step_id_in_name (t @ ''['' @ inner @ '']:'' @ step_type) = id_in_brackets inner"
proof -
  let ?P = "\<lambda>c. \<not> bracket c"
  have r: "rev (t @ ''['' @ inner @ '']:'' @ step_type) = (rev step_type @ '':'') @ CHR '']'' # rev inner @ CHR ''['' # rev t"
    by simp
  have a: "list_all ?P (rev step_type @ '':'')" using assms(2) by (simp add: list_all_iff bracket_def)
  have b: "list_all ?P (rev inner)" using assms(1) by (simp add: list_all_iff)
  have br: "\<not> ?P (CHR '']'')" "\<not> ?P (CHR ''['')" by (simp_all add: bracket_def)
  show ?thesis
    unfolding step_id_in_name_def Let_def r
    using takeWhile_stop [OF a br(1)] takeWhile_stop [OF b br(2)] by simp
qed

lemma formatted_id:
  assumes "phase \<in> {''setup'', ''execution'', ''teardown''}" and "plain_id i" and "list_all (\<lambda>c. \<not> bracket c) step_type"
  shows "step_id_in_name (format_step_name test idx step_type phase (Some i)) = Some i"
proof -
  have i: "CHR '':'' \<notin> set i" "i \<noteq> []" "list_all (\<lambda>c. \<not> bracket c) i" using assms(2) by (auto simp: plain_id_def list_all_iff)
  have bare: "id_in_brackets i = Some i" using i by (simp add: id_in_brackets_def split_no_sep)
  have phased: "id_in_brackets (p @ '':'' @ i) = Some i" if "p \<noteq> []" "list_all lower_letter p" for p
  proof -
    have "CHR '':'' \<notin> set p" using that(2) by (auto simp: list_all_iff lower_letter_def Let_def)
    then have "split_on (CHR '':'') (p @ CHR '':'' # i) = [p, i]" using i by (simp add: split_append_sep split_no_sep)
    then show ?thesis using that i by (simp add: id_in_brackets_def)
  qed
  have n: "nonempty_text (Some i)" using i by (simp add: nonempty_text_def)
  show ?thesis
  proof (cases "phase = ''execution''")
    case True
    then show ?thesis using step_id_in_named [OF i(3) assms(3), of test] bare n by (simp add: format_step_name_def)
  next
    case False
    then have p: "phase \<noteq> []" "list_all lower_letter phase" "list_all (\<lambda>c. \<not> bracket c) phase"
      using assms(1) by (auto simp: lower_letter_def bracket_def)
    have "list_all (\<lambda>c. \<not> bracket c) (phase @ '':'' @ i)" using p(3) i(3) by (simp add: bracket_def)
    from step_id_in_named [OF this assms(3), of test] show ?thesis
      using phased [OF p(1,2)] n False by (simp add: format_step_name_def)
  qed
qed

text \<open>The results a phase has so far, each with the id of its step.\<close>

definition named_result :: "string \<Rightarrow> string \<Rightarrow> string \<Rightarrow> StepResult \<Rightarrow> bool" where
  "named_result test phase i r = (plain_id i \<and> (\<exists>idx step_type. list_all (\<lambda>c. \<not> bracket c) step_type
     \<and> sr_step_name r = format_step_name test idx step_type phase (Some i)))"

definition named_by :: "string \<Rightarrow> string \<Rightarrow> (string \<times> StepResult) list \<Rightarrow> bool" where
  "named_by test phase rs = list_all (\<lambda>p. named_result test phase (fst p) (snd p)) rs"

lemma find_map_snd: "(\<And>p. p \<in> set ps \<Longrightarrow> P (snd p) = Q p) \<Longrightarrow> find P (map snd ps) = map_option snd (find Q ps)"
  by (induction ps) auto

text \<open>A condition on a step's outcome reads that step and no other: among the results of a phase, whatever the
  test is called and however the ids resemble each other, \<open>steps.<id>\<close> finds the latest result of the step with
  exactly that id, and none when the step has not run.\<close>

theorem outcome_reads_own_step:
  assumes "phase \<in> {''setup'', ''execution'', ''teardown''}" and "named_by test phase rs"
  shows "find_step_result i (map snd rs) = map_option snd (find (\<lambda>p. fst p = i) (rev rs))"
proof -
  have "(step_id_in_name (sr_step_name (snd p)) = Some i) = (fst p = i)" if "p \<in> set (rev rs)" for p
  proof -
    from that assms(2) have "named_result test phase (fst p) (snd p)" by (simp add: named_by_def list_all_iff)
    then show ?thesis using formatted_id [OF assms(1)] by (auto simp: named_result_def)
  qed
  then show ?thesis
    unfolding find_step_result_def rev_map by (intro find_map_snd)
qed

definition demo_outcome :: "nat \<Rightarrow> string \<Rightarrow> StepStatus \<Rightarrow> StepResult" where
  "demo_outcome idx i s =
     step_result0 (format_step_name ''t'' idx ''http/get'' ''setup'' (Some i)) ''http/get'' Phase_SETUP s"

theorem outcome_reads_own_step_witness:
  "find_step_result ''fetch'' [demo_outcome 0 ''fetch'' Step_PASSED, demo_outcome 1 ''fetch_again'' Step_FAILED]
   = Some (demo_outcome 0 ''fetch'' Step_PASSED)"
proof -
  have n: "plain_id i \<Longrightarrow> named_result ''t'' ''setup'' i (demo_outcome idx i s)" for idx i s
    unfolding named_result_def
    by (intro conjI exI [of _ idx] exI [of _ "''http/get''"]) (simp_all add: demo_outcome_def step_result0_def bracket_def)
  have "named_by ''t'' ''setup'' [(''fetch'', demo_outcome 0 ''fetch'' Step_PASSED), (''fetch_again'', demo_outcome 1 ''fetch_again'' Step_FAILED)]"
    by (simp add: named_by_def n plain_id_def bracket_def)
  from outcome_reads_own_step [OF _ this, of "''fetch''"] show ?thesis by simp
qed

end
