(* ===== verification/Runner.thy ===== *)
theory Runner
  imports Checks Conditions Hold
begin

text \<open>
  Running a test: one step (\<^verbatim>\<open>player/execution/step_runner.py\<close>), what it publishes and hides
  (\<^verbatim>\<open>_step_outputs.py\<close>), the steps of a phase (\<^verbatim>\<open>phase.py\<close>, \<^verbatim>\<open>_phase_step.py\<close>) and the three phases of a test.

  A run acts on a \<open>World\<close>: its jobs, connector and monitor (\<open>Held\<close>), its hold, its context, the masking registry
  and the clock. A step class is what the runner reads off it and its \<open>invoke\<close>, which may change the world in any
  way and answers the calls it made with an output or an exception. An exception that escapes is \<open>Inl\<close>. What the
  host does while the run waits at its pause gate is the argument \<open>re_gate\<close> of the run.
\<close>

section \<open>The world of a run\<close>

record ('r, 'w) World =
  wd_held :: "('r, 'w) Held"
  wd_hold :: "'w RunHold"
  wd_context :: StepContext
  wd_registry :: Registry
  wd_now :: int

record ('r, 'w) step_class =
  sc_deferred :: "string list"
  sc_carriers :: "string list"
  sc_fields :: "(string \<times> string option) list"
  sc_publishes :: "string set option"
  sc_secret_inputs :: "string list"
  sc_secret_outputs :: "(string \<times> bool) list"
  sc_invoke :: "(string, pyval) pydict \<Rightarrow> StepDefinition \<Rightarrow> ('r, 'w) World
     \<Rightarrow> ('r, 'w) World \<times> HttpExchange list \<times> (exc + StepOutput)"

record ('r, 'w) run_env =
  re_get :: "string \<Rightarrow> string \<Rightarrow> ('r, 'w) step_class option"
  re_get_any :: "string \<Rightarrow> ('r, 'w) step_class option"
  re_checks :: check_env
  re_wire :: wire_env
  re_secret_key :: "string \<Rightarrow> bool"
  re_gate :: "('r, 'w) World \<Rightarrow> ('r, 'w) World"
  re_job :: string

definition monitor_of :: "('r, 'w) World \<Rightarrow> Monitor" where
  "monitor_of w = hd_monitor (wd_held w)"

definition on_monitor :: "(Monitor \<Rightarrow> Monitor) \<Rightarrow> ('r, 'w) World \<Rightarrow> ('r, 'w) World" where
  "on_monitor f w = w\<lparr>wd_held := (wd_held w)\<lparr>hd_monitor := f (hd_monitor (wd_held w))\<rparr>\<rparr>"

definition on_context :: "(StepContext \<Rightarrow> StepContext) \<Rightarrow> ('r, 'w) World \<Rightarrow> ('r, 'w) World" where
  "on_context f w = w\<lparr>wd_context := f (wd_context w)\<rparr>"

definition on_steps :: "(StepOutcomes \<Rightarrow> StepOutcomes) \<Rightarrow> ('r, 'w) World \<Rightarrow> ('r, 'w) World" where
  "on_steps f = on_context (\<lambda>x. x\<lparr>cx_steps := f (cx_steps x)\<rparr>)"

definition run_cancelled :: "('r, 'w) run_env \<Rightarrow> ('r, 'w) World \<Rightarrow> bool" where
  "run_cancelled env w = is_cancelled (re_job env) (hd_jobs (wd_held w))"

text \<open>A hook of the checkpoint tracker, which publishes through the monitor.\<close>

definition on_tracker :: "('r, 'w) run_env \<Rightarrow> (Tracker \<Rightarrow> Tracker) \<Rightarrow> ('r, 'w) World \<Rightarrow> ('r, 'w) World" where
  "on_tracker env hook = on_monitor (follow (re_wire env) (re_job env) hook)"

section \<open>What a step is given and gives away\<close>

definition or_empty :: "'a list option \<Rightarrow> 'a list" where
  "or_empty xs = (case xs of None \<Rightarrow> [] | Some ys \<Rightarrow> ys)"

definition mask_secret_inputs ::
  "('r, 'w) run_env \<Rightarrow> ('r, 'w) step_class option \<Rightarrow> (string, pyval) pydict option \<Rightarrow> ('r, 'w) World \<Rightarrow> ('r, 'w) World" where
  "mask_secret_inputs env cls params w =
     (case (cls, params) of
        (Some c, Some p) \<Rightarrow>
          w\<lparr>wd_registry := fold (\<lambda>key g. case dict_get p key of None \<Rightarrow> g | Some v \<Rightarrow> fst (register_secret v (Some (re_job env)) True False g))
              (sc_secret_inputs c) (wd_registry w)\<rparr>
      | _ \<Rightarrow> w)"

text \<open>\<open>_raw\<close>: a value with its handles opened, for the registry.\<close>

fun raw_value :: "pyval \<Rightarrow> pyval" where
  "raw_value (PCred c) = PStr (cred_value c)"
| "raw_value (PDict d) = PDict (map (\<lambda>(k, v). (k, raw_value v)) d)"
| "raw_value (PList xs) = PList (map raw_value xs)"
| "raw_value v = v"

function register_named :: "(string \<Rightarrow> bool) \<Rightarrow> string \<Rightarrow> bool \<Rightarrow> pyval \<Rightarrow> Registry \<Rightarrow> Registry" where
  "register_named secret run is_secret v g =
     (if is_secret then fst (register_secret (raw_value v) (Some run) False True g)
      else (case v of
              PDict d \<Rightarrow> fold (\<lambda>kv. register_named secret run (secret (fst kv)) (snd kv)) d g
            | PList xs \<Rightarrow> fold (\<lambda>item. register_named secret run False item) xs g
            | _ \<Rightarrow> g))"
  by pat_completeness auto
termination
  by (relation "measure (\<lambda>(s, r, b, v, g). size v)") (auto dest: pyval_list_smaller pyval_dict_smaller)

declare register_named.simps [simp del]

definition marked_secret :: "('r, 'w) step_class \<Rightarrow> string \<Rightarrow> bool" where
  "marked_secret c name = dict_has (sc_secret_outputs c) name"

text \<open>The outputs a step hides, and those its author shows: \<open>hidden: false\<close> counts only for an output the step does
  not mark secret or lets the author reveal.\<close>

definition shown_names :: "('r, 'w) step_class \<Rightarrow> StepDefinition \<Rightarrow> string list" where
  "shown_names c d = map fst (filter (\<lambda>(n, f). rf_hidden f = Some False
     \<and> (\<not> marked_secret c n \<or> dict_get (sc_secret_outputs c) n = Some True)) (or_empty (sd_returns d)))"

definition hidden_names :: "('r, 'w) step_class \<Rightarrow> StepDefinition \<Rightarrow> string list" where
  "hidden_names c d =
     filter (\<lambda>n. n \<notin> set (shown_names c d))
       (remdups (dict_keys (sc_secret_outputs c) @ map fst (filter (\<lambda>(n, f). rf_hidden f = Some True) (or_empty (sd_returns d)))))"

text \<open>One hidden output: a marked one is explicit, any other counts against the run's allowance.\<close>

definition hide_one ::
  "('r, 'w) run_env \<Rightarrow> ('r, 'w) step_class \<Rightarrow> StepOutput \<Rightarrow> string \<Rightarrow> exc + Registry \<Rightarrow> exc + Registry" where
  "hide_one env c ou name g =
     (case g of
        Inl e \<Rightarrow> Inl e
      | Inr r \<Rightarrow>
          (case extract_output (en_attr (re_checks env)) ou name (Some (declared_names (sc_fields c))) of
             Inl e \<Rightarrow> Inl e
           | Inr obj \<Rightarrow>
               (let v = raw_value (case obj of Plain u \<Rightarrow> u | _ \<Rightarrow> PNone)
                in Inr (fst (if marked_secret c name then register_secret v (Some (re_job env)) True False r
                             else register_secret v (Some (re_job env)) False True r)))))"

definition hide_secrets ::
  "('r, 'w) run_env \<Rightarrow> ('r, 'w) step_class \<Rightarrow> StepDefinition \<Rightarrow> StepOutput \<Rightarrow> ('r, 'w) World \<Rightarrow> exc + ('r, 'w) World" where
  "hide_secrets env c d ou w =
     (case fold (hide_one env c ou) (hidden_names c d) (Inr (wd_registry w)) of
        Inl e \<Rightarrow> Inl e
      | Inr g \<Rightarrow>
          (let g1 = (case ou_value ou of
                 PDict kvs \<Rightarrow> fold (\<lambda>(n, item). register_named (re_secret_key env) (re_job env)
                     (n \<notin> set (shown_names c d) \<and> re_secret_key env n) item) kvs g
               | _ \<Rightarrow> g)
           in Inr (w\<lparr>wd_registry := g1\<rparr>)))"

section \<open>One step\<close>

definition request_doc :: "HttpRequest \<Rightarrow> pyval" where
  "request_doc r = PDict [(''method'', PStr (rq_method r)), (''url'', PStr (rq_url r)), (''headers'', rq_headers r),
     (''params'', rq_params r), (''body'', rq_body r)]"

definition response_doc :: "HttpResponse \<Rightarrow> pyval" where
  "response_doc r = PDict [(''status_code'', PInt (rs_status_code r)), (''headers'', rs_headers r), (''body'', rs_body r),
     (''duration_ms'', rs_duration_ms r)]"

definition resolve_assertions :: "Assertion list \<Rightarrow> StepContext \<Rightarrow> exc + Assertion list" where
  "resolve_assertions assertions x =
     map_err (\<lambda>a. map_ok (\<lambda>p. a\<lparr>as_with := Some p\<rparr>) (resolve_params (or_empty (as_with a)) x [] [])) assertions"

definition no_checks :: NestedChecks where
  "no_checks = \<lparr>nc_checks = [], nc_declared = 0\<rparr>"

definition engine_fault :: "exc \<Rightarrow> bool" where
  "engine_fault e = (ex_kind e = Engine_Error \<or> ex_kind e \<notin> {Test_Lab_Error, Engine_Error, Value_Error})"

text \<open>The result of a step that raised, and of one that answered.\<close>

definition failed_result :: "StepDefinition \<Rightarrow> string \<Rightarrow> int \<Rightarrow> int \<Rightarrow> (string, pyval) pydict option \<Rightarrow> exc \<Rightarrow> StepResult" where
  "failed_result d name started finished inputs e =
     (let nested = (case ex_nested e of None \<Rightarrow> no_checks | Some n \<Rightarrow> n)
      in (step_result0 name (sd_uses d) Phase_EXECUTION Step_FAILED)
         \<lparr>sr_started_at := Some started, sr_finished_at := Some finished, sr_duration_s := Some (finished - started), sr_inputs := inputs,
          sr_error := Some ((if engine_fault e then ENGINE_FAULT_PREFIX else []) @ ex_message e), sr_error_code := ex_code e,
          sr_error_origin := Some (case ex_origin e of Some (c # s) \<Rightarrow> c # s | _ \<Rightarrow> if engine_fault e then ''engine'' else ''sut''),
          sr_error_context := ex_diagnostics e, sr_assertions := nc_checks nested, sr_nested_declared := nc_declared nested\<rparr>)"

definition answered_result ::
  "StepDefinition \<Rightarrow> string \<Rightarrow> int \<Rightarrow> int \<Rightarrow> (string, pyval) pydict \<Rightarrow> StepOutput \<Rightarrow> AssertionResult list \<Rightarrow> StepResult" where
  "answered_result d name started finished inputs ou own =
     (let nested = (case ou_nested ou of None \<Rightarrow> no_checks | Some n \<Rightarrow> n); checks = nc_checks nested @ own
      in (step_result0 name (sd_uses d) Phase_EXECUTION (if has_hard_failure checks then Step_FAILED else Step_PASSED))
         \<lparr>sr_started_at := Some started, sr_finished_at := Some finished, sr_duration_s := Some (finished - started),
          sr_inputs := Some inputs, sr_output := ou_value ou, sr_request := map_option request_doc (ou_request ou),
          sr_response := map_option response_doc (ou_response ou), sr_assertions := checks, sr_nested_declared := nc_declared nested\<rparr>)"

text \<open>After \<open>invoke\<close>: secrets hidden, references of the checks resolved, checks evaluated.\<close>

definition check_step ::
  "('r, 'w) run_env \<Rightarrow> ('r, 'w) step_class \<Rightarrow> StepDefinition \<Rightarrow> StepOutput \<Rightarrow> ('r, 'w) World \<Rightarrow> ('r, 'w) World \<times> (exc + AssertionResult list)" where
  "check_step env c d ou w =
     (case hide_secrets env c d ou w of
        Inl e \<Rightarrow> (w, Inl e)
      | Inr w1 \<Rightarrow>
          (case or_empty (sd_assertions d) of
             [] \<Rightarrow> (w1, Inr [])
           | as \<Rightarrow>
               (case resolve_assertions as (wd_context w1) of
                  Inl e \<Rightarrow> (w1, Inl e)
                | Inr resolved \<Rightarrow> (w1, evaluate (re_checks env) resolved ou (sc_publishes c)))))"

definition run_step_guarded ::
  "('r, 'w) run_env \<Rightarrow> ('r, 'w) step_class \<Rightarrow> StepDefinition \<Rightarrow> string \<Rightarrow> (string, pyval) pydict option \<Rightarrow> ('r, 'w) World
   \<Rightarrow> ('r, 'w) World \<times> HttpExchange list \<times> StepResult" where
  "run_step_guarded env c d name given w =
     (case (case given of Some p \<Rightarrow> Inr p | None \<Rightarrow> resolve_params (or_empty (sd_with d)) (wd_context w) (sc_deferred c) (sc_carriers c)) of
        Inl e \<Rightarrow> (w, [], failed_result d name (wd_now w) (wd_now w) None e)
      | Inr params \<Rightarrow>
          (let (w1, calls, answer) = sc_invoke c params d (mask_secret_inputs env (Some c) (Some params) w)
           in case answer of
                Inl e \<Rightarrow> (w1, calls, failed_result d name (wd_now w) (wd_now w1) (Some params) e)
              | Inr ou \<Rightarrow>
                  (let (w2, checked) = check_step env c d ou w1
                   in case checked of
                        Inl e \<Rightarrow> (w2, calls, failed_result d name (wd_now w) (wd_now w2) (Some params) e)
                      | Inr own \<Rightarrow> (w2, calls, answered_result d name (wd_now w) (wd_now w2) params ou own))))"

definition attach_to :: "StepResult \<Rightarrow> HttpExchange list \<Rightarrow> StepResult" where
  "attach_to r exchanges =
     (if exchanges = [] then r
      else (let r1 = r\<lparr>sr_exchanges := exchanges\<rparr>
            in if sr_request r = None \<and> sr_response r = None
               then r1\<lparr>sr_request := Some (hx_request (last exchanges)), sr_response := hx_response (last exchanges)\<rparr> else r1))"

definition own_or_test_cac :: "StepDefinition \<Rightarrow> StepContext \<Rightarrow> string list" where
  "own_or_test_cac d x = (if or_empty (sd_cac d) \<noteq> [] then or_empty (sd_cac d) else cx_test_cac x)"

definition run_step ::
  "('r, 'w) run_env \<Rightarrow> ('r, 'w) step_class \<Rightarrow> StepDefinition \<Rightarrow> string \<Rightarrow> (string, pyval) pydict option \<Rightarrow> ('r, 'w) World
   \<Rightarrow> ('r, 'w) World \<times> StepResult" where
  "run_step env c d name given w =
     (let (w1, calls, r) = run_step_guarded env c d name given w
      in (w1, (attach_to r calls)\<lparr>sr_cac := own_or_test_cac d (wd_context w1)\<rparr>))"

section \<open>Publishing what a step returned\<close>

text \<open>A captured request or response, read back from the document a result keeps of it.\<close>

definition text_at :: "(string, pyval) pydict \<Rightarrow> string \<Rightarrow> string" where
  "text_at d key = (case doc_get d key of PStr s \<Rightarrow> s | _ \<Rightarrow> [])"

definition request_of :: "pyval \<Rightarrow> HttpRequest" where
  "request_of v = (let d = (case v of PDict e \<Rightarrow> e | _ \<Rightarrow> [])
     in \<lparr>rq_method = text_at d ''method'', rq_url = text_at d ''url'', rq_headers = doc_get d ''headers'',
         rq_params = doc_get d ''params'', rq_body = doc_get d ''body''\<rparr>)"

definition response_of :: "pyval \<Rightarrow> HttpResponse" where
  "response_of v = (let d = (case v of PDict e \<Rightarrow> e | _ \<Rightarrow> [])
     in \<lparr>rs_status_code = (case doc_get d ''status_code'' of PInt n \<Rightarrow> n | _ \<Rightarrow> 0), rs_headers = doc_get d ''headers'',
         rs_body = doc_get d ''body'', rs_duration_ms = doc_get d ''duration_ms''\<rparr>)"

lemma request_of_doc [simp]: "request_of (request_doc r) = r"
  by (simp add: request_of_def request_doc_def text_at_def doc_get_def)

lemma response_of_doc [simp]: "response_of (response_doc r) = r"
  by (simp add: response_of_def response_doc_def doc_get_def)

definition output_of :: "StepResult \<Rightarrow> StepOutput" where
  "output_of r = \<lparr>ou_value = sr_output r, ou_request = map_option request_of (sr_request r),
     ou_response = map_option response_of (sr_response r), ou_nested = None\<rparr>"

fun store_returns ::
  "check_env \<Rightarrow> StepOutput \<Rightarrow> string set option \<Rightarrow> string option \<Rightarrow> string option \<Rightarrow> string list \<Rightarrow> StepContext \<Rightarrow> StepContext \<times> exc option" where
  "store_returns env ou declared namespace step_id [] x = (x, None)"
| "store_returns env ou declared namespace step_id (n # ns) x =
     (case extract_output (en_attr env) ou n declared of
        Inl e \<Rightarrow> (x, Some e)
      | Inr obj \<Rightarrow>
          (case set_variable n (subject_value env obj) x of
             Inl e \<Rightarrow> (x, Some e)
           | Inr x1 \<Rightarrow>
               if nonempty_text step_id \<and> nonempty_text namespace
               then (case set_variable (the namespace @ ''.'' @ the step_id @ ''.'' @ n) (subject_value env obj) x1 of
                       Inl e \<Rightarrow> (x1, Some e)
                     | Inr x2 \<Rightarrow> store_returns env ou declared namespace step_id ns x2)
               else store_returns env ou declared namespace step_id ns x1))"

definition store_step_outputs ::
  "('r, 'w) run_env \<Rightarrow> StepDefinition \<Rightarrow> StepResult \<Rightarrow> string option \<Rightarrow> StepContext \<Rightarrow> StepContext \<times> exc option" where
  "store_step_outputs env d r namespace x =
     (if sr_output r = PNone \<or> or_empty (sd_returns d) = [] then (x, None)
      else store_returns (re_checks env) (output_of r)
             (map_option (\<lambda>c. declared_names (sc_fields c)) (re_get_any env (sd_uses d)))
             namespace (sd_id d) (map fst (or_empty (sd_returns d))) x)"

text \<open>Whether \<open>checkpoints.nested(at)\<close> opens a frame here.\<close>

definition nested_opens :: "(string \<times> nat) option \<Rightarrow> ('r, 'w) World \<Rightarrow> bool" where
  "nested_opens place w =
     (case mo_checkpoints (monitor_of w) of None \<Rightarrow> False | Some t \<Rightarrow> snd (nested_enter place (wd_now w) t))"

definition run_and_publish ::
  "('r, 'w) run_env \<Rightarrow> ('r, 'w) step_class \<Rightarrow> StepDefinition \<Rightarrow> string \<Rightarrow> (string, pyval) pydict option \<Rightarrow> (string \<times> nat) option
   \<Rightarrow> ('r, 'w) World \<Rightarrow> ('r, 'w) World \<times> (exc + StepResult)" where
  "run_and_publish env c d name params place w =
     (let opened = nested_opens place w;
          (w1, r) = run_step env c d name params (on_tracker env (\<lambda>t. fst (nested_enter place (wd_now w) t)) w);
          w2 = (if opened then on_tracker env (ended (sr_status r) None (run_cancelled env w1) (wd_now w1)) w1 else w1);
          w3 = on_tracker env (nested_leave opened (run_cancelled env w2) (wd_now w2)) w2;
          namespace = cx_step_namespace (wd_context w3);
          w4 = on_steps (record_result namespace (sd_id d) r) w3
      in if namespace = None then (w4, Inr r)
         else (let (x, failed) = store_step_outputs env d r namespace (wd_context w4)
               in (w4\<lparr>wd_context := x\<rparr>, case failed of None \<Rightarrow> Inr r | Some e \<Rightarrow> Inl e)))"

text \<open>Before a test runs again, what its steps published is dropped.\<close>

definition output_prefixes :: "Test \<Rightarrow> string list" where
  "output_prefixes test =
     (let d = ts_definition test
      in concat (map (\<lambda>(phase, steps). concat (map (\<lambda>st. if nonempty_text (sd_id st) then [phase @ ''.'' @ the (sd_id st) @ ''.''] else []) steps))
           [(''setup'', td_setup d), (''execution'', td_execution d), (''teardown'', td_teardown d)]))"

fun unset_all :: "string list \<Rightarrow> StepContext \<Rightarrow> exc + StepContext" where
  "unset_all [] x = Inr x"
| "unset_all (n # ns) x = (case unset_variable n x of Inl e \<Rightarrow> Inl e | Inr y \<Rightarrow> unset_all ns y)"

definition forget_outputs :: "Test \<Rightarrow> StepContext \<Rightarrow> exc + StepContext" where
  "forget_outputs test x =
     (let prefixes = output_prefixes test
      in unset_all (filter (\<lambda>n. list_ex (starts_with n) prefixes) (dict_keys (cx_variables x))) x)"

section \<open>A phase\<close>

datatype FailurePolicy = STOP | CONTINUE

record PhaseConfig =
  ph_phase :: StepPhase
  ph_label :: string
  ph_failure_policy :: FailurePolicy
  ph_evaluate_conditions :: bool
  ph_use_pause_gate :: bool
  ph_store_outputs :: bool

definition SETUP :: PhaseConfig where
  "SETUP = \<lparr>ph_phase = Phase_SETUP, ph_label = ''setup'', ph_failure_policy = STOP, ph_evaluate_conditions = True,
     ph_use_pause_gate = True, ph_store_outputs = True\<rparr>"

definition EXECUTION :: PhaseConfig where
  "EXECUTION = \<lparr>ph_phase = Phase_EXECUTION, ph_label = ''execution'', ph_failure_policy = STOP, ph_evaluate_conditions = True,
     ph_use_pause_gate = True, ph_store_outputs = True\<rparr>"

definition TEARDOWN :: PhaseConfig where
  "TEARDOWN = \<lparr>ph_phase = Phase_TEARDOWN, ph_label = ''teardown'', ph_failure_policy = CONTINUE, ph_evaluate_conditions = False,
     ph_use_pause_gate = False, ph_store_outputs = True\<rparr>"

definition steps_for_phase :: "Test \<Rightarrow> StepPhase \<Rightarrow> StepDefinition list" where
  "steps_for_phase test phase =
     (case phase of Phase_SETUP \<Rightarrow> td_setup (ts_definition test) | Phase_TEARDOWN \<Rightarrow> td_teardown (ts_definition test)
      | Phase_EXECUTION \<Rightarrow> td_execution (ts_definition test))"

text \<open>The gate between two steps. What the host does until the gate opens is \<open>re_gate\<close>.\<close>

definition gate :: "('r, 'w) run_env \<Rightarrow> ('r, 'w) World \<Rightarrow> ('r, 'w) World" where
  "gate env w =
     (if rh_bound (wd_hold w)
      then (case pause_point_begin (wd_hold w) (wd_held w) of
              (s, None) \<Rightarrow> w\<lparr>wd_held := s\<rparr>
            | (s, Some withdrawn) \<Rightarrow>
                (let w1 = re_gate env (w\<lparr>wd_held := s\<rparr>)
                 in w1\<lparr>wd_held := pause_point_end (wd_hold w1) withdrawn True (wd_held w1)\<rparr>))
      else (let (m, opened) = get_pause_event (re_job env) (hd_jobs (wd_held w));
                w1 = w\<lparr>wd_held := (wd_held w)\<lparr>hd_jobs := m\<rparr>\<rparr>
            in if opened then w1 else re_gate env w1))"

definition key_error :: "string \<Rightarrow> exc" where
  "key_error message = \<lparr>ex_kind = Other_Exception, ex_message = message, ex_code = None, ex_origin = None,
     ex_diagnostics = None, ex_nested = None\<rparr>"

definition completed ::
  "('r, 'w) run_env \<Rightarrow> Test \<Rightarrow> StepDefinition \<Rightarrow> StepResult \<Rightarrow> ('r, 'w) World \<Rightarrow> ('r, 'w) World" where
  "completed env test d r w =
     on_monitor (on_step_completed (re_wire env) (re_job env) (td_id (ts_definition test)) (sd_id d) r (run_cancelled env w) (wd_now w)) w"

text \<open>\<open>_resolve_and_run_step\<close>: a step whose condition let it run. The results so far are the list handed through.\<close>

definition resolve_and_run_step ::
  "('r, 'w) run_env \<Rightarrow> Test \<Rightarrow> StepDefinition \<Rightarrow> string \<Rightarrow> PhaseConfig \<Rightarrow> (string, pyval) pydict option
   \<Rightarrow> ('r, 'w) World \<Rightarrow> StepResult list \<Rightarrow> ('r, 'w) World \<times> StepResult list \<times> (exc + bool)" where
  "resolve_and_run_step env test d name cfg params w results =
     (case re_get env (sd_uses d) (ts_dataspace_version test) of
        None \<Rightarrow>
          (let missing_r = missing_step_result name (sd_uses d) (ph_phase cfg);
               w1 = on_steps (record_result (cx_step_namespace (wd_context w)) (sd_id d) missing_r) w
           in (completed env test d missing_r w1, results @ [missing_r], Inr (ph_failure_policy cfg = STOP)))
      | Some c \<Rightarrow>
          (case run_and_publish env c d name params None (on_tracker env (begin_step (wd_now w)) w) of
             (w1, Inl e) \<Rightarrow> (w1, results, Inl e)
           | (w1, Inr r0) \<Rightarrow>
               (let r = r0\<lparr>sr_phase := ph_phase cfg\<rparr>
                in (completed env test d r w1, results @ [r], Inr (sr_status r = Step_FAILED \<and> ph_failure_policy cfg = STOP)))))"

text \<open>What a step is about to be given is published before its condition is read.\<close>

definition announce_step ::
  "('r, 'w) run_env \<Rightarrow> Test \<Rightarrow> nat \<Rightarrow> StepDefinition \<Rightarrow> PhaseConfig \<Rightarrow> (string, pyval) pydict option
   \<Rightarrow> ('r, 'w) World \<Rightarrow> ('r, 'w) World" where
  "announce_step env test idx d cfg params w =
     (let cls = re_get env (sd_uses d) (ts_dataspace_version test); id = td_id (ts_definition test)
      in on_monitor (on_step_started (re_wire env) (re_job env) id (sd_id d) idx (sd_uses d)
            (format_step_name id idx (sd_uses d) (ph_label cfg) (sd_id d)) (ph_label cfg)
            (case params of None \<Rightarrow> sd_with d | Some p \<Rightarrow> Some p))
           (mask_secret_inputs env cls params w))"

definition step_params :: "('r, 'w) run_env \<Rightarrow> Test \<Rightarrow> StepDefinition \<Rightarrow> StepContext \<Rightarrow> exc + (string, pyval) pydict option" where
  "step_params env test d x =
     (let cls = re_get env (sd_uses d) (ts_dataspace_version test)
      in try_resolve_params (or_empty (sd_with d)) x (case cls of None \<Rightarrow> [] | Some c \<Rightarrow> sc_deferred c)
           (case cls of None \<Rightarrow> [] | Some c \<Rightarrow> sc_carriers c))"

text \<open>The rest of \<open>run_phase_step\<close>, from the job's current step on.\<close>

definition run_announced_step ::
  "('r, 'w) run_env \<Rightarrow> Test \<Rightarrow> nat \<Rightarrow> StepDefinition \<Rightarrow> PhaseConfig \<Rightarrow> (string, pyval) pydict option \<Rightarrow> ('r, 'w) World
   \<Rightarrow> StepResult list \<Rightarrow> ('r, 'w) World \<times> StepResult list \<times> (exc + bool)" where
  "run_announced_step env test idx d cfg params w results =
     (let name = format_step_name (td_id (ts_definition test)) idx (sd_uses d) (ph_label cfg) (sd_id d)
      in case (if ph_use_pause_gate cfg then set_current_step (re_job env) name (hd_jobs (wd_held w)) else Inr (hd_jobs (wd_held w))) of
           Inl e \<Rightarrow> (w, results, Inl (key_error (re_job env)))
         | Inr m \<Rightarrow>
             (let w1 = w\<lparr>wd_held := (wd_held w)\<lparr>hd_jobs := m\<rparr>\<rparr>
              in if ph_evaluate_conditions cfg \<and> \<not> should_run (sd_if d) results (wd_context w1)
                 then (let r = (skipped_result name (sd_uses d) (ph_phase cfg))\<lparr>sr_cac := own_or_test_cac d (wd_context w1)\<rparr>;
                           w2 = on_steps (record_outcome (cx_step_namespace (wd_context w1)) (sd_id d) Step_SKIPPED None) w1
                       in (completed env test d r w2, results @ [r], Inr False))
                 else resolve_and_run_step env test d name cfg params w1 results))"

definition run_phase_step ::
  "('r, 'w) run_env \<Rightarrow> Test \<Rightarrow> nat \<Rightarrow> StepDefinition \<Rightarrow> PhaseConfig \<Rightarrow> ('r, 'w) World \<Rightarrow> StepResult list
   \<Rightarrow> ('r, 'w) World \<times> StepResult list \<times> (exc + bool)" where
  "run_phase_step env test idx d cfg w results =
     (case step_params env test d (wd_context w) of
        Inl e \<Rightarrow> (w, results, Inl e)
      | Inr params \<Rightarrow> run_announced_step env test idx d cfg params (announce_step env test idx d cfg params w) results)"

fun run_steps ::
  "('r, 'w) run_env \<Rightarrow> Test \<Rightarrow> PhaseConfig \<Rightarrow> (nat \<times> StepDefinition) list \<Rightarrow> ('r, 'w) World \<Rightarrow> StepResult list
   \<Rightarrow> ('r, 'w) World \<times> StepResult list \<times> (exc + TestStatus)" where
  "run_steps env test cfg [] w results = (w, results, Inr Test_COMPLETED)"
| "run_steps env test cfg ((idx, d) # rest) w results =
     (let w1 = (if ph_use_pause_gate cfg then gate env w else w);
          w2 = on_tracker env (step_enter (td_id (ts_definition test)) [SStr (ph_label cfg), SInt idx]) w1;
          (w3, results1, answer) = run_phase_step env test idx d cfg w2 results;
          w4 = on_tracker env (step_leave (run_cancelled env w3) (wd_now w3)) w3
      in case answer of
           Inl e \<Rightarrow> (w4, results1, Inl e)
         | Inr True \<Rightarrow> (on_steps (record_stop (failure_origin (last results1))) w4, results1, Inr Test_FAILED)
         | Inr False \<Rightarrow> run_steps env test cfg rest w4 results1)"

definition run_phase ::
  "('r, 'w) run_env \<Rightarrow> Test \<Rightarrow> PhaseConfig \<Rightarrow> ('r, 'w) World \<Rightarrow> ('r, 'w) World \<times> StepResult list \<times> (exc + TestStatus)" where
  "run_phase env test cfg w =
     run_steps env test cfg (enumerate 0 (steps_for_phase test (ph_phase cfg)))
       (on_context (bind_step_namespace (if ph_store_outputs cfg then Some (ph_label cfg) else None)
          \<circ> bind_test_cac (td_cac (ts_definition test))) w) []"

section \<open>A test\<close>

definition test_result ::
  "Test \<Rightarrow> TestStatus \<Rightarrow> StepResult list \<Rightarrow> int \<Rightarrow> int \<Rightarrow> TestResult" where
  "test_result test status results started finished =
     (let summary = build_summary results (Some (declared_checks test results))
      in \<lparr>tr_test_id = td_id (ts_definition test), tr_test_name = ts_name test, tr_dataspace_version = ts_dataspace_version test,
          tr_status = (if unevaluated summary \<noteq> 0 then Test_FAILED else status), tr_execution = results,
          tr_started_at = Some started, tr_finished_at = Some finished, tr_total_duration_s = Some (finished - started),
          tr_assertion_summary = summary, tr_error = None\<rparr>)"

definition run_test :: "('r, 'w) run_env \<Rightarrow> Test \<Rightarrow> ('r, 'w) World \<Rightarrow> ('r, 'w) World \<times> (exc + TestResult)" where
  "run_test env test w0 =
     (let (w1, setup_results, setup) = run_phase env test SETUP (on_steps (\<lambda>_. no_outcomes) w0)
      in case setup of
           Inl e \<Rightarrow> (w1, Inl e)
         | Inr setup_status \<Rightarrow>
             (let (w2, step_results, main) =
                    (if setup_status = Test_FAILED then (w1, [], Inr Test_FAILED) else run_phase env test EXECUTION w1)
              in case main of
                   Inl e \<Rightarrow> (w2, Inl e)
                 | Inr status \<Rightarrow>
                     (case run_phase env test TEARDOWN w2 of
                        (w3, teardown_results, Inl e) \<Rightarrow> (w3, Inl e)
                      | (w3, teardown_results, Inr _) \<Rightarrow>
                          (w3, Inr (test_result test status (setup_results @ step_results @ teardown_results) (wd_now w0) (wd_now w3))))))"

section \<open>The outcome of one step\<close>

lemma run_step_result:
  "let r = snd (run_step env c d name given w) in sr_step_name r = name \<and> sr_step_type r = sd_uses d
     \<and> (sr_status r = Step_FAILED \<longleftrightarrow> sr_error r \<noteq> None \<or> has_hard_failure (sr_assertions r))
     \<and> (sr_status r = Step_PASSED \<longleftrightarrow> sr_status r \<noteq> Step_FAILED)
     \<and> (sr_error r \<noteq> None \<longleftrightarrow> sr_error_origin r \<noteq> None)"
proof -
  have "\<And>s f i e. let r = failed_result d name s f i e in sr_step_name r = name \<and> sr_step_type r = sd_uses d
     \<and> sr_status r = Step_FAILED \<and> sr_error r \<noteq> None \<and> sr_error_origin r \<noteq> None"
    by (simp add: failed_result_def step_result0_def Let_def)
  moreover have "\<And>s f p ou own. let r = answered_result d name s f p ou own in sr_step_name r = name \<and> sr_step_type r = sd_uses d
     \<and> sr_status r = (if has_hard_failure (sr_assertions r) then Step_FAILED else Step_PASSED) \<and> sr_error r = None \<and> sr_error_origin r = None"
    by (simp add: answered_result_def step_result0_def Let_def)
  ultimately show ?thesis
    by (simp add: run_step_def run_step_guarded_def attach_to_def Let_def split_beta split: sum.split option.split)
qed

text \<open>C31. 
  Whatever a step class does, running the step ends in a verdict that is explained: a failed step names an error
  or holds a failed hard check, a passed one neither, and an error always comes with whom it is about.
\<close>

theorem verdict_is_explained:
  "let r = snd (run_step env c d name given w)
   in sr_status r = (if sr_error r = None \<and> \<not> has_hard_failure (sr_assertions r) then Step_PASSED else Step_FAILED)
      \<and> (sr_error r = None \<longleftrightarrow> sr_error_origin r = None)"
  using run_step_result [of env c d name given w] by (auto simp: Let_def)

section \<open>Sequences of steps\<close>

text \<open>
  The steps of a phase, of a branch and of a retried block are run by loops of their own that keep one contract:
  a result for every step up to the first failure, and none after it. \<open>gives ds rs\<close> says that running \<open>ds\<close> may
  leave the results \<open>rs\<close>.
\<close>

locale stopping_sequence =
  fixes gives :: "'d list \<Rightarrow> StepResult list \<Rightarrow> bool"
    and of_step :: "'d \<Rightarrow> StepResult \<Rightarrow> bool"
  assumes gives_Nil: "gives [] rs \<Longrightarrow> rs = []"
    and gives_Cons: "gives (d # ds) rs \<Longrightarrow>
      \<exists>r rest. rs = r # rest \<and> of_step d r \<and> (if sr_status r = Step_FAILED then rest = [] else gives ds rest)"
begin

lemma one_result_per_step: "gives ds rs \<Longrightarrow> list_all2 of_step (take (length rs) ds) rs"
proof (induction ds arbitrary: rs)
  case (Cons d ds)
  from gives_Cons [OF Cons.prems] Cons.IH show ?case
    by (auto split: if_splits)
qed (auto dest: gives_Nil)

lemma no_extra_results: "gives ds rs \<Longrightarrow> length rs \<le> length ds"
  by (drule one_result_per_step) (auto dest: list_all2_lengthD)

lemma only_last_fails: "gives ds rs \<Longrightarrow> list_all (\<lambda>r. sr_status r \<noteq> Step_FAILED) (butlast rs)"
proof (induction ds arbitrary: rs)
  case (Cons d ds)
  from gives_Cons [OF Cons.prems] Cons.IH show ?case
    by (auto split: if_splits)
qed (auto dest: gives_Nil)

lemma ends_early_on_failure: "gives ds rs \<Longrightarrow> length rs < length ds \<Longrightarrow> rs \<noteq> [] \<and> sr_status (last rs) = Step_FAILED"
proof (induction ds arbitrary: rs)
  case (Cons d ds)
  then obtain r rest where r: "rs = r # rest" "if sr_status r = Step_FAILED then rest = [] else gives ds rest"
    using gives_Cons by blast
  with Cons show ?case by (cases "sr_status r = Step_FAILED") auto
qed simp

end

definition step_named :: "Test \<Rightarrow> PhaseConfig \<Rightarrow> nat \<times> StepDefinition \<Rightarrow> StepResult \<Rightarrow> bool" where
  "step_named test cfg p r =
     (sr_step_name r = format_step_name (td_id (ts_definition test)) (fst p) (sd_uses (snd p)) (ph_label cfg) (sd_id (snd p))
      \<and> sr_step_type r = sd_uses (snd p) \<and> sr_phase r = ph_phase cfg)"

lemma run_and_publish_result:
  "run_and_publish env c d name params place w = (w', Inr r) \<Longrightarrow> \<exists>v. r = snd (run_step env c d name params v)"
  by (fastforce simp: run_and_publish_def Let_def split_beta split: if_splits option.splits)

lemma resolve_and_run_step_result:
  assumes "resolve_and_run_step env test d name cfg params w results = (w', results', Inr stop)"
  shows "\<exists>r. results' = results @ [r] \<and> sr_step_name r = name \<and> sr_step_type r = sd_uses d \<and> sr_phase r = ph_phase cfg
    \<and> (stop \<longleftrightarrow> sr_status r = Step_FAILED \<and> ph_failure_policy cfg = STOP)"
proof (cases "re_get env (sd_uses d) (ts_dataspace_version test)")
  case None
  with assms show ?thesis
    by (auto simp: resolve_and_run_step_def missing_step_result_def step_result0_def Let_def)
next
  case (Some c)
  obtain w1 answer where run: "run_and_publish env c d name params None (on_tracker env (begin_step (wd_now w)) w) = (w1, answer)"
    by fastforce
  with Some assms obtain r where r: "answer = Inr r" by (cases answer) (auto simp: resolve_and_run_step_def)
  from run r obtain v where "r = snd (run_step env c d name params v)" using run_and_publish_result by blast
  then have "sr_step_name r = name" "sr_step_type r = sd_uses d"
    using run_step_result [of env c d name params v] by (auto simp: Let_def)
  with Some assms run r show ?thesis by (auto simp: resolve_and_run_step_def Let_def)
qed

lemma run_phase_step_result:
  assumes "run_phase_step env test idx d cfg w results = (w', results', Inr stop)"
  shows "\<exists>r. results' = results @ [r] \<and> step_named test cfg (idx, d) r
    \<and> (stop \<longleftrightarrow> sr_status r = Step_FAILED \<and> ph_failure_policy cfg = STOP)"
  using assms
  by (auto simp: run_phase_step_def run_announced_step_def step_named_def skipped_result_def step_result0_def Let_def
      split: sum.splits if_splits dest!: resolve_and_run_step_result)

lemma run_phase_step_raised:
  "run_phase_step env test idx d cfg w results = (w', results', Inl e) \<Longrightarrow> results' = results"
  by (auto simp: run_phase_step_def run_announced_step_def resolve_and_run_step_def Let_def
      split: sum.splits if_splits option.splits prod.splits)

text \<open>The results one phase adds to those before it.\<close>

definition phase_gives :: "('r, 'w) run_env \<Rightarrow> Test \<Rightarrow> PhaseConfig \<Rightarrow> (nat \<times> StepDefinition) list \<Rightarrow> StepResult list \<Rightarrow> bool" where
  "phase_gives env test cfg ds rs = (\<exists>w results w' st. run_steps env test cfg ds w results = (w', results @ rs, Inr st))"

lemma run_steps_Cons:
  assumes "run_steps env test cfg ((idx, d) # ds) w results = (w', results', answer)"
  obtains (raised) e where "answer = Inl e" "results' = results"
  | (failed) r where "results' = results @ [r]" "step_named test cfg (idx, d) r" "sr_status r = Step_FAILED"
      "ph_failure_policy cfg = STOP" "answer = Inr Test_FAILED"
      "\<exists>u u' stop. run_phase_step env test idx d cfg u results = (u', results @ [r], Inr stop)"
  | (more) r v where "step_named test cfg (idx, d) r" "ph_failure_policy cfg = STOP \<Longrightarrow> sr_status r \<noteq> Step_FAILED"
      "run_steps env test cfg ds v (results @ [r]) = (w', results', answer)"
      "\<exists>u u' stop. run_phase_step env test idx d cfg u results = (u', results @ [r], Inr stop)"
proof -
  define w2 where "w2 = on_tracker env (step_enter (td_id (ts_definition test)) [SStr (ph_label cfg), SInt idx])
    (if ph_use_pause_gate cfg then gate env w else w)"
  obtain w3 rs1 a where step: "run_phase_step env test idx d cfg w2 results = (w3, rs1, a)"
    by (metis prod_cases3)
  note run = assms [unfolded run_steps.simps Let_def, folded w2_def, unfolded step, simplified]
  show thesis
  proof (cases a)
    case (Inl e)
    with run run_phase_step_raised [of env test idx d cfg w2 results w3 rs1 e] step show thesis by (auto intro: raised)
  next
    case (Inr stop)
    with run_phase_step_result step obtain r where r: "rs1 = results @ [r]" "step_named test cfg (idx, d) r"
      "stop \<longleftrightarrow> sr_status r = Step_FAILED \<and> ph_failure_policy cfg = STOP" by blast
    show thesis
    proof (cases stop)
      case True
      with run Inr r step show thesis by (intro failed [of r]) auto
    next
      case False
      with run Inr r step show thesis by (intro more [of r]) auto
    qed
  qed
qed

lemma run_steps_extends:
  "run_steps env test cfg ds w results = (w', results', answer) \<Longrightarrow> \<exists>rs. results' = results @ rs"
proof (induction ds arbitrary: w results)
  case (Cons p ds)
  obtain idx d where p: "p = (idx, d)" by fastforce
  from Cons.prems [unfolded p] show ?case
  proof (cases rule: run_steps_Cons)
    case (more r v)
    from Cons.IH [OF more(3)] show ?thesis by auto
  qed auto
qed auto

interpretation stopping: stopping_sequence "phase_gives env test (cfg\<lparr>ph_failure_policy := STOP\<rparr>)" "step_named test (cfg\<lparr>ph_failure_policy := STOP\<rparr>)"
  for env :: "('r, 'w) run_env" and test cfg
proof
  show "phase_gives env test (cfg\<lparr>ph_failure_policy := STOP\<rparr>) [] rs \<Longrightarrow> rs = []" for rs
    by (simp add: phase_gives_def)
  fix p ds rs
  assume "phase_gives env test (cfg\<lparr>ph_failure_policy := STOP\<rparr>) (p # ds) rs"
  then obtain idx d w results w' st where p: "p = (idx, d)"
    and run: "run_steps env test (cfg\<lparr>ph_failure_policy := STOP\<rparr>) ((idx, d) # ds) w results = (w', results @ rs, Inr st)"
    by (cases p) (auto simp: phase_gives_def)
  from run show "\<exists>r rest. rs = r # rest \<and> step_named test (cfg\<lparr>ph_failure_policy := STOP\<rparr>) p r
      \<and> (if sr_status r = Step_FAILED then rest = [] else phase_gives env test (cfg\<lparr>ph_failure_policy := STOP\<rparr>) ds rest)"
  proof (cases rule: run_steps_Cons)
    case (more r v)
    from run_steps_extends [OF more(3)] obtain rest where "rs = r # rest" by auto
    with more(3) have "phase_gives env test (cfg\<lparr>ph_failure_policy := STOP\<rparr>) ds rest"
      unfolding phase_gives_def by (metis append.assoc append_Cons append_Nil)
    with more(1,2) p \<open>rs = r # rest\<close> show ?thesis by simp
  qed (auto simp: p)
qed

lemma stop_config [simp]: "SETUP\<lparr>ph_failure_policy := STOP\<rparr> = SETUP" "EXECUTION\<lparr>ph_failure_policy := STOP\<rparr> = EXECUTION"
  by (simp_all add: SETUP_def EXECUTION_def)

lemma run_steps_status:
  assumes "run_steps env test cfg ds w results = (w', results', Inr st)"
    and "list_all (\<lambda>r. sr_status r \<noteq> Step_FAILED) results \<or> ph_failure_policy cfg = CONTINUE"
  shows "(st = Test_FAILED \<longleftrightarrow> ph_failure_policy cfg = STOP \<and> \<not> list_all (\<lambda>r. sr_status r \<noteq> Step_FAILED) results')
    \<and> (st = Test_COMPLETED \<longleftrightarrow> st \<noteq> Test_FAILED) \<and> (st = Test_COMPLETED \<longrightarrow> length results' = length results + length ds)"
  using assms
proof (induction ds arbitrary: w results)
  case (Cons p ds)
  obtain idx d where p: "p = (idx, d)" by fastforce
  from Cons.prems(1) [unfolded p] show ?case
  proof (cases rule: run_steps_Cons)
    case (more r v)
    with Cons.prems(2) have "list_all (\<lambda>r. sr_status r \<noteq> Step_FAILED) (results @ [r]) \<or> ph_failure_policy cfg = CONTINUE"
      by (cases "ph_failure_policy cfg") auto
    from Cons.IH [OF more(3) this] show ?thesis by simp
  qed (use Cons.prems in auto)
qed auto

definition failed_step :: "StepResult \<Rightarrow> bool" where
  "failed_step r = (sr_status r = Step_FAILED)"

lemma run_steps_named:
  "run_steps env test cfg ds w results = (w', results @ rs, answer) \<Longrightarrow> list_all2 (step_named test cfg) (take (length rs) ds) rs"
proof (induction ds arbitrary: w results rs)
  case (Cons p ds)
  obtain idx d where p: "p = (idx, d)" by fastforce
  from Cons.prems [unfolded p] show ?case
  proof (cases rule: run_steps_Cons)
    case (more r v)
    from run_steps_extends [OF more(3)] obtain rest where rs: "rs = r # rest" by auto
    with more(3) have "run_steps env test cfg ds v (results @ [r]) = (w', (results @ [r]) @ rest, answer)" by simp
    from Cons.IH [OF this] more(1) rs p show ?thesis by simp
  qed (auto simp: p)
qed simp

lemma phase_results:
  assumes run: "run_phase env test cfg w = (w', rs, Inr st)"
  shows "list_all2 (step_named test cfg) (take (length rs) (enumerate 0 (steps_for_phase test (ph_phase cfg)))) rs"
    and "st = (if ph_failure_policy cfg = STOP \<and> list_ex failed_step rs then Test_FAILED else Test_COMPLETED)"
    and "st \<noteq> Test_FAILED \<Longrightarrow> length rs = length (steps_for_phase test (ph_phase cfg))"
proof -
  note start = run [unfolded run_phase_def]
  show "list_all2 (step_named test cfg) (take (length rs) (enumerate 0 (steps_for_phase test (ph_phase cfg)))) rs"
    using run_steps_named [where results = "[]", simplified, OF start] .
  note status = run_steps_status [OF start]
  from status show "st = (if ph_failure_policy cfg = STOP \<and> list_ex failed_step rs then Test_FAILED else Test_COMPLETED)"
    by (auto simp: failed_step_def list_ex_iff list_all_iff)
  from status show "st \<noteq> Test_FAILED \<Longrightarrow> length rs = length (steps_for_phase test (ph_phase cfg))"
    by simp
qed

lemma stopping_phase:
  assumes "run_phase env test cfg w = (w', rs, Inr st)" and "ph_failure_policy cfg = STOP"
  shows "list_all (\<lambda>r. \<not> failed_step r) (butlast rs)"
proof -
  from assms(2) have "cfg\<lparr>ph_failure_policy := STOP\<rparr> = cfg" by simp
  moreover from assms(1) have "phase_gives env test cfg (enumerate 0 (steps_for_phase test (ph_phase cfg))) rs"
    unfolding run_phase_def phase_gives_def by (metis append_Nil)
  ultimately show ?thesis
    using stopping.only_last_fails [of env test cfg] by (auto simp: failed_step_def)
qed

text \<open>C2. 
  A setup or execution phase that is not broken off by an exception has one result for each of its steps up to the
  first that fails, in their order and under their names, and none behind it. It is \<open>FAILED\<close> exactly when its last
  result is, and otherwise every step has a result.
\<close>

theorem phase_stops_at_failure:
  assumes "run_phase env test cfg w = (w', rs, Inr st)" and "cfg = SETUP \<or> cfg = EXECUTION"
  shows "list_all2 (step_named test cfg) (take (length rs) (enumerate 0 (steps_for_phase test (ph_phase cfg)))) rs
    \<and> list_all (\<lambda>r. \<not> failed_step r) (butlast rs)
    \<and> (st = Test_FAILED \<longleftrightarrow> rs \<noteq> [] \<and> failed_step (last rs))
    \<and> (st \<noteq> Test_FAILED \<longrightarrow> length rs = length (steps_for_phase test (ph_phase cfg)))"
proof -
  from assms(2) have stop: "ph_failure_policy cfg = STOP" by (auto simp: SETUP_def EXECUTION_def)
  note r = phase_results [OF assms(1)] and b = stopping_phase [OF assms(1) stop]
  have "list_ex failed_step rs \<longleftrightarrow> rs \<noteq> [] \<and> failed_step (last rs)"
  proof (cases rs rule: rev_cases)
    case (snoc ys y)
    with b show ?thesis by (auto simp: list_ex_iff list_all_iff)
  qed simp
  with r b stop show ?thesis by simp
qed

section \<open>Conditions on failures\<close>

lemma run_announced_step_skips:
  assumes "run_announced_step env test idx d cfg params w results = (w', results @ [r], Inr stop)"
    and "ph_evaluate_conditions cfg" and "\<And>x. \<not> should_run (sd_if d) results x"
  shows "sr_status r = Step_SKIPPED"
  using assms by (auto simp: run_announced_step_def skipped_result_def step_result0_def Let_def split: sum.splits if_splits)

lemma run_phase_step_skips:
  assumes "run_phase_step env test idx d cfg w results = (w', results @ [r], Inr stop)"
    and "ph_evaluate_conditions cfg" and "\<And>x. \<not> should_run (sd_if d) results x"
  shows "sr_status r = Step_SKIPPED"
  using assms(1) run_announced_step_skips [OF _ assms(2,3)] by (auto simp: run_phase_step_def split: sum.splits)

text \<open>A condition that needs a failure before it does not hold where no earlier result is one.\<close>

definition asks_failure :: "string option \<Rightarrow> bool" where
  "asks_failure c = (\<exists>text p. c = Some text \<and> parse_condition text = Some p \<and> cd_kind p = Status \<and> cd_name p = ''failure'')"

lemma failure_never_holds:
  "asks_failure c \<Longrightarrow> list_all (\<lambda>r. \<not> failed_step r) results \<Longrightarrow> \<not> should_run c results x"
  by (auto simp: asks_failure_def should_run_def evaluate_status_fn_def list_ex_iff list_all_iff failed_step_def)

lemma run_steps_failure_skips:
  assumes "run_steps env test cfg ds w results = (w', results @ rs, Inr st)"
    and "ph_evaluate_conditions cfg" "ph_failure_policy cfg = STOP" and "list_all (\<lambda>r. \<not> failed_step r) results"
    and "i < length rs" "i < length ds" and "asks_failure (sd_if (snd (ds ! i)))"
  shows "sr_status (rs ! i) = Step_SKIPPED"
  using assms
proof (induction ds arbitrary: w results rs i)
  case (Cons p ds)
  obtain idx d where p: "p = (idx, d)" by fastforce
  have skipped: "sr_status r = Step_SKIPPED"
    if "asks_failure (sd_if d)" "run_phase_step env test idx d cfg u results = (u', results @ [r], Inr stop)" for r u u' stop
    by (rule run_phase_step_skips [OF that(2) Cons.prems(2)]) (rule failure_never_holds [OF that(1) Cons.prems(4)])
  from Cons.prems(1) [unfolded p] show ?case
  proof (cases rule: run_steps_Cons)
    case (failed r)
    with skipped Cons.prems(5-) p show ?thesis by auto
  next
    case (more r v)
    from run_steps_extends [OF more(3)] obtain rest where rs: "rs = r # rest" by auto
    with more(3) have run: "run_steps env test cfg ds v (results @ [r]) = (w', (results @ [r]) @ rest, Inr st)" by simp
    show ?thesis
    proof (cases i)
      case 0
      with skipped more(4) Cons.prems(7) rs p show ?thesis by auto
    next
      case (Suc j)
      with Cons.IH [OF run, of j] Cons.prems rs more(2) show ?thesis by (auto simp: failed_step_def)
    qed
  qed simp
qed simp

text \<open>
  A step of setup or execution whose condition is \<open>failure()\<close> never runs: the phase ends with the first failure, so
  no step is reached with one before it, and every such step that is reached is skipped.
\<close>

theorem failure_condition_never_runs:
  assumes "run_phase env test cfg w = (w', rs, Inr st)" and "cfg = SETUP \<or> cfg = EXECUTION"
    and "i < length rs" and "asks_failure (sd_if (steps_for_phase test (ph_phase cfg) ! i))"
  shows "sr_status (rs ! i) = Step_SKIPPED"
proof -
  have "length rs \<le> length (steps_for_phase test (ph_phase cfg))"
    using list_all2_lengthD [OF phase_results(1) [OF assms(1)]] by simp
  with assms(2-) show ?thesis
    by (intro run_steps_failure_skips [where results = "[]", simplified, OF assms(1) [unfolded run_phase_def]])
       (auto simp: SETUP_def EXECUTION_def nth_enumerate_eq)
qed

section \<open>The verdict of a test\<close>

lemma run_test_phases:
  assumes "run_test env test w = (w', Inr r)"
  obtains v1 ss st main mst v2 v3 teardown tst where
    "run_phase env test SETUP (on_steps (\<lambda>_. no_outcomes) w) = (v1, ss, Inr st)"
    "st = Test_FAILED \<longrightarrow> main = [] \<and> mst = Test_FAILED"
    "st \<noteq> Test_FAILED \<longrightarrow> run_phase env test EXECUTION v1 = (v2, main, Inr mst)"
    "run_phase env test TEARDOWN v3 = (w', teardown, Inr tst)"
    "r = test_result test mst (ss @ main @ teardown) (wd_now w) (wd_now w')"
proof -
  obtain v1 ss a where s: "run_phase env test SETUP (on_steps (\<lambda>_. no_outcomes) w) = (v1, ss, a)"
    by (metis prod_cases3)
  with assms obtain st where a: "a = Inr st" by (cases a) (auto simp: run_test_def)
  obtain v2 main b where m: "(if st = Test_FAILED then (v1, [], Inr Test_FAILED) else run_phase env test EXECUTION v1) = (v2, main, b)"
    by (metis prod_cases3)
  with assms s a obtain mst where b: "b = Inr mst" by (cases b) (auto simp: run_test_def)
  obtain v3 td c where t: "run_phase env test TEARDOWN v2 = (v3, td, c)"
    by (metis prod_cases3)
  with assms s a m b obtain tst where c: "c = Inr tst" by (cases c) (auto simp: run_test_def)
  from assms s a m b t c have "v3 = w'" "r = test_result test mst (ss @ main @ td) (wd_now w) (wd_now w')"
    by (auto simp: run_test_def)
  with that [of v1 ss st main mst v2 v2 td tst] s a m b t c show thesis by (auto split: if_splits)
qed

lemma phase_length:
  assumes "run_phase env test cfg w = (w', rs, Inr st)"
  shows "length rs \<le> length (steps_for_phase test (ph_phase cfg))"
  using list_all2_lengthD [OF phase_results(1) [OF assms]] by simp

text \<open>C1. 
  A test that ran to its end has the results of its setup, its execution and its teardown, in that order. A failed
  setup runs no execution step; the teardown has a result for every one of its steps whatever happened before. The
  test is \<open>COMPLETED\<close> exactly when every setup and execution step has a result, none of them failed and no declared
  check went unevaluated, and \<open>FAILED\<close> otherwise; a failure in the teardown does not count.
\<close>

theorem test_verdict:
  assumes "run_test env test w = (w', Inr r)"
  shows "\<exists>ss main teardown. tr_execution r = ss @ main @ teardown
    \<and> (list_ex failed_step ss \<longrightarrow> main = [])
    \<and> length teardown = length (td_teardown (ts_definition test))
    \<and> tr_status r = (if length ss = length (td_setup (ts_definition test)) \<and> length main = length (td_execution (ts_definition test))
          \<and> \<not> list_ex failed_step (ss @ main) \<and> unevaluated (tr_assertion_summary r) = 0
        then Test_COMPLETED else Test_FAILED)"
proof -
  from assms obtain v1 ss st main mst v2 v3 teardown tst where
    s: "run_phase env test SETUP (on_steps (\<lambda>_. no_outcomes) w) = (v1, ss, Inr st)"
    and f: "st = Test_FAILED \<longrightarrow> main = [] \<and> mst = Test_FAILED"
    and m: "st \<noteq> Test_FAILED \<longrightarrow> run_phase env test EXECUTION v1 = (v2, main, Inr mst)"
    and t: "run_phase env test TEARDOWN v3 = (w', teardown, Inr tst)"
    and r: "r = test_result test mst (ss @ main @ teardown) (wd_now w) (wd_now w')"
    by (rule run_test_phases)
  have ss: "st = (if list_ex failed_step ss then Test_FAILED else Test_COMPLETED)"
    "st \<noteq> Test_FAILED \<Longrightarrow> length ss = length (td_setup (ts_definition test))"
    using phase_results(2,3) [OF s] by (simp_all add: SETUP_def steps_for_phase_def)
  have main: "mst = (if list_ex failed_step main then Test_FAILED else Test_COMPLETED)"
    "mst \<noteq> Test_FAILED \<Longrightarrow> length main = length (td_execution (ts_definition test))" if "st \<noteq> Test_FAILED"
    using phase_results(2,3) [OF m [rule_format, OF that]] by (simp_all add: EXECUTION_def steps_for_phase_def)
  have td: "length teardown = length (td_teardown (ts_definition test))"
    using phase_results(2,3) [OF t] by (simp add: TEARDOWN_def steps_for_phase_def)
  have r1: "tr_execution r = ss @ main @ teardown"
    "tr_status r = (if unevaluated (tr_assertion_summary r) \<noteq> 0 then Test_FAILED else mst)"
    by (simp_all add: r test_result_def Let_def)
  show ?thesis
  proof (intro exI conjI)
    show "list_ex failed_step ss \<longrightarrow> main = []" using ss(1) f by simp
    show "tr_status r = (if length ss = length (td_setup (ts_definition test)) \<and> length main = length (td_execution (ts_definition test))
          \<and> \<not> list_ex failed_step (ss @ main) \<and> unevaluated (tr_assertion_summary r) = 0 then Test_COMPLETED else Test_FAILED)"
    proof (cases "list_ex failed_step ss")
      case True
      with ss(1) f r1(2) show ?thesis by simp
    next
      case False
      then have st: "st \<noteq> Test_FAILED" using ss(1) by simp
      show ?thesis
      proof (cases "list_ex failed_step main")
        case True
        with main(1) [OF st] r1(2) show ?thesis by simp
      next
        case mf: False
        then have "mst = Test_COMPLETED" using main(1) [OF st] by simp
        then show ?thesis unfolding r1(2) using main(2) [OF st] ss(2) [OF st] False mf by simp
      qed
    qed
  qed (rule r1(1) td)+
qed

section \<open>A run\<close>

text \<open>A step type that answers its parameters, and one that raises.\<close>

definition echo_class :: "(unit, unit) step_class" where
  "echo_class = \<lparr>sc_deferred = [], sc_carriers = [], sc_fields = [(''token'', None)], sc_publishes = None, sc_secret_inputs = [],
     sc_secret_outputs = [], sc_invoke = (\<lambda>p d w. (w, [], Inr \<lparr>ou_value = PDict p, ou_request = None, ou_response = None, ou_nested = None\<rparr>))\<rparr>"

definition broken_class :: "(unit, unit) step_class" where
  "broken_class = echo_class\<lparr>sc_invoke := (\<lambda>p d w. (w, [], Inl (value_error ''refused'')))\<rparr>"

definition demo_get :: "string \<Rightarrow> (unit, unit) step_class option" where
  "demo_get uses = (if uses = ''util/echo'' then Some echo_class else if uses = ''util/broken'' then Some broken_class else None)"

definition demo_run :: "(unit, unit) run_env" where
  "demo_run = \<lparr>re_get = (\<lambda>uses _. demo_get uses), re_get_any = demo_get, re_checks = plain_env, re_wire = demo_env,
     re_secret_key = (\<lambda>_. False), re_gate = (\<lambda>w. w), re_job = ''j''\<rparr>"

definition demo_world :: "(unit, unit) World" where
  "demo_world = \<lparr>wd_held = \<lparr>hd_jobs = fst (create_job ''tck'' None (Some ''j'') ''f'' 0 new_manager), hd_connector = (), hd_monitor = new_monitor False\<rparr>,
     wd_hold = bind_hold ''j'' new_hold, wd_context = seal ''infra.'' (new_context ''j-''), wd_registry = new_registry, wd_now = 0\<rparr>"

definition demo_step :: "string \<Rightarrow> string \<Rightarrow> string option \<Rightarrow> string list \<Rightarrow> StepDefinition" where
  "demo_step i uses cond names = StepDefinition (Some i) uses None (Some [(''token'', PStr ''abc'')]) []
     (Some (map (\<lambda>n. (n, \<lparr>rf_type = ''string'', rf_hidden = None\<rparr>)) names)) None cond None Unmarked"

definition demo_tests :: "StepDefinition list \<Rightarrow> Test" where
  "demo_tests steps = \<lparr>ts_definition = \<lparr>td_id = ''t'', td_cac = None, td_setup = [demo_step ''a'' ''util/echo'' None [''token'']],
       td_execution = steps, td_teardown = [demo_step ''z'' ''util/broken'' None []]\<rparr>,
     ts_test_id = ''t.yaml'', ts_name = ''T'', ts_dataspace_version = ''saturn'', ts_skippable = False, ts_on_demand = False\<rparr>"

definition demo_steps :: "StepDefinition list" where
  "demo_steps = [demo_step ''b'' ''util/echo'' None [], demo_step ''c'' ''util/echo'' (Some ''failure()'') [],
     demo_step ''d'' ''util/broken'' None [], demo_step ''e'' ''util/echo'' (Some ''failure()'') []]"

lemma demo_phase_run:
  "map sr_status (fst (snd (run_phase demo_run (demo_tests demo_steps) EXECUTION demo_world))) = [Step_PASSED, Step_SKIPPED, Step_FAILED]
   \<and> snd (snd (run_phase demo_run (demo_tests demo_steps) EXECUTION demo_world)) = Inr Test_FAILED"
  by code_simp

lemma demo_test_run:
  "map_ok (\<lambda>r. (tr_status r, map sr_status (tr_execution r))) (snd (run_test demo_run (demo_tests (take 2 demo_steps)) demo_world))
   = Inr (Test_COMPLETED, [Step_PASSED, Step_PASSED, Step_SKIPPED, Step_FAILED])"
  by code_simp

text \<open>
  A \<open>returns:\<close> name under a sealed prefix is not a failed step: the error leaves the run between two steps, no
  result is produced and the teardown does not start.
\<close>

lemma sealed_return_escapes:
  "let (w, answer) = run_test demo_run (demo_tests [demo_step ''b'' ''util/echo'' None [''infra.token'']]) demo_world
   in answer = Inl (sealed_variable_error ''infra.token'')
      \<and> list_all (\<lambda>(k, e, l). case e of StepStartedEvent b i ty n ph inputs \<Rightarrow> ph \<noteq> ''teardown'' | _ \<Rightarrow> True) (mo_dispatched (monitor_of w))"
  by code_simp

theorem phase_stops_at_failure_witness:
  "(let rs = fst (snd (run_phase demo_run (demo_tests demo_steps) EXECUTION demo_world))
    in length rs = 3 \<and> list_all (\<lambda>r. \<not> failed_step r) (butlast rs) \<and> failed_step (last rs))"
proof -
  obtain w rs a where run: "run_phase demo_run (demo_tests demo_steps) EXECUTION demo_world = (w, rs, a)"
    by (metis prod_cases3)
  with demo_phase_run have a: "a = Inr Test_FAILED" and st: "map sr_status rs = [Step_PASSED, Step_SKIPPED, Step_FAILED]" by simp_all
  from st have "length rs = 3" by (metis length_map length_Cons list.size(3) numeral_3_eq_3)
  with phase_stops_at_failure [OF run [unfolded a]] run show ?thesis by simp
qed

theorem failure_condition_never_runs_witness:
  "sr_status (fst (snd (run_phase demo_run (demo_tests demo_steps) EXECUTION demo_world)) ! 1) = Step_SKIPPED"
proof -
  obtain w rs a where run: "run_phase demo_run (demo_tests demo_steps) EXECUTION demo_world = (w, rs, a)"
    by (metis prod_cases3)
  with demo_phase_run have a: "a = Inr Test_FAILED" and st: "map sr_status rs = [Step_PASSED, Step_SKIPPED, Step_FAILED]" by simp_all
  from st have len: "length rs = 3" by (metis length_map length_Cons list.size(3) numeral_3_eq_3)
  have "parse_condition ''failure()'' = Some (condition Status ''failure'' [] [] False)" by code_simp
  then have "asks_failure (sd_if (steps_for_phase (demo_tests demo_steps) (ph_phase EXECUTION) ! 1))"
    by (simp add: asks_failure_def demo_tests_def demo_steps_def demo_step_def steps_for_phase_def EXECUTION_def condition_def)
  with failure_condition_never_runs [OF run [unfolded a], of 1] len run show ?thesis by simp
qed

theorem test_verdict_witness:
  "(let r = projr (snd (run_test demo_run (demo_tests (take 2 demo_steps)) demo_world))
    in tr_status r = Test_COMPLETED \<and> failed_step (last (tr_execution r)) \<and> unevaluated (tr_assertion_summary r) = 0)"
proof -
  obtain w a where run: "run_test demo_run (demo_tests (take 2 demo_steps)) demo_world = (w, a)" by fastforce
  with demo_test_run obtain r where a: "a = Inr r" and st: "tr_status r = Test_COMPLETED"
    "map sr_status (tr_execution r) = [Step_PASSED, Step_PASSED, Step_SKIPPED, Step_FAILED]" by (cases a) auto
  from st(2) have "tr_execution r \<noteq> []" by auto
  then have "sr_status (last (tr_execution r)) = Step_FAILED" using st(2) by (metis last.simps last_map list.distinct(1))
  with test_verdict [OF run [unfolded a]] st run a show ?thesis by (auto simp: failed_step_def split: if_splits)
qed

section \<open>Before a test runs again\<close>

lemma unset_all_get:
  "unset_all ns x = Inr y \<Longrightarrow> dict_get (cx_variables y) n = (if n \<in> set ns then None else dict_get (cx_variables x) n)"
  by (induction ns arbitrary: x) (auto simp: unset_variable_def dict_get_pop split: sum.splits if_splits)

text \<open>
  Running a test again starts without what its earlier attempt published: every variable under
  \<open><phase>.<step id>.\<close> of a top-level step is gone and every other variable is as it was.
\<close>

theorem forgotten_outputs:
  assumes "forget_outputs test x = Inr y"
  shows "dict_get (cx_variables y) n =
    (if list_ex (starts_with n) (output_prefixes test) then None else dict_get (cx_variables x) n)"
  using unset_all_get [OF assms [unfolded forget_outputs_def Let_def], of n]
  using dict_get_None_iff [of "cx_variables x" n] by (auto simp: list_ex_iff split: if_splits)

end
