(* ===== verification/Flow.thy ===== *)
theory Flow
  imports Runner
begin

text \<open>
  The steps that run other steps: \<^verbatim>\<open>steps/flow/_nested.py\<close>, \<^verbatim>\<open>conditional.py\<close>, \<^verbatim>\<open>retry.py\<close>, \<^verbatim>\<open>delay.py\<close>.

  A flow step runs its nested steps through the invoker the step runner binds, which is \<open>run_and_publish\<close>. What it
  sends itself is nothing: the calls of a nested step are its own. The steps of the \<open>with:\<close> block are taken as the
  step models bind them.
\<close>

section \<open>What the sub-steps checked\<close>

definition add_checks :: "NestedChecks \<Rightarrow> NestedChecks \<Rightarrow> NestedChecks" where
  "add_checks a b = \<lparr>nc_checks = nc_checks a @ nc_checks b, nc_declared = nc_declared a + nc_declared b\<rparr>"

definition trace_key :: "StepDefinition \<Rightarrow> string" where
  "trace_key d = (if nonempty_text (sd_id d) then the (sd_id d) else last_segment (sd_uses d))"

definition place_check :: "string list \<Rightarrow> StepResult \<Rightarrow> AssertionResult \<Rightarrow> AssertionResult" where
  "place_check path r a = a\<lparr>ar_step_path := path @ ar_step_path a, ar_step_cac := (if ar_step_cac a = [] then sr_cac r else ar_step_cac a)\<rparr>"

fun nested_checks :: "StepDefinition list \<Rightarrow> StepResult list \<Rightarrow> string list \<Rightarrow> NestedChecks" where
  "nested_checks (d # ds) (r # rs) prefix =
     add_checks \<lparr>nc_checks = map (place_check (prefix @ [trace_key d]) r) (sr_assertions r),
         nc_declared = length (or_empty (sd_assertions d)) + sr_nested_declared r\<rparr> (nested_checks ds rs prefix)"
| "nested_checks _ _ prefix = no_checks"

definition nested_step_failed :: "string \<Rightarrow> StepResult \<Rightarrow> NestedChecks \<Rightarrow> exc" where
  "nested_step_failed message failed nested =
     \<lparr>ex_kind = Test_Lab_Error, ex_message = message, ex_code = sr_error_code failed, ex_origin = Some (failure_origin failed),
      ex_diagnostics = None, ex_nested = Some nested\<rparr>"

definition first_failure :: "StepResult list \<Rightarrow> StepResult option" where
  "first_failure results = find (\<lambda>r. sr_status r = Step_FAILED) results"

definition failure_text :: "StepResult \<Rightarrow> string" where
  "failure_text r = [CHR 0x27] @ sr_step_type r @ [CHR 0x27] @ '' -- ''
     @ (case sr_error r of Some (c # s) \<Rightarrow> c # s | _ \<Rightarrow> ''assertion failed'')"

section \<open>Running a sequence\<close>

text \<open>
  \<open>_run_sequence\<close>, the loop the two flow steps share but for the names: \<open>naming\<close> names the nested step for its
  index and type, \<open>label\<close> is the key of the \<open>with:\<close> block it stands under. An exception of the invoker leaves the loop.
\<close>

fun run_sequence ::
  "('r, 'w) run_env \<Rightarrow> (nat \<Rightarrow> string \<Rightarrow> string) \<Rightarrow> string \<Rightarrow> (nat \<times> StepDefinition) list \<Rightarrow> ('r, 'w) World
   \<Rightarrow> ('r, 'w) World \<times> (exc + StepResult list)" where
  "run_sequence env naming label [] w = (w, Inr [])"
| "run_sequence env naming label ((idx, d) # rest) w =
     (case re_get_any env (sd_uses d) of
        None \<Rightarrow> (w, Inr [missing_step_result (naming idx (sd_uses d)) (sd_uses d) Phase_EXECUTION])
      | Some c \<Rightarrow>
          (case run_and_publish env c d (naming idx (sd_uses d)) None (Some (label, idx)) w of
             (w1, Inl e) \<Rightarrow> (w1, Inl e)
           | (w1, Inr r) \<Rightarrow>
               if sr_status r = Step_FAILED then (w1, Inr [r])
               else (case run_sequence env naming label rest w1 of
                       (w2, Inl e) \<Rightarrow> (w2, Inl e) | (w2, Inr rs) \<Rightarrow> (w2, Inr (r # rs)))))"

definition branch_sequence ::
  "('r, 'w) run_env \<Rightarrow> string \<Rightarrow> StepDefinition list \<Rightarrow> ('r, 'w) World \<Rightarrow> ('r, 'w) World \<times> (exc + StepResult list)" where
  "branch_sequence env label ds =
     run_sequence env (\<lambda>i uses. ''if.'' @ label @ ''['' @ nat_text i @ '']:'' @ uses) label (enumerate 0 ds)"

definition retry_sequence ::
  "('r, 'w) run_env \<Rightarrow> StepDefinition list \<Rightarrow> ('r, 'w) World \<Rightarrow> ('r, 'w) World \<times> (exc + StepResult list)" where
  "retry_sequence env ds = run_sequence env (\<lambda>i uses. ''retry['' @ nat_text i @ '']:'' @ uses) ''steps'' (enumerate 0 ds)"

section \<open>flow/if\<close>

record IfCondition =
  ic_input :: pyval
  ic_path :: string
  ic_operator :: string
  ic_value :: pyval

record IfParams =
  ip_conditions :: "IfCondition list"
  ip_match_all :: bool
  ip_then :: "StepDefinition list"
  ip_otherwise :: "StepDefinition list"

definition condition_holds :: "check_env \<Rightarrow> IfCondition \<Rightarrow> exc + bool" where
  "condition_holds env c =
     (case (if ic_path c = [] then Inr (Plain (ic_input c)) else extract_value (en_attr env) (Plain (ic_input c)) (ic_path c)) of
        Inl e \<Rightarrow> Inl e
      | Inr obj \<Rightarrow> map_ok fst (apply_operator env (ic_operator c) (subject_value env obj) (ic_value c)))"

definition plain_output :: "pyval \<Rightarrow> NestedChecks option \<Rightarrow> StepOutput" where
  "plain_output v nested = \<lparr>ou_value = v, ou_request = None, ou_response = None, ou_nested = nested\<rparr>"

definition if_output :: "bool \<Rightarrow> string \<Rightarrow> pyval list \<Rightarrow> pyval" where
  "if_output result taken outputs =
     PDict [(''condition_result'', PBool result), (''branch_taken'', PStr taken), (''outputs'', PList outputs)]"

text \<open>The branch not taken is recorded as skipped, and its checkpoints with it.\<close>

definition skip_branch ::
  "('r, 'w) run_env \<Rightarrow> string \<Rightarrow> StepDefinition list \<Rightarrow> ('r, 'w) World \<Rightarrow> ('r, 'w) World" where
  "skip_branch env label ds w =
     on_tracker env (not_taken label)
       (fold (\<lambda>d v. on_steps (record_outcome (cx_step_namespace (wd_context v)) (sd_id d) Step_SKIPPED None) v) ds w)"

definition finish_branch :: "bool \<Rightarrow> string \<Rightarrow> StepDefinition list \<Rightarrow> StepResult list \<Rightarrow> exc + StepOutput" where
  "finish_branch result label branch results =
     (let nested = nested_checks branch results []
      in case first_failure results of
           Some failed \<Rightarrow> Inl (nested_step_failed
              (''Nested step failed in the '' @ [CHR 0x27] @ label @ [CHR 0x27] @ '' branch: '' @ failure_text failed) failed nested)
         | None \<Rightarrow> Inr (plain_output (if_output result label (map sr_output results)) (Some nested)))"

definition if_execute ::
  "('r, 'w) run_env \<Rightarrow> IfParams \<Rightarrow> ('r, 'w) World \<Rightarrow> ('r, 'w) World \<times> (exc + StepOutput)" where
  "if_execute env p w =
     (case map_err (condition_holds (re_checks env)) (ip_conditions p) of
        Inl e \<Rightarrow> (w, Inl e)
      | Inr outcomes \<Rightarrow>
          (let result = (if ip_match_all p then list_all id outcomes else list_ex id outcomes);
               branch = (if result then ip_then p else ip_otherwise p);
               w1 = skip_branch env (if result then ''else'' else ''then'') (if result then ip_otherwise p else ip_then p) w;
               label = (if result then ''then'' else ''else'')
           in if branch = [] then (w1, Inr (plain_output (if_output result ''none'' []) None))
              else (case branch_sequence env label branch w1 of
                      (w2, Inl e) \<Rightarrow> (w2, Inl e)
                    | (w2, Inr results) \<Rightarrow> (w2, finish_branch result label branch results))))"

section \<open>flow/retry and flow/delay\<close>

record RetryParams =
  rp_steps :: "StepDefinition list"
  rp_max_attempts :: nat
  rp_delay_s :: int

definition has_failure :: "StepResult list \<Rightarrow> bool" where
  "has_failure results = list_ex (\<lambda>r. sr_status r = Step_FAILED) results"

definition sleep :: "int \<Rightarrow> ('r, 'w) World \<Rightarrow> ('r, 'w) World" where
  "sleep d w = w\<lparr>wd_now := wd_now w + d\<rparr>"

text \<open>The \<open>while\<close> loop, on the attempts that are left; it answers the number of the last attempt and its results.\<close>

fun retry_loop ::
  "('r, 'w) run_env \<Rightarrow> RetryParams \<Rightarrow> nat \<Rightarrow> nat \<Rightarrow> StepResult list \<Rightarrow> ('r, 'w) World
   \<Rightarrow> ('r, 'w) World \<times> nat \<times> (exc + StepResult list)" where
  "retry_loop env p 0 attempt results w = (w, attempt, Inr results)"
| "retry_loop env p (Suc remaining) attempt results w =
     (if has_failure results
      then (case retry_sequence env (rp_steps p) (sleep (rp_delay_s p) w) of
              (w1, Inl e) \<Rightarrow> (w1, Suc attempt, Inl e)
            | (w1, Inr again) \<Rightarrow> retry_loop env p remaining (Suc attempt) again w1)
      else (w, attempt, Inr results))"

definition finish_retry :: "StepDefinition list \<Rightarrow> nat \<Rightarrow> StepResult list \<Rightarrow> exc + StepOutput" where
  "finish_retry ds attempt results =
     (let nested = nested_checks ds results []
      in case first_failure results of
           Some failed \<Rightarrow> Inl (nested_step_failed
              (''Nested steps still failing after '' @ nat_text attempt @ '' attempt(s): '' @ failure_text failed) failed nested)
         | None \<Rightarrow> Inr (plain_output (PList (map sr_output results)) (Some nested)))"

definition retry_execute ::
  "('r, 'w) run_env \<Rightarrow> RetryParams \<Rightarrow> ('r, 'w) World \<Rightarrow> ('r, 'w) World \<times> (exc + StepOutput)" where
  "retry_execute env p w =
     (case retry_sequence env (rp_steps p) w of
        (w1, Inl e) \<Rightarrow> (w1, Inl e)
      | (w1, Inr results) \<Rightarrow>
          (case retry_loop env p (rp_max_attempts p - 1) 1 results w1 of
             (w2, attempt, Inl e) \<Rightarrow> (w2, Inl e)
           | (w2, attempt, Inr last_results) \<Rightarrow> (w2, finish_retry (rp_steps p) attempt last_results)))"

definition delay_execute :: "int \<Rightarrow> ('r, 'w) World \<Rightarrow> ('r, 'w) World \<times> (exc + StepOutput)" where
  "delay_execute duration w = (sleep duration w, Inr (plain_output PNone None))"

section \<open>Sequences stop at the first failure\<close>

definition sequence_gives ::
  "('r, 'w) run_env \<Rightarrow> (nat \<Rightarrow> string \<Rightarrow> string) \<Rightarrow> string \<Rightarrow> (nat \<times> StepDefinition) list \<Rightarrow> StepResult list \<Rightarrow> bool" where
  "sequence_gives env naming label ds rs = (\<exists>w w'. run_sequence env naming label ds w = (w', Inr rs))"

definition nested_named :: "(nat \<Rightarrow> string \<Rightarrow> string) \<Rightarrow> nat \<times> StepDefinition \<Rightarrow> StepResult \<Rightarrow> bool" where
  "nested_named naming p r = (sr_step_name r = naming (fst p) (sd_uses (snd p)) \<and> sr_step_type r = sd_uses (snd p))"

lemma run_sequence_Cons:
  assumes "run_sequence env naming label ((idx, d) # ds) w = (w', Inr rs)"
  obtains (failed) r where "rs = [r]" "nested_named naming (idx, d) r" "sr_status r = Step_FAILED"
  | (more) r rest v c u where "rs = r # rest" "nested_named naming (idx, d) r" "sr_status r \<noteq> Step_FAILED"
      "run_sequence env naming label ds v = (w', Inr rest)"
      "re_get_any env (sd_uses d) = Some c" "r = snd (run_step env c d (naming idx (sd_uses d)) None u)"
proof (cases "re_get_any env (sd_uses d)")
  case None
  with assms show thesis by (intro failed) (auto simp: nested_named_def missing_step_result_def step_result0_def)
next
  case (Some c)
  obtain w1 a where run: "run_and_publish env c d (naming idx (sd_uses d)) None (Some (label, idx)) w = (w1, a)" by fastforce
  with Some assms obtain r where a: "a = Inr r" by (cases a) auto
  from run a run_and_publish_result obtain v where r: "r = snd (run_step env c d (naming idx (sd_uses d)) None v)" by blast
  then have named: "nested_named naming (idx, d) r"
    using run_step_result [of env c d "naming idx (sd_uses d)" None v] by (simp add: nested_named_def Let_def)
  show thesis
  proof (cases "sr_status r = Step_FAILED")
    case True
    with Some assms run a named show thesis by (intro failed [of r]) auto
  next
    case False
    with Some assms run a obtain rest where "run_sequence env naming label ds w1 = (w', Inr rest)" "rs = r # rest"
      by (auto split: prod.splits sum.splits)
    with False Some named r show thesis by (intro more [of r rest w1 c v])
  qed
qed

interpretation nested: stopping_sequence "sequence_gives env naming label" "nested_named naming"
  for env :: "('r, 'w) run_env" and naming label
proof
  show "sequence_gives env naming label [] rs \<Longrightarrow> rs = []" for rs
    by (simp add: sequence_gives_def)
  fix p ds rs
  assume "sequence_gives env naming label (p # ds) rs"
  then obtain idx d w w' where p: "p = (idx, d)" and run: "run_sequence env naming label ((idx, d) # ds) w = (w', Inr rs)"
    by (cases p) (auto simp: sequence_gives_def)
  from run show "\<exists>r rest. rs = r # rest \<and> nested_named naming p r
      \<and> (if sr_status r = Step_FAILED then rest = [] else sequence_gives env naming label ds rest)"
    by (cases rule: run_sequence_Cons) (auto simp: p sequence_gives_def)
qed

lemma sequence_passed:
  assumes "run_sequence env naming label ds w = (w', Inr rs)" and "\<not> has_failure rs"
  shows "length rs = length ds"
proof -
  have "sequence_gives env naming label ds rs" using assms(1) by (auto simp: sequence_gives_def)
  then have "length rs \<le> length ds" "length rs < length ds \<Longrightarrow> rs \<noteq> [] \<and> sr_status (last rs) = Step_FAILED"
    using nested.no_extra_results nested.ends_early_on_failure by blast+
  with assms(2) show ?thesis by (force simp: has_failure_def list_ex_iff)
qed

section \<open>Retrying\<close>

text \<open>What the attempts would give one after another: the first, and after each the next one behind its delay.\<close>

fun attempt_at :: "('r, 'w) run_env \<Rightarrow> RetryParams \<Rightarrow> nat \<Rightarrow> ('r, 'w) World \<Rightarrow> ('r, 'w) World \<times> (exc + StepResult list)" where
  "attempt_at env p 0 w = retry_sequence env (rp_steps p) w"
| "attempt_at env p (Suc n) w = retry_sequence env (rp_steps p) (sleep (rp_delay_s p) (fst (attempt_at env p n w)))"

definition attempt_settles :: "exc + StepResult list \<Rightarrow> bool" where
  "attempt_settles a = (case a of Inl _ \<Rightarrow> True | Inr rs \<Rightarrow> \<not> has_failure rs)"

text \<open>The attempt a retry ends with: the first that settles, or the last it is allowed.\<close>

definition last_attempt :: "('r, 'w) run_env \<Rightarrow> RetryParams \<Rightarrow> ('r, 'w) World \<Rightarrow> nat" where
  "last_attempt env p w = (case find (\<lambda>n. attempt_settles (snd (attempt_at env p n w))) [0..<rp_max_attempts p] of
     None \<Rightarrow> rp_max_attempts p - 1 | Some n \<Rightarrow> n)"

lemma retry_loop_attempts:
  assumes "\<forall>m<n. \<not> attempt_settles (snd (attempt_at env p m w))" and "attempt_at env p n w = (v, Inr results)"
  shows "\<exists>k\<ge>n. k \<le> n + remaining \<and> (\<forall>m<k. \<not> attempt_settles (snd (attempt_at env p m w)))
    \<and> (k = n + remaining \<or> attempt_settles (snd (attempt_at env p k w)))
    \<and> retry_loop env p remaining (Suc n) results v = (fst (attempt_at env p k w), Suc k, snd (attempt_at env p k w))"
  using assms
proof (induction remaining arbitrary: n v results)
  case 0
  then show ?case by (intro exI [of _ n]) simp
next
  case (Suc remaining)
  show ?case
  proof (cases "has_failure results")
    case False
    with Suc.prems show ?thesis by (intro exI [of _ n]) (simp add: attempt_settles_def)
  next
    case True
    obtain v1 a where next1: "attempt_at env p (Suc n) w = (v1, a)" by fastforce
    have before: "\<forall>m<Suc n. \<not> attempt_settles (snd (attempt_at env p m w))"
      using Suc.prems True by (auto simp: less_Suc_eq attempt_settles_def)
    show ?thesis
    proof (cases a)
      case (Inl e)
      with next1 before True Suc.prems(2) show ?thesis
        by (intro exI [of _ "Suc n"]) (simp add: attempt_settles_def)
    next
      case (Inr again)
      from Suc.IH [OF before next1 [unfolded Inr]] obtain k where k: "k \<ge> Suc n" "k \<le> Suc n + remaining"
        "\<forall>m<k. \<not> attempt_settles (snd (attempt_at env p m w))" "k = Suc n + remaining \<or> attempt_settles (snd (attempt_at env p k w))"
        "retry_loop env p remaining (Suc (Suc n)) again v1 = (fst (attempt_at env p k w), Suc k, snd (attempt_at env p k w))"
        by blast
      have "retry_loop env p (Suc remaining) (Suc n) results v = retry_loop env p remaining (Suc (Suc n)) again v1"
        using True next1 Inr Suc.prems(2) by simp
      with k show ?thesis by (intro exI [of _ k]) auto
    qed
  qed
qed

lemma find_upt:
  assumes "k < n" "P k" "\<forall>m<k. \<not> P m"
  shows "find P [0..<n] = Some k"
  using assms by (auto simp: find_Some_iff intro!: exI [of _ k])

lemma last_attempt_reached:
  assumes "k < rp_max_attempts p" "\<forall>m<k. \<not> attempt_settles (snd (attempt_at env p m w))"
    and "k = rp_max_attempts p - 1 \<or> attempt_settles (snd (attempt_at env p k w))"
  shows "last_attempt env p w = k"
proof (cases "attempt_settles (snd (attempt_at env p k w))")
  case True
  with assms show ?thesis by (simp add: last_attempt_def find_upt)
next
  case False
  with assms have k: "k = rp_max_attempts p - 1" by simp
  have "find (\<lambda>n. attempt_settles (snd (attempt_at env p n w))) [0..<rp_max_attempts p] = None"
    using assms False k by (auto simp: find_None_iff less_Suc_eq) (metis Suc_pred less_Suc_eq less_zeroE neq0_conv)
  with k show ?thesis by (simp add: last_attempt_def)
qed

text \<open>C13. 
  A retried block ends with its first attempt in which no nested step failed, or with the last attempt it is
  allowed: the result, the checks and the world are those of that attempt alone. No attempt is made after it, and
  never more than \<open>max_attempts\<close>.
\<close>

theorem retry_ends_with_first_success:
  assumes "1 \<le> rp_max_attempts p"
  shows "retry_execute env p w =
      (let n = last_attempt env p w
       in (fst (attempt_at env p n w), case snd (attempt_at env p n w) of
             Inl e \<Rightarrow> Inl e | Inr results \<Rightarrow> finish_retry (rp_steps p) (Suc n) results))
    \<and> last_attempt env p w < rp_max_attempts p
    \<and> (\<forall>m < last_attempt env p w. \<not> attempt_settles (snd (attempt_at env p m w)))"
proof -
  obtain v a where first: "attempt_at env p 0 w = (v, a)" by fastforce
  show ?thesis
  proof (cases a)
    case (Inl e)
    have "last_attempt env p w = 0"
      using first Inl assms by (intro last_attempt_reached) (auto simp: attempt_settles_def)
    with first Inl assms show ?thesis by (simp add: retry_execute_def)
  next
    case (Inr results)
    obtain k where k: "k \<le> rp_max_attempts p - 1" "\<forall>m<k. \<not> attempt_settles (snd (attempt_at env p m w))"
      "k = rp_max_attempts p - 1 \<or> attempt_settles (snd (attempt_at env p k w))"
      "retry_loop env p (rp_max_attempts p - 1) 1 results v = (fst (attempt_at env p k w), Suc k, snd (attempt_at env p k w))"
      using retry_loop_attempts [of 0 env p w v results "rp_max_attempts p - 1"] first Inr by auto
    then have "last_attempt env p w = k" using assms by (intro last_attempt_reached) auto
    with k first Inr assms show ?thesis
      by (auto simp: retry_execute_def Let_def split: sum.splits)
  qed
qed

section \<open>No check is lost\<close>

text \<open>Every check a step and its nested steps declare has a result.\<close>

definition all_checked :: "StepDefinition \<Rightarrow> StepResult \<Rightarrow> bool" where
  "all_checked d r = (length (sr_assertions r) = length (or_empty (sd_assertions d)) + sr_nested_declared r)"

definition nested_complete :: "StepOutput \<Rightarrow> bool" where
  "nested_complete ou = (case ou_nested ou of None \<Rightarrow> True | Some n \<Rightarrow> length (nc_checks n) = nc_declared n)"

definition reports_nested :: "('r, 'w) step_class \<Rightarrow> bool" where
  "reports_nested c = (\<forall>p d w. case snd (snd (sc_invoke c p d w)) of Inl _ \<Rightarrow> True | Inr ou \<Rightarrow> nested_complete ou)"

lemma map_err_length: "map_err f xs = Inr ys \<Longrightarrow> length ys = length xs"
  by (induction xs arbitrary: ys) (auto split: sum.splits)

lemma check_step_length:
  assumes "check_step env c d ou w = (w', Inr own)"
  shows "length own = length (or_empty (sd_assertions d))"
  using assms
  by (auto simp: check_step_def evaluate_def resolve_assertions_def split: sum.splits list.splits dest!: map_err_length)

lemma run_step_all_checked:
  assumes "reports_nested c" and "sr_error (snd (run_step env c d name given w)) = None"
  shows "all_checked d (snd (run_step env c d name given w))"
proof -
  have failed: "\<And>s f i e. sr_error (failed_result d name s f i e) = Some ((if engine_fault e then ENGINE_FAULT_PREFIX else []) @ ex_message e)"
    by (simp add: failed_result_def Let_def)
  have answered: "all_checked d (answered_result d name s f params ou own)"
    if "nested_complete ou" "length own = length (or_empty (sd_assertions d))" for s f params ou own
    using that by (auto simp: all_checked_def answered_result_def nested_complete_def no_checks_def step_result0_def Let_def split: option.splits)
  have guarded: "sr_error r = None \<Longrightarrow> all_checked d r" if g: "run_step_guarded env c d name given w = (w1, calls, r)" for w1 calls r
  proof -
    assume none: "sr_error r = None"
    define resolved where "resolved = (case given of Some p \<Rightarrow> Inr p
      | None \<Rightarrow> resolve_params (or_empty (sd_with d)) (wd_context w) (sc_deferred c) (sc_carriers c))"
    from g none failed obtain params where p: "resolved = Inr params"
      by (cases resolved) (auto simp: run_step_guarded_def resolved_def [symmetric])
    obtain v cs a where i: "sc_invoke c params d (mask_secret_inputs env (Some c) (Some params) w) = (v, cs, a)"
      by (metis prod_cases3)
    from g none failed p i obtain ou where a: "a = Inr ou"
      by (cases a) (auto simp: run_step_guarded_def resolved_def [symmetric])
    obtain v2 own where k: "check_step env c d ou v = (v2, own)" by fastforce
    from g none failed p i a k obtain checks where "own = Inr checks" "r = answered_result d name (wd_now w) (wd_now v2) params ou checks"
      by (cases own) (auto simp: run_step_guarded_def resolved_def [symmetric])
    moreover have "nested_complete ou"
      using assms(1) i a unfolding reports_nested_def by (metis (no_types, lifting) snd_conv sum.case(2))
    ultimately show ?thesis using answered check_step_length k by blast
  qed
  obtain w1 calls r where g: "run_step_guarded env c d name given w = (w1, calls, r)" by (metis prod_cases3)
  have same: "sr_error (attach_to r calls) = sr_error r" "sr_assertions (attach_to r calls) = sr_assertions r"
    "sr_nested_declared (attach_to r calls) = sr_nested_declared r" by (auto simp: attach_to_def Let_def)
  show ?thesis using assms(2) guarded [OF g] g same by (simp add: run_step_def all_checked_def)
qed

lemma nested_checks_complete:
  "list_all2 all_checked ds rs \<Longrightarrow> length (nc_checks (nested_checks ds rs prefix)) = nc_declared (nested_checks ds rs prefix)"
  by (induction rule: list_all2_induct) (auto simp: no_checks_def add_checks_def all_checked_def)

lemma sequence_all_checked:
  assumes "run_sequence env naming label ds w = (w', Inr rs)" and "\<not> has_failure rs"
    and "\<And>uses c. re_get_any env uses = Some c \<Longrightarrow> reports_nested c"
  shows "list_all2 all_checked (map snd ds) rs"
  using assms(1,2)
proof (induction ds arbitrary: w rs)
  case (Cons p ds)
  obtain idx d where p: "p = (idx, d)" by fastforce
  from Cons.prems(1) [unfolded p] show ?case
  proof (cases rule: run_sequence_Cons)
    case (failed r)
    with Cons.prems(2) show ?thesis by (simp add: has_failure_def)
  next
    case (more r rest v c u)
    have "sr_error r = None"
      using run_step_result [of env c d "naming idx (sd_uses d)" None u] more(3,6) by (simp add: Let_def)
    then have "all_checked d r" using run_step_all_checked more(6) assms(3) [OF more(5)] by blast
    with Cons.IH [OF more(4)] Cons.prems(2) more(1) p show ?thesis by (simp add: has_failure_def)
  qed
qed simp

lemma first_failure_None: "first_failure rs = None \<longleftrightarrow> \<not> has_failure rs"
  by (auto simp: first_failure_def has_failure_def find_None_iff list_ex_iff)

lemma finished_complete:
  assumes "list_all2 all_checked ds rs"
  shows "finish_branch result label ds rs = Inr ou \<Longrightarrow> nested_complete ou"
    and "finish_retry ds n rs = Inr ou \<Longrightarrow> nested_complete ou"
  using nested_checks_complete [OF assms, of "[]"]
  by (auto simp: finish_branch_def finish_retry_def nested_complete_def plain_output_def Let_def split: option.splits)

lemma retry_loop_answer:
  assumes "retry_loop env p n k results w = (w', m, Inr rs)"
  shows "rs = results \<or> (\<exists>v v'. retry_sequence env (rp_steps p) v = (v', Inr rs))"
  using assms
  by (induction n arbitrary: k results w) (fastforce split: if_splits prod.splits sum.splits)+


definition demo_if :: IfParams where
  "demo_if = \<lparr>ip_conditions = [\<lparr>ic_input = PStr ''a'', ic_path = [], ic_operator = ''equals'', ic_value = PStr ''a''\<rparr>], ip_match_all = True,
     ip_then = [demo_step ''n'' ''util/echo'' None []], ip_otherwise = [demo_step ''m'' ''util/broken'' None []]\<rparr>"

definition demo_retry :: RetryParams where
  "demo_retry = \<lparr>rp_steps = [demo_step ''n'' ''util/echo'' None [], demo_step ''m'' ''util/broken'' None []], rp_max_attempts = 3, rp_delay_s = 5\<rparr>"

lemma demo_reports: "re_get_any demo_run uses = Some c \<Longrightarrow> reports_nested c"
  by (auto simp: demo_run_def demo_get_def echo_class_def broken_class_def reports_nested_def nested_complete_def split: if_splits)

lemma demo_flow:
  "map_ok ou_value (snd (if_execute demo_run demo_if demo_world)) = Inr (if_output True ''then'' [PDict [(''token'', PStr ''abc'')]])"
  "(case retry_execute demo_run demo_retry demo_world of (w, Inl e) \<Rightarrow> (wd_now w, ex_origin e) | _ \<Rightarrow> (0, None)) = (10, Some ''sut'')"
  by code_simp+


theorem retry_ends_with_first_success_witness:
  "last_attempt demo_run demo_retry demo_world < 3
   \<and> wd_now (fst (attempt_at demo_run demo_retry (last_attempt demo_run demo_retry demo_world) demo_world)) = 10"
proof -
  have "1 \<le> rp_max_attempts demo_retry" "rp_max_attempts demo_retry = 3" by (simp_all add: demo_retry_def)
  with retry_ends_with_first_success [of demo_retry demo_run demo_world] demo_flow(2) show ?thesis
    by (auto simp: Let_def split: sum.splits)
qed

section \<open>A test whose steps all pass\<close>

definition all_classes_report :: "('r, 'w) run_env \<Rightarrow> bool" where
  "all_classes_report env = (\<forall>uses version c. re_get env uses version = Some c \<longrightarrow> reports_nested c)"

lemma resolve_and_run_step_checked:
  assumes "all_classes_report env"
    and "resolve_and_run_step env test d name cfg params w results = (w', results @ [r], Inr stop)" and "sr_status r = Step_PASSED"
  shows "all_checked d r"
proof (cases "re_get env (sd_uses d) (ts_dataspace_version test)")
  case None
  with assms show ?thesis by (auto simp: resolve_and_run_step_def missing_step_result_def step_result0_def Let_def)
next
  case (Some c)
  obtain w1 answer where run: "run_and_publish env c d name params None (on_tracker env (begin_step (wd_now w)) w) = (w1, answer)"
    by fastforce
  with Some assms(2) obtain r0 where r: "answer = Inr r0" "r = r0\<lparr>sr_phase := ph_phase cfg\<rparr>"
    by (cases answer) (auto simp: resolve_and_run_step_def Let_def)
  from run r obtain v where v: "r0 = snd (run_step env c d name params v)" using run_and_publish_result by blast
  with assms(3) r run_step_result [of env c d name params v] have "sr_error r0 = None" by (simp add: Let_def)
  moreover have "reports_nested c" using Some assms(1) by (auto simp: all_classes_report_def)
  ultimately have "all_checked d r0" unfolding v using run_step_all_checked by blast
  with r show ?thesis by (simp add: all_checked_def)
qed

lemma run_phase_step_checked:
  assumes "all_classes_report env"
    and "run_phase_step env test idx d cfg w results = (w', results @ [r], Inr stop)" and "sr_status r = Step_PASSED"
  shows "all_checked d r"
  using assms(2,3) resolve_and_run_step_checked [OF assms(1)]
  by (auto simp: run_phase_step_def run_announced_step_def skipped_result_def step_result0_def Let_def split: sum.splits if_splits)

lemma run_steps_checked:
  assumes "all_classes_report env" and "run_steps env test cfg ds w results = (w', results @ rs, Inr st)"
    and "list_all (\<lambda>r. sr_status r = Step_PASSED) rs"
  shows "list_all2 all_checked (take (length rs) (map snd ds)) rs"
  using assms(2,3)
proof (induction ds arbitrary: w results rs)
  case (Cons p ds)
  obtain idx d where p: "p = (idx, d)" by fastforce
  from Cons.prems(1) [unfolded p] show ?case
  proof (cases rule: run_steps_Cons)
    case (failed r)
    with Cons.prems(2) show ?thesis by simp
  next
    case (more r v)
    from run_steps_extends [OF more(3)] obtain rest where rs: "rs = r # rest" by auto
    with more(3) have "run_steps env test cfg ds v (results @ [r]) = (w', (results @ [r]) @ rest, Inr st)" by simp
    from Cons.IH [OF this] Cons.prems(2) rs have "list_all2 all_checked (take (length rest) (map snd ds)) rest" by simp
    moreover have "all_checked d r"
      using more(4) run_phase_step_checked [OF assms(1)] Cons.prems(2) rs by auto
    ultimately show ?thesis using rs p by simp
  qed simp
qed simp

lemma phase_checked:
  assumes "all_classes_report env" "run_phase env test cfg w = (w', rs, Inr st)" "list_all (\<lambda>r. sr_status r = Step_PASSED) rs"
    and "length rs = length (steps_for_phase test (ph_phase cfg))"
  shows "list_all2 all_checked (steps_for_phase test (ph_phase cfg)) rs"
    and "map sr_step_type rs = map sd_uses (steps_for_phase test (ph_phase cfg))"
proof -
  show "list_all2 all_checked (steps_for_phase test (ph_phase cfg)) rs"
    using run_steps_checked [where results = "[]", simplified, OF assms(1) assms(2) [unfolded run_phase_def] assms(3)] assms(4)
    by simp
  have "list_all2 (\<lambda>d r. sr_step_type r = sd_uses d) (steps_for_phase test (ph_phase cfg)) rs"
    using phase_results(1) [OF assms(2)] assms(4)
    by (simp add: list_all2_conv_all_nth step_named_def nth_enumerate_eq)
  then show "map sr_step_type rs = map sd_uses (steps_for_phase test (ph_phase cfg))"
    by (simp add: list_all2_conv_all_nth list_eq_iff_nth_eq)
qed

lemma checked_totals:
  "list_all2 all_checked ds rs \<Longrightarrow>
   sum_list (map (\<lambda>r. length (sr_assertions r)) rs) = sum_list (map (\<lambda>d. length (or_empty (sd_assertions d))) ds) + sum_list (map sr_nested_declared rs)"
  by (induction rule: list_all2_induct) (auto simp: all_checked_def)

lemma length_or_empty: "length (or_empty xs) = (case xs of None \<Rightarrow> 0 | Some ys \<Rightarrow> length ys)"
  by (simp add: or_empty_def split: option.split)

lemma declared_when_all_ran:
  assumes "map sr_step_type rs = map sd_uses (td_setup (ts_definition test) @ td_execution (ts_definition test) @ td_teardown (ts_definition test))"
    and "list_all (\<lambda>r. sr_status r = Step_PASSED) rs"
  shows "declared_checks test rs = sum_list (map (\<lambda>d. length (or_empty (sd_assertions d)))
      (td_setup (ts_definition test) @ td_execution (ts_definition test) @ td_teardown (ts_definition test))) + sum_list (map sr_nested_declared rs)"
proof -
  let ?ds = "td_setup (ts_definition test) @ td_execution (ts_definition test) @ td_teardown (ts_definition test)"
  have "[r \<leftarrow> rs. sr_status r \<noteq> Step_SKIPPED] = rs" using assms(2) by (auto simp: list_all_iff filter_id_conv)
  moreover have "[d \<leftarrow> ?ds. sd_uses d \<in> set (map sr_step_type rs)] = ?ds"
    unfolding assms(1) by (auto simp: filter_id_conv)
  ultimately show ?thesis
    unfolding declared_checks_def Let_def by (simp add: length_or_empty [symmetric] del: filter_append map_append)
qed


definition passing_test :: Test where
  "passing_test = (demo_tests [demo_step ''b'' ''util/echo'' None []])
     \<lparr>ts_definition := (ts_definition (demo_tests [demo_step ''b'' ''util/echo'' None []]))\<lparr>td_teardown := []\<rparr>\<rparr>"

lemma passing_test_run:
  "map_ok (\<lambda>r. map sr_status (tr_execution r)) (snd (run_test demo_run passing_test demo_world)) = Inr [Step_PASSED, Step_PASSED]"
  by code_simp


end
