(* ===== verification/Session.thy ===== *)
theory Session
  imports Flow
begin

text \<open>
  A run of a TCK: \<^verbatim>\<open>player/execution/session.py\<close>, \<open>open_session\<close> and \<open>run_tck\<close> of \<^verbatim>\<open>player.py\<close>, and \<open>finalize_job\<close> of
  \<^verbatim>\<open>_trace_formatter.py\<close>.

  A session is a record with the world its tests run in. Its lock makes the operations sequential, so each is one
  function on the record that answers a value or the exception it raises. What \<open>wire.as_kept\<close> makes of the verdict is
  the argument \<open>keep\<close>; the services, the mock server and the log files it releases are not part of the world.
\<close>

section \<open>The session\<close>

record ('r, 'w) TckSession =
  ss_tck_id :: string
  ss_name :: string
  ss_tests :: "Test list"
  ss_skip_ids :: "string set"
  ss_results :: "(string, TestResult) pydict"
  ss_attempts :: "(string, nat) pydict"
  ss_started_at :: int
  ss_closed :: bool
  ss_result :: "TckResult option"
  ss_unfinished :: "(Test \<times> nat) option"
  ss_world :: "('r, 'w) World"

definition new_session :: "string \<Rightarrow> string \<Rightarrow> Test list \<Rightarrow> string set \<Rightarrow> ('r, 'w) World \<Rightarrow> ('r, 'w) TckSession" where
  "new_session tck_id name tests skip_ids w =
     \<lparr>ss_tck_id = tck_id, ss_name = name, ss_tests = tests, ss_skip_ids = skip_ids, ss_results = [], ss_attempts = [],
      ss_started_at = wd_now w, ss_closed = False, ss_result = None, ss_unfinished = None, ss_world = w\<rparr>"

definition session_closed_error :: "string \<Rightarrow> exc" where
  "session_closed_error message = key_error message"

definition on_world :: "(('r, 'w) World \<Rightarrow> ('r, 'w) World) \<Rightarrow> ('r, 'w) TckSession \<Rightarrow> ('r, 'w) TckSession" where
  "on_world f s = s\<lparr>ss_world := f (ss_world s)\<rparr>"

definition set_result :: "Test \<Rightarrow> TestResult \<Rightarrow> ('r, 'w) TckSession \<Rightarrow> ('r, 'w) TckSession" where
  "set_result test r s = s\<lparr>ss_results := dict_set (ts_test_id test) r (ss_results s)\<rparr>"

definition find_test :: "('r, 'w) TckSession \<Rightarrow> string \<Rightarrow> exc + (nat \<times> Test)" where
  "find_test s test_id =
     (case find (\<lambda>(idx, test). test_id = ts_test_id test \<or> test_id = td_id (ts_definition test)) (enumerate 0 (ss_tests s)) of
        None \<Rightarrow> Inl (key_error (''TCK '' @ [CHR 0x27] @ ss_tck_id s @ [CHR 0x27] @ '' has no test '' @ [CHR 0x27] @ test_id @ [CHR 0x27]))
      | Some p \<Rightarrow> Inr p)"

definition session_on_demand :: "('r, 'w) TckSession \<Rightarrow> Test list" where
  "session_on_demand s = filter ts_on_demand (ss_tests s)"

definition attempts_of_test :: "string \<Rightarrow> ('r, 'w) TckSession \<Rightarrow> nat" where
  "attempts_of_test i s = (case dict_get (ss_attempts s) i of None \<Rightarrow> 0 | Some n \<Rightarrow> n)"

definition session_attempts :: "('r, 'w) TckSession \<Rightarrow> string \<Rightarrow> exc + nat" where
  "session_attempts s test_id = map_ok (\<lambda>(idx, test). attempts_of_test (ts_test_id test) s) (find_test s test_id)"

definition session_latest :: "('r, 'w) TckSession \<Rightarrow> string \<Rightarrow> exc + TestResult option" where
  "session_latest s test_id = map_ok (\<lambda>(idx, test). dict_get (ss_results s) (ts_test_id test)) (find_test s test_id)"

section \<open>One test\<close>

definition test_begins :: "('r, 'w) run_env \<Rightarrow> nat \<Rightarrow> Test \<Rightarrow> nat \<Rightarrow> bool \<Rightarrow> ('r, 'w) World \<Rightarrow> ('r, 'w) World" where
  "test_begins env idx test attempt skipped =
     on_monitor (on_test_started (re_wire env) (re_job env) (td_id (ts_definition test)) idx attempt skipped)"

definition test_ends :: "('r, 'w) run_env \<Rightarrow> TestResult \<Rightarrow> nat \<Rightarrow> ('r, 'w) World \<Rightarrow> ('r, 'w) World" where
  "test_ends env r attempt w =
     on_monitor (on_test_completed (re_wire env) (re_job env) r attempt (run_cancelled env w)) w"

definition set_current_test :: "('r, 'w) run_env \<Rightarrow> string \<Rightarrow> ('r, 'w) World \<Rightarrow> ('r, 'w) World" where
  "set_current_test env name w =
     (case get_job (re_job env) (hd_jobs (wd_held w)) of
        None \<Rightarrow> w
      | Some j \<Rightarrow> w\<lparr>wd_held := (wd_held w)\<lparr>hd_jobs := put_job (re_job env) (j\<lparr>job_current_test := Some name\<rparr>) (hd_jobs (wd_held w))\<rparr>\<rparr>)"

definition session_run ::
  "('r, 'w) run_env \<Rightarrow> nat \<Rightarrow> Test \<Rightarrow> ('r, 'w) TckSession \<Rightarrow> ('r, 'w) TckSession \<times> (exc + TestResult)" where
  "session_run env idx test s =
     (let attempt = Suc (attempts_of_test (ts_test_id test) s)
      in case (if attempt > 1 then forget_outputs test (wd_context (ss_world s)) else Inr (wd_context (ss_world s))) of
           Inl e \<Rightarrow> (s, Inl e)
         | Inr x \<Rightarrow>
             (let w1 = set_current_test env (ts_name test) (test_begins env idx test attempt False ((ss_world s)\<lparr>wd_context := x\<rparr>));
                  s1 = s\<lparr>ss_attempts := dict_set (ts_test_id test) attempt (ss_attempts s), ss_unfinished := Some (test, attempt)\<rparr>
              in case run_test env test w1 of
                   (w2, Inl e) \<Rightarrow> (s1\<lparr>ss_world := w2\<rparr>, Inl e)
                 | (w2, Inr r) \<Rightarrow> (set_result test r (s1\<lparr>ss_unfinished := None, ss_world := test_ends env r attempt w2\<rparr>), Inr r)))"

definition session_skip :: "('r, 'w) run_env \<Rightarrow> nat \<Rightarrow> Test \<Rightarrow> ('r, 'w) TckSession \<Rightarrow> ('r, 'w) TckSession" where
  "session_skip env idx test s =
     (let r = make_intentionally_skipped_result test (wd_now (ss_world s))
      in on_world (\<lambda>w. test_ends env r 1 (test_begins env idx test 1 True w)) (set_result test r s))"

definition end_unfinished :: "('r, 'w) run_env \<Rightarrow> ('r, 'w) TckSession \<Rightarrow> ('r, 'w) TckSession" where
  "end_unfinished env s =
     (case ss_unfinished s of
        None \<Rightarrow> s
      | Some (test, attempt) \<Rightarrow>
          (let r = make_interrupted_result test (wd_now (ss_world s))
           in on_world (test_ends env r attempt) (set_result test r (s\<lparr>ss_unfinished := None\<rparr>))))"

definition run_scheduled_test ::
  "('r, 'w) run_env \<Rightarrow> nat \<Rightarrow> Test \<Rightarrow> ('r, 'w) TckSession \<Rightarrow> ('r, 'w) TckSession \<times> (exc + TestResult)" where
  "run_scheduled_test env idx test s =
     (if ss_closed s then (s, Inl (session_closed_error (''The session of job '' @ [CHR 0x27] @ re_job env @ [CHR 0x27] @ '' is closed'')))
      else if ts_test_id test \<in> ss_skip_ids s \<or> run_cancelled env (ss_world s)
      then (let s1 = session_skip env idx test s in (s1, Inr (the (dict_get (ss_results s1) (ts_test_id test)))))
      else session_run env idx test s)"

section \<open>Running tests\<close>

fun run_tests ::
  "('r, 'w) run_env \<Rightarrow> (nat \<times> Test) list \<Rightarrow> ('r, 'w) TckSession \<Rightarrow> ('r, 'w) TckSession \<times> (exc + TestResult list)" where
  "run_tests env [] s = (s, Inr [])"
| "run_tests env ((idx, test) # rest) s =
     (case run_scheduled_test env idx test s of
        (s1, Inl e) \<Rightarrow> (s1, Inl e)
      | (s1, Inr r) \<Rightarrow> (case run_tests env rest s1 of (s2, Inl e) \<Rightarrow> (s2, Inl e) | (s2, Inr rs) \<Rightarrow> (s2, Inr (r # rs))))"

definition run_all :: "('r, 'w) run_env \<Rightarrow> ('r, 'w) TckSession \<Rightarrow> ('r, 'w) TckSession \<times> (exc + TestResult list)" where
  "run_all env s = run_tests env (enumerate 0 (ss_tests s)) s"

definition announce_awaiting :: "('r, 'w) run_env \<Rightarrow> ('r, 'w) TckSession \<Rightarrow> ('r, 'w) TckSession" where
  "announce_awaiting env s =
     on_world (on_monitor (fold (\<lambda>(idx, test). on_test_awaiting (re_job env) (td_id (ts_definition test)) idx)
        (filter (\<lambda>(idx, test). ts_on_demand test \<and> \<not> dict_has (ss_results s) (ts_test_id test)) (enumerate 0 (ss_tests s))))) s"

definition run_scheduled :: "('r, 'w) run_env \<Rightarrow> ('r, 'w) TckSession \<Rightarrow> ('r, 'w) TckSession \<times> (exc + TestResult list)" where
  "run_scheduled env s =
     (case run_tests env (filter (\<lambda>(idx, test). \<not> ts_on_demand test) (enumerate 0 (ss_tests s))) s of
        (s1, Inl e) \<Rightarrow> (s1, Inl e) | (s1, Inr rs) \<Rightarrow> (announce_awaiting env s1, Inr rs))"

definition session_run_test :: "('r, 'w) run_env \<Rightarrow> string \<Rightarrow> ('r, 'w) TckSession \<Rightarrow> ('r, 'w) TckSession \<times> (exc + TestResult)" where
  "session_run_test env test_id s =
     (case find_test s test_id of
        Inl e \<Rightarrow> (s, Inl e)
      | Inr (idx, test) \<Rightarrow>
          if ss_closed s then (s, Inl (session_closed_error (''The session of job '' @ [CHR 0x27] @ re_job env @ [CHR 0x27] @ '' is closed'')))
          else session_run env idx test s)"

section \<open>Closing\<close>

definition keep_result :: "(TckResult \<Rightarrow> 'r) \<Rightarrow> string \<Rightarrow> TckResult \<Rightarrow> 'r JobManager \<Rightarrow> 'r JobManager" where
  "keep_result keep i r m =
     (case get_job i m of None \<Rightarrow> m | Some j \<Rightarrow> put_job i (j\<lparr>job_result := Some (keep r)\<rparr>) m)"

definition on_jobs :: "('r JobManager \<Rightarrow> 'r JobManager) \<Rightarrow> ('r, 'w) World \<Rightarrow> ('r, 'w) World" where
  "on_jobs f w = w\<lparr>wd_held := (wd_held w)\<lparr>hd_jobs := f (hd_jobs (wd_held w))\<rparr>\<rparr>"

definition finalize_job ::
  "('r, 'w) run_env \<Rightarrow> (TckResult \<Rightarrow> 'r) \<Rightarrow> TckResult \<Rightarrow> ('r, 'w) World \<Rightarrow> ('r, 'w) World \<times> exc option" where
  "finalize_job env keep r w =
     (let i = re_job env; w1 = on_jobs (keep_result keep i r) w; jobs = hd_jobs (wd_held w1)
      in if is_cancelled i jobs then (on_monitor (on_job_cancelled (re_wire env) i) w1, None)
         else if kr_status r \<in> set NON_FAILING_STATUSES
         then (case complete i (wd_now w1) jobs of
                 Inl e \<Rightarrow> (w1, Some (key_error i))
               | Inr m \<Rightarrow> (on_monitor (on_job_completed (re_wire env) i) (on_jobs (\<lambda>_. m) w1), None))
         else (case fail i ''One or more tests failed'' (wd_now w1) jobs of
                 Inl e \<Rightarrow> (w1, Some (key_error i))
               | Inr m \<Rightarrow> (on_monitor (on_job_failed (re_wire env) i (Some ''One or more tests failed'')) (on_jobs (\<lambda>_. m) w1), None)))"

fun skip_missing :: "('r, 'w) run_env \<Rightarrow> (nat \<times> Test) list \<Rightarrow> ('r, 'w) TckSession \<Rightarrow> ('r, 'w) TckSession" where
  "skip_missing env [] s = s"
| "skip_missing env ((idx, test) # rest) s =
     skip_missing env rest (if dict_has (ss_results s) (ts_test_id test) then s else session_skip env idx test s)"

definition session_verdict :: "('r, 'w) TckSession \<Rightarrow> TckResult" where
  "session_verdict s =
     build_tck_result (ss_name s) (map (\<lambda>test. the (dict_get (ss_results s) (ts_test_id test))) (ss_tests s))
       (ss_started_at s) (wd_now (ss_world s))"

definition session_close ::
  "('r, 'w) run_env \<Rightarrow> (TckResult \<Rightarrow> 'r) \<Rightarrow> ('r, 'w) TckSession \<Rightarrow> ('r, 'w) TckSession \<times> (exc + TckResult)" where
  "session_close env keep s =
     (if ss_closed s
      then (s, case ss_result s of
                 None \<Rightarrow> Inl (session_closed_error (''The session of job '' @ [CHR 0x27] @ re_job env @ [CHR 0x27] @ '' failed to close''))
               | Some r \<Rightarrow> Inr r)
      else
        (let s1 = skip_missing env (enumerate 0 (ss_tests s)) (end_unfinished env (s\<lparr>ss_closed := True\<rparr>));
             r = session_verdict s1;
             (w, failed) = finalize_job env keep r (ss_world s1)
         in case failed of
              Some e \<Rightarrow> (s1\<lparr>ss_world := w\<rparr>, Inl e)
            | None \<Rightarrow> (s1\<lparr>ss_world := w, ss_result := Some r\<rparr>, Inr r)))"

text \<open>\<open>run_tck\<close> after the session is open: every test, and the session is closed whatever happened.\<close>

definition run_session ::
  "('r, 'w) run_env \<Rightarrow> (TckResult \<Rightarrow> 'r) \<Rightarrow> ('r, 'w) TckSession \<Rightarrow> ('r, 'w) TckSession \<times> (exc + TckResult)" where
  "run_session env keep s =
     (let (s1, ran) = run_all env s; (s2, closed) = session_close env keep s1
      in case closed of
           Inl e \<Rightarrow> (s2, Inl e)
         | Inr r \<Rightarrow> (s2, case ran of Inl e \<Rightarrow> Inl e | Inr _ \<Rightarrow> Inr r))"

section \<open>What publishing leaves alone\<close>

named_theorems session_simps "what the operations of a session keep"

lemma on_monitor_keeps [session_simps]:
  "hd_jobs (wd_held (on_monitor f w)) = hd_jobs (wd_held w)" "wd_now (on_monitor f w) = wd_now w"
  "wd_context (on_monitor f w) = wd_context w" "hd_connector (wd_held (on_monitor f w)) = hd_connector (wd_held w)"
  "wd_registry (on_monitor f w) = wd_registry w"
  by (simp_all add: on_monitor_def)

lemma run_cancelled_keeps [session_simps]: "run_cancelled env (on_monitor f w) = run_cancelled env w"
  by (simp add: run_cancelled_def session_simps)

text \<open>Skipping a test and ending an interrupted one touch the results and the monitor only.\<close>

definition same_run :: "('r, 'w) TckSession \<Rightarrow> ('r, 'w) TckSession \<Rightarrow> bool" where
  "same_run s s' = (ss_tests s' = ss_tests s \<and> ss_name s' = ss_name s \<and> ss_started_at s' = ss_started_at s
     \<and> ss_attempts s' = ss_attempts s \<and> ss_skip_ids s' = ss_skip_ids s \<and> ss_closed s' = ss_closed s \<and> ss_result s' = ss_result s
     \<and> wd_now (ss_world s') = wd_now (ss_world s) \<and> hd_jobs (wd_held (ss_world s')) = hd_jobs (wd_held (ss_world s))
     \<and> wd_context (ss_world s') = wd_context (ss_world s) \<and> hd_connector (wd_held (ss_world s')) = hd_connector (wd_held (ss_world s)))"

lemma same_run_refl [simp]: "same_run s s"
  by (simp add: same_run_def)

lemma same_run_trans: "same_run s t \<Longrightarrow> same_run t u \<Longrightarrow> same_run s u"
  by (simp add: same_run_def)

lemma session_skip_same: "same_run s (session_skip env idx test s)"
  by (simp add: same_run_def session_skip_def on_world_def set_result_def test_ends_def test_begins_def session_simps Let_def)

lemma end_unfinished_same: "same_run s (end_unfinished env s)"
  by (simp add: same_run_def end_unfinished_def on_world_def set_result_def test_ends_def session_simps Let_def split: option.split prod.split)

lemma skip_missing_same: "same_run s (skip_missing env ts s)"
proof (induction ts arbitrary: s)
  case (Cons p ts)
  then show ?case by (cases p) (auto intro: same_run_trans session_skip_same)
qed simp

lemma session_skip_results:
  "ss_results (session_skip env idx test s)
     = dict_set (ts_test_id test) (make_intentionally_skipped_result test (wd_now (ss_world s))) (ss_results s)"
  "ss_unfinished (session_skip env idx test s) = ss_unfinished s"
  by (simp_all add: session_skip_def on_world_def set_result_def Let_def)

definition status_of :: "('r, 'w) TckSession \<Rightarrow> string \<Rightarrow> TestStatus option" where
  "status_of s i = map_option tr_status (dict_get (ss_results s) i)"

lemma skip_missing_status:
  "status_of (skip_missing env ts s) i =
     (case status_of s i of Some st \<Rightarrow> Some st | None \<Rightarrow> if i \<in> ts_test_id ` snd ` set ts then Some Test_SKIPPED else None)"
proof (induction ts arbitrary: s)
  case Nil
  then show ?case by (simp split: option.split)
next
  case (Cons p ts)
  obtain idx test where p: "p = (idx, test)" by fastforce
  have skip: "status_of (session_skip env idx test s) i = (if i = ts_test_id test then Some Test_SKIPPED else status_of s i)"
    by (simp add: status_of_def session_skip_results dict_simps make_intentionally_skipped_result_def not_run_result_def)
  have has: "dict_has (ss_results s) (ts_test_id test) \<longleftrightarrow> status_of s (ts_test_id test) \<noteq> None"
    by (simp add: dict_has_def status_of_def)
  show ?case
  proof (cases "status_of s (ts_test_id test)")
    case None
    then show ?thesis using Cons [of "session_skip env idx test s"] p skip has by (auto split: option.split)
  next
    case (Some st)
    then show ?thesis using Cons [of s] p has by (auto split: option.split)
  qed
qed

lemma end_unfinished_status:
  "status_of (end_unfinished env s) i =
     (case ss_unfinished s of Some (test, n) \<Rightarrow> if i = ts_test_id test then Some Test_CANCELLED else status_of s i | None \<Rightarrow> status_of s i)"
  by (simp add: end_unfinished_def status_of_def on_world_def set_result_def dict_simps make_interrupted_result_def not_run_result_def Let_def
      split: option.split prod.split)

text \<open>What a close that succeeds leaves.\<close>

lemma session_close_open:
  assumes "session_close env keep s = (s', Inr r)" "\<not> ss_closed s"
  defines "s1 \<equiv> skip_missing env (enumerate 0 (ss_tests s)) (end_unfinished env (s\<lparr>ss_closed := True\<rparr>))"
  shows "r = session_verdict s1" "finalize_job env keep r (ss_world s1) = (ss_world s', None)"
    "ss_closed s'" "ss_result s' = Some r" "ss_tests s' = ss_tests s"
proof -
  obtain w failed where f: "finalize_job env keep (session_verdict s1) (ss_world s1) = (w, failed)" by fastforce
  have same: "same_run (s\<lparr>ss_closed := True\<rparr>) s1"
    unfolding s1_def by (rule same_run_trans [OF end_unfinished_same skip_missing_same])
  from assms(1,2) f have n: "failed = None" by (cases failed) (auto simp: session_close_def s1_def [symmetric] Let_def)
  with assms(1,2) f have s': "s' = s1\<lparr>ss_world := w, ss_result := Some r\<rparr>" "r = session_verdict s1"
    by (auto simp: session_close_def s1_def [symmetric] Let_def)
  show "r = session_verdict s1" "finalize_job env keep r (ss_world s1) = (ss_world s', None)" "ss_result s' = Some r"
    using s' f n by simp_all
  show "ss_closed s'" "ss_tests s' = ss_tests s" using s' same by (simp_all add: same_run_def)
qed

section \<open>The verdict\<close>

text \<open>The status a test ends with when the session closes.\<close>

definition final_status :: "('r, 'w) TckSession \<Rightarrow> string \<Rightarrow> TestStatus" where
  "final_status s i =
     (case ss_unfinished s of
        Some (test, n) \<Rightarrow> if i = ts_test_id test then Test_CANCELLED else (case status_of s i of None \<Rightarrow> Test_SKIPPED | Some st \<Rightarrow> st)
      | None \<Rightarrow> (case status_of s i of None \<Rightarrow> Test_SKIPPED | Some st \<Rightarrow> st))"

lemma closing_same:
  "same_run (s\<lparr>ss_closed := True\<rparr>) (skip_missing env (enumerate 0 (ss_tests s)) (end_unfinished env (s\<lparr>ss_closed := True\<rparr>)))"
  by (rule same_run_trans [OF end_unfinished_same skip_missing_same])

lemma status_closed: "status_of (s\<lparr>ss_closed := c\<rparr>) i = status_of s i"
  by (simp add: status_of_def)

lemma closing_status:
  assumes "i \<in> ts_test_id ` set (ss_tests s)"
  shows "status_of (skip_missing env (enumerate 0 (ss_tests s)) (end_unfinished env (s\<lparr>ss_closed := c\<rparr>))) i = Some (final_status s i)"
proof -
  have "i \<in> ts_test_id ` snd ` set (enumerate 0 (ss_tests s))"
    using assms by (simp add: set_map [symmetric] del: set_map)
  then show ?thesis
    by (simp add: skip_missing_status end_unfinished_status final_status_def status_closed split: option.split prod.split)
qed

text \<open>C3. 
  Closing a session gives every test of the TCK exactly one result, in manifest order: its latest one, \<open>CANCELLED\<close> for
  the test the run was interrupted in, and \<open>SKIPPED\<close> for a test that never ran. The verdict is \<open>COMPLETED\<close> exactly when
  each of these is \<open>COMPLETED\<close> or \<open>SKIPPED\<close>, and \<open>FAILED\<close> otherwise.
\<close>

theorem close_settles_every_test:
  assumes "session_close env keep s = (s', Inr r)" and "\<not> ss_closed s"
  shows "map tr_status (kr_tests r) = map (\<lambda>test. final_status s (ts_test_id test)) (ss_tests s)
    \<and> kr_status r = (if list_all (\<lambda>test. final_status s (ts_test_id test) \<in> {Test_COMPLETED, Test_SKIPPED}) (ss_tests s)
        then Test_COMPLETED else Test_FAILED)"
proof -
  let ?s1 = "skip_missing env (enumerate 0 (ss_tests s)) (end_unfinished env (s\<lparr>ss_closed := True\<rparr>))"
  have r: "r = session_verdict ?s1" using session_close_open [OF assms] by simp
  have tests: "ss_tests ?s1 = ss_tests s"
    using closing_same [of s env] by (simp add: same_run_def)
  have each: "tr_status (the (dict_get (ss_results ?s1) (ts_test_id test))) = final_status s (ts_test_id test)"
    if "test \<in> set (ss_tests s)" for test
    using closing_status [of "ts_test_id test" s env True] that by (auto simp: status_of_def)
  have st: "map tr_status (kr_tests r) = map (\<lambda>test. final_status s (ts_test_id test)) (ss_tests s)"
    using each by (simp add: r session_verdict_def build_tck_result_def tests)
  have "kr_status r = (if list_all (\<lambda>st. st \<in> set NON_FAILING_STATUSES) (map tr_status (kr_tests r)) then Test_COMPLETED else Test_FAILED)"
    by (simp add: r session_verdict_def build_tck_result_def list.pred_map comp_def)
  with st show ?thesis by (simp add: NON_FAILING_STATUSES_def list.pred_map comp_def)
qed

section \<open>The job\<close>

lemma keep_result_job:
  "get_job i m = Some j \<Longrightarrow> get_job i (keep_result keep i r m) = Some (j\<lparr>job_result := Some (keep r)\<rparr>)"
  by (simp add: keep_result_def get_job_def put_job_def dict_simps)

lemma finalize_job_ends:
  assumes "get_job (re_job env) (hd_jobs (wd_held w)) = Some j"
  obtains w' j' where "finalize_job env keep r w = (w', None)" "get_job (re_job env) (hd_jobs (wd_held w')) = Some j'"
    "job_status j' = (if job_status j = Job_CANCELLED then Job_CANCELLED
       else if kr_status r \<in> set NON_FAILING_STATUSES then Job_COMPLETED else Job_FAILED)"
    "job_result j' = Some (keep r)"
proof -
  let ?m = "keep_result keep (re_job env) r (hd_jobs (wd_held w))"
  have k: "dict_get (jm_jobs ?m) (re_job env) = Some (j\<lparr>job_result := Some (keep r)\<rparr>)"
    using keep_result_job [OF assms] by (simp add: get_job_def)
  have jobs: "hd_jobs (wd_held (on_jobs f v)) = f (hd_jobs (wd_held v))" for f and v :: "('a, 'b) World" by (simp add: on_jobs_def)
  show thesis
  proof (cases "job_status j = Job_CANCELLED")
    case True
    then show thesis using k
      by (intro that [of "fst (finalize_job env keep r w)" "j\<lparr>job_result := Some (keep r)\<rparr>"])
         (simp_all add: finalize_job_def is_cancelled_def jobs session_simps get_job_def Let_def)
  next
    case False
    then show thesis using k
      by (cases "kr_status r \<in> set NON_FAILING_STATUSES";
          intro that [of "fst (finalize_job env keep r w)" "the (get_job (re_job env) (hd_jobs (wd_held (fst (finalize_job env keep r w)))))"])
         (simp_all add: finalize_job_def is_cancelled_def complete_def fail_def require_job_def put_job_def log_event_def jobs
           session_simps get_job_def dict_simps Let_def)
  qed
qed

text \<open>C4. 
  Closing a session ends its job, whatever the tests did: a job that exists is \<open>CANCELLED\<close> if its host cancelled it,
  and otherwise \<open>COMPLETED\<close> or \<open>FAILED\<close> as the verdict says; it keeps the written form of the verdict.
\<close>

theorem close_finishes_job:
  assumes "\<not> ss_closed s" and "get_job (re_job env) (hd_jobs (wd_held (ss_world s))) = Some j"
  shows "\<exists>s' r j'. session_close env keep s = (s', Inr r) \<and> get_job (re_job env) (hd_jobs (wd_held (ss_world s'))) = Some j'
    \<and> job_result j' = Some (keep r)
    \<and> job_status j' = (if job_status j = Job_CANCELLED then Job_CANCELLED
        else if kr_status r = Test_COMPLETED then Job_COMPLETED else Job_FAILED)"
proof -
  let ?s1 = "skip_missing env (enumerate 0 (ss_tests s)) (end_unfinished env (s\<lparr>ss_closed := True\<rparr>))"
  have "hd_jobs (wd_held (ss_world ?s1)) = hd_jobs (wd_held (ss_world s))"
    using closing_same [of s env] by (simp add: same_run_def)
  then have "get_job (re_job env) (hd_jobs (wd_held (ss_world ?s1))) = Some j" using assms(2) by simp
  then obtain w' j' where f: "finalize_job env keep (session_verdict ?s1) (ss_world ?s1) = (w', None)"
    "get_job (re_job env) (hd_jobs (wd_held w')) = Some j'"
    "job_status j' = (if job_status j = Job_CANCELLED then Job_CANCELLED
       else if kr_status (session_verdict ?s1) \<in> set NON_FAILING_STATUSES then Job_COMPLETED else Job_FAILED)"
    "job_result j' = Some (keep (session_verdict ?s1))"
    by (rule finalize_job_ends)
  have "kr_status (session_verdict ?s1) \<in> set NON_FAILING_STATUSES \<longleftrightarrow> kr_status (session_verdict ?s1) = Test_COMPLETED"
    by (simp add: session_verdict_def build_tck_result_def NON_FAILING_STATUSES_def)
  with f assms(1) show ?thesis
    by (intro exI [of _ "?s1\<lparr>ss_world := w', ss_result := Some (session_verdict ?s1)\<rparr>"] exI [of _ "session_verdict ?s1"] exI [of _ j'])
       (simp add: session_close_def Let_def)
qed

text \<open>
  A closed session stays as it is: closing it again answers the same verdict, and running anything in it is refused.
\<close>

theorem closed_for_good:
  assumes "session_close env keep s = (s', Inr r)"
  shows "session_close env keep s' = (s', Inr r)
    \<and> fst (session_run_test env test_id s') = s' \<and> isl (snd (session_run_test env test_id s'))
    \<and> fst (run_all env s') = s' \<and> (\<not> isl (snd (run_all env s')) \<longleftrightarrow> ss_tests s' = [])"
proof -
  have c: "ss_closed s' \<and> ss_result s' = Some r"
  proof (cases "ss_closed s")
    case True
    with assms show ?thesis by (auto simp: session_close_def split: option.splits)
  next
    case False
    from session_close_open(3,4) [OF assms False] show ?thesis by simp
  qed
  have "fst (run_all env s') = s' \<and> (\<not> isl (snd (run_all env s')) \<longleftrightarrow> ss_tests s' = [])"
    using c by (cases "ss_tests s'") (simp_all add: run_all_def run_scheduled_test_def)
  with c show ?thesis
    by (simp add: session_close_def session_run_test_def split: sum.split prod.split)
qed

section \<open>Cancelled runs\<close>

lemma cancelled_test_skipped:
  assumes "run_cancelled env (ss_world s)" "\<not> ss_closed s"
  shows "run_scheduled_test env idx test s
    = (session_skip env idx test s, Inr (make_intentionally_skipped_result test (wd_now (ss_world s))))"
  using assms by (simp add: run_scheduled_test_def session_skip_results dict_simps Let_def)

lemma run_tests_cancelled:
  assumes "run_cancelled env (ss_world s)" "\<not> ss_closed s"
  shows "\<exists>s'. run_tests env ts s = (s', Inr (map (\<lambda>p. make_intentionally_skipped_result (snd p) (wd_now (ss_world s))) ts)) \<and> same_run s s'"
  using assms
proof (induction ts arbitrary: s)
  case (Cons p ts)
  obtain idx test where p: "p = (idx, test)" by fastforce
  have same: "same_run s (session_skip env idx test s)" by (rule session_skip_same)
  with Cons.prems have "run_cancelled env (ss_world (session_skip env idx test s))" "\<not> ss_closed (session_skip env idx test s)"
    by (simp_all add: same_run_def run_cancelled_def)
  from Cons.IH [OF this] obtain s' where "run_tests env ts (session_skip env idx test s)
      = (s', Inr (map (\<lambda>p. make_intentionally_skipped_result (snd p) (wd_now (ss_world s))) ts))" "same_run (session_skip env idx test s) s'"
    using same by (auto simp: same_run_def)
  then show ?case
    using p cancelled_test_skipped [OF Cons.prems] same by (auto intro: same_run_trans)
qed simp

text \<open>
  A run that was cancelled starts no further test: running the rest of the TCK gives every test a \<open>SKIPPED\<close> result and
  counts no attempt, and neither the variables nor the jobs nor the connector change.
\<close>

theorem cancelled_run_starts_nothing:
  assumes "run_cancelled env (ss_world s)" and "\<not> ss_closed s"
  shows "map_ok (map tr_status) (snd (run_all env s)) = Inr (replicate (length (ss_tests s)) Test_SKIPPED)
    \<and> same_run s (fst (run_all env s))"
proof -
  obtain s' where "run_all env s = (s', Inr (map (\<lambda>p. make_intentionally_skipped_result (snd p) (wd_now (ss_world s))) (enumerate 0 (ss_tests s))))"
    "same_run s s'"
    using run_tests_cancelled [OF assms, of "enumerate 0 (ss_tests s)"] unfolding run_all_def by blast
  then show ?thesis
    by (simp add: comp_def make_intentionally_skipped_result_def not_run_result_def map_replicate_const)
qed

section \<open>What a result rests on\<close>

text \<open>The operations a host has on a session.\<close>

inductive session_step :: "('r, 'w) run_env \<Rightarrow> (TckResult \<Rightarrow> 'r) \<Rightarrow> ('r, 'w) TckSession \<Rightarrow> ('r, 'w) TckSession \<Rightarrow> bool"
  for env keep where
  st_all: "session_step env keep s (fst (run_all env s))"
| st_scheduled: "session_step env keep s (fst (run_scheduled env s))"
| st_test: "session_step env keep s (fst (session_run_test env i s))"
| st_close: "session_step env keep s (fst (session_close env keep s))"
| st_host: "session_step env keep s (s\<lparr>ss_world := w\<rparr>)"

text \<open>Every result but a skip comes from an attempt, and the attempt that is under way is the latest.\<close>

definition results_earned :: "('r, 'w) TckSession \<Rightarrow> bool" where
  "results_earned s =
     ((\<forall>i st. status_of s i = Some st \<longrightarrow> st \<noteq> Test_SKIPPED \<longrightarrow> 0 < attempts_of_test i s)
      \<and> (\<forall>test n. ss_unfinished s = Some (test, n) \<longrightarrow> attempts_of_test (ts_test_id test) s = n \<and> 0 < n))"

lemma session_run_earned:
  assumes "results_earned s"
  shows "results_earned (fst (session_run env idx test s))"
  using assms
  by (auto simp: session_run_def results_earned_def set_result_def status_of_def attempts_of_test_def dict_simps Let_def
      split: sum.splits prod.splits if_splits)

lemma session_skip_earned: "results_earned s \<Longrightarrow> results_earned (session_skip env idx test s)"
  using session_skip_same [of s env idx test]
  by (auto simp: results_earned_def status_of_def session_skip_results same_run_def attempts_of_test_def dict_simps
      make_intentionally_skipped_result_def not_run_result_def split: if_splits)

lemma run_scheduled_test_earned: "results_earned s \<Longrightarrow> results_earned (fst (run_scheduled_test env idx test s))"
  by (simp add: run_scheduled_test_def session_skip_earned session_run_earned Let_def)

lemma run_tests_earned: "results_earned s \<Longrightarrow> results_earned (fst (run_tests env ts s))"
proof (induction ts arbitrary: s)
  case (Cons p ts)
  obtain idx test where p: "p = (idx, test)" by fastforce
  obtain s1 a where r: "run_scheduled_test env idx test s = (s1, a)" by fastforce
  with Cons.prems run_scheduled_test_earned [of s env idx test] have e: "results_earned s1" by simp
  obtain s2 b where t: "run_tests env ts s1 = (s2, b)" by fastforce
  with Cons.IH [OF e] have "results_earned s2" by simp
  with p r t e show ?case by (cases a; cases b) simp_all
qed simp

lemma run_tests_earnedD: "run_tests env ts s = (s', a) \<Longrightarrow> results_earned s \<Longrightarrow> results_earned s'"
  using run_tests_earned [of s env ts] by simp

lemma skip_missing_earned: "results_earned s \<Longrightarrow> results_earned (skip_missing env ts s)"
proof (induction ts arbitrary: s)
  case (Cons p ts)
  then show ?case by (cases p) (simp add: session_skip_earned)
qed simp

lemma end_unfinished_earned:
  assumes "results_earned s"
  shows "results_earned (end_unfinished env s)"
proof -
  have "ss_unfinished (end_unfinished env s) = None"
    by (simp add: end_unfinished_def on_world_def set_result_def Let_def split: option.split prod.split)
  moreover have "attempts_of_test i (end_unfinished env s) = attempts_of_test i s" for i
    using end_unfinished_same [of s env] by (simp add: attempts_of_test_def same_run_def)
  ultimately show ?thesis
    using assms by (auto simp: results_earned_def end_unfinished_status split: option.splits prod.splits if_splits)
qed

lemma results_earned_world [simp]:
  "results_earned (s\<lparr>ss_world := w\<rparr>) = results_earned s" "results_earned (s\<lparr>ss_closed := c\<rparr>) = results_earned s"
  "results_earned (s\<lparr>ss_world := w, ss_result := r\<rparr>) = results_earned s"
  by (simp_all add: results_earned_def status_of_def attempts_of_test_def)

lemma session_close_earned: "results_earned s \<Longrightarrow> results_earned (fst (session_close env keep s))"
  by (simp add: session_close_def skip_missing_earned end_unfinished_earned Let_def split: prod.split option.split)

lemma session_step_earned: "session_step env keep s s' \<Longrightarrow> results_earned s \<Longrightarrow> results_earned s'"
  by (induction rule: session_step.induct)
     (auto simp: run_all_def run_scheduled_def session_run_test_def announce_awaiting_def on_world_def
        run_tests_earned session_run_earned session_close_earned split: prod.split sum.split intro: run_tests_earnedD)

text \<open>C32. 
  In every session a host can drive to, a test that has any result but \<open>SKIPPED\<close> was run, and its attempts count the
  runs: the test interrupted last is on the attempt the session counts for it.
\<close>

theorem every_result_was_run:
  assumes "(session_step env keep)\<^sup>*\<^sup>* (new_session tck_id name tests skip_ids w) s"
  shows "(\<forall>i st. status_of s i = Some st \<longrightarrow> st \<noteq> Test_SKIPPED \<longrightarrow> 0 < attempts_of_test i s)
    \<and> (\<forall>test n. ss_unfinished s = Some (test, n) \<longrightarrow> attempts_of_test (ts_test_id test) s = n \<and> 0 < n)"
proof -
  have "results_earned s"
    using assms
  proof (induction rule: rtranclp_induct)
    case base
    then show ?case by (simp add: results_earned_def new_session_def status_of_def dict_simps)
  next
    case (step t u)
    then show ?case using session_step_earned by blast
  qed
  then show ?thesis by (simp add: results_earned_def)
qed

section \<open>Opening\<close>

text \<open>
  \<open>_open_session\<close>, for a job that exists. What seeds the variables, what settles the inputs and the infrastructure,
  what seeds the services and what the checkpoints of the TCK are: arguments, which may raise.
\<close>

record ('r, 'w) preparation =
  og_seed :: "('r, 'w) World \<Rightarrow> ('r, 'w) World \<times> exc option"
  og_bind :: "('r, 'w) World \<Rightarrow> ('r, 'w) World \<times> exc option"
  og_services :: "('r, 'w) World \<Rightarrow> ('r, 'w) World"
  og_checkpoints :: "string set \<Rightarrow> PlannedCheckpoint list \<times> PlannedCheckpoint list"

definition CONTEXT_PREFIX :: string where
  "CONTEXT_PREFIX = ''infrastructure.''"

definition skip_exc :: "skip_error option \<Rightarrow> exc" where
  "skip_exc e = (case e of
     None \<Rightarrow> key_error ''skip_tests''
   | Some (SkipNotAllowedError ids reason) \<Rightarrow> authoring_error (join_with '', '' ids @ reason))"

definition open_session ::
  "('r, 'w) run_env \<Rightarrow> ('r, 'w) preparation \<Rightarrow> string \<Rightarrow> string \<Rightarrow> Test list \<Rightarrow> (string, pyval) pydict option \<Rightarrow> ('r, 'w) World
   \<Rightarrow> ('r, 'w) World \<times> (exc + ('r, 'w) TckSession)" where
  "open_session env og tck_id name tests runtime_vars w0 =
     (case start (re_job env) (wd_now w0) (hd_jobs (wd_held w0)) of
        Inl e \<Rightarrow> (w0, Inl (key_error (re_job env)))
      | Inr m \<Rightarrow>
          (let w1 = on_monitor (on_job_started (re_job env) tck_id) (on_jobs (\<lambda>_. m) w0);
               w2 = w1\<lparr>wd_hold := bind_hold (re_job env) (wd_hold w1)\<rparr>
           in case og_seed og w2 of
                (w3, Some e) \<Rightarrow> (w3, Inl e)
              | (w3, None) \<Rightarrow>
                  (case og_bind og w3 of
                     (w4, Some e) \<Rightarrow>
                       (case fail (re_job env) (ex_message e) (wd_now w4) (hd_jobs (wd_held w4)) of
                          Inl _ \<Rightarrow> (w4, Inl (key_error (re_job env))) | Inr m1 \<Rightarrow> (on_jobs (\<lambda>_. m1) w4, Inl e))
                   | (w4, None) \<Rightarrow>
                       (case resolve_skip_ids tests runtime_vars of
                          Inl e \<Rightarrow> (w4, Inl (skip_exc e))
                        | Inr skip_ids \<Rightarrow>
                            (let w5 = on_context (seal CONTEXT_PREFIX) (og_services og w4);
                                 (kept, left_out) = og_checkpoints og skip_ids;
                                 w6 = on_monitor (follow_checkpoints (re_wire env) (re_job env) kept left_out) w5
                             in (w6, Inr (new_session tck_id name tests skip_ids w6)))))))"

text \<open>
  A run refused because its \<open>skip_tests\<close> name a test that may not be skipped leaves its job \<open>RUNNING\<close>: only what is
  refused while inputs and infrastructure are settled fails the job.
\<close>

lemma refused_skip_leaves_job_running:
  assumes "start (re_job env) (wd_now w) (hd_jobs (wd_held w)) = Inr m" and "resolve_skip_ids tests runtime_vars = Inl e"
    and "\<And>v. og_seed og v = (v, None)" "\<And>v. og_bind og v = (v, None)"
  shows "isl (snd (open_session env og tck_id name tests runtime_vars w))
    \<and> map_option job_status (get_job (re_job env) (hd_jobs (wd_held (fst (open_session env og tck_id name tests runtime_vars w))))) = Some Job_RUNNING"
proof -
  have "map_option job_status (get_job (re_job env) m) = Some Job_RUNNING"
    using assms(1) by (auto simp: start_def require_job_def put_job_def log_event_def get_job_def dict_simps split: option.splits)
  with assms show ?thesis by (simp add: open_session_def on_jobs_def on_monitor_def Let_def)
qed

section \<open>A session\<close>

definition demo_session :: "(unit, unit) TckSession" where
  "demo_session = new_session ''tck'' ''TCK'' [passing_test, (demo_tests demo_steps)\<lparr>ts_test_id := ''u.yaml'', ts_on_demand := True\<rparr>] {} demo_world"

definition cancelled_session :: "(unit, unit) TckSession" where
  "cancelled_session = demo_session\<lparr>ss_world := on_jobs (\<lambda>m. projr (cancel ''j'' 5 m)) demo_world\<rparr>"

theorem cancelled_run_starts_nothing_witness:
  "map_ok (map tr_status) (snd (run_all demo_run cancelled_session)) = Inr [Test_SKIPPED, Test_SKIPPED]"
proof -
  have "run_cancelled demo_run (ss_world cancelled_session)" "\<not> ss_closed cancelled_session" "length (ss_tests cancelled_session) = 2"
    by code_simp+
  with cancelled_run_starts_nothing [of demo_run cancelled_session] show ?thesis by (simp add: numeral_2_eq_2)
qed

theorem close_finishes_job_witness:
  "\<exists>s' r. session_close demo_run (\<lambda>_. ()) demo_session = (s', Inr r)
     \<and> map_option job_status (get_job ''j'' (hd_jobs (wd_held (ss_world s')))) \<in> {Some Job_COMPLETED, Some Job_FAILED}"
proof -
  have "\<not> ss_closed demo_session" "re_job demo_run = ''j''"
    "map_option job_status (get_job (re_job demo_run) (hd_jobs (wd_held (ss_world demo_session)))) = Some Job_QUEUED"
    by code_simp+
  then obtain j where j: "get_job (re_job demo_run) (hd_jobs (wd_held (ss_world demo_session))) = Some j" "job_status j = Job_QUEUED" by auto
  show ?thesis
    using close_finishes_job [OF \<open>\<not> ss_closed demo_session\<close> j(1), of "\<lambda>_. ()"] j(2) \<open>re_job demo_run = _\<close>
    by (auto split: if_splits)
qed

lemma demo_session_closes:
  "map_ok kr_status (snd (session_close demo_run (\<lambda>_. ()) demo_session)) = Inr Test_COMPLETED"
  by code_simp

theorem close_settles_every_test_witness:
  "map_ok (\<lambda>r. map tr_status (kr_tests r)) (snd (session_close demo_run (\<lambda>_. ()) demo_session)) = Inr [Test_SKIPPED, Test_SKIPPED]"
proof -
  obtain s' a where run: "session_close demo_run (\<lambda>_. ()) demo_session = (s', a)" by fastforce
  with demo_session_closes obtain r where a: "a = Inr r" by (cases a) auto
  have "\<not> ss_closed demo_session" "map (\<lambda>test. final_status demo_session (ts_test_id test)) (ss_tests demo_session) = [Test_SKIPPED, Test_SKIPPED]"
    by code_simp+
  with close_settles_every_test [OF run [unfolded a]] run a show ?thesis by simp
qed

theorem closed_for_good_witness:
  "isl (snd (session_run_test demo_run ''t.yaml'' (fst (session_close demo_run (\<lambda>_. ()) demo_session))))"
proof -
  obtain s' a where run: "session_close demo_run (\<lambda>_. ()) demo_session = (s', a)" by fastforce
  with demo_session_closes obtain r where a: "a = Inr r" by (cases a) auto
  from closed_for_good [OF run [unfolded a], of "''t.yaml''"] run show ?thesis by simp
qed

definition driven_session :: "(unit, unit) TckSession" where
  "driven_session = fst (session_run_test demo_run ''u.yaml'' demo_session)"

theorem every_result_was_run_witness:
  "0 < attempts_of_test ''u.yaml'' driven_session \<and> status_of driven_session ''u.yaml'' = Some Test_FAILED"
proof -
  have st: "status_of driven_session ''u.yaml'' = Some Test_FAILED" by code_simp
  have "(session_step demo_run (\<lambda>_. ()))\<^sup>*\<^sup>* demo_session driven_session"
    unfolding driven_session_def by (intro r_into_rtranclp st_test)
  from every_result_was_run [OF this [unfolded demo_session_def]] st show ?thesis by blast
qed

end
