(* ===== verification/Planning.thy ===== *)
theory Planning
  imports Session "HOL-Library.Multiset"
begin

text \<open>
  The checkpoints of a TCK before it runs (\<^verbatim>\<open>authoring/_checkpoints.py\<close>), what a step type declares about being one
  (\<^verbatim>\<open>models/primitives/checkpoint.py\<close>) and the marks the compiler refuses (\<^verbatim>\<open>compiler/validation/_checkpoint_marks.py\<close>).

  What the registry says of a step class is the record \<open>checkpoint_facts\<close>; \<open>float(\<dots>)\<close> of a text comes with the
  environment of the checks. An integer no float holds makes \<open>_seconds\<close> raise, and planning with it.
\<close>

section \<open>Declarations\<close>

record Checkpoint =
  ck_direction :: Direction
  ck_via :: "Via option"

datatype NestedRun = CONDITIONAL | REPEATED

record checkpoint_facts =
  kf_checkpoint :: "Checkpoint option"
  kf_nested :: "(string \<times> NestedRun) list"
  kf_timeout :: pyval

text \<open>
  The model's constructor: \<open>via\<close> is the argument as given, \<open>None\<close> when it was left out. An inbound checkpoint takes
  \<open>direct\<close> for a \<open>via\<close> left out; an internal one with a \<open>via\<close> is refused.
\<close>

definition new_checkpoint :: "Direction \<Rightarrow> Via option option \<Rightarrow> Checkpoint option" where
  "new_checkpoint direction via =
     (let chosen = (case via of Some v \<Rightarrow> v | None \<Rightarrow> if direction = INBOUND then Some DIRECT else None)
      in if direction = INTERNAL \<and> chosen \<noteq> None then None else Some \<lparr>ck_direction = direction, ck_via = chosen\<rparr>)"

definition checkpoint_kind :: "Checkpoint \<Rightarrow> CheckpointKind" where
  "checkpoint_kind c = (if ck_direction c = INTERNAL then Kind_select else Kind_wait)"

section \<open>The checkpoint a step is\<close>

definition ASKING :: "Direction set" where
  "ASKING = {INBOUND, INTERNAL}"

definition declared_checkpoint :: "checkpoint_facts option \<Rightarrow> Checkpoint option" where
  "declared_checkpoint cls = (case cls of None \<Rightarrow> None | Some f \<Rightarrow> kf_checkpoint f)"

definition or_outbound :: "Direction option \<Rightarrow> Direction" where
  "or_outbound d = (case d of None \<Rightarrow> OUTBOUND | Some x \<Rightarrow> x)"

definition effective_checkpoint :: "(string \<Rightarrow> checkpoint_facts option) \<Rightarrow> StepDefinition \<Rightarrow> (Checkpoint \<times> bool) option" where
  "effective_checkpoint reg d =
     (if sd_checkpoint d = Switched False then None
      else (case declared_checkpoint (reg (sd_uses d)) of
              Some c \<Rightarrow> Some (c, ck_direction c \<in> ASKING)
            | None \<Rightarrow>
                (case sd_checkpoint d of
                   Unmarked \<Rightarrow> None
                 | Marked m \<Rightarrow>
                     (case new_checkpoint (or_outbound (cm_direction m)) (Some (cm_via m)) of
                        Some c \<Rightarrow> Some (c, False)
                      | None \<Rightarrow> map_option (\<lambda>c. (c, False)) (new_checkpoint (or_outbound (cm_direction m)) None))
                 | Switched _ \<Rightarrow> map_option (\<lambda>c. (c, False)) (new_checkpoint OUTBOUND None))))"

section \<open>Its entry\<close>

definition shown_text :: "pyval \<Rightarrow> string option" where
  "shown_text v = (case v of PStr s \<Rightarrow> if s = [] \<or> occurs_in ''${{'' s then None else Some s | _ \<Rightarrow> None)"

definition optional_text :: "string option \<Rightarrow> pyval" where
  "optional_text s = (case s of None \<Rightarrow> PNone | Some t \<Rightarrow> PStr t)"

definition whole_float :: "pyfloat \<Rightarrow> int option" where
  "whole_float f = (case f of Finite q \<Rightarrow> if of_int \<lfloor>q\<rfloor> = q then Some \<lfloor>q\<rfloor> else None | _ \<Rightarrow> None)"

definition whole_seconds :: "check_env \<Rightarrow> pyval \<Rightarrow> exc + int option" where
  "whole_seconds env v =
     (case v of
        PStr s \<Rightarrow> (case py_float env (PStr (strip s)) of Inl _ \<Rightarrow> Inr None | Inr f \<Rightarrow> Inr (whole_float f))
      | PInt n \<Rightarrow> (case py_float env (PInt n) of Inl (Some e) \<Rightarrow> Inl e | _ \<Rightarrow> Inr (Some n))
      | _ \<Rightarrow> Inr None)"

definition default_timeout :: "checkpoint_facts option \<Rightarrow> pyval" where
  "default_timeout cls = (case cls of None \<Rightarrow> PNone | Some f \<Rightarrow> kf_timeout f)"

definition segment_text :: "segment \<Rightarrow> string" where
  "segment_text s = (case s of SStr t \<Rightarrow> t | SInt n \<Rightarrow> nat_text n)"

definition text_or :: "string option \<Rightarrow> string option \<Rightarrow> string option" where
  "text_or a b = (if a = None then b else a)"

definition planned_entry ::
  "(string \<Rightarrow> checkpoint_facts option) \<Rightarrow> check_env \<Rightarrow> Test \<Rightarrow> StepDefinition \<Rightarrow> StepPath \<Rightarrow> Checkpoint \<Rightarrow> bool \<Rightarrow> bool
   \<Rightarrow> exc + CheckpointEntry" where
  "planned_entry reg env test d path c conditional repeated =
     (let params = or_empty (sd_with d);
          action = (case dict_get params ''action'' of Some (PDict a) \<Rightarrow> a | _ \<Rightarrow> []);
          mark = (case sd_checkpoint d of Marked m \<Rightarrow> Some m | _ \<Rightarrow> None)
      in map_ok (\<lambda>timeout.
           \<lparr>ce_test_id = td_id (ts_definition test), ce_test_name = ts_name test, ce_phase = segment_text (hd path),
            ce_position = join_with ''/'' (map segment_text path), ce_step_id = sd_id d, ce_uses = sd_uses d,
            ce_direction = ck_direction c, ce_kind = checkpoint_kind c, ce_via = ck_via c, ce_name = shown_text (optional_text (sd_name d)),
            ce_label = text_or (shown_text (optional_text (Option.bind mark cm_label))) (shown_text (doc_get action ''label'')),
            ce_description = text_or (shown_text (optional_text (Option.bind mark cm_description))) (shown_text (doc_get action ''description'')),
            ce_timeout_s = timeout, ce_conditional = conditional, ce_repeated = repeated\<rparr>)
         (whole_seconds env (case dict_get params ''timeout_s'' of Some v \<Rightarrow> v | None \<Rightarrow> default_timeout (reg (sd_uses d)))))"

section \<open>Walking a test\<close>

text \<open>The carried steps of \<open>d\<close> under the keys its class runs: key, how it runs them, index and step, in the order walked.\<close>

definition carried :: "checkpoint_facts option \<Rightarrow> StepDefinition \<Rightarrow> (string \<times> NestedRun \<times> nat \<times> StepDefinition) list" where
  "carried cls d =
     concat (map (\<lambda>(key, run). List.map_filter (\<lambda>(i, child). map_option (\<lambda>n. (key, run, i, n)) child)
         (enumerate 0 (case dict_get (sd_nested d) key of None \<Rightarrow> [] | Some items \<Rightarrow> items)))
       (case cls of None \<Rightarrow> [] | Some f \<Rightarrow> kf_nested f))"

lemma map_ok_eq_Inr: "map_ok f a = Inr y \<longleftrightarrow> (\<exists>x. a = Inr x \<and> y = f x)"
  by (cases a) auto

lemma nested_smaller: "(key, items) \<in> set (sd_nested d) \<Longrightarrow> Some n \<in> set items \<Longrightarrow> size n < size d"
  by (cases d) (force dest!: split_list simp: size_list_estimation)

lemma carried_smaller: "(key, run, i, n) \<in> set (carried cls d) \<Longrightarrow> size n < size d"
proof -
  assume "(key, run, i, n) \<in> set (carried cls d)"
  then obtain items where "dict_get (sd_nested d) key = Some items" "Some n \<in> set items"
    by (auto simp: carried_def List.map_filter_def in_set_enumerate_eq split: option.splits) (metis nth_mem)
  then show ?thesis using nested_smaller by (blast dest: dict_get_SomeD)
qed

function walk_checkpoints ::
  "(string \<Rightarrow> checkpoint_facts option) \<Rightarrow> check_env \<Rightarrow> Test \<Rightarrow> StepDefinition \<Rightarrow> StepPath \<Rightarrow> bool \<Rightarrow> bool \<Rightarrow> exc + PlannedCheckpoint list" where
  "walk_checkpoints reg env test d path conditional repeated =
     (case (case effective_checkpoint reg d of
              None \<Rightarrow> Inr []
            | Some (c, asks) \<Rightarrow>
                map_ok (\<lambda>e. [\<lparr>pc_entry = e, pc_path = path, pc_asks = asks\<rparr>]) (planned_entry reg env test d path c conditional repeated)) of
        Inl e \<Rightarrow> Inl e
      | Inr own \<Rightarrow>
          map_ok (\<lambda>nested. own @ concat nested)
            (map_err (\<lambda>(key, run, i, n). walk_checkpoints reg env test n (path @ [SStr key, SInt i])
                 (conditional \<or> run = CONDITIONAL) (repeated \<or> run = REPEATED))
               (carried (reg (sd_uses d)) d)))"
  by pat_completeness auto
termination
  by (relation "measure (\<lambda>(reg, env, test, d, path, conditional, repeated). size d)") (auto dest: carried_smaller)

declare walk_checkpoints.simps [simp del]

definition of_test :: "(string \<Rightarrow> checkpoint_facts option) \<Rightarrow> check_env \<Rightarrow> Test \<Rightarrow> exc + PlannedCheckpoint list" where
  "of_test reg env test =
     map_ok concat (map_err (\<lambda>(phase, steps). map_ok concat (map_err (\<lambda>(index, d).
         walk_checkpoints reg env test d [SStr phase, SInt index] False False) (enumerate 0 steps)))
       [(''setup'', td_setup (ts_definition test)), (''execution'', td_execution (ts_definition test)),
        (''teardown'', td_teardown (ts_definition test))])"

definition is_left_out :: "string list \<Rightarrow> Test \<Rightarrow> bool" where
  "is_left_out skip_tests test = (ts_test_id test \<in> set skip_tests \<or> td_id (ts_definition test) \<in> set skip_tests)"

definition collect_checkpoints ::
  "(string \<Rightarrow> checkpoint_facts option) \<Rightarrow> check_env \<Rightarrow> Test list \<Rightarrow> string list \<Rightarrow> exc + PlannedCheckpoint list" where
  "collect_checkpoints reg env tests skip_tests =
     map_ok concat (map_err (of_test reg env) (filter (\<lambda>test. \<not> is_left_out skip_tests test) tests))"

definition skipped_checkpoints ::
  "(string \<Rightarrow> checkpoint_facts option) \<Rightarrow> check_env \<Rightarrow> Test list \<Rightarrow> string list \<Rightarrow> exc + PlannedCheckpoint list" where
  "skipped_checkpoints reg env tests skip_tests = map_ok concat (map_err (of_test reg env) (filter (is_left_out skip_tests) tests))"

section \<open>Marks the compiler refuses\<close>

datatype mark_problem = Declared_by_type string Direction | Internal_calls_nothing

function mark_problems :: "(string \<Rightarrow> checkpoint_facts option) \<Rightarrow> StepDefinition \<Rightarrow> mark_problem list" where
  "mark_problems reg d =
     (case sd_checkpoint d of
        Marked m \<Rightarrow>
          (case declared_checkpoint (reg (sd_uses d)) of
             Some c \<Rightarrow> if cm_direction m \<noteq> None \<or> cm_via m \<noteq> None then [Declared_by_type (sd_uses d) (ck_direction c)] else []
           | None \<Rightarrow> if cm_direction m = Some INTERNAL \<and> cm_via m \<noteq> None then [Internal_calls_nothing] else [])
      | _ \<Rightarrow> [])
     @ concat (map (\<lambda>(key, run, i, n). mark_problems reg n) (carried (reg (sd_uses d)) d))"
  by pat_completeness auto
termination
  by (relation "measure (\<lambda>(reg, d). size d)") (auto dest: carried_smaller)

declare mark_problems.simps [simp del]

section \<open>Every checkpoint has its own place\<close>

lemma map_err_all2: "map_err f xs = Inr ys \<Longrightarrow> list_all2 (\<lambda>x y. f x = Inr y) xs ys"
  by (induction xs arbitrary: ys) (auto split: sum.splits)

lemma all2_members: "list_all2 (\<lambda>x ys. f x = Inr ys) xs yss \<Longrightarrow> y \<in> set (concat yss) \<Longrightarrow> \<exists>x\<in>set xs. \<exists>ys. f x = Inr ys \<and> y \<in> set ys"
  by (induction rule: list_all2_induct) auto

text \<open>Lists that are each without repetition and told apart by a label are so together.\<close>

lemma distinct_map_concat:
  assumes "list_all2 (\<lambda>x ys. f x = Inr ys) xs yss" and "distinct (map label xs)"
    and "\<And>x ys. x \<in> set xs \<Longrightarrow> f x = Inr ys \<Longrightarrow> distinct (map g ys)"
    and "\<And>x ys y. x \<in> set xs \<Longrightarrow> f x = Inr ys \<Longrightarrow> y \<in> set ys \<Longrightarrow> h (g y) = label x"
  shows "distinct (map g (concat yss))"
  using assms
proof (induction rule: list_all2_induct)
  case (Cons x xs ys yss)
  have "distinct (map g (concat yss))" using Cons.prems by (intro Cons.IH) auto
  moreover have "g u \<noteq> g y" if u: "u \<in> set ys" and y: "y \<in> set (concat yss)" for u y
  proof -
    obtain x' ys' where "x' \<in> set xs" "f x' = Inr ys'" "y \<in> set ys'" using all2_members [OF Cons.hyps(2) y] by blast
    then have "h (g y) = label x'" "h (g u) = label x" using Cons.prems(3) Cons.hyps(1) u by auto
    moreover have "label x' \<noteq> label x" using Cons.prems(1) \<open>x' \<in> set xs\<close> by (auto simp: image_iff)
    ultimately show ?thesis by auto
  qed
  ultimately show ?case using Cons.prems(2) [of x ys] Cons.hyps(1) by fastforce
qed simp

definition keys_distinct :: "(string \<Rightarrow> checkpoint_facts option) \<Rightarrow> bool" where
  "keys_distinct reg = (\<forall>uses f. reg uses = Some f \<longrightarrow> distinct (map fst (kf_nested f)))"

text \<open>What the walk of a step yields: its own checkpoint, if it is one, and those of the steps it carries.\<close>

lemma walk_cases:
  assumes "walk_checkpoints reg env test d path conditional repeated = Inr ps"
  obtains own nested where "ps = own @ concat nested"
    "own = [] \<or> (\<exists>c asks e. effective_checkpoint reg d = Some (c, asks) \<and> planned_entry reg env test d path c conditional repeated = Inr e
        \<and> own = [\<lparr>pc_entry = e, pc_path = path, pc_asks = asks\<rparr>])"
    "list_all2 (\<lambda>x ys. (\<lambda>(key, run, i, n). walk_checkpoints reg env test n (path @ [SStr key, SInt i])
         (conditional \<or> run = CONDITIONAL) (repeated \<or> run = REPEATED)) x = Inr ys) (carried (reg (sd_uses d)) d) nested"
proof -
  let ?own = "case effective_checkpoint reg d of
              None \<Rightarrow> Inr []
            | Some (c, asks) \<Rightarrow>
                map_ok (\<lambda>e. [\<lparr>pc_entry = e, pc_path = path, pc_asks = asks\<rparr>]) (planned_entry reg env test d path c conditional repeated)"
  let ?f = "\<lambda>(key, run, i, n). walk_checkpoints reg env test n (path @ [SStr key, SInt i])
         (conditional \<or> run = CONDITIONAL) (repeated \<or> run = REPEATED)"
  from assms obtain own nested where own: "?own = Inr own" and ps: "ps = own @ concat nested"
    and n: "map_err ?f (carried (reg (sd_uses d)) d) = Inr nested"
    unfolding walk_checkpoints.simps [of reg env test d] by (auto simp: map_ok_eq_Inr split: sum.splits)
  have "own = [] \<or> (\<exists>c asks e. effective_checkpoint reg d = Some (c, asks) \<and> planned_entry reg env test d path c conditional repeated = Inr e
        \<and> own = [\<lparr>pc_entry = e, pc_path = path, pc_asks = asks\<rparr>])"
    using own by (auto simp: map_ok_eq_Inr split: option.splits)
  then show thesis using ps that map_err_all2 [OF n] by blast
qed

lemma steps_under_key:
  "map (\<lambda>(key, run, i, n). (key, i)) (List.map_filter (\<lambda>(i, child). map_option (\<lambda>n. (key, run, i, n)) child) (enumerate k items))
   = map (\<lambda>i. (key, i)) (map fst (filter (\<lambda>(i, child). child \<noteq> None) (enumerate k items)))"
  by (induction items arbitrary: k) (auto simp: List.map_filter_def)

lemma under_key_distinct:
  "distinct (map (\<lambda>(key, run, i, n). (key, i)) (List.map_filter (\<lambda>(i, child). map_option (\<lambda>n. (key, run, i, n)) child) (enumerate 0 items)))"
proof -
  have "distinct (map fst (filter (\<lambda>(i, child). child \<noteq> None) (enumerate 0 items)))" by (rule distinct_map_filter) simp
  then show ?thesis unfolding steps_under_key distinct_map [of "Pair key"] by (simp add: inj_on_def)
qed

lemma under_key_member:
  "x \<in> set (List.map_filter (\<lambda>(i, child). map_option (\<lambda>n. (key, run, i, n)) child) items) \<Longrightarrow> fst x = key"
  by (auto simp: List.map_filter_def)

lemma carried_distinct:
  assumes "keys_distinct reg"
  shows "distinct (map (\<lambda>(key, run, i, n). (key, i)) (carried (reg uses) d))"
proof (cases "reg uses")
  case (Some f)
  let ?under = "\<lambda>(key, run). List.map_filter (\<lambda>(i, child). map_option (\<lambda>n. (key, run, i, n)) child)
         (enumerate 0 (case dict_get (sd_nested d) key of None \<Rightarrow> [] | Some items \<Rightarrow> items))"
  have "distinct (map (\<lambda>(key, run, i, n). (key, i)) (concat (map ?under (kf_nested f))))"
  proof (rule distinct_map_concat [where f = "\<lambda>k. Inr (?under k)" and label = fst and h = fst])
    show "list_all2 (\<lambda>k ys. Inr (?under k) = Inr ys) (kf_nested f) (map ?under (kf_nested f))" by (simp add: list_all2_conv_all_nth)
    show "distinct (map fst (kf_nested f))" using Some assms by (auto simp: keys_distinct_def)
    show "distinct (map (\<lambda>(key, run, i, n). (key, i)) ys)" if "Inr (?under k) = Inr ys" for k ys
    proof -
      from that have "ys = ?under k" by simp
      then show ?thesis using under_key_distinct by (cases k) auto
    qed
    show "fst ((\<lambda>(key, run, i, n). (key, i)) y) = fst k" if "Inr (?under k) = Inr ys" "y \<in> set ys" for k ys y
    proof -
      from that have "y \<in> set (?under k)" by simp
      then have "fst y = fst k" by (cases k) (simp, erule under_key_member)
      then show ?thesis by (cases y) simp
    qed
  qed
  then show ?thesis by (simp add: Some carried_def)
qed (simp add: carried_def)

lemma walk_places:
  assumes "keys_distinct reg"
  shows "walk_checkpoints reg env test d path conditional repeated = Inr ps
    \<Longrightarrow> (\<forall>p\<in>set ps. take (length path) (pc_path p) = path \<and> ce_test_id (pc_entry p) = td_id (ts_definition test)) \<and> distinct (map pc_path ps)"
proof (induction "size d" arbitrary: d path conditional repeated ps rule: less_induct)
  case less
  let ?f = "\<lambda>(key, run, i, n). walk_checkpoints reg env test n (path @ [SStr key, SInt i]) (conditional \<or> run = CONDITIONAL) (repeated \<or> run = REPEATED)"
  let ?carried = "carried (reg (sd_uses d)) d"
  obtain own nested where ps: "ps = own @ concat nested" and own: "own = [] \<or> (\<exists>c asks e. effective_checkpoint reg d = Some (c, asks)
        \<and> planned_entry reg env test d path c conditional repeated = Inr e \<and> own = [\<lparr>pc_entry = e, pc_path = path, pc_asks = asks\<rparr>])"
    and nested: "list_all2 (\<lambda>x ys. ?f x = Inr ys) ?carried nested"
    by (rule walk_cases [OF less.prems])
  have IH: "(\<forall>p\<in>set ys. take (length path + 2) (pc_path p) = path @ [SStr key, SInt i] \<and> ce_test_id (pc_entry p) = td_id (ts_definition test))
      \<and> distinct (map pc_path ys)"
    if "(key, run, i, n) \<in> set ?carried" "?f (key, run, i, n) = Inr ys" for key run i n ys
    using less.hyps [OF carried_smaller [OF that(1)], of "path @ [SStr key, SInt i]"] that(2) by simp
  have below: "\<exists>key run i n ys. (key, run, i, n) \<in> set ?carried \<and> ?f (key, run, i, n) = Inr ys \<and> p \<in> set ys" if "p \<in> set (concat nested)" for p
    using all2_members [OF nested that] by (metis (no_types, lifting) prod_cases4)
  have deeper: "take (length path + 2) (pc_path p) = path @ [SStr key, SInt i] \<Longrightarrow> take (length path) (pc_path p) = path \<and> pc_path p \<noteq> path" for p key i
  proof -
    assume t: "take (length path + 2) (pc_path p) = path @ [SStr key, SInt i]"
    have "take (length path) (pc_path p) = take (length path) (take (length path + 2) (pc_path p))" by (simp only: take_take) simp
    also have "\<dots> = path" unfolding t by simp
    finally show ?thesis using t by auto
  qed
  have "distinct (map pc_path (concat nested))"
  proof (rule distinct_map_concat [OF nested, where label = "\<lambda>(key, run, i, n). path @ [SStr key, SInt i]" and h = "take (length path + 2)"])
    have "map (\<lambda>(key, run, i, n). path @ [SStr key, SInt i]) ?carried
        = map (\<lambda>(key, i). path @ [SStr key, SInt i]) (map (\<lambda>(key, run, i, n). (key, i)) ?carried)" by auto
    moreover have "inj (\<lambda>(key, i). path @ [SStr key, SInt i])" by (auto simp: inj_def)
    ultimately show "distinct (map (\<lambda>(key, run, i, n). path @ [SStr key, SInt i]) ?carried)"
      using carried_distinct [OF assms] by (simp only: distinct_map [of "\<lambda>(key, i). path @ [SStr key, SInt i]"]) (blast intro: inj_on_subset)
  qed (use IH in auto)
  moreover have "\<forall>p\<in>set (concat nested). take (length path) (pc_path p) = path \<and> pc_path p \<noteq> path \<and> ce_test_id (pc_entry p) = td_id (ts_definition test)"
    using below IH deeper by blast
  moreover have "\<forall>p\<in>set own. pc_path p = path \<and> ce_test_id (pc_entry p) = td_id (ts_definition test)" "distinct (map pc_path own)"
    using own by (auto simp: planned_entry_def Let_def map_ok_eq_Inr)
  ultimately show ?case unfolding ps by (auto simp del: set_concat)
qed

lemma phase_places:
  assumes "keys_distinct reg" and "map_ok concat (map_err (\<lambda>(index, d). walk_checkpoints reg env test d [SStr phase, SInt index] False False)
    (enumerate 0 steps)) = Inr ps"
  shows "(\<forall>p\<in>set ps. take 1 (pc_path p) = [SStr phase] \<and> ce_test_id (pc_entry p) = td_id (ts_definition test)) \<and> distinct (map pc_path ps)"
proof -
  let ?f = "\<lambda>(index, d). walk_checkpoints reg env test d [SStr phase, SInt index] False False"
  obtain pss where ps: "ps = concat pss" and walked: "list_all2 (\<lambda>x ys. ?f x = Inr ys) (enumerate 0 steps) pss"
    using assms(2) map_err_all2 by (force simp: map_ok_eq_Inr)
  have each: "(\<forall>p\<in>set ys. take 2 (pc_path p) = [SStr phase, SInt index] \<and> ce_test_id (pc_entry p) = td_id (ts_definition test)) \<and> distinct (map pc_path ys)"
    if "?f (index, d) = Inr ys" for index d ys
    using walk_places [OF assms(1), of env test d "[SStr phase, SInt index]" False False ys] that by (simp add: numeral_2_eq_2)
  have "distinct (map pc_path (concat pss))"
    by (rule distinct_map_concat [OF walked, where label = "\<lambda>(index, d). [SStr phase, SInt index]" and h = "take 2"])
      (use each in \<open>auto simp: distinct_map inj_on_def in_set_enumerate_eq distinct_enumerate\<close>)
  moreover have "take 1 (pc_path p) = [SStr phase] \<and> ce_test_id (pc_entry p) = td_id (ts_definition test)" if p: "p \<in> set (concat pss)" for p
  proof -
    obtain index d ys where "?f (index, d) = Inr ys" "p \<in> set ys" using all2_members [OF walked p] by auto
    then have "take 2 (pc_path p) = [SStr phase, SInt index]" "ce_test_id (pc_entry p) = td_id (ts_definition test)" using each by blast+
    then show ?thesis by (cases "pc_path p") (auto simp: numeral_2_eq_2)
  qed
  ultimately show ?thesis unfolding ps by blast
qed

lemma test_places:
  assumes "keys_distinct reg" and "of_test reg env test = Inr ps"
  shows "(\<forall>p\<in>set ps. ce_test_id (pc_entry p) = td_id (ts_definition test)) \<and> distinct (map pc_path ps)"
proof -
  let ?phases = "[(''setup'', td_setup (ts_definition test)), (''execution'', td_execution (ts_definition test)), (''teardown'', td_teardown (ts_definition test))]"
  let ?f = "\<lambda>(phase, steps). map_ok concat (map_err (\<lambda>(index, d). walk_checkpoints reg env test d [SStr phase, SInt index] False False) (enumerate 0 steps))"
  obtain pss where ps: "ps = concat pss" and walked: "list_all2 (\<lambda>x ys. ?f x = Inr ys) ?phases pss"
    using assms(2) map_err_all2 [of ?f ?phases] unfolding of_test_def map_ok_eq_Inr by blast
  have each: "(\<forall>p\<in>set ys. take 1 (pc_path p) = [SStr (fst x)] \<and> ce_test_id (pc_entry p) = td_id (ts_definition test)) \<and> distinct (map pc_path ys)"
    if "?f x = Inr ys" for x ys
  proof -
    obtain phase steps where x: "x = (phase, steps)" by fastforce
    show ?thesis using phase_places [OF assms(1), of env test phase steps ys] that unfolding x by simp
  qed
  have "distinct (map pc_path (concat pss))"
    by (rule distinct_map_concat [OF walked, where label = "\<lambda>x. [SStr (fst x)]" and h = "take 1"]) (use each in auto)
  moreover have "ce_test_id (pc_entry p) = td_id (ts_definition test)" if "p \<in> set (concat pss)" for p
    using all2_members [OF walked that] each by blast
  ultimately show ?thesis unfolding ps by blast
qed

lemma tests_places:
  assumes "keys_distinct reg" and "distinct (map (\<lambda>t. td_id (ts_definition t)) tests)" and "map_ok concat (map_err (of_test reg env) tests) = Inr ps"
  shows "distinct (map (\<lambda>p. (ce_test_id (pc_entry p), pc_path p)) ps)"
proof -
  obtain pss where ps: "ps = concat pss" and walked: "list_all2 (\<lambda>x ys. of_test reg env x = Inr ys) tests pss"
    using assms(3) map_err_all2 [of "of_test reg env" tests] unfolding map_ok_eq_Inr by blast
  have "distinct (map (\<lambda>p. (ce_test_id (pc_entry p), pc_path p)) (concat pss))"
  proof (rule distinct_map_concat [OF walked, where label = "\<lambda>t. td_id (ts_definition t)" and h = fst])
    show "distinct (map (\<lambda>p. (ce_test_id (pc_entry p), pc_path p)) ys)" if "of_test reg env x = Inr ys" for x ys
      using test_places [OF assms(1) that] by (auto simp: distinct_map inj_on_def)
  qed (use assms(2) test_places [OF assms(1)] in auto)
  then show ?thesis unfolding ps .
qed

lemma map_err_split:
  assumes "map_err f (filter P xs) = Inr kept" "map_err f (filter (\<lambda>x. \<not> P x) xs) = Inr left"
  shows "\<exists>all. map_err f xs = Inr all \<and> mset (concat all) = mset (concat kept) + mset (concat left)"
  using assms
proof (induction xs arbitrary: kept left)
  case (Cons x xs)
  show ?case
  proof (cases "P x")
    case True
    with Cons.prems obtain y ks where "f x = Inr y" "kept = y # ks" "map_err f (filter P xs) = Inr ks" by (auto split: sum.splits)
    with True Cons.prems(2) Cons.IH [of ks left] show ?thesis by auto
  next
    case False
    with Cons.prems obtain y ls where "f x = Inr y" "left = y # ls" "map_err f (filter (\<lambda>x. \<not> P x) xs) = Inr ls" by (auto split: sum.splits)
    with False Cons.prems(1) Cons.IH [of kept ls] show ?thesis by auto
  qed
qed simp


section \<open>Accepted marks\<close>

inductive carries :: "(string \<Rightarrow> checkpoint_facts option) \<Rightarrow> StepDefinition \<Rightarrow> StepDefinition \<Rightarrow> bool" for reg d where
  carries_itself: "carries reg d d"
| carries_nested: "carries reg d e \<Longrightarrow> (key, run, i, n) \<in> set (carried (reg (sd_uses e)) e) \<Longrightarrow> carries reg d n"

lemma mark_problems_carried: "carries reg d n \<Longrightarrow> mark_problems reg d = [] \<Longrightarrow> mark_problems reg n = []"
proof (induction rule: carries.induct)
  case (carries_nested e key run i n)
  then have "mark_problems reg e = []" by simp
  then show ?case using carries_nested.hyps(2) unfolding mark_problems.simps [of reg e] by fastforce
qed simp

text \<open>
  A mark the compiler accepts is what the run plans, at any depth of flow steps: a declared checkpoint stays as its type
  declares it, and any other takes the direction and the \<open>via\<close> the mark gives, which the run never drops.
\<close>

theorem accepted_marks_are_planned:
  assumes "mark_problems reg d = []" and "carries reg d n" and "sd_checkpoint n = Marked m"
  shows "effective_checkpoint reg n =
     (case declared_checkpoint (reg (sd_uses n)) of
        Some c \<Rightarrow> Some (c, ck_direction c \<noteq> OUTBOUND)
      | None \<Rightarrow> Some (\<lparr>ck_direction = or_outbound (cm_direction m), ck_via = cm_via m\<rparr>, False))
    \<and> (declared_checkpoint (reg (sd_uses n)) \<noteq> None \<longrightarrow> cm_direction m = None \<and> cm_via m = None)"
proof -
  have none: "mark_problems reg n = []" by (rule mark_problems_carried [OF assms(2,1)])
  have dir: "x \<noteq> OUTBOUND \<longleftrightarrow> x \<in> {INBOUND, INTERNAL}" for x by (cases x) auto
  show ?thesis
  proof (cases "declared_checkpoint (reg (sd_uses n))")
    case None
    then have "cm_direction m = Some INTERNAL \<Longrightarrow> cm_via m = None"
      using none assms(3) unfolding mark_problems.simps [of reg n] by (auto split: if_splits)
    with None assms(3) show ?thesis
      by (cases "cm_direction m") (auto simp: effective_checkpoint_def new_checkpoint_def or_outbound_def Let_def)
  next
    case (Some c)
    then have "cm_direction m = None \<and> cm_via m = None"
      using none assms(3) unfolding mark_problems.simps [of reg n] by (auto split: if_splits)
    with Some assms(3) dir show ?thesis by (simp add: effective_checkpoint_def ASKING_def)
  qed
qed

text \<open>
  An inbound mark without \<open>via\<close> is planned without one, although an inbound call travels \<open>direct\<close> unless something else
  is said: the mark's missing \<open>via\<close> is handed on as a given one.
\<close>

lemma inbound_mark_has_no_via:
  assumes "declared_checkpoint (reg (sd_uses d)) = None"
    and "sd_checkpoint d = Marked \<lparr>cm_label = l, cm_description = b, cm_direction = Some INBOUND, cm_via = None\<rparr>"
  shows "map_option (\<lambda>(c, asks). ck_via c) (effective_checkpoint reg d) = Some None
    \<and> map_option ck_via (new_checkpoint INBOUND None) = Some (Some DIRECT)"
  using assms by (simp add: effective_checkpoint_def new_checkpoint_def or_outbound_def)

section \<open>A demonstration\<close>

text \<open>The equation of \<open>mark_problems\<close> in the form the simplifier can run.\<close>

lemma mark_problems_code [code]:
  "mark_problems reg d =
     (case sd_checkpoint d of
        Marked m \<Rightarrow>
          (case declared_checkpoint (reg (sd_uses d)) of
             Some c \<Rightarrow> if cm_direction m \<noteq> None \<or> cm_via m \<noteq> None then [Declared_by_type (sd_uses d) (ck_direction c)] else []
           | None \<Rightarrow> if cm_direction m = Some INTERNAL \<and> cm_via m \<noteq> None then [Internal_calls_nothing] else [])
      | _ \<Rightarrow> [])
     @ (case carried (reg (sd_uses d)) d of [] \<Rightarrow> [] | n # ns \<Rightarrow> concat (map (\<lambda>(key, run, i, n). mark_problems reg n) (n # ns)))"
  by (subst mark_problems.simps) (simp split: list.split)


definition demo_mark :: checkpoint_value where
  "demo_mark = Marked \<lparr>cm_label = Some ''Accept the push'', cm_description = None, cm_direction = None, cm_via = Some DATAPLANE\<rparr>"

definition planned_step :: "string \<Rightarrow> string \<Rightarrow> (string \<times> StepDefinition option list) list \<Rightarrow> checkpoint_value \<Rightarrow> StepDefinition" where
  "planned_step i uses nested mark = StepDefinition (Some i) uses None (Some [(''timeout_s'', PStr ''soon'')]) nested None None None None mark"

definition demo_retry :: StepDefinition where
  "demo_retry = planned_step ''r'' ''flow/retry'' [(''steps'', [None, Some (planned_step ''p'' ''http/post'' [] demo_mark), Some (planned_step ''w'' ''mock/wait'' [] Unmarked)])] Unmarked"

definition demo_checkpoints :: "string \<Rightarrow> checkpoint_facts option" where
  "demo_checkpoints uses =
     (if uses = ''flow/retry'' then Some \<lparr>kf_checkpoint = None, kf_nested = [(''steps'', REPEATED)], kf_timeout = PNone\<rparr>
      else if uses = ''mock/wait'' then Some \<lparr>kf_checkpoint = new_checkpoint INBOUND None, kf_nested = [], kf_timeout = PNone\<rparr>
      else None)"

definition demo_planned_tests :: "Test list" where
  "demo_planned_tests = [(demo_tests [demo_retry]), (demo_tests [planned_step ''x'' ''mock/wait'' [] Unmarked])\<lparr>ts_test_id := ''u.yaml'',
     ts_definition := (ts_definition (demo_tests [planned_step ''x'' ''mock/wait'' [] Unmarked]))\<lparr>td_id := ''u''\<rparr>\<rparr>]"

lemma demo_plan_made:
  "map_ok (map (\<lambda>p. (ce_test_id (pc_entry p), ce_position (pc_entry p), ce_repeated (pc_entry p), pc_asks p)))
     (collect_checkpoints demo_checkpoints plain_env demo_planned_tests [''u.yaml''])
   = Inr [(''t'', ''execution/0/steps/1'', True, False), (''t'', ''execution/0/steps/2'', True, True)]"
  by code_simp


theorem accepted_marks_are_planned_witness:
  "effective_checkpoint demo_checkpoints (planned_step ''p'' ''http/post'' [] demo_mark) = Some (\<lparr>ck_direction = OUTBOUND, ck_via = Some DATAPLANE\<rparr>, False)"
proof -
  have "mark_problems demo_checkpoints demo_retry = []" by code_simp
  moreover have "carries demo_checkpoints demo_retry (planned_step ''p'' ''http/post'' [] demo_mark)"
    by (rule carries_nested [OF carries_itself, of "''steps''" REPEATED 1])
      (simp add: demo_retry_def planned_step_def carried_def demo_checkpoints_def List.map_filter_def)
  ultimately show ?thesis
    using accepted_marks_are_planned [of demo_checkpoints demo_retry "planned_step ''p'' ''http/post'' [] demo_mark"]
    by (auto simp: demo_mark_def planned_step_def demo_checkpoints_def declared_checkpoint_def or_outbound_def)
qed

end
