(* ===== verification/Validation.thy ===== *)
theory Validation
  imports Planning
begin

text \<open>
  What the compiler refuses before a run: references and nested steps (\<^verbatim>\<open>compiler/validation/_variable_references.py\<close>),
  the names in scope (\<^verbatim>\<open>scope/reference_scope.py\<close>), conditions (\<^verbatim>\<open>_conditions.py\<close>), misplaced credentials
  (\<^verbatim>\<open>_credential_references.py\<close>), severities (\<^verbatim>\<open>_assertion_severity.py\<close>), returns (\<^verbatim>\<open>_returns_names.py\<close>) and the
  validator that gathers them (\<^verbatim>\<open>validator.py\<close>).

  A nested step is the mapping the author wrote, so it is a document here too; what the registry says of a step class
  is the record \<open>class_facts\<close>. A finding is a value of a datatype that carries what its message is built from. A nested
  \<open>with:\<close> that is no mapping counts as empty.
\<close>

section \<open>What the registry says of a step class\<close>

record class_facts =
  cf_deferred :: "string list"
  cf_templates :: "string list"
  cf_body_references :: "string list"
  cf_nested_namespace :: "string option"
  cf_credential_params :: "string list"
  cf_fields :: "(string \<times> string option) list"
  cf_publishes :: "string set option"

definition facts_of :: "class_facts option \<Rightarrow> (class_facts \<Rightarrow> 'a list) \<Rightarrow> 'a list" where
  "facts_of cls f = (case cls of None \<Rightarrow> [] | Some c \<Rightarrow> f c)"

definition step_list_keys :: "class_facts option \<Rightarrow> string list" where
  "step_list_keys cls = filter (\<lambda>k. k \<notin> set (facts_of cls cf_templates)) (facts_of cls cf_deferred)"

section \<open>References\<close>

definition reference_root :: "string \<Rightarrow> string" where
  "reference_root reference =
     (let parts = split_on (CHR ''.'') reference
      in if is_call_scoped reference then dotted (take ROOT_SEGMENTS parts)
         else if hd parts = ''infrastructure'' then dotted (take 4 parts)
         else if hd parts = ''env'' \<and> 1 < length parts \<and> parts ! 1 \<in> {''testdata'', ''schemas'', ''apis''} then dotted (take 3 parts)
         else if 1 < length parts then dotted (take 2 parts) else reference)"

fun references_in :: "pyval \<Rightarrow> string list" where
  "references_in (PStr s) = expr_refs s"
| "references_in (PDict d) = concat (map (\<lambda>(k, v). references_in v) d)"
| "references_in (PList xs) = concat (map references_in xs)"
| "references_in _ = []"

definition env_field :: "string \<Rightarrow> string \<times> string" where
  "env_field reference =
     (let parts = split_on (CHR ''.'') (strip reference)
      in if length parts < 2 \<or> hd parts \<noteq> ''env'' then ([], []) else (parts ! 1, dotted (drop 2 parts)))"

definition api_reached_into :: "string \<Rightarrow> string" where
  "api_reached_into reference =
     (let parts = split_on (CHR ''.'') (strip reference)
      in if 3 < length parts \<and> take 2 parts = [''env'', ''apis''] then parts ! 2 else [])"

datatype finding =
    Reaches_into string string string
  | Reaches_into_api string string
  | Names_nothing_supplied string string
  | Unknown_step_type string
  | Reserved_step_id string
  | Nested_condition
  | Teardown_condition
  | Not_an_expression string
  | Retired_spelling string string
  | No_such_outcome string string
  | No_step_before string
  | No_step_runs_before string string
  | Not_returned string string "string list"
  | Names_a_step string
  | Names_nothing_held string bool
  | Misplaced_credential string
  | Refused_check string
  | Input_not_text
  | Input_not_produced string
  | Returns_not_produced string
  | Refused_mark mark_problem

definition validate_variable_references :: "pyval \<Rightarrow> string set \<Rightarrow> finding list" where
  "validate_variable_references doc variable_ids =
     concat (map (\<lambda>r. case env_field r of (i, f) \<Rightarrow> if i \<in> variable_ids \<and> f \<noteq> [] then [Reaches_into r i f] else []) (references_in doc))
     @ concat (map (\<lambda>r. if api_reached_into r \<noteq> [] then [Reaches_into_api r (api_reached_into r)] else []) (references_in doc))"

section \<open>Nested steps\<close>

definition list_at :: "(string, pyval) pydict \<Rightarrow> string \<Rightarrow> pyval list" where
  "list_at d key = (case dict_get d key of Some (PList xs) \<Rightarrow> xs | _ \<Rightarrow> [])"

text \<open>The items that are mappings, with their index.\<close>

definition mappings :: "pyval list \<Rightarrow> (nat \<times> (string, pyval) pydict) list" where
  "mappings xs = concat (map (\<lambda>(i, x). case x of PDict n \<Rightarrow> [(i, n)] | _ \<Rightarrow> []) (enumerate 0 xs))"

definition dict_at :: "(string, pyval) pydict \<Rightarrow> string \<Rightarrow> (string, pyval) pydict" where
  "dict_at d key = (case dict_get d key of Some (PDict e) \<Rightarrow> e | _ \<Rightarrow> [])"

definition uses_at :: "(string, pyval) pydict \<Rightarrow> string" where
  "uses_at d = (case dict_get d ''uses'' of None \<Rightarrow> [] | Some v \<Rightarrow> py_str v)"

lemma mappings_in: "(i, n) \<in> set (mappings xs) \<Longrightarrow> PDict n \<in> set xs"
  by (auto simp: mappings_def set_zip enumerate_eq_zip split: pyval.splits)

lemma dict_size_get: "dict_get d key = Some v \<Longrightarrow> size v < size (PDict d)"
  by (auto dest!: dict_get_SomeD dest: pyval_dict_smaller)

lemma mapping_smaller: "(i, n) \<in> set (mappings (list_at d key)) \<Longrightarrow> size (PDict n) < size (PDict d)"
proof -
  assume m: "(i, n) \<in> set (mappings (list_at d key))"
  then obtain xs where g: "dict_get d key = Some (PList xs)"
    by (auto simp: list_at_def mappings_def split: option.splits pyval.splits)
  with m have "PDict n \<in> set xs" using mappings_in by (simp add: list_at_def)
  then have "size (PDict n) < size (PList xs)" using pyval_list_smaller [of "PDict n" xs] by (simp add: less_Suc_eq_le)
  with dict_size_get [OF g] show ?thesis by linarith
qed

lemma dict_at_le: "size (PDict (dict_at d key)) \<le> size (PDict d)"
proof -
  have "size (PDict []) \<le> size (PDict d)" by simp
  then show ?thesis
    using dict_size_get [of d key] by (auto simp: dict_at_def simp del: pyval.size intro: less_imp_le split: option.splits pyval.splits)
qed

lemma nested_with_smaller: "(i, n) \<in> set (mappings (list_at d key)) \<Longrightarrow> size (PDict (dict_at n k)) < size (PDict d)"
  using mapping_smaller dict_at_le by (metis le_less_trans)

function nested_steps ::
  "(string \<Rightarrow> class_facts option) \<Rightarrow> class_facts option \<Rightarrow> (string, pyval) pydict \<Rightarrow> string
   \<Rightarrow> (string \<times> (string, pyval) pydict) list" where
  "nested_steps reg cls params at_path =
     concat (map (\<lambda>key. concat (map (\<lambda>(i, n).
         (at_path @ ''.'' @ key @ ''['' @ nat_text i @ '']'', n)
           # nested_steps reg (reg (uses_at n)) (dict_at n ''with'') (at_path @ ''.'' @ key @ ''['' @ nat_text i @ ''].with''))
       (mappings (list_at params key)))) (sort (step_list_keys cls)))"
  by pat_completeness auto
termination
  by (relation "measure (\<lambda>(reg, cls, params, at_path). size (PDict params))")
     (auto simp del: pyval.size dest: nested_with_smaller)

declare nested_steps.simps [simp del]

text \<open>The same equation in the form the simplifier can run: it stops at a step without step lists.\<close>

lemma nested_steps_code [code]:
  "nested_steps reg cls params at_path =
     (case sort (step_list_keys cls) of
        [] \<Rightarrow> []
      | key # keys \<Rightarrow> concat (map (\<lambda>key. concat (map (\<lambda>(i, n).
         (at_path @ ''.'' @ key @ ''['' @ nat_text i @ '']'', n)
           # nested_steps reg (reg (uses_at n)) (dict_at n ''with'') (at_path @ ''.'' @ key @ ''['' @ nat_text i @ ''].with''))
       (mappings (list_at params key)))) (key # keys)))"
  by (subst nested_steps.simps) (simp split: list.split)

text \<open>\<open>str(nested[ID])\<close> where it is truthy.\<close>

definition id_at :: "(string, pyval) pydict \<Rightarrow> string option" where
  "id_at d = (case dict_get d ''id'' of None \<Rightarrow> None | Some v \<Rightarrow> if truthy v then Some (py_str v) else None)"

definition namespaced_ids :: "(string \<Rightarrow> class_facts option) \<Rightarrow> class_facts option \<Rightarrow> (string, pyval) pydict \<Rightarrow> string list" where
  "namespaced_ids reg cls params =
     (case cls of
        None \<Rightarrow> []
      | Some c \<Rightarrow>
          if nonempty_text (cf_nested_namespace c)
          then map (\<lambda>i. the (cf_nested_namespace c) @ ''.'' @ i)
                 (List.map_filter (\<lambda>(at_path, n). id_at n) (nested_steps reg cls params ''with''))
          else [])"

function nested_step_ids :: "(string \<Rightarrow> class_facts option) \<Rightarrow> string \<Rightarrow> (string, pyval) pydict \<Rightarrow> string list" where
  "nested_step_ids reg uses params =
     (if (case reg uses of None \<Rightarrow> False | Some c \<Rightarrow> nonempty_text (cf_nested_namespace c)) then []
      else concat (map (\<lambda>key. concat (map (\<lambda>(i, n).
               (case id_at n of None \<Rightarrow> [] | Some s \<Rightarrow> [s]) @ nested_step_ids reg (uses_at n) (dict_at n ''with''))
             (mappings (list_at params key)))) (step_list_keys (reg uses))))"
  by pat_completeness auto
termination
  by (relation "measure (\<lambda>(reg, uses, params). size (PDict params))")
     (auto simp del: pyval.size dest: nested_with_smaller)

declare nested_step_ids.simps [simp del]

definition list_items :: "pyval \<Rightarrow> pyval list" where
  "list_items v = (case v of PList xs \<Rightarrow> xs | _ \<Rightarrow> [])"

lemma entry_smaller: "(key, v) \<in> set params \<Longrightarrow> size v < size (PDict params)"
  using pyval_dict_smaller by simp

lemma item_smaller:
  assumes "(key, v) \<in> set params" "(i, n) \<in> set (mappings (list_items v))"
  shows "size (PDict n) < size (PDict params)"
proof -
  obtain xs where v: "v = PList xs" using assms(2) by (cases v) (auto simp: list_items_def mappings_def)
  then have "size (PDict n) < size v"
    using mappings_in [OF assms(2)] pyval_list_smaller [of "PDict n" xs] by (simp add: list_items_def less_Suc_eq_le)
  with entry_smaller [OF assms(1)] show ?thesis by linarith
qed

lemma single_le: "(key, v) \<in> set params \<Longrightarrow> size (PDict [(key, v)]) \<le> size (PDict params)"
  by (induction params) (auto simp: less_Suc_eq_le)

lemma filter_le: "size (PDict (filter P d)) \<le> size (PDict d)"
  by (induction d) auto

text \<open>Every \<open>(param, reference)\<close> whose root is not declared. Texts that stand in a list are not looked at.\<close>

function unresolved_references ::
  "(string \<Rightarrow> class_facts option) \<Rightarrow> (string, pyval) pydict \<Rightarrow> string set \<Rightarrow> class_facts option \<Rightarrow> (string \<times> string) list" where
  "unresolved_references reg params declared cls =
     (let body_scope = declared \<union> set (facts_of cls cf_body_references) \<union> set (namespaced_ids reg cls params)
      in concat (map (\<lambda>(key, v).
           if key \<in> set (step_list_keys cls) \<and> (case v of PList _ \<Rightarrow> True | _ \<Rightarrow> False)
           then concat (map (\<lambda>(i, n). unresolved_references reg (dict_at n ''with'') body_scope (reg (uses_at n))
                    @ unresolved_references reg (filter (\<lambda>(k, u). k \<noteq> ''with'' \<and> k \<noteq> ''if'') n) body_scope None)
                  (mappings (list_items v)))
           else if cls \<noteq> None \<and> key \<in> set (facts_of cls cf_templates) then unresolved_references reg [(key, v)] body_scope None
           else (case v of
                   PStr s \<Rightarrow> map (Pair key) (filter (\<lambda>r. reference_root r \<notin> declared) (expr_refs s))
                 | PDict d \<Rightarrow> unresolved_references reg d declared None
                 | PList xs \<Rightarrow> concat (map (\<lambda>(i, n). unresolved_references reg n declared None) (mappings (list_items v)))
                 | _ \<Rightarrow> [])) params))"
  by pat_completeness auto
termination
proof (relation "measure (\<lambda>(reg, params, declared, cls). 2 * size (PDict params) + (if cls = None then 0 else 1))", goal_cases)
  case 1
  show ?case by simp
next
  case (2 reg params declared cls x p key v z i n)
  then show ?case using item_smaller [of key v params i n] dict_at_le [of n "''with''"] by (simp del: pyval.size)
next
  case (3 reg params declared cls x p key v z i n)
  then show ?case
    using item_smaller [of key v params i n] filter_le [of "\<lambda>(k, u). k \<noteq> ''with'' \<and> k \<noteq> ''if''" n] by (simp del: pyval.size)
next
  case (4 reg params declared cls x p key v)
  then show ?case using single_le [of key v params] by (auto simp del: pyval.size)
next
  case (5 reg params declared cls x p key v xs z i n)
  then show ?case using item_smaller [of key v params i n] by (simp del: pyval.size)
next
  case (6 reg params declared cls x p key v d)
  then show ?case using entry_smaller [of key v params] by (simp del: pyval.size)
qed

declare unresolved_references.simps [simp del]

lemma unresolved_references_code [code]:
  "unresolved_references reg params declared cls =
     (if params = [] then [] else
     (let body_scope = declared \<union> set (facts_of cls cf_body_references) \<union> set (namespaced_ids reg cls params)
      in concat (map (\<lambda>(key, v).
           if key \<in> set (step_list_keys cls) \<and> (case v of PList _ \<Rightarrow> True | _ \<Rightarrow> False)
           then concat (map (\<lambda>(i, n). unresolved_references reg (dict_at n ''with'') body_scope (reg (uses_at n))
                    @ unresolved_references reg (filter (\<lambda>(k, u). k \<noteq> ''with'' \<and> k \<noteq> ''if'') n) body_scope None)
                  (mappings (list_items v)))
           else if cls \<noteq> None \<and> key \<in> set (facts_of cls cf_templates) then unresolved_references reg [(key, v)] body_scope None
           else (case v of
                   PStr s \<Rightarrow> map (Pair key) (filter (\<lambda>r. reference_root r \<notin> declared) (expr_refs s))
                 | PDict d \<Rightarrow> unresolved_references reg d declared None
                 | PList xs \<Rightarrow> concat (map (\<lambda>(i, n). unresolved_references reg n declared None) (mappings (list_items v)))
                 | _ \<Rightarrow> [])) params)))"
  by (subst unresolved_references.simps) simp

section \<open>The names in scope\<close>

definition group_of :: "(string, pyval) pydict \<Rightarrow> string option" where
  "group_of entry =
     (case dict_get (dict_at entry ''with'') ''one_of'' of
        Some (PStr s) \<Rightarrow> if strip s = [] then None else Some (strip s) | _ \<Rightarrow> None)"

definition one_of_groups :: "pyval list \<Rightarrow> string list" where
  "one_of_groups entries =
     remdups (List.map_filter (\<lambda>(i, n). if truthy (doc_get n ''id'') then group_of n else None) (mappings entries))"

definition env_variable_ids :: "pyval \<Rightarrow> string list" where
  "env_variable_ids variables =
     (case variables of
        PList xs \<Rightarrow> map (\<lambda>(i, n). py_str (doc_get n ''id'')) (filter (\<lambda>(i, n). dict_has n ''id'') (mappings xs)) @ one_of_groups xs
      | PDict d \<Rightarrow> map fst d
      | _ \<Rightarrow> [])"

definition declared_variable_ids :: "(string, pyval) pydict \<Rightarrow> string set" where
  "declared_variable_ids env_data =
     (case dict_get env_data ''variables'' of
        Some (PList xs) \<Rightarrow> set (List.map_filter (\<lambda>(i, n). id_at n) (mappings xs)) \<union> set (one_of_groups xs)
      | _ \<Rightarrow> {})"

record env_block =
  eb_variables :: pyval
  eb_testdata :: "string list"
  eb_schemas :: "string list"
  eb_apis :: "string list"

definition RUN_VARIABLES :: "string list" where
  "RUN_VARIABLES = [''execution.id'', ''execution.resource_prefix'']"

definition phases_of :: "TestDefinition \<Rightarrow> (string \<times> StepDefinition list) list" where
  "phases_of test = [(''setup'', td_setup test), (''execution'', td_execution test), (''teardown'', td_teardown test)]"

definition step_scope_names :: "(string \<Rightarrow> class_facts option) \<Rightarrow> string \<Rightarrow> StepDefinition \<Rightarrow> string list" where
  "step_scope_names reg phase d =
     (if nonempty_text (sd_id d) then [phase @ ''.'' @ the (sd_id d)] else [])
     @ map (\<lambda>i. phase @ ''.'' @ i) (nested_step_ids reg (sd_uses d) (or_empty (sd_with d)))"

text \<open>The binding keys of the infrastructure models are the argument \<open>known\<close>.\<close>

definition scope_of :: "(string \<Rightarrow> class_facts option) \<Rightarrow> string set \<Rightarrow> env_block option \<Rightarrow> TestDefinition \<Rightarrow> string set" where
  "scope_of reg known env test =
     (case env of
        None \<Rightarrow> {}
      | Some e \<Rightarrow> set (map (\<lambda>i. ''env.'' @ i) (env_variable_ids (eb_variables e))) \<union> set (map (\<lambda>i. ''env.testdata.'' @ i) (eb_testdata e))
          \<union> set (map (\<lambda>i. ''env.schemas.'' @ i) (eb_schemas e)) \<union> set (map (\<lambda>i. ''env.apis.'' @ i) (eb_apis e)))
     \<union> set (concat (map (\<lambda>(phase, steps). concat (map (step_scope_names reg phase) steps)) (phases_of test)))
     \<union> known \<union> set RUN_VARIABLES"

section \<open>Conditions\<close>

record Published =
  pb_returns :: "(string, string list) pydict"
  pb_bare :: "string list"

definition add_published :: "string \<Rightarrow> string option \<Rightarrow> string list \<Rightarrow> Published \<Rightarrow> Published" where
  "add_published phase step_id names p =
     \<lparr>pb_returns = (if nonempty_text step_id then dict_set (phase @ ''.'' @ the step_id) names (pb_returns p) else pb_returns p),
      pb_bare = pb_bare p @ names\<rparr>"

definition outcome_problem :: "Condition \<Rightarrow> string list \<Rightarrow> finding option" where
  "outcome_problem c earlier =
     (if cd_expected c \<notin> set OUTCOMES then Some (No_such_outcome (cd_name c) (cd_expected c))
      else if cd_name c \<notin> set earlier then Some (No_step_before (cd_name c)) else None)"

definition variable_problem :: "string \<Rightarrow> Published \<Rightarrow> string set option \<Rightarrow> finding option" where
  "variable_problem name p scope =
     (let parts = split_on (CHR ''.'') name
      in if hd parts \<in> {''setup'', ''execution'', ''teardown''} \<and> 2 < length parts
         then (case dict_get (pb_returns p) (dotted (take 2 parts)) of
                 None \<Rightarrow> Some (No_step_runs_before name (dotted (take 2 parts)))
               | Some returns \<Rightarrow>
                   if dotted (drop 2 parts) \<in> set returns then None
                   else Some (Not_returned name (dotted (drop 2 parts)) (sort returns)))
         else if length parts = 2 \<and> dict_has (pb_returns p) name then Some (Names_a_step name)
         else (let env_variable = (hd parts = ''env'' \<and> length parts = 2)
               in case scope of
                    None \<Rightarrow> None
                  | Some names \<Rightarrow>
                      if name \<in> set (pb_bare p) \<or> ''env.'' @ name \<in> names \<or> (name \<in> names \<and> \<not> env_variable) then None
                      else Some (Names_nothing_held name env_variable)))"

definition step_problem :: "string option \<Rightarrow> string \<Rightarrow> string list \<Rightarrow> Published \<Rightarrow> string set option \<Rightarrow> finding option" where
  "step_problem condition_text phase earlier p scope =
     (case condition_text of
        None \<Rightarrow> None
      | Some text \<Rightarrow>
          if phase = ''teardown'' then Some Teardown_condition
          else (case parse_condition text of
                  None \<Rightarrow> Some (Not_an_expression text)
                | Some c \<Rightarrow>
                    if cd_legacy c then Some (Retired_spelling text (cd_name c))
                    else (case cd_kind c of
                            Outcome \<Rightarrow> outcome_problem c earlier
                          | Compare \<Rightarrow> variable_problem (cd_name c) p scope
                          | Truthy \<Rightarrow> variable_problem (cd_name c) p scope
                          | Status \<Rightarrow> None)))"

definition returns_at :: "(string, pyval) pydict \<Rightarrow> string list" where
  "returns_at n = map fst (dict_at n ''returns'')"

definition publish_step ::
  "(string \<Rightarrow> class_facts option) \<Rightarrow> string \<Rightarrow> StepDefinition \<Rightarrow> Published \<Rightarrow> Published" where
  "publish_step reg phase d p =
     fold (\<lambda>(at_path, n). add_published phase (id_at n) (returns_at n))
       (nested_steps reg (reg (sd_uses d)) (or_empty (sd_with d)) ''with'')
       (add_published phase (sd_id d) (map fst (or_empty (sd_returns d))) p)"

fun phase_conditions ::
  "(string \<Rightarrow> class_facts option) \<Rightarrow> string set option \<Rightarrow> string \<Rightarrow> (nat \<times> StepDefinition) list \<Rightarrow> string list \<Rightarrow> Published
   \<Rightarrow> (string \<times> nat \<times> string \<times> finding) list \<times> Published" where
  "phase_conditions reg scope phase [] earlier p = ([], p)"
| "phase_conditions reg scope phase ((idx, d) # rest) earlier p =
     (let nested = nested_steps reg (reg (sd_uses d)) (or_empty (sd_with d)) ''with'';
          own = map (\<lambda>(at_path, n). (phase, idx, at_path @ ''.if'', Nested_condition)) (filter (\<lambda>(at_path, n). dict_has n ''if'') nested)
            @ (case step_problem (sd_if d) phase earlier p scope of None \<Rightarrow> [] | Some f \<Rightarrow> [(phase, idx, ''if'', f)]);
          (later, q) = phase_conditions reg scope phase rest (if nonempty_text (sd_id d) then earlier @ [the (sd_id d)] else earlier)
            (publish_step reg phase d p)
      in (own @ later, q))"

definition condition_findings ::
  "(string \<Rightarrow> class_facts option) \<Rightarrow> TestDefinition \<Rightarrow> string set option \<Rightarrow> (string \<times> nat \<times> string \<times> finding) list" where
  "condition_findings reg test scope =
     fst (fold (\<lambda>(phase, steps) (fs, p). let (gs, q) = phase_conditions reg scope phase (enumerate 0 steps) [] p in (fs @ gs, q))
        (phases_of test) ([], \<lparr>pb_returns = [], pb_bare = []\<rparr>))"

section \<open>Misplaced credentials\<close>

lemma enumerate_smaller: "(i, x) \<in> set (enumerate n xs) \<Longrightarrow> size x < size (PList xs)"
  using pyval_list_smaller [of x xs] by (auto simp: enumerate_eq_zip dest!: set_zip_rightD)

text \<open>\<open>_references\<close>: where each credential is named in a value.\<close>

function credential_references :: "string set \<Rightarrow> pyval \<Rightarrow> string \<Rightarrow> (string \<times> string) list" where
  "credential_references secrets v at_path =
     (case v of
        PStr s \<Rightarrow> map (\<lambda>r. (at_path, reference_root (strip r))) (filter (\<lambda>r. reference_root (strip r) \<in> secrets) (expr_refs s))
      | PDict d \<Rightarrow> concat (map (\<lambda>(k, u). credential_references secrets u (at_path @ ''.'' @ k)) d)
      | PList xs \<Rightarrow> concat (map (\<lambda>(i, u). credential_references secrets u (at_path @ ''['' @ nat_text i @ '']'')) (enumerate 0 xs))
      | _ \<Rightarrow> [])"
  by pat_completeness auto
termination
  by (relation "measure (\<lambda>(secrets, v, at_path). size v)") (auto dest: enumerate_smaller entry_smaller simp del: pyval.size)

declare credential_references.simps [simp del]

definition is_whole_credential :: "string set \<Rightarrow> pyval \<Rightarrow> bool" where
  "is_whole_credential secrets v =
     (case v of PStr s \<Rightarrow> (case EXPR_REF_FULL s of None \<Rightarrow> False | Some e \<Rightarrow> reference_root (strip e) \<in> secrets) | _ \<Rightarrow> False)"

lemma child_smaller:
  assumes "(k, PDict w) \<in> set step" "(key, v) \<in> set w" "(i, n) \<in> set (mappings (list_items v))"
  shows "size (PDict n) < size (PDict step)"
  using item_smaller [OF assms(2,3)] entry_smaller [OF assms(1)] by linarith

function misplaced ::
  "(string \<Rightarrow> class_facts option) \<Rightarrow> string set \<Rightarrow> (string, pyval) pydict \<Rightarrow> string \<Rightarrow> (string \<times> string) list" where
  "misplaced reg secrets step at_path =
     concat (map (\<lambda>(key, v).
       case (if key = ''with'' then v else PNone) of
         PDict w \<Rightarrow>
           concat (map (\<lambda>(param, item).
             if param \<in> set (step_list_keys (reg (uses_at step))) \<and> (case item of PList _ \<Rightarrow> True | _ \<Rightarrow> False)
             then concat (map (\<lambda>(i, n). misplaced reg secrets n (at_path @ key @ ''.'' @ param @ ''['' @ nat_text i @ ''].'')) (mappings (list_items item)))
             else (case item of
                     PDict hs \<Rightarrow>
                       if param \<in> set (facts_of (reg (uses_at step)) cf_credential_params)
                       then concat (map (\<lambda>(name, header). if is_whole_credential secrets header then []
                              else credential_references secrets header (at_path @ key @ ''.'' @ param @ ''.'' @ name)) hs)
                       else credential_references secrets item (at_path @ key @ ''.'' @ param)
                   | _ \<Rightarrow> credential_references secrets item (at_path @ key @ ''.'' @ param))) w)
       | _ \<Rightarrow> credential_references secrets v (at_path @ key)) step)"
  by pat_completeness auto
termination
  by (relation "measure (\<lambda>(reg, secrets, step, at_path). size (PDict step))")
     (auto simp del: pyval.size dest: child_smaller split: if_splits)

declare misplaced.simps [simp del]

text \<open>A step as \<open>model_dump(by_alias=True, exclude_none=True)\<close> writes it; its \<open>expects\<close> and \<open>timeout_s\<close> hold no text of the author.\<close>

definition some_entry :: "string \<Rightarrow> ('a \<Rightarrow> pyval) \<Rightarrow> 'a option \<Rightarrow> (string, pyval) pydict" where
  "some_entry key f v = (case v of None \<Rightarrow> [] | Some x \<Rightarrow> [(key, f x)])"

definition assertion_document :: "Assertion \<Rightarrow> pyval" where
  "assertion_document a = PDict ([(''uses'', PStr (as_uses a))] @ some_entry ''name'' PStr (as_name a) @ some_entry ''with'' PDict (as_with a)
     @ some_entry ''cac'' (\<lambda>cs. PList (map PStr cs)) (as_cac a))"

definition returns_document :: "ReturnFieldDefinition \<Rightarrow> pyval" where
  "returns_document f = PDict ([(''type'', PStr (rf_type f))] @ some_entry ''hidden'' PBool (rf_hidden f))"

definition direction_text :: "Direction \<Rightarrow> string" where
  "direction_text d = (case d of INBOUND \<Rightarrow> ''inbound'' | OUTBOUND \<Rightarrow> ''outbound'' | INTERNAL \<Rightarrow> ''internal'')"

definition via_text :: "Via \<Rightarrow> string" where
  "via_text v = (case v of DIRECT \<Rightarrow> ''direct'' | DATAPLANE \<Rightarrow> ''dataplane'')"

definition mark_entry :: "checkpoint_value \<Rightarrow> (string, pyval) pydict" where
  "mark_entry c =
     (case c of
        Unmarked \<Rightarrow> []
      | Switched b \<Rightarrow> [(''checkpoint'', PBool b)]
      | Marked m \<Rightarrow> [(''checkpoint'', PDict (some_entry ''label'' PStr (cm_label m) @ some_entry ''description'' PStr (cm_description m)
          @ some_entry ''direction'' (\<lambda>d. PStr (direction_text d)) (cm_direction m) @ some_entry ''via'' (\<lambda>v. PStr (via_text v)) (cm_via m)))])"

definition step_document :: "StepDefinition \<Rightarrow> (string, pyval) pydict" where
  "step_document d =
     some_entry ''id'' PStr (sd_id d) @ [(''uses'', PStr (sd_uses d))] @ some_entry ''name'' PStr (sd_name d) @ some_entry ''with'' PDict (sd_with d)
     @ some_entry ''returns'' (\<lambda>fs. PDict (map (\<lambda>(n, f). (n, returns_document f)) fs)) (sd_returns d)
     @ some_entry ''validate'' (\<lambda>as. PList (map assertion_document as)) (sd_assertions d)
     @ some_entry ''if'' PStr (sd_if d) @ mark_entry (sd_checkpoint d) @ some_entry ''cac'' (\<lambda>cs. PList (map PStr cs)) (sd_cac d)"

definition credential_findings ::
  "(string \<Rightarrow> class_facts option) \<Rightarrow> string set \<Rightarrow> TestDefinition \<Rightarrow> (string \<times> nat \<times> string \<times> finding) list" where
  "credential_findings reg secrets test =
     concat (map (\<lambda>(phase, steps). concat (map (\<lambda>(idx, d).
        map (\<lambda>(at_path, r). (phase, idx, at_path, Misplaced_credential r)) (misplaced reg secrets (step_document d) [])) (enumerate 0 steps)))
       (phases_of test))"

section \<open>Severities and returns\<close>

definition block_severities :: "string \<Rightarrow> pyval list \<Rightarrow> (string \<times> string) list" where
  "block_severities prefix withs =
     concat (map (\<lambda>(i, v). case v of
         PDict params \<Rightarrow>
           (case dict_get params ''severity'' of
              None \<Rightarrow> []
            | Some u \<Rightarrow>
                if (case u of PStr s \<Rightarrow> expr_refs s \<noteq> [] | _ \<Rightarrow> False) then []
                else (case check_severity u of Inl m \<Rightarrow> [(prefix @ ''validate['' @ nat_text i @ ''].with.severity'', m)] | Inr _ \<Rightarrow> []))
       | _ \<Rightarrow> []) (enumerate 0 withs))"

definition entry_withs :: "pyval list \<Rightarrow> pyval list" where
  "entry_withs entries = map (\<lambda>e. case e of PDict n \<Rightarrow> doc_get n ''with'' | _ \<Rightarrow> PNone) entries"

definition severity_findings :: "(string \<Rightarrow> class_facts option) \<Rightarrow> class_facts option \<Rightarrow> StepDefinition \<Rightarrow> (string \<times> string) list" where
  "severity_findings reg cls d =
     block_severities [] (map (\<lambda>a. case as_with a of None \<Rightarrow> PNone | Some p \<Rightarrow> PDict p) (or_empty (sd_assertions d)))
     @ concat (map (\<lambda>(at_path, n). case dict_get n ''validate'' of Some (PList es) \<Rightarrow> block_severities (at_path @ ''.'') (entry_withs es) | _ \<Rightarrow> [])
         (nested_steps reg cls (or_empty (sd_with d)) ''with''))"

definition returns_findings :: "class_facts option \<Rightarrow> StepDefinition \<Rightarrow> finding list" where
  "returns_findings cls d =
     (case cls of
        None \<Rightarrow> []
      | Some c \<Rightarrow> map Returns_not_produced
          (filter (\<lambda>n. \<not> names_a_published_output n (Some (declared_names (cf_fields c)))) (map fst (or_empty (sd_returns d)))))"

section \<open>The validator\<close>

record validator_env =
  ve_get :: "string \<Rightarrow> string \<Rightarrow> class_facts option"
  ve_get_any :: "string \<Rightarrow> class_facts option"
  ve_step_types :: "string list"
  ve_checks :: check_env
  ve_input_optional :: "string \<Rightarrow> bool"
  ve_secrets :: "string set"
  ve_checkpoints :: "string \<Rightarrow> checkpoint_facts option"

definition check_findings :: "validator_env \<Rightarrow> class_facts option \<Rightarrow> StepDefinition \<Rightarrow> Assertion \<Rightarrow> exc + finding list" where
  "check_findings env cls d a =
     (let params = or_empty (as_with a);
          valid_keys = (case cls of None \<Rightarrow> None | Some c \<Rightarrow> map_option (\<lambda>ns. set (map fst (or_empty (sd_returns d))) \<union> ns) (cf_publishes c))
      in case resolve_assertion (ve_checks env) (as_uses a) params of
           Inl e \<Rightarrow> Inl e
         | Inr (Inl m) \<Rightarrow> Inr [Refused_check m]
         | Inr (Inr r) \<Rightarrow>
             (case (case ra_operator r of None \<Rightarrow> None | Some name \<Rightarrow> check_operands name params) of
                Some m \<Rightarrow> Inr [Refused_check m]
              | None \<Rightarrow>
                  if doc_get params ''input'' = PNone \<and> en_registered (ve_checks env) (as_uses a) \<noteq> None \<and> ve_input_optional env (as_uses a) then Inr []
                  else (case doc_get params ''input'' of
                          PStr s \<Rightarrow> Inr (if names_a_published_output s valid_keys then [] else [Input_not_produced s])
                        | _ \<Rightarrow> Inr [Input_not_text])))"

text \<open>\<open>None\<close> as the scope: the test is checked without a manifest around it.\<close>

definition var_ref_findings ::
  "validator_env \<Rightarrow> (string, pyval) pydict \<Rightarrow> string set option \<Rightarrow> class_facts option \<Rightarrow> finding list" where
  "var_ref_findings env params declared cls =
     (case declared of
        None \<Rightarrow> []
      | Some names \<Rightarrow> map (\<lambda>(key, r). Names_nothing_supplied key r) (unresolved_references (ve_get_any env) params names cls))"

definition step_findings :: "validator_env \<Rightarrow> string option \<Rightarrow> string set option \<Rightarrow> StepDefinition \<Rightarrow> exc + finding list" where
  "step_findings env version declared d =
     (let cls = ve_get env (sd_uses d) (if nonempty_text version then the version else ''saturn'')
      in map_ok (\<lambda>fss. (if cls = None \<and> sd_uses d \<notin> set (ve_step_types env) then [Unknown_step_type (sd_uses d)] else [])
            @ var_ref_findings env (or_empty (sd_with d)) declared cls @ concat fss @ returns_findings cls d
            @ map (\<lambda>(f, m). Refused_check m) (severity_findings (ve_get_any env) cls d))
          (map_err (check_findings env cls d) (or_empty (sd_assertions d))))"

definition RESERVED_EXECUTION_STEP_IDS :: "string list" where
  "RESERVED_EXECUTION_STEP_IDS = map (drop 10) RUN_VARIABLES"

definition phase_findings ::
  "validator_env \<Rightarrow> string option \<Rightarrow> string set option \<Rightarrow> string \<times> StepDefinition list \<Rightarrow> exc + finding list" where
  "phase_findings env version declared p =
     map_ok concat (map_err (\<lambda>d. map_ok (\<lambda>fs. fs @ (if fst p = ''execution'' \<and> nonempty_text (sd_id d) \<and> the (sd_id d) \<in> set RESERVED_EXECUTION_STEP_IDS
         then [Reserved_step_id (the (sd_id d))] else [])) (step_findings env version declared d)) (snd p))"

definition checkpoint_findings ::
  "(string \<Rightarrow> checkpoint_facts option) \<Rightarrow> TestDefinition \<Rightarrow> (string \<times> nat \<times> string \<times> finding) list" where
  "checkpoint_findings reg test =
     concat (map (\<lambda>(phase, steps). concat (map (\<lambda>(idx, d). map (\<lambda>q. (phase, idx, ''checkpoint'', Refused_mark q)) (mark_problems reg d))
       (enumerate 0 steps))) (phases_of test))"

text \<open>The errors of \<open>validate\<close>; its warnings stop nothing.\<close>

definition validate :: "validator_env \<Rightarrow> string option \<Rightarrow> string set option \<Rightarrow> TestDefinition \<Rightarrow> exc + finding list" where
  "validate env version scope test =
     map_ok (\<lambda>fss. concat fss @ map (\<lambda>(phase, idx, f, problem). problem)
         (condition_findings (ve_get_any env) test scope @ credential_findings (ve_get_any env) (ve_secrets env) test
          @ checkpoint_findings (ve_checkpoints env) test))
       (map_err (phase_findings env version scope) (phases_of test))"

lemma validate_parts:
  assumes "validate env version scope test = Inr []"
  shows "condition_findings (ve_get_any env) test scope = []" "credential_findings (ve_get_any env) (ve_secrets env) test = []"
    "checkpoint_findings (ve_checkpoints env) test = []"
    "\<And>p d. p \<in> set (phases_of test) \<Longrightarrow> d \<in> set (snd p) \<Longrightarrow> step_findings env version scope d = Inr []"
proof -
  obtain fss where fss: "map_err (phase_findings env version scope) (phases_of test) = Inr fss"
    using assms by (cases "map_err (phase_findings env version scope) (phases_of test)") (auto simp: validate_def)
  with assms have parts: "concat fss = []" "condition_findings (ve_get_any env) test scope = []"
    "credential_findings (ve_get_any env) (ve_secrets env) test = []" "checkpoint_findings (ve_checkpoints env) test = []"
    by (simp_all add: validate_def)
  then show "condition_findings (ve_get_any env) test scope = []" "credential_findings (ve_get_any env) (ve_secrets env) test = []"
    "checkpoint_findings (ve_checkpoints env) test = []"
    by simp_all
  have all: "map_err f xs = Inr ys \<Longrightarrow> concat ys = [] \<Longrightarrow> x \<in> set xs \<Longrightarrow> f x = Inr []" for f :: "'x \<Rightarrow> exc + 'y list" and xs ys x
    by (induction xs arbitrary: ys) (auto split: sum.splits)
  fix p d
  assume "p \<in> set (phases_of test)" and d: "d \<in> set (snd p)"
  then have "phase_findings env version scope p = Inr []" using all [OF fss parts(1)] by blast
  then obtain gss where g: "map_err (\<lambda>d. map_ok (\<lambda>fs. fs @ (if fst p = ''execution'' \<and> nonempty_text (sd_id d) \<and> the (sd_id d) \<in> set RESERVED_EXECUTION_STEP_IDS
         then [Reserved_step_id (the (sd_id d))] else [])) (step_findings env version scope d)) (snd p) = Inr gss" "concat gss = []"
    unfolding phase_findings_def map_ok_eq_Inr by auto
  from all [OF g d] show "step_findings env version scope d = Inr []"
    by (cases "step_findings env version scope d") auto
qed

section \<open>Conditions that compile are read\<close>

lemma phase_conditions_accepted:
  assumes "fst (phase_conditions reg scope phase ds earlier p) = []" and "phase \<noteq> ''teardown''"
    and "k < length ds" and "sd_if (snd (ds ! k)) = Some text"
  shows "\<exists>c. parse_condition text = Some c \<and> \<not> cd_legacy c
    \<and> (cd_kind c = Outcome \<longrightarrow> cd_expected c \<in> set OUTCOMES \<and> (cd_name c \<in> set earlier \<or> (\<exists>j<k. sd_id (snd (ds ! j)) = Some (cd_name c))))"
  using assms(1,3,4)
proof (induction ds arbitrary: earlier p k)
  case (Cons x ds)
  obtain idx d where x: "x = (idx, d)" by fastforce
  let ?earlier = "if nonempty_text (sd_id d) then earlier @ [the (sd_id d)] else earlier"
  have none: "step_problem (sd_if d) phase earlier p scope = None"
    and rest: "fst (phase_conditions reg scope phase ds ?earlier (publish_step reg phase d p)) = []"
    using Cons.prems(1) x by (auto simp: Let_def split: option.splits prod.splits)
  show ?case
  proof (cases k)
    case 0
    with Cons.prems(3) x have "sd_if d = Some text" by simp
    with none assms(2) show ?thesis
      by (auto simp: step_problem_def outcome_problem_def split: option.splits if_splits condition_kind.splits)
  next
    case (Suc j)
    with Cons.prems(2,3) Cons.IH [OF rest, of j] obtain c where c: "parse_condition text = Some c" "\<not> cd_legacy c"
      "cd_kind c = Outcome \<longrightarrow> cd_expected c \<in> set OUTCOMES \<and> (cd_name c \<in> set ?earlier \<or> (\<exists>i<j. sd_id (snd (ds ! i)) = Some (cd_name c)))"
      by auto
    have "cd_name c \<in> set ?earlier \<Longrightarrow> cd_name c \<in> set earlier \<or> sd_id d = Some (cd_name c)"
      by (auto simp: nonempty_text_def split: if_splits)
    with c Suc x show ?thesis by (auto simp: less_Suc_eq_0_disj)
  qed
qed simp

lemma condition_findings_phase:
  assumes "condition_findings reg test scope = []" and "(phase, steps) \<in> set (phases_of test)"
  shows "\<exists>p. fst (phase_conditions reg scope phase (enumerate 0 steps) [] p) = []"
  using assms by (auto simp: condition_findings_def phases_of_def Let_def split: prod.splits) (metis fst_conv)+

lemma phase_result_named:
  assumes "run_phase env test cfg w = (w', rs, Inr st)" "j < length rs"
  shows "step_named test cfg (j, steps_for_phase test (ph_phase cfg) ! j) (rs ! j)" "j < length (steps_for_phase test (ph_phase cfg))"
proof -
  note l = phase_length [OF assms(1)]
  with assms(2) show "j < length (steps_for_phase test (ph_phase cfg))" by simp
  from list_all2_nthD2 [OF phase_results(1) [OF assms(1)] assms(2)] assms(2) l
  show "step_named test cfg (j, steps_for_phase test (ph_phase cfg) ! j) (rs ! j)" by (simp add: nth_enumerate_eq)
qed

text \<open>Ids and step types that can be told apart in a result's name.\<close>

definition plain_step :: "StepDefinition \<Rightarrow> bool" where
  "plain_step d = ((case sd_id d of None \<Rightarrow> True | Some i \<Rightarrow> plain_id i) \<and> list_all (\<lambda>c. \<not> bracket c) (sd_uses d))"

text \<open>C17. 
  A condition the compiler accepts is read at run time the way it is written: in setup and execution it parses, is not
  in the retired spelling, and one on \<open>steps.<id>.outcome\<close> compares with an outcome a step can have and finds a result
  of a step that ran before it in the same phase.
\<close>

theorem compiled_conditions_are_read:
  assumes "validate venv version scope (ts_definition test) = Inr []"
    and "run_phase env test cfg w = (w', rs, Inr st)" and "cfg = SETUP \<or> cfg = EXECUTION"
    and "list_all plain_step (steps_for_phase test (ph_phase cfg))"
    and "i < length rs" and "sd_if (steps_for_phase test (ph_phase cfg) ! i) = Some condition_text"
  shows "\<exists>c. parse_condition condition_text = Some c \<and> \<not> cd_legacy c
    \<and> (cd_kind c = Outcome \<longrightarrow> cd_expected c \<in> set OUTCOMES
        \<and> (\<exists>r. find_step_result (cd_name c) (take i rs) = Some r))"
proof -
  let ?steps = "steps_for_phase test (ph_phase cfg)"
  have phase: "(ph_label cfg, ?steps) \<in> set (phases_of (ts_definition test))" "ph_label cfg \<in> {''setup'', ''execution'', ''teardown''}"
    "ph_label cfg \<noteq> ''teardown''"
    using assms(3) by (auto simp: SETUP_def EXECUTION_def steps_for_phase_def phases_of_def)
  obtain p where acc: "fst (phase_conditions (ve_get_any venv) scope (ph_label cfg) (enumerate 0 ?steps) [] p) = []"
    using condition_findings_phase [OF validate_parts(1) [OF assms(1)] phase(1)] by blast
  have i: "i < length ?steps" using phase_result_named(2) [OF assms(2,5)] .
  obtain c where c: "parse_condition condition_text = Some c" "\<not> cd_legacy c"
    "cd_kind c = Outcome \<longrightarrow> cd_expected c \<in> set OUTCOMES \<and> (\<exists>j<i. sd_id (?steps ! j) = Some (cd_name c))"
  proof -
    obtain c where "parse_condition condition_text = Some c" "\<not> cd_legacy c"
      "cd_kind c = Outcome \<longrightarrow> cd_expected c \<in> set OUTCOMES \<and> (\<exists>j<i. sd_id (snd (enumerate 0 ?steps ! j)) = Some (cd_name c))"
      using phase_conditions_accepted [OF acc phase(3), of i condition_text] i assms(6) by (auto simp: nth_enumerate_eq)
    moreover have "j < i \<Longrightarrow> snd (enumerate 0 ?steps ! j) = ?steps ! j" for j using i by (simp add: nth_enumerate_eq)
    ultimately show thesis using that by fastforce
  qed
  have "\<exists>r. find_step_result (cd_name c) (take i rs) = Some r" if j: "j < i" "sd_id (?steps ! j) = Some (cd_name c)" for j
  proof -
    have "j < length rs" using j assms(5) by simp
    note named = phase_result_named [OF assms(2) this]
    then have "plain_step (?steps ! j)" using assms(4) by (simp add: list_all_iff)
    then have "step_id_in_name (sr_step_name (rs ! j)) = Some (cd_name c)"
      using named(1) j(2) formatted_id [OF phase(2)] by (simp add: step_named_def plain_step_def)
    moreover have "rs ! j \<in> set (take i rs)" using j(1) assms(5) by (auto simp: in_set_conv_nth intro!: exI [of _ j])
    ultimately show ?thesis by (auto simp: find_step_result_def find_None_iff simp flip: not_None_eq)
  qed
  with c show ?thesis by blast
qed

section \<open>Credentials that compile are never misused\<close>

text \<open>The keys bindings publish their credentials under: \<open>infrastructure.<side>.<capability>.<field>\<close>.\<close>

definition binding_keys :: "string set \<Rightarrow> bool" where
  "binding_keys secrets = (\<forall>s\<in>secrets. starts_with s ''infrastructure.'' \<and> strip s = s \<and> reference_root s = s)"

text \<open>A run whose handles are where the bindings put them, and whose templates name none of them.\<close>

definition names_secret :: "string set \<Rightarrow> string \<Rightarrow> bool" where
  "names_secret secrets r = (name_of r \<in> secrets)"

definition secret_free :: "string set \<Rightarrow> pyval \<Rightarrow> bool" where
  "secret_free secrets v = (\<not> holds_credential v \<and> list_all (\<lambda>r. \<not> names_secret secrets r) (references_in v))"

definition bound_context :: "string set \<Rightarrow> StepContext \<Rightarrow> bool" where
  "bound_context secrets x =
     ((\<forall>n v. dict_get (cx_variables x) n = Some v \<longrightarrow> holds_credential v \<longrightarrow> n \<in> secrets \<and> (\<exists>c. v = PCred c))
      \<and> (\<forall>n v. n \<in> cx_templates x \<longrightarrow> dict_get (cx_variables x) n = Some v \<longrightarrow> secret_free secrets v))"

definition misuse :: "exc \<Rightarrow> bool" where
  "misuse e = (ex_code e = Some ''CREDENTIAL_MISUSE'')"

definition no_misuse :: "exc + 'a \<Rightarrow> bool" where
  "no_misuse a = (case a of Inl e \<Rightarrow> \<not> misuse e | Inr _ \<Rightarrow> True)"

lemma no_misuse_simps [simp]: "no_misuse (Inr y)" "no_misuse (Inl e) = (\<not> misuse e)"
  by (simp_all add: no_misuse_def)

lemma unresolved_no_misuse [simp]: "\<not> misuse (unresolved_reference_error r names origin)"
  by (auto simp: misuse_def unresolved_reference_error_def authoring_error_def code_of_origin_def Let_def dest!: dict_get_SomeD)

lemma other_no_misuse [simp]: "\<not> misuse (template_depth_error r)" "\<not> misuse (value_error m)"
  by (simp_all add: misuse_def template_depth_error_def authoring_error_def value_error_def)

lemma walk_no_misuse: "no_misuse (walk v path)"
  by (induction v path rule: walk.induct) (auto split: pyval.split option.split)

lemma get_holds: "dict_get d k = Some v \<Longrightarrow> \<not> holds_credential (PDict d) \<Longrightarrow> \<not> holds_credential v"
  by (auto simp: list_ex_iff dest!: dict_get_SomeD)

lemma walk_holds: "walk v path = Inr (Some u) \<Longrightarrow> \<not> holds_credential v \<Longrightarrow> \<not> holds_credential u"
proof (induction path arbitrary: v)
  case (Cons p path)
  show ?case
  proof (cases v)
    case (PDict d)
    with Cons.prems obtain w where "dict_get d p = Some w" "walk w path = Inr (Some u)" by (auto split: option.splits)
    with Cons.IH get_holds Cons.prems(2) PDict show ?thesis by blast
  next
    case (PList xs)
    with Cons.prems obtain n where "n < length xs" "walk (xs ! n) path = Inr (Some u)" by (auto split: option.splits if_splits)
    with Cons.IH Cons.prems(2) PList show ?thesis by (auto simp: list_ex_iff)
  qed (use Cons.prems in auto)
qed simp

lemma map_err_no_misuse: "(\<And>x. x \<in> set xs \<Longrightarrow> no_misuse (f x)) \<Longrightarrow> no_misuse (map_err f xs)"
proof (induction xs)
  case (Cons x xs)
  then have "no_misuse (f x)" "no_misuse (map_err f xs)" by simp_all
  then show ?case by (cases "f x"; cases "map_err f xs") simp_all
qed simp

lemma expr_sub_no_misuse: "(\<And>e. e \<in> set (expr_refs s) \<Longrightarrow> no_misuse (f e)) \<Longrightarrow> no_misuse (expr_sub f s)"
proof (induction s rule: expr_refs.induct)
  case (1 s)
  show ?case
  proof (cases s)
    case (Cons c t)
    have eqs: "expr_sub f s = (case EXPR_REF s of
             Some (e, r) \<Rightarrow> (case f e of Inl x \<Rightarrow> Inl x | Inr u \<Rightarrow> (case expr_sub f r of Inl x \<Rightarrow> Inl x | Inr w \<Rightarrow> Inr (u @ w)))
           | None \<Rightarrow> (case expr_sub f t of Inl x \<Rightarrow> Inl x | Inr w \<Rightarrow> Inr (c # w)))"
      "expr_refs s = (case EXPR_REF s of Some (e, r) \<Rightarrow> e # expr_refs r | None \<Rightarrow> expr_refs t)"
      by (simp_all add: Cons expr_sub.simps [of f "c # t"] expr_refs.simps [of "c # t"])
    show ?thesis
    proof (cases "EXPR_REF s")
      case None
      with 1(1) [OF Cons None] 1(3) eqs show ?thesis by (cases "expr_sub f t") auto
    next
      case (Some er)
      obtain e r where er: "er = (e, r)" by fastforce
      have "no_misuse (expr_sub f r)" using 1(2) [OF Cons Some er [symmetric]] 1(3) Some er eqs(2) by simp
      moreover have "no_misuse (f e)" using 1(3) Some er eqs(2) by simp
      ultimately show ?thesis using Some er eqs(1) by (cases "f e"; cases "expr_sub f r") auto
    qed
  qed (simp add: expr_sub.simps)
qed

lemma lookup_origin:
  assumes "lookup name vars = Inr (Some u)"
  obtains n v path where "dict_get vars (dotted (take n (split_on (CHR ''.'') name))) = Some v" "walk v path = Inr (Some u)" "ROOT_SEGMENTS \<le> n"
proof -
  let ?parts = "split_on (CHR ''.'') name"
  obtain n where f: "find (\<lambda>n. dict_has vars (dotted (take n ?parts))) (rev [ROOT_SEGMENTS..<Suc (length ?parts)]) = Some n"
    using assms by (cases "find (\<lambda>n. dict_has vars (dotted (take n ?parts))) (rev [ROOT_SEGMENTS..<Suc (length ?parts)])")
      (auto simp: lookup_def Let_def)
  from find_SomeD [OF f] have "dict_has vars (dotted (take n ?parts))" "ROOT_SEGMENTS \<le> n" by auto
  with assms f show thesis by (auto simp: lookup_def Let_def dict_has_def intro: that)
qed

lemma star_not_secret:
  assumes "binding_keys secrets" "starts_with name ''*.''" "0 < n"
  shows "dotted (take n (split_on (CHR ''.'') name)) \<notin> secrets"
proof
  assume s: "dotted (take n (split_on (CHR ''.'') name)) \<in> secrets"
  obtain r where name: "name = ''*.'' @ r" using assms(2) by (auto simp: starts_with_iff)
  have "split_on (CHR ''.'') name = ''*'' # split_on (CHR ''.'') r"
    unfolding name using split_append_sep [of "CHR ''.''" "''*''" r] by simp
  then have "hd (dotted (take n (split_on (CHR ''.'') name))) = CHR ''*''"
    using assms(3) by (cases n; cases "take (n - 1) (split_on (CHR ''.'') r)") (auto simp: dotted_def)
  moreover have "starts_with (dotted (take n (split_on (CHR ''.'') name))) ''infrastructure.''"
    using s assms(1) by (auto simp: binding_keys_def)
  ultimately show False by (auto simp: starts_with_iff)
qed

lemma require_no_misuse: "no_misuse (require e x)"
proof -
  have "no_misuse (lookup (name_of e) (cx_variables x))"
    by (auto simp: lookup_def Let_def walk_no_misuse split: option.split)
  then show ?thesis
    by (cases "lookup (name_of e) (cx_variables x)") (auto simp: require_def Let_def split: option.split)
qed

lemma require_free:
  assumes "binding_keys secrets" "bound_context secrets x" "require e x = Inr (name, v)" "\<not> names_secret secrets e"
  shows "\<not> holds_credential v"
proof (cases "has_variable x (name_of e)")
  case True
  with assms(3) have "dict_get (cx_variables x) (name_of e) = Some v"
    by (auto simp: require_def get_variable_def has_variable_def dict_has_def split: option.splits)
  with assms(2,4) show ?thesis by (auto simp: bound_context_def names_secret_def)
next
  case False
  with assms(3) have star: "is_call_scoped (name_of e)" and l: "lookup (name_of e) (cx_variables x) = Inr (Some v)"
    by (auto simp: require_def Let_def split: if_splits sum.splits option.splits)
  obtain n u path where n: "dict_get (cx_variables x) (dotted (take n (split_on (CHR ''.'') (name_of e)))) = Some u"
    "walk u path = Inr (Some v)" "ROOT_SEGMENTS \<le> n" using lookup_origin [OF l] .
  have "dotted (take n (split_on (CHR ''.'') (name_of e))) \<notin> secrets"
    using star_not_secret [OF assms(1)] star n(3) by (simp add: is_call_scoped_def ROOT_SEGMENTS_def)
  with assms(2) n(1) have "\<not> holds_credential u" by (auto simp: bound_context_def)
  with n(2) show ?thesis by (rule walk_holds)
qed

lemma require_whole:
  assumes "bound_context secrets x" "binding_keys secrets" "require e x = Inr (name, v)" "holds_credential v"
  shows "\<exists>c. v = PCred c"
proof (cases "has_variable x (name_of e)")
  case True
  with assms(3) have "dict_get (cx_variables x) (name_of e) = Some v"
    by (auto simp: require_def get_variable_def has_variable_def dict_has_def split: option.splits)
  with assms(1,4) show ?thesis by (auto simp: bound_context_def)
next
  case False
  have "\<not> names_secret secrets e" if "is_call_scoped (name_of e)"
    using that assms(2) by (auto simp: names_secret_def binding_keys_def is_call_scoped_def starts_with_iff)
  moreover have "is_call_scoped (name_of e)" using False assms(3) by (auto simp: require_def Let_def split: if_splits)
  ultimately show ?thesis using require_free [OF assms(2,1,3)] assms(4) by blast
qed

lemma admitted_no_misuse: "\<not> holds_credential v \<Longrightarrow> no_misuse (admitted v ok)"
  using find_holds [of v] by (cases v) (auto simp: admitted_def)

lemma require_template_free:
  assumes "bound_context secrets x" "require e x = Inr (name, v)" "is_template x name" "name \<in> cx_templates x \<Longrightarrow> has_variable x name"
  shows "secret_free secrets v"
proof -
  have name: "name = name_of e" using assms(2) by (auto simp: require_def Let_def split: if_splits sum.splits option.splits)
  with assms(3,4) have "has_variable x (name_of e)" by (simp add: is_template_def)
  with assms(2) have "dict_get (cx_variables x) (name_of e) = Some v"
    by (auto simp: require_def get_variable_def has_variable_def dict_has_def split: option.splits)
  with assms(1,3) name show ?thesis by (auto simp: bound_context_def is_template_def)
qed

definition safe_text :: "string set \<Rightarrow> string \<Rightarrow> bool \<Rightarrow> bool" where
  "safe_text secrets s ok = (list_all (\<lambda>r. \<not> names_secret secrets r) (expr_refs s) \<or> ok \<and> EXPR_REF_FULL s \<noteq> None)"

definition templates_held :: "StepContext \<Rightarrow> bool" where
  "templates_held x = (\<forall>n\<in>cx_templates x. has_variable x n)"

lemma interpolation_no_misuse:
  assumes "binding_keys secrets" "bound_context secrets x" "\<not> names_secret secrets e"
  shows "no_misuse (case require e x of Inl m \<Rightarrow> Inl m | Inr (name, v) \<Rightarrow> as_text v)"
proof (cases "require e x")
  case (Inr nv)
  obtain n v where nv: "nv = (n, v)" by fastforce
  have "\<not> holds_credential v" using require_free [OF assms(1,2)] Inr nv assms(3) by blast
  then show ?thesis using Inr nv by (cases v) (auto simp: as_text_def)
qed (use require_no_misuse [of e x] in auto)

lemma resolve_str_step:
  assumes c: "binding_keys secrets" "bound_context secrets x" "templates_held x" and s: "safe_text secrets s ok"
    and str: "\<And>t. d < MAX_TEMPLATE_DEPTH \<Longrightarrow> safe_text secrets t ok \<Longrightarrow> no_misuse (resolve_str t x (Suc d) ok)"
    and val: "\<And>v. d < MAX_TEMPLATE_DEPTH \<Longrightarrow> secret_free secrets v \<Longrightarrow> no_misuse (resolve_value v x (Suc d))"
  shows "no_misuse (resolve_str s x d ok)"
proof (cases "EXPR_REF_FULL s")
  case None
  then have free: "list_all (\<lambda>r. \<not> names_secret secrets r) (expr_refs s)" using s by (simp add: safe_text_def)
  have "no_misuse (expr_sub (\<lambda>expr. case require expr x of Inl e \<Rightarrow> Inl e | Inr (name, v) \<Rightarrow> as_text v) s)"
    by (rule expr_sub_no_misuse, rule interpolation_no_misuse [OF c(1,2)]) (use free in \<open>auto simp: list_all_iff\<close>)
  with None show ?thesis unfolding resolve_str.simps [of s] by (auto split: sum.split)
next
  case (Some e)
  show ?thesis
  proof (cases "require e x")
    case (Inl m)
    then show ?thesis using require_no_misuse [of e x] Some unfolding resolve_str.simps [of s] by simp
  next
    case (Inr nv)
    obtain n v where nv: "nv = (n, v)" by fastforce
    have plain: "no_misuse (admitted v ok)"
    proof (cases "holds_credential v")
      case True
      with require_whole [OF c(2,1)] Inr nv obtain h where "v = PCred h" by blast
      moreover have "ok" using require_free [OF c(1,2)] True Inr nv s EXPR_REF_FULL_refs [OF Some]
        by (auto simp: safe_text_def list_all_iff)
      ultimately show ?thesis by (simp add: admitted_def)
    qed (rule admitted_no_misuse)
    have "secret_free secrets v" if "is_template x n"
      using require_template_free [OF c(2)] Inr nv that c(3) by (auto simp: templates_held_def)
    then have "no_misuse (case v of PStr t \<Rightarrow> resolve_str t x (Suc d) ok | _ \<Rightarrow> resolve_value v x (Suc d))"
      if "is_template x n" "d < MAX_TEMPLATE_DEPTH"
      using that str val by (cases v) (auto simp: safe_text_def secret_free_def)
    with plain Some Inr nv show ?thesis unfolding resolve_str.simps [of s] by auto
  qed
qed

lemma resolve_no_misuse:
  assumes "binding_keys secrets" "bound_context secrets x" "templates_held x"
  shows "safe_text secrets s ok \<Longrightarrow> no_misuse (resolve_str s x d ok)"
    and "secret_free secrets v \<Longrightarrow> no_misuse (resolve_value v x d)"
proof (induction s d ok and v d rule: resolve_induct)
  case (str s d ok)
  show ?case using resolve_str_step [OF assms str.prems] str.IH by blast
next
  case (val v d)
  show ?case
  proof (cases v)
    case (PStr s)
    then show ?thesis using val by (simp add: resolve_value_eqs safe_text_def secret_free_def)
  next
    case (PDict kvs)
    have "no_misuse (map_err (keyed (\<lambda>item. resolve_value item x d)) kvs)"
    proof (rule map_err_no_misuse)
      fix kv assume kv: "kv \<in> set kvs"
      obtain k u where "kv = (k, u)" by fastforce
      with kv val.prems PDict have "secret_free secrets u" by (force simp: secret_free_def list_all_iff list_ex_iff)
      with val.IH(2) [OF PDict] kv \<open>kv = (k, u)\<close> have "no_misuse (resolve_value u x d)" by blast
      then show "no_misuse (keyed (\<lambda>item. resolve_value item x d) kv)"
        using \<open>kv = (k, u)\<close> by (auto simp: keyed_def split: sum.split)
    qed
    then show ?thesis by (auto simp: PDict resolve_value_eqs split: sum.split)
  next
    case (PList xs)
    have "no_misuse (map_err (\<lambda>item. resolve_value item x d) xs)"
      by (rule map_err_no_misuse, rule val.IH(3) [OF PList])
        (use val.prems PList in \<open>auto simp: secret_free_def list_all_iff list_ex_iff\<close>)
    then show ?thesis by (auto simp: PList resolve_value_eqs split: sum.split)
  qed (use val.prems in \<open>auto simp: resolve_value_eqs secret_free_def\<close>)
qed

lemma credential_references_none:
  "credential_references secrets v at_path = [] \<Longrightarrow> r \<in> set (references_in v) \<Longrightarrow> reference_root (strip r) \<notin> secrets"
proof (induction v arbitrary: at_path)
  case (PStr s)
  then show ?case by (auto simp: credential_references.simps [of _ "PStr s"] filter_empty_conv)
next
  case (PDict kvs)
  from PDict.prems(2) obtain k u where ku: "(k, u) \<in> set kvs" "r \<in> set (references_in u)" by auto
  with PDict.prems(1) have "credential_references secrets u (at_path @ ''.'' @ k) = []"
    by (auto simp: credential_references.simps [of _ "PDict kvs"])
  with PDict.IH ku show ?case by fastforce
next
  case (PList xs)
  from PList.prems(2) obtain u where u: "u \<in> set xs" "r \<in> set (references_in u)" by auto
  then obtain i where i: "i < length xs" "r \<in> set (references_in (xs ! i))" by (auto simp: in_set_conv_nth [of u])
  then have "(i, xs ! i) \<in> set (enumerate 0 xs)" by (auto simp: in_set_enumerate_eq)
  with PList.prems(1) have "credential_references secrets (xs ! i) (at_path @ ''['' @ nat_text i @ '']'') = []"
    by (auto simp: credential_references.simps [of _ "PList xs"])
  with PList.IH [OF nth_mem [OF i(1)]] i(2) show ?case by blast
qed auto

text \<open>The other way to a binding's key, behind \<open>env.\<close>, is no reference the author can declare.\<close>

definition env_bound :: "pyval \<Rightarrow> bool" where
  "env_bound v = list_ex (\<lambda>r. starts_with r ''env.infrastructure.'') (references_in v)"

lemma root_free_names:
  assumes "binding_keys secrets" "reference_root (strip r) \<notin> secrets" "\<not> starts_with r ''env.infrastructure.''"
  shows "\<not> names_secret secrets r"
proof
  assume n: "names_secret secrets r"
  show False
  proof (cases "starts_with r ''env.''")
    case True
    with n assms(1,3) show False by (auto simp: names_secret_def name_of_def binding_keys_def starts_with_iff)
  next
    case False
    with n assms(1,2) show False by (auto simp: names_secret_def name_of_def binding_keys_def)
  qed
qed

lemma reported_none_free:
  assumes "binding_keys secrets" "credential_references secrets v at_path = []" "\<not> holds_credential v" "\<not> env_bound v"
  shows "secret_free secrets v"
  using root_free_names [OF assms(1)] credential_references_none [OF assms(2)] assms(3,4)
  by (auto simp: secret_free_def env_bound_def list_all_iff list_ex_iff)

lemma misplaced_with:
  assumes "misplaced reg secrets step at_path = []" "(''with'', PDict p) \<in> set step" "(key, v) \<in> set p"
    "reg (uses_at step) = Some c" "key \<notin> set (cf_deferred c)"
  shows "if key \<in> set (cf_credential_params c) \<and> (\<exists>hs. v = PDict hs)
     then \<forall>name header. (name, header) \<in> set (case v of PDict hs \<Rightarrow> hs | _ \<Rightarrow> [])
        \<longrightarrow> is_whole_credential secrets header \<or> credential_references secrets header (at_path @ ''with.'' @ key @ ''.'' @ name) = []
     else credential_references secrets v (at_path @ ''with.'' @ key) = []"
proof -
  have not_list: "key \<notin> set (step_list_keys (reg (uses_at step)))"
    using assms(4,5) by (simp add: step_list_keys_def facts_of_def)
  from assms(1,2) have "(case v of
                     PDict hs \<Rightarrow>
                       if key \<in> set (facts_of (reg (uses_at step)) cf_credential_params)
                       then concat (map (\<lambda>(name, header). if is_whole_credential secrets header then []
                              else credential_references secrets header (at_path @ ''with'' @ ''.'' @ key @ ''.'' @ name)) hs)
                       else credential_references secrets v (at_path @ ''with'' @ ''.'' @ key)
                   | _ \<Rightarrow> credential_references secrets v (at_path @ ''with'' @ ''.'' @ key)) = []"
    unfolding misplaced.simps [of reg secrets step] using assms(3) not_list by fastforce
  then show ?thesis using assms(4) by (cases v) (auto simp: facts_of_def split: if_splits)
qed

lemma uses_at_document: "uses_at (step_document d) = sd_uses d"
  by (cases "sd_id d") (simp_all add: uses_at_def step_document_def some_entry_def py_str_def)

lemma credential_findings_step:
  assumes "credential_findings reg secrets test = []" "(phase, steps) \<in> set (phases_of test)" "d \<in> set steps"
  shows "misplaced reg secrets (step_document d) [] = []"
proof -
  obtain i where "(i, d) \<in> set (enumerate 0 steps)" using assms(3)
    by (auto simp: in_set_conv_nth [of d] in_set_enumerate_eq)
  with assms(1,2) show ?thesis by (fastforce simp: credential_findings_def)
qed

lemma keyed_no_misuse: "no_misuse (f (snd kv)) \<Longrightarrow> no_misuse (keyed f kv)"
  by (auto simp: keyed_def split: sum.split)

lemma carrier_no_misuse:
  assumes c: "binding_keys secrets" "bound_context secrets x" "templates_held x"
    and hs: "\<And>name header. (name, header) \<in> set hs \<Longrightarrow> is_whole_credential secrets header \<or> secret_free secrets header"
  shows "no_misuse (resolve_carrier (PDict hs) x)"
proof -
  let ?f = "\<lambda>item. case item of PStr s \<Rightarrow> resolve_str s x 0 True | _ \<Rightarrow> resolve_value item x 0"
  have "no_misuse (?f header)" if "(name, header) \<in> set hs" for name header
    using hs [OF that] resolve_no_misuse [OF c] by (cases header)
      (auto simp: is_whole_credential_def safe_text_def secret_free_def split: option.splits)
  then have "no_misuse (map_err (keyed ?f) hs)" by (intro map_err_no_misuse keyed_no_misuse) (metis prod.collapse)
  then show ?thesis by (auto simp: resolve_carrier_def split: sum.split)
qed

lemma parameter_no_misuse:
  assumes c: "binding_keys secrets" "bound_context secrets x" "templates_held x"
    and m: "misplaced reg secrets step [] = []" "(''with'', PDict p) \<in> set step" "reg (uses_at step) = Some cls"
    and p: "\<not> holds_credential (PDict p)" "\<not> env_bound (PDict p)" and kv: "(key, v) \<in> set p" "key \<notin> set (cf_deferred cls)"
  shows "no_misuse (if key \<in> set (cf_credential_params cls) then resolve_carrier v x else resolve_value v x 0)"
proof -
  have v: "\<not> holds_credential v" "\<not> env_bound v" using p kv(1) by (auto simp: list_ex_iff env_bound_def)
  note reported = misplaced_with [OF m(1,2) kv(1) m(3) kv(2)]
  show ?thesis
  proof (cases "key \<in> set (cf_credential_params cls) \<and> (\<exists>hs. v = PDict hs)")
    case True
    then obtain hs where hs: "v = PDict hs" by blast
    have "is_whole_credential secrets header \<or> secret_free secrets header" if h: "(name, header) \<in> set hs" for name header
    proof -
      have "\<not> holds_credential header" "\<not> env_bound header" using v hs h by (auto simp: list_ex_iff env_bound_def)
      with reported True h hs show ?thesis using reported_none_free [OF c(1)] by auto
    qed
    from carrier_no_misuse [OF c this] True hs show ?thesis by simp
  next
    case False
    with reported have "credential_references secrets v ([] @ ''with.'' @ key) = []" by argo
    from reported_none_free [OF c(1) this v] have free: "secret_free secrets v" .
    then have "no_misuse (resolve_value v x 0)" by (rule resolve_no_misuse(2) [OF c])
    moreover have "no_misuse (resolve_carrier v x)" if "key \<in> set (cf_credential_params cls)"
      using False that free resolve_no_misuse [OF c] by (cases v) (auto simp: resolve_carrier_def safe_text_def secret_free_def)
    ultimately show ?thesis by simp
  qed
qed


section \<open>A validator for the demonstration\<close>

definition demo_facts :: class_facts where
  "demo_facts = \<lparr>cf_deferred = [], cf_templates = [], cf_body_references = [], cf_nested_namespace = None,
     cf_credential_params = [''headers''], cf_fields = [(''token'', None)], cf_publishes = None\<rparr>"

definition demo_validator :: validator_env where
  "demo_validator = \<lparr>ve_get = (\<lambda>uses _. if uses \<in> {''util/echo'', ''util/broken''} then Some demo_facts else None),
     ve_get_any = (\<lambda>uses. if uses \<in> {''util/echo'', ''util/broken''} then Some demo_facts else None),
     ve_step_types = [''util/echo'', ''util/broken''], ve_checks = plain_env, ve_input_optional = (\<lambda>_. False),
     ve_secrets = {''infrastructure.sut.dtr.apiKey''}, ve_checkpoints = (\<lambda>_. None)\<rparr>"

definition demo_conditions :: "StepDefinition list" where
  "demo_conditions = [demo_step ''b'' ''util/echo'' None [], demo_step ''c'' ''util/echo'' (Some ''${{ steps.b.outcome == 'success' }}'') []]"

definition demo_send :: StepDefinition where
  "demo_send = StepDefinition (Some ''s'') ''util/echo'' None
     (Some [(''headers'', PDict [(''X-Api-Key'', PStr ''${{ infrastructure.sut.dtr.apiKey }}'')]), (''note'', PStr ''by ${{ nobody }}'')]) []
     None None None None Unmarked"

definition demo_bound :: StepContext where
  "demo_bound = (new_context []) \<lparr>cx_variables := [(''infrastructure.sut.dtr.apiKey'', PCred (demo_handle ''s3cret''))]\<rparr>"

theorem compiled_conditions_are_read_witness:
  "\<exists>c. parse_condition ''${{ steps.b.outcome == 'success' }}'' = Some c \<and> \<not> cd_legacy c"
proof -
  let ?run = "run_phase demo_run (demo_tests demo_conditions) EXECUTION demo_world"
  have ran: "run_phase demo_run (demo_tests demo_conditions) EXECUTION demo_world = (fst ?run, fst (snd ?run), Inr Test_COMPLETED)"
  proof -
    have "snd (snd ?run) = Inr Test_COMPLETED" by code_simp
    then show ?thesis by (metis prod.collapse)
  qed
  have two: "length (fst (snd ?run)) = 2" by code_simp
  have "validate demo_validator None None (ts_definition (demo_tests demo_conditions)) = Inr []" by code_simp
  moreover have "list_all plain_step (steps_for_phase (demo_tests demo_conditions) (ph_phase EXECUTION))" by code_simp
  moreover have "sd_if (steps_for_phase (demo_tests demo_conditions) (ph_phase EXECUTION) ! 1) = Some ''${{ steps.b.outcome == 'success' }}''"
    by code_simp
  ultimately show ?thesis
    using compiled_conditions_are_read [OF _ ran, of demo_validator None None 1 "''${{ steps.b.outcome == 'success' }}''"] two by auto
qed


section \<open>What the compiler does not look at\<close>

text \<open>A text that stands in a list is never checked, whatever it refers to.\<close>

lemma listed_references_unchecked: "unresolved_references reg [(key, PList (map PStr ss))] declared None = []"
proof -
  have "mappings (map PStr ss) = []" by (auto simp: mappings_def in_set_enumerate_eq split: pyval.splits)
  then show ?thesis
    by (simp add: unresolved_references.simps [of _ "[(key, PList (map PStr ss))]"] step_list_keys_def facts_of_def list_items_def)
qed

end
