(* ===== verification/Redaction.thy ===== *)
theory Redaction
  imports Session
begin

text \<open>
  Credentials taken out of what a run writes down, by the names they are filed under: \<^verbatim>\<open>logging/wire/secret_names.py\<close>,
  \<^verbatim>\<open>logging/wire/redaction.py\<close> and \<^verbatim>\<open>logging/wire/records.py\<close>, with the conversion of a recorded call
  (\<^verbatim>\<open>logging/wire/recording.py\<close>).

  Names are texts. Of \<open>urllib.parse\<close>, \<open>unquote_plus\<close> is an argument, because what it decodes may lie outside the 8-bit
  texts of the model, and so is the part of \<open>urlsplit\<close> that refuses a network location (\<open>_check_bracketed_netloc\<close>,
  \<open>_checknetloc\<close>). A value with a \<open>__recorded__\<close> of its own, an API document, is not part of the model's values.
\<close>

section \<open>Names\<close>

definition lower_char :: "char \<Rightarrow> char" where
  "lower_char c =
     (let n = of_char c :: nat
      in if (65 \<le> n \<and> n \<le> 90) \<or> (192 \<le> n \<and> n \<le> 222 \<and> n \<noteq> 215) then char_of (n + 32) else c)"

definition lower :: "string \<Rightarrow> string" where
  "lower = map lower_char"

definition SECRET_HEADERS :: "string list" where
  "SECRET_HEADERS = [''authorization'', ''proxy-authorization'', ''x-api-key'', ''x-api-secret'', ''x-auth-token'', ''apikey'',
     ''api-key'', ''cookie'', ''set-cookie'']"

definition SECRET_PARTS :: "string list" where
  "SECRET_PARTS = [''password'', ''passwd'', ''secret'', ''token'', ''apikey'', ''credential'', ''privatekey'', ''authorization'',
     ''subscriptionkey'']"

definition SECRET_NAMES :: "string list" where
  "SECRET_NAMES = [''authcode'', ''authkey'', ''bearer'', ''codeverifier'', ''cookie'', ''jwt'', ''pwd'', ''setcookie'']"

definition ASSERTION_NAME :: string where
  "ASSERTION_NAME = ''assertion''"

definition ABOUT_SUFFIXES :: "string list" where
  "ABOUT_SUFFIXES = [''type'', ''types'', ''url'', ''urls'', ''uri'', ''endpoint'', ''header'', ''headers'', ''id'', ''ids'', ''name'', ''names'',
     ''path'', ''hint'', ''method'', ''expiresin'', ''expiresat'', ''expiry'', ''ttl'', ''length'', ''count'', ''format'', ''fields'', ''params'']"

text \<open>\<open>^(?:has|is|use|uses|require|requires)(?:[_\-]|(?=[A-Z]))\<close>\<close>

definition ABOUT_PREFIX :: "string \<Rightarrow> bool" where
  "ABOUT_PREFIX term =
     list_ex (\<lambda>p. starts_with term p \<and>
         (case drop (length p) term of
            [] \<Rightarrow> False | c # _ \<Rightarrow> c = CHR ''_'' \<or> c = CHR ''-'' \<or> (65 \<le> (of_char c :: nat) \<and> (of_char c :: nat) \<le> 90)))
       [''has'', ''is'', ''use'', ''uses'', ''require'', ''requires'']"

definition HEADER_PARTS :: "string list" where
  "HEADER_PARTS = [''token'', ''secret'', ''key'', ''auth'', ''cookie'', ''session'']"

definition HARMLESS_HEADERS :: "string list" where
  "HARMLESS_HEADERS = [''wwwauthenticate'', ''proxyauthenticate'', ''accesscontrolallowcredentials'', ''accesscontrolallowheaders'',
     ''accesscontrolexposeheaders'', ''accesscontrolrequestheaders'']"

text \<open>\<open>_term\<close>: the text after the last of \<open>/ # : .\<close>\<close>

definition term_of_name :: "string \<Rightarrow> string" where
  "term_of_name name = strip (rev (takeWhile (\<lambda>c. c \<notin> set ''/#:.'') (rev name)))"

definition squeezed :: "string \<Rightarrow> string" where
  "squeezed s = filter (\<lambda>c. c \<noteq> CHR ''-'' \<and> c \<noteq> CHR ''_'') s"

definition normalised :: "string \<Rightarrow> string" where
  "normalised name = squeezed (lower (term_of_name name))"

text \<open>The header names registered since: \<open>_extra_headers\<close> and \<open>_extra_keys\<close>.\<close>

record SecretHeaders =
  sh_extra_headers :: "string list"
  sh_extra_keys :: "string list"

definition no_secret_headers :: SecretHeaders where
  "no_secret_headers = \<lparr>sh_extra_headers = [], sh_extra_keys = []\<rparr>"

definition register_secret_header :: "string option \<Rightarrow> SecretHeaders \<Rightarrow> SecretHeaders" where
  "register_secret_header name h =
     (case name of
        None \<Rightarrow> h
      | Some n \<Rightarrow>
          if strip n = [] then h
          else (let extra = List.insert (lower (strip n)) (sh_extra_headers h)
                in \<lparr>sh_extra_headers = extra, sh_extra_keys = map normalised extra\<rparr>))"

definition forget_secret_headers :: "SecretHeaders \<Rightarrow> SecretHeaders" where
  "forget_secret_headers h = no_secret_headers"

definition secret_headers :: "SecretHeaders \<Rightarrow> string list" where
  "secret_headers h = SECRET_HEADERS @ sh_extra_headers h"

definition is_credential_name :: "string \<Rightarrow> bool" where
  "is_credential_name term =
     (let key = squeezed (lower term)
      in if ABOUT_PREFIX term then False
         else if key \<in> set SECRET_NAMES \<or> ends_with key ASSERTION_NAME then True
         else if \<not> list_ex (\<lambda>part. occurs_in part key) SECRET_PARTS then False
         else \<not> list_ex (ends_with key) ABOUT_SUFFIXES)"

definition is_secret_key :: "SecretHeaders \<Rightarrow> string \<Rightarrow> bool" where
  "is_secret_key h name = (is_credential_name (term_of_name name) \<or> normalised (term_of_name name) \<in> set (sh_extra_keys h))"

definition is_text_only_key :: "string \<Rightarrow> bool" where
  "is_text_only_key name = (normalised name = ASSERTION_NAME)"

definition is_secret_header :: "SecretHeaders \<Rightarrow> string \<Rightarrow> bool" where
  "is_secret_header h name =
     (let lowered = lower (strip name); key = squeezed lowered
      in if lowered \<in> set (secret_headers h) then True
         else if key \<in> set HARMLESS_HEADERS then False
         else list_ex (\<lambda>part. occurs_in part key) HEADER_PARTS \<or> is_secret_key h name)"

section \<open>URLs and forms\<close>

record url_parts =
  up_scheme :: string
  up_netloc :: string
  up_path :: string
  up_query :: string
  up_fragment :: string

record url_env =
  ue_unquote_plus :: "string \<Rightarrow> string"
  ue_netloc_ok :: "string \<Rightarrow> bool"

definition ascii_alpha :: "char \<Rightarrow> bool" where
  "ascii_alpha c = (let n = of_char c :: nat in (65 \<le> n \<and> n \<le> 90) \<or> (97 \<le> n \<and> n \<le> 122))"

definition scheme_char :: "char \<Rightarrow> bool" where
  "scheme_char c = (ascii_alpha c \<or> (48 \<le> (of_char c :: nat) \<and> (of_char c :: nat) \<le> 57) \<or> c \<in> set ''+-.'')"

text \<open>Cut at the first occurrence: \<open>str.partition\<close>, with whether there was one.\<close>

definition cut_first :: "char \<Rightarrow> string \<Rightarrow> string \<times> bool \<times> string" where
  "cut_first sep s =
     (if sep \<in> set s then (takeWhile (\<lambda>c. c \<noteq> sep) s, True, tl (dropWhile (\<lambda>c. c \<noteq> sep) s)) else (s, False, []))"

definition cut_last :: "char \<Rightarrow> string \<Rightarrow> string \<times> bool \<times> string" where
  "cut_last sep s =
     (case cut_first sep (rev s) of (b, True, a) \<Rightarrow> (rev a, True, rev b) | (b, False, _) \<Rightarrow> ([], False, s))"

text \<open>\<open>urllib.parse.urlsplit\<close>; \<open>None\<close> is its \<open>ValueError\<close>.\<close>

definition urlsplit :: "url_env \<Rightarrow> string \<Rightarrow> url_parts option" where
  "urlsplit env written =
     (let url = filter (\<lambda>c. c \<notin> {CHR 0x09, CHR 0x0A, CHR 0x0D}) (dropWhile (\<lambda>c. (of_char c :: nat) \<le> 32) written);
          (before, colon, after) = cut_first (CHR '':'') url;
          has_scheme = (colon \<and> before \<noteq> [] \<and> ascii_alpha (hd before) \<and> list_all scheme_char before);
          scheme = (if has_scheme then lower before else []);
          rest = (if has_scheme then after else url);
          has_netloc = starts_with rest ''//'';
          netloc = (if has_netloc then takeWhile (\<lambda>c. c \<notin> set ''/?#'') (drop 2 rest) else []);
          rest1 = (if has_netloc then dropWhile (\<lambda>c. c \<notin> set ''/?#'') (drop 2 rest) else rest);
          (rest2, _, fragment) = cut_first (CHR ''#'') rest1;
          (path, _, query) = cut_first (CHR ''?'') rest2
      in if (CHR ''['' \<in> set netloc) \<noteq> (CHR '']'' \<in> set netloc) \<or> \<not> ue_netloc_ok env netloc then None
         else Some \<lparr>up_scheme = scheme, up_netloc = netloc, up_path = path, up_query = query, up_fragment = fragment\<rparr>)"

definition uses_netloc :: "string list" where
  "uses_netloc = [[], ''ftp'', ''http'', ''gopher'', ''nntp'', ''telnet'', ''imap'', ''wais'', ''file'', ''mms'', ''https'', ''shttp'', ''snews'',
     ''prospero'', ''rtsp'', ''rtsps'', ''rtspu'', ''rsync'', ''svn'', ''svn+ssh'', ''sftp'', ''nfs'', ''git'', ''git+ssh'', ''ws'', ''wss'', ''itms-services'']"

definition urlunsplit :: "url_parts \<Rightarrow> string" where
  "urlunsplit p =
     (let path = up_path p;
          url = (if up_netloc p \<noteq> [] then ''//'' @ up_netloc p @ (if path \<noteq> [] \<and> hd path \<noteq> CHR ''/'' then CHR ''/'' # path else path)
                 else if starts_with path ''//'' then ''//'' @ path
                 else if up_scheme p \<noteq> [] \<and> up_scheme p \<in> set uses_netloc \<and> (path = [] \<or> hd path = CHR ''/'') then ''//'' @ path
                 else path)
      in (if up_scheme p \<noteq> [] then up_scheme p @ '':'' else []) @ url
         @ (if up_query p \<noteq> [] then ''?'' @ up_query p else []) @ (if up_fragment p \<noteq> [] then ''#'' @ up_fragment p else []))"

section \<open>Redaction by name\<close>

record redaction_env = url_env +
  rd_headers :: SecretHeaders

definition redacted_pair :: "redaction_env \<Rightarrow> string \<Rightarrow> string" where
  "redacted_pair env pair =
     (let (name, equals, val) = cut_first (CHR ''='') pair
      in if equals \<and> val \<noteq> [] \<and> is_secret_key (rd_headers env) (ue_unquote_plus env name) then name @ ''='' @ REDACTED_VALUE else pair)"

definition redacted_query :: "redaction_env \<Rightarrow> string \<Rightarrow> string" where
  "redacted_query env query = join_with ''&'' (map (redacted_pair env) (split_on (CHR ''&'') query))"

definition redacted_netloc :: "string \<Rightarrow> string" where
  "redacted_netloc netloc =
     (let (userinfo, sign, host) = cut_last (CHR ''@'') netloc
      in if sign \<and> CHR '':'' \<in> set userinfo then takeWhile (\<lambda>c. c \<noteq> CHR '':'') userinfo @ '':'' @ REDACTED_VALUE @ ''@'' @ host else netloc)"

definition redact_url :: "redaction_env \<Rightarrow> string \<Rightarrow> string" where
  "redact_url env url =
     (case urlsplit (url_env.truncate env) url of
        None \<Rightarrow> url
      | Some p \<Rightarrow>
          (let query = redacted_query env (up_query p); netloc = redacted_netloc (up_netloc p)
           in if query = up_query p \<and> netloc = up_netloc p then url else urlunsplit (p\<lparr>up_netloc := netloc, up_query := query\<rparr>)))"

text \<open>The patterns \<open>_URL\<close> and \<open>_FORM\<close>.\<close>

definition URL_TEXT :: "string \<Rightarrow> bool" where
  "URL_TEXT s =
     (let (before, colon, after) = cut_first (CHR '':'') s;
          rest = drop 2 after;
          line = (if rest \<noteq> [] \<and> last rest = CHR 0x0A then butlast rest else rest)
      in colon \<and> before \<noteq> [] \<and> ascii_alpha (hd before) \<and> list_all scheme_char before \<and> starts_with after ''//''
         \<and> line \<noteq> [] \<and> list_all (\<lambda>c. \<not> is_space c) line)"

definition FORM_TEXT :: "string \<Rightarrow> bool" where
  "FORM_TEXT s =
     list_all (\<lambda>pair. let (name, equals, val) = cut_first (CHR ''='') pair
         in equals \<and> name \<noteq> [] \<and> list_all (\<lambda>c. \<not> is_space c \<and> c \<notin> set ''{}[]'') name \<and> list_all (\<lambda>c. c \<noteq> CHR 0x0D \<and> c \<noteq> CHR 0x0A) val)
       (split_on (CHR ''&'') s)"

definition parse_qsl :: "redaction_env \<Rightarrow> string \<Rightarrow> (string \<times> string) list" where
  "parse_qsl env s =
     map (\<lambda>pair. let (name, _, val) = cut_first (CHR ''='') pair in (ue_unquote_plus env name, ue_unquote_plus env val))
       (filter (\<lambda>pair. pair \<noteq> []) (split_on (CHR ''&'') s))"

definition form_quote :: "string \<Rightarrow> string" where
  "form_quote s = map (\<lambda>c. if c = CHR '' '' then CHR ''+'' else c) (url_quote [42, 32] s)"

definition urlencode :: "(string \<times> string) list \<Rightarrow> string" where
  "urlencode pairs = join_with ''&'' (map (\<lambda>(k, v). form_quote k @ ''='' @ form_quote v) pairs)"

definition names_credential :: "redaction_env \<Rightarrow> string \<Rightarrow> pyval \<Rightarrow> bool" where
  "names_credential env key item =
     (if item = PNone \<or> item = PStr [] \<or> is_bool item \<or> \<not> is_secret_key (rd_headers env) key then False
      else (case item of PStr _ \<Rightarrow> True | _ \<Rightarrow> \<not> is_text_only_key key))"

definition redacted_form :: "redaction_env \<Rightarrow> (string \<times> string) list \<Rightarrow> (string \<times> string) list" where
  "redacted_form env pairs = map (\<lambda>(key, item). (key, if is_secret_key (rd_headers env) key \<and> item \<noteq> [] then REDACTED_VALUE else item)) pairs"

fun redact_secrets :: "redaction_env \<Rightarrow> pyval \<Rightarrow> pyval" where
  "redact_secrets env (PDict d) =
     PDict (map (\<lambda>(key, item). (key, if names_credential env key item then PStr REDACTED_VALUE else redact_secrets env item)) d)"
| "redact_secrets env (PList xs) = PList (map (redact_secrets env) xs)"
| "redact_secrets env (PStr s) =
     (if URL_TEXT s then PStr (redact_url env s)
      else if FORM_TEXT s
      then (let pairs = parse_qsl env s
            in if list_ex (\<lambda>(key, _). is_secret_key (rd_headers env) key) pairs then PStr (urlencode (redacted_form env pairs)) else PStr s)
      else PStr s)"
| "redact_secrets env v = v"

text \<open>\<open>written\<close>: redacted by name, then masked by value.\<close>

definition written_value :: "(regex \<Rightarrow> bool) \<Rightarrow> redaction_env \<Rightarrow> pyval \<Rightarrow> Registry \<Rightarrow> Registry \<times> pyval" where
  "written_value compiles env v g = mask compiles (redact_secrets env v) g"

section \<open>The records of a step\<close>

definition safe_headers :: "redaction_env \<Rightarrow> pyval \<Rightarrow> pyval" where
  "safe_headers env headers =
     (case headers of
        PDict pairs \<Rightarrow> PDict (map (\<lambda>(name, v). (name, PStr (if is_secret_header (rd_headers env) name then REDACTED_VALUE else py_str v))) pairs)
      | _ \<Rightarrow> PDict [])"

definition kept_headers :: "redaction_env \<Rightarrow> pyval \<Rightarrow> pyval" where
  "kept_headers env headers = (if truthy headers then safe_headers env headers else headers)"

text \<open>A request and a response are the documents their models dump to; \<open>model_copy(update=\<dots>)\<close> replaces fields.\<close>

definition update_field :: "string \<Rightarrow> (pyval \<Rightarrow> pyval) \<Rightarrow> pyval \<Rightarrow> pyval" where
  "update_field key f v = (case v of PDict d \<Rightarrow> PDict (dict_set key (f (doc_get d key)) d) | _ \<Rightarrow> v)"

definition safe_request :: "redaction_env \<Rightarrow> pyval \<Rightarrow> pyval" where
  "safe_request env r =
     update_field ''body'' (redact_secrets env) (update_field ''params'' (redact_secrets env)
       (update_field ''headers'' (kept_headers env) (update_field ''url'' (\<lambda>u. PStr (redact_url env (py_str u))) r)))"

definition safe_response :: "redaction_env \<Rightarrow> pyval \<Rightarrow> pyval" where
  "safe_response env r = update_field ''body'' (redact_secrets env) (update_field ''headers'' (kept_headers env) r)"

definition safe_exchange :: "redaction_env \<Rightarrow> HttpExchange \<Rightarrow> HttpExchange" where
  "safe_exchange env x = x\<lparr>hx_request := safe_request env (hx_request x), hx_response := map_option (safe_response env) (hx_response x)\<rparr>"

record Disclosure =
  dc_shown :: "string list"
  dc_withheld :: "string list"

definition withheld :: "(regex \<Rightarrow> bool) \<Rightarrow> Disclosure \<Rightarrow> pyval \<Rightarrow> Registry \<Rightarrow> Registry \<times> pyval" where
  "withheld compiles disclosure v g = (if dc_withheld disclosure \<noteq> [] then mask_also compiles v (dc_withheld disclosure) g else (g, v))"

definition safe_output :: "redaction_env \<Rightarrow> string list \<Rightarrow> pyval \<Rightarrow> pyval" where
  "safe_output env shown out =
     (case (redact_secrets env out, out) of
        (PDict r, PDict d) \<Rightarrow>
          PDict (fold (\<lambda>name e. case dict_get d name of None \<Rightarrow> e | Some v \<Rightarrow> dict_set name (redact_secrets env v) e) shown r)
      | (r, _) \<Rightarrow> r)"

definition compared :: "redaction_env \<Rightarrow> bool \<Rightarrow> pyval \<Rightarrow> pyval" where
  "compared env secret v = (if secret \<and> v \<noteq> PNone \<and> v \<noteq> PStr [] \<and> \<not> is_bool v then PStr REDACTED_VALUE else redact_secrets env v)"

definition compared_field :: "Assertion \<Rightarrow> string" where
  "compared_field a =
     (let params = or_empty (as_with a); path = doc_get params ''path''; inp = doc_get params ''input''
      in if truthy path then py_str path else if truthy inp then py_str inp else [])"

definition safe_check :: "(regex \<Rightarrow> bool) \<Rightarrow> redaction_env \<Rightarrow> Disclosure \<Rightarrow> AssertionResult \<Rightarrow> Registry \<Rightarrow> Registry \<times> AssertionResult" where
  "safe_check compiles env disclosure c g =
     (let field = compared_field (ar_assertion c);
          secret = (field \<noteq> [] \<and> is_secret_key (rd_headers env) field);
          (g1, expected) = withheld compiles disclosure (compared env secret (ar_expected c)) g;
          (g2, actual) = withheld compiles disclosure (compared env secret (ar_actual c)) g1
      in (g2, c\<lparr>ar_expected := expected, ar_actual := actual\<rparr>))"

fun safe_checks ::
  "(regex \<Rightarrow> bool) \<Rightarrow> redaction_env \<Rightarrow> Disclosure \<Rightarrow> AssertionResult list \<Rightarrow> Registry \<Rightarrow> Registry \<times> AssertionResult list" where
  "safe_checks compiles env disclosure [] g = (g, [])"
| "safe_checks compiles env disclosure (c # cs) g =
     (let (g1, c') = safe_check compiles env disclosure c g; (g2, cs') = safe_checks compiles env disclosure cs g1 in (g2, c' # cs'))"

definition redacted_inputs :: "redaction_env \<Rightarrow> (string, pyval) pydict option \<Rightarrow> (string, pyval) pydict option" where
  "redacted_inputs env inputs = map_option (\<lambda>d. case redact_secrets env (PDict d) of PDict e \<Rightarrow> e | _ \<Rightarrow> d) inputs"

definition as_recorded :: "(regex \<Rightarrow> bool) \<Rightarrow> redaction_env \<Rightarrow> Disclosure \<Rightarrow> StepResult \<Rightarrow> Registry \<Rightarrow> Registry \<times> StepResult" where
  "as_recorded compiles env disclosure r g =
     (let (request, response) =
            (if sr_exchanges r \<noteq> [] then (Some (hx_request (last (sr_exchanges r))), hx_response (last (sr_exchanges r)))
             else (sr_request r, sr_response r));
          (g1, out) = withheld compiles disclosure (safe_output env (dc_shown disclosure) (sr_output r)) g;
          (g2, checks) = safe_checks compiles env disclosure (sr_assertions r) g1
      in (g2, r\<lparr>sr_request := map_option (safe_request env) request, sr_response := map_option (safe_response env) response,
                sr_inputs := redacted_inputs env (sr_inputs r), sr_output := out, sr_assertions := checks,
                sr_exchanges := map (safe_exchange env) (sr_exchanges r)\<rparr>))"

definition kept_step :: "(regex \<Rightarrow> bool) \<Rightarrow> redaction_env \<Rightarrow> Disclosure \<Rightarrow> StepResult \<Rightarrow> Registry \<Rightarrow> Registry \<times> StepResult" where
  "kept_step compiles env disclosure r g =
     (let (g1, out) = withheld compiles disclosure (sr_output r) g;
          (g2, checks) = safe_checks compiles env disclosure (sr_assertions r) g1
      in (g2, r\<lparr>sr_inputs := redacted_inputs env (sr_inputs r), sr_output := out, sr_assertions := checks\<rparr>))"

section \<open>What is filed under a credential's name leaves no trace\<close>

text \<open>
  Two queries, forms or documents are alike when they differ only in what they hold under the names of credentials. Two URLs
  are when, besides, both have something to redact: one that has not is written as it stands.
\<close>

definition pair_alike :: "redaction_env \<Rightarrow> string \<Rightarrow> string \<Rightarrow> bool" where
  "pair_alike env p q =
     (p = q \<or> (\<exists>name v w. p = name @ ''='' @ v \<and> q = name @ ''='' @ w \<and> CHR ''='' \<notin> set name \<and> v \<noteq> [] \<and> w \<noteq> []
        \<and> is_secret_key (rd_headers env) (ue_unquote_plus env name)))"

definition netloc_alike :: "string \<Rightarrow> string \<Rightarrow> bool" where
  "netloc_alike a b =
     (a = b \<or> (\<exists>user v w host. a = user @ '':'' @ v @ ''@'' @ host \<and> b = user @ '':'' @ w @ ''@'' @ host \<and> CHR '':'' \<notin> set user \<and> CHR ''@'' \<notin> set host))"

definition to_redact :: "redaction_env \<Rightarrow> url_parts \<Rightarrow> bool" where
  "to_redact env p = (redacted_query env (up_query p) \<noteq> up_query p \<or> redacted_netloc (up_netloc p) \<noteq> up_netloc p)"

definition url_alike :: "redaction_env \<Rightarrow> string \<Rightarrow> string \<Rightarrow> bool" where
  "url_alike env s t =
     (s = t \<or> (\<exists>p q. urlsplit (url_env.truncate env) s = Some p \<and> urlsplit (url_env.truncate env) t = Some q
        \<and> up_scheme p = up_scheme q \<and> up_path p = up_path q \<and> up_fragment p = up_fragment q \<and> netloc_alike (up_netloc p) (up_netloc q)
        \<and> list_all2 (pair_alike env) (split_on (CHR ''&'') (up_query p)) (split_on (CHR ''&'') (up_query q))
        \<and> to_redact env p \<and> to_redact env q))"

definition form_alike :: "redaction_env \<Rightarrow> string \<Rightarrow> string \<Rightarrow> bool" where
  "form_alike env s t =
     (FORM_TEXT s \<and> FORM_TEXT t \<and> \<not> URL_TEXT s \<and> \<not> URL_TEXT t
      \<and> list_ex (\<lambda>(key, _). is_secret_key (rd_headers env) key) (parse_qsl env s)
      \<and> list_all2 (\<lambda>(k, v) (l, w). k = l \<and> (v = w \<or> is_secret_key (rd_headers env) k \<and> v \<noteq> [] \<and> w \<noteq> [])) (parse_qsl env s) (parse_qsl env t))"

inductive alike :: "redaction_env \<Rightarrow> pyval \<Rightarrow> pyval \<Rightarrow> bool" for env where
  alike_same: "alike env v v"
| alike_url: "URL_TEXT s \<Longrightarrow> URL_TEXT t \<Longrightarrow> url_alike env s t \<Longrightarrow> alike env (PStr s) (PStr t)"
| alike_form: "form_alike env s t \<Longrightarrow> alike env (PStr s) (PStr t)"
| alike_list: "list_all2 (\<lambda>v w. alike env v w) xs ys \<Longrightarrow> alike env (PList xs) (PList ys)"
| alike_dict: "list_all2 (\<lambda>x y. fst x = fst y \<and> (names_credential env (fst x) (snd x) = names_credential env (fst y) (snd y))
      \<and> (names_credential env (fst x) (snd x) \<or> alike env (snd x) (snd y))) d e \<Longrightarrow> alike env (PDict d) (PDict e)"

lemma cut_first_found: "sep \<notin> set a \<Longrightarrow> cut_first sep (a @ sep # b) = (a, True, b)"
  by (induction a) (auto simp: cut_first_def)

lemma cut_last_found: "sep \<notin> set b \<Longrightarrow> cut_last sep (a @ sep # b) = (a, True, b)"
  using cut_first_found [of sep "rev b" "rev a"] by (simp add: cut_last_def)

lemma redacted_pair_alike: "pair_alike env p q \<Longrightarrow> redacted_pair env p = redacted_pair env q"
  by (auto simp: pair_alike_def redacted_pair_def cut_first_found)

lemma map_all2_eq: "list_all2 P xs ys \<Longrightarrow> (\<And>x y. P x y \<Longrightarrow> f x = g y) \<Longrightarrow> map f xs = map g ys"
  by (induction rule: list_all2_induct) auto

lemma redacted_netloc_alike: "netloc_alike a b \<Longrightarrow> redacted_netloc a = redacted_netloc b"
proof -
  have "redacted_netloc (user @ '':'' @ v @ ''@'' @ host) = user @ '':'' @ REDACTED_VALUE @ ''@'' @ host"
    if "CHR '':'' \<notin> set user" "CHR ''@'' \<notin> set host" for user v host
  proof -
    have "cut_last (CHR ''@'') (user @ '':'' @ v @ ''@'' @ host) = (user @ '':'' @ v, True, host)"
      using cut_last_found [OF that(2), of "user @ '':'' @ v"] by simp
    moreover have "takeWhile (\<lambda>c. c \<noteq> CHR '':'') (user @ '':'' @ v) = user" using that(1) by (simp add: takeWhile_append)
    ultimately show ?thesis by (simp add: redacted_netloc_def)
  qed
  then show "netloc_alike a b \<Longrightarrow> ?thesis" by (auto simp: netloc_alike_def)
qed

lemma redact_url_alike: "url_alike env s t \<Longrightarrow> redact_url env s = redact_url env t"
proof -
  assume a: "url_alike env s t"
  show ?thesis
  proof (cases "s = t")
    case False
    then obtain p q where pq: "urlsplit (url_env.truncate env) s = Some p" "urlsplit (url_env.truncate env) t = Some q"
        "up_scheme p = up_scheme q" "up_path p = up_path q" "up_fragment p = up_fragment q" "netloc_alike (up_netloc p) (up_netloc q)"
        "list_all2 (pair_alike env) (split_on (CHR ''&'') (up_query p)) (split_on (CHR ''&'') (up_query q))"
        "to_redact env p" "to_redact env q"
      using a by (auto simp: url_alike_def)
    have "map (redacted_pair env) (split_on (CHR ''&'') (up_query p)) = map (redacted_pair env) (split_on (CHR ''&'') (up_query q))"
      using map_all2_eq [OF pq(7) redacted_pair_alike] .
    then have "redacted_query env (up_query p) = redacted_query env (up_query q)" by (simp add: redacted_query_def)
    moreover have "redacted_netloc (up_netloc p) = redacted_netloc (up_netloc q)" by (rule redacted_netloc_alike [OF pq(6)])
    moreover have "p\<lparr>up_netloc := n, up_query := u\<rparr> = q\<lparr>up_netloc := n, up_query := u\<rparr>" for n u
      using pq(3-5) by (cases p; cases q) simp
    moreover have "redact_url env s = urlunsplit (p\<lparr>up_netloc := redacted_netloc (up_netloc p), up_query := redacted_query env (up_query p)\<rparr>)"
      using pq(8) unfolding redact_url_def pq(1) option.case Let_def to_redact_def by argo
    moreover have "redact_url env t = urlunsplit (q\<lparr>up_netloc := redacted_netloc (up_netloc q), up_query := redacted_query env (up_query q)\<rparr>)"
      using pq(9) unfolding redact_url_def pq(2) option.case Let_def to_redact_def by argo
    ultimately show ?thesis by metis
  qed simp
qed

lemma secret_named: "list_ex (\<lambda>(key, _). is_secret_key h key) pairs = list_ex (is_secret_key h) (map fst pairs)"
  by (induction pairs) auto

lemma redact_form_alike:
  assumes "form_alike env s t"
  shows "redact_secrets env (PStr s) = redact_secrets env (PStr t)"
proof -
  from assms have a: "list_all2 (\<lambda>(k, v) (l, w). k = l \<and> (v = w \<or> is_secret_key (rd_headers env) k \<and> v \<noteq> [] \<and> w \<noteq> [])) (parse_qsl env s) (parse_qsl env t)"
    by (simp add: form_alike_def)
  have "redacted_form env (parse_qsl env s) = redacted_form env (parse_qsl env t)"
    unfolding redacted_form_def by (rule map_all2_eq [OF a]) auto
  moreover have "map fst (parse_qsl env s) = map fst (parse_qsl env t)" by (rule map_all2_eq [OF a]) auto
  then have "list_ex (\<lambda>(key, _). is_secret_key (rd_headers env) key) (parse_qsl env t)"
    using assms by (simp add: form_alike_def secret_named)
  ultimately show ?thesis using assms by (simp add: form_alike_def Let_def)
qed

lemma redact_alike: "alike env v w \<Longrightarrow> redact_secrets env v = redact_secrets env w"
proof (induction rule: alike.induct)
  case (alike_form s t)
  then show ?case by (rule redact_form_alike)
next
  case (alike_list xs ys)
  then have "map (redact_secrets env) xs = map (redact_secrets env) ys" by (auto intro: map_all2_eq)
  then show ?case by simp
next
  case (alike_dict d e)
  then show ?case unfolding redact_secrets.simps(1) pyval.inject by (rule map_all2_eq) (auto split: prod.split)
qed (simp_all add: redact_url_alike)

text \<open>The documents of a call, and when two of them are alike.\<close>

definition request_doc :: "string \<Rightarrow> string \<Rightarrow> pyval \<Rightarrow> pyval \<Rightarrow> pyval \<Rightarrow> pyval" where
  "request_doc verb url headers params body =
     PDict [(''method'', PStr verb), (''url'', PStr url), (''headers'', headers), (''params'', params), (''body'', body)]"

definition response_doc :: "int \<Rightarrow> pyval \<Rightarrow> pyval \<Rightarrow> pyval \<Rightarrow> pyval" where
  "response_doc status headers body duration =
     PDict [(''status_code'', PInt status), (''headers'', headers), (''body'', body), (''duration_ms'', duration)]"

definition headers_alike :: "redaction_env \<Rightarrow> pyval \<Rightarrow> pyval \<Rightarrow> bool" where
  "headers_alike env a b =
     (a = b \<or> (\<exists>d e. a = PDict d \<and> b = PDict e
        \<and> list_all2 (\<lambda>x y. fst x = fst y \<and> (is_secret_header (rd_headers env) (fst x) \<or> py_str (snd x) = py_str (snd y))) d e))"

definition request_alike :: "redaction_env \<Rightarrow> pyval \<Rightarrow> pyval \<Rightarrow> bool" where
  "request_alike env a b =
     (\<exists>verb u u' h h' q q' c c'. a = request_doc verb u h q c \<and> b = request_doc verb u' h' q' c'
        \<and> url_alike env u u' \<and> headers_alike env h h' \<and> alike env q q' \<and> alike env c c')"

definition response_alike :: "redaction_env \<Rightarrow> pyval \<Rightarrow> pyval \<Rightarrow> bool" where
  "response_alike env a b =
     (\<exists>status h h' c c' t. a = response_doc status h c t \<and> b = response_doc status h' c' t \<and> headers_alike env h h' \<and> alike env c c')"

definition exchange_alike :: "redaction_env \<Rightarrow> HttpExchange \<Rightarrow> HttpExchange \<Rightarrow> bool" where
  "exchange_alike env x y =
     (request_alike env (hx_request x) (hx_request y) \<and> rel_option (response_alike env) (hx_response x) (hx_response y)
      \<and> hx_error x = hx_error y \<and> hx_context x = hx_context y \<and> hx_started_at x = hx_started_at y)"

definition shown_value :: "pyval \<Rightarrow> bool" where
  "shown_value v = (v = PNone \<or> v = PStr [] \<or> is_bool v)"

definition check_alike :: "redaction_env \<Rightarrow> AssertionResult \<Rightarrow> AssertionResult \<Rightarrow> bool" where
  "check_alike env c c' =
     (c\<lparr>ar_expected := PNone, ar_actual := PNone\<rparr> = c'\<lparr>ar_expected := PNone, ar_actual := PNone\<rparr>
      \<and> (let hidden = compared_field (ar_assertion c) \<noteq> [] \<and> is_secret_key (rd_headers env) (compared_field (ar_assertion c));
             same = (\<lambda>v w. hidden \<and> \<not> shown_value v \<and> \<not> shown_value w \<or> \<not> hidden \<and> alike env v w \<or> v = w)
         in same (ar_expected c) (ar_expected c') \<and> same (ar_actual c) (ar_actual c')))"

definition result_alike :: "redaction_env \<Rightarrow> StepResult \<Rightarrow> StepResult \<Rightarrow> bool" where
  "result_alike env r s =
     (r\<lparr>sr_request := None, sr_response := None, sr_inputs := None, sr_output := PNone, sr_assertions := [], sr_exchanges := []\<rparr>
        = s\<lparr>sr_request := None, sr_response := None, sr_inputs := None, sr_output := PNone, sr_assertions := [], sr_exchanges := []\<rparr>
      \<and> rel_option (request_alike env) (sr_request r) (sr_request s) \<and> rel_option (response_alike env) (sr_response r) (sr_response s)
      \<and> rel_option (\<lambda>d e. alike env (PDict d) (PDict e)) (sr_inputs r) (sr_inputs s) \<and> alike env (sr_output r) (sr_output s)
      \<and> list_all2 (check_alike env) (sr_assertions r) (sr_assertions s) \<and> list_all2 (exchange_alike env) (sr_exchanges r) (sr_exchanges s))"

lemma request_alikeI:
  "url_alike env u u' \<Longrightarrow> headers_alike env h h' \<Longrightarrow> alike env q q' \<Longrightarrow> alike env c c'
   \<Longrightarrow> request_alike env (request_doc verb u h q c) (request_doc verb u' h' q' c')"
  unfolding request_alike_def by blast

lemma response_alikeI:
  "headers_alike env h h' \<Longrightarrow> alike env c c' \<Longrightarrow> response_alike env (response_doc status h c t) (response_doc status h' c' t)"
  unfolding response_alike_def by blast

lemma kept_headers_alike: "headers_alike env a b \<Longrightarrow> kept_headers env a = kept_headers env b"
proof -
  assume a: "headers_alike env a b"
  show ?thesis
  proof (cases "a = b")
    case False
    with a obtain d e where de: "a = PDict d" "b = PDict e"
      "list_all2 (\<lambda>x y. fst x = fst y \<and> (is_secret_header (rd_headers env) (fst x) \<or> py_str (snd x) = py_str (snd y))) d e"
      unfolding headers_alike_def by blast
    let ?safe = "\<lambda>(name, v). (name, PStr (if is_secret_header (rd_headers env) name then REDACTED_VALUE else py_str v))"
    have "map ?safe d = map ?safe e" by (rule map_all2_eq [OF de(3)]) (auto simp: case_prod_unfold)
    moreover have "d = [] \<longleftrightarrow> e = []" using de(3) by auto
    ultimately show ?thesis unfolding de(1,2) kept_headers_def safe_headers_def pyval.case by (cases "e = []") (simp_all only: truthy_def pyval.case if_True if_False not_False_eq_True not_True_eq_False simp_thms)
  qed simp
qed

lemma safe_request_alike: "request_alike env a b \<Longrightarrow> safe_request env a = safe_request env b"
  using redact_url_alike kept_headers_alike redact_alike
  by (auto simp: request_alike_def request_doc_def safe_request_def update_field_def doc_get_def py_str_def)

lemma safe_response_alike: "response_alike env a b \<Longrightarrow> safe_response env a = safe_response env b"
  using kept_headers_alike redact_alike
  by (auto simp: response_alike_def response_doc_def safe_response_def update_field_def doc_get_def)

lemma rel_option_map_eq: "rel_option P a b \<Longrightarrow> (\<And>x y. P x y \<Longrightarrow> f x = g y) \<Longrightarrow> map_option f a = map_option g b"
  by (cases a; cases b) auto

lemma safe_exchange_alike: "exchange_alike env x y \<Longrightarrow> safe_exchange env x = safe_exchange env y"
  using safe_request_alike rel_option_map_eq [OF _ safe_response_alike]
  by (cases x; cases y) (auto simp: exchange_alike_def safe_exchange_def)

lemma compared_alike:
  assumes "hidden \<and> \<not> shown_value v \<and> \<not> shown_value w \<or> \<not> hidden \<and> alike env v w \<or> v = w"
  shows "compared env hidden v = compared env hidden w"
proof -
  have "compared env hidden u = (if hidden \<and> \<not> shown_value u then PStr REDACTED_VALUE else redact_secrets env u)" for u
    by (simp only: compared_def shown_value_def de_Morgan_disj)
  with assms redact_alike show ?thesis by metis
qed

lemma safe_check_alike:
  assumes "check_alike env c c'"
  shows "safe_check compiles env disclosure c g = safe_check compiles env disclosure c' g"
proof -
  let ?hidden = "compared_field (ar_assertion c) \<noteq> [] \<and> is_secret_key (rd_headers env) (compared_field (ar_assertion c))"
  have same: "c\<lparr>ar_expected := PNone, ar_actual := PNone\<rparr> = c'\<lparr>ar_expected := PNone, ar_actual := PNone\<rparr>"
    and e: "compared env ?hidden (ar_expected c) = compared env ?hidden (ar_expected c')"
    and a: "compared env ?hidden (ar_actual c) = compared env ?hidden (ar_actual c')"
    using assms by (auto simp only: check_alike_def Let_def intro!: compared_alike)
  have "ar_assertion c = ar_assertion c'" "c\<lparr>ar_expected := x, ar_actual := y\<rparr> = c'\<lparr>ar_expected := x, ar_actual := y\<rparr>" for x y
    using same by (cases c; cases c'; simp)+
  then show ?thesis using e a by (simp add: safe_check_def Let_def)
qed

lemma safe_checks_alike:
  "list_all2 (check_alike env) cs cs' \<Longrightarrow> safe_checks compiles env disclosure cs g = safe_checks compiles env disclosure cs' g"
proof (induction arbitrary: g rule: list_all2_induct)
  case (Cons c cs c' cs')
  then show ?case using safe_check_alike [OF Cons.hyps(1), of compiles disclosure g] by (simp split: prod.split)
qed simp

lemma redacted_inputs_alike: "rel_option (\<lambda>d e. alike env (PDict d) (PDict e)) a b \<Longrightarrow> redacted_inputs env a = redacted_inputs env b"
  unfolding redacted_inputs_def by (erule rel_option_map_eq) (drule redact_alike, simp)

text \<open>C20. 
  Whatever a run writes of a step tells nothing that was filed under a credential's name: two results that differ only there
  - in headers, in queries and passwords of URLs, in forms, bodies, inputs, outputs and compared values, at any depth -
  have the same record.
\<close>

theorem record_reveals_no_named_value:
  assumes "result_alike env r s" and "dc_shown disclosure = []"
  shows "as_recorded compiles env disclosure r g = as_recorded compiles env disclosure s g"
proof -
  have ex: "map (safe_exchange env) (sr_exchanges r) = map (safe_exchange env) (sr_exchanges s)" "sr_exchanges r = [] \<longleftrightarrow> sr_exchanges s = []"
    using assms(1) map_all2_eq [OF _ safe_exchange_alike] by (auto simp: result_alike_def)
  have out: "safe_output env [] (sr_output r) = safe_output env [] (sr_output s)"
  proof -
    have "\<exists>t. redact_secrets env (PStr u) = PStr t" for u by (simp add: Let_def)
    then have "safe_output env [] v = redact_secrets env v" for v
      by (cases v) (auto simp add: safe_output_def simp del: redact_secrets.simps(3) split: pyval.splits)
    then show ?thesis using assms(1) redact_alike by (auto simp: result_alike_def)
  qed
  have own: "map_option (safe_request env) (sr_request r) = map_option (safe_request env) (sr_request s)"
    "map_option (safe_response env) (sr_response r) = map_option (safe_response env) (sr_response s)"
    using assms(1) rel_option_map_eq [OF _ safe_request_alike] rel_option_map_eq [OF _ safe_response_alike] by (auto simp: result_alike_def)
  have last: "safe_request env (hx_request (last (sr_exchanges r))) = safe_request env (hx_request (last (sr_exchanges s)))"
    "map_option (safe_response env) (hx_response (last (sr_exchanges r))) = map_option (safe_response env) (hx_response (last (sr_exchanges s)))"
    if "sr_exchanges r \<noteq> []"
  proof -
    have "last (map (safe_exchange env) (sr_exchanges r)) = last (map (safe_exchange env) (sr_exchanges s))" by (simp only: ex(1))
    then have "safe_exchange env (last (sr_exchanges r)) = safe_exchange env (last (sr_exchanges s))" using that ex(2) by (simp add: last_map)
    from arg_cong [OF this, of hx_request] arg_cong [OF this, of hx_response]
    show "safe_request env (hx_request (last (sr_exchanges r))) = safe_request env (hx_request (last (sr_exchanges s)))"
      "map_option (safe_response env) (hx_response (last (sr_exchanges r))) = map_option (safe_response env) (hx_response (last (sr_exchanges s)))"
      by (simp_all add: safe_exchange_def)
  qed
  have checks: "safe_checks compiles env disclosure (sr_assertions r) h = safe_checks compiles env disclosure (sr_assertions s) h" for h
    using assms(1) by (intro safe_checks_alike) (simp add: result_alike_def)
  have inputs: "redacted_inputs env (sr_inputs r) = redacted_inputs env (sr_inputs s)"
    using assms(1) by (intro redacted_inputs_alike) (simp add: result_alike_def)
  have rest: "r\<lparr>sr_request := a, sr_response := b, sr_inputs := c, sr_output := d, sr_assertions := e, sr_exchanges := f\<rparr>
      = s\<lparr>sr_request := a, sr_response := b, sr_inputs := c, sr_output := d, sr_assertions := e, sr_exchanges := f\<rparr>" for a b c d e f
    using assms(1) unfolding result_alike_def by (cases r; cases s) simp
  show ?thesis
    unfolding as_recorded_def assms(2) out checks inputs ex(1)
    using own last ex(2) by (cases "sr_exchanges r = []") (simp_all add: rest case_prod_unfold Let_def)
qed

section \<open>Registered header names\<close>

text \<open>A header registered once is redacted from then on, whatever is registered after it.\<close>

lemma registered_header_redacted:
  assumes "strip n \<noteq> []" and "strip m = strip n"
  shows "is_secret_header (fold register_secret_header names (register_secret_header (Some n) h)) m"
proof -
  have keeps: "lower (strip n) \<in> set (sh_extra_headers h) \<Longrightarrow> lower (strip n) \<in> set (sh_extra_headers (register_secret_header k h))" for k h
    by (auto simp: register_secret_header_def Let_def split: option.split)
  have "lower (strip n) \<in> set (sh_extra_headers (fold register_secret_header names h))" if "lower (strip n) \<in> set (sh_extra_headers h)" for h
    using that by (induction names arbitrary: h) (auto intro: keeps)
  moreover have "lower (strip n) \<in> set (sh_extra_headers (register_secret_header (Some n) h))"
    using assms(1) by (simp add: register_secret_header_def Let_def)
  ultimately show ?thesis using assms(2) by (simp add: is_secret_header_def secret_headers_def Let_def)
qed

section \<open>A demonstration\<close>

definition demo_redaction :: redaction_env where
  "demo_redaction = \<lparr>ue_unquote_plus = (\<lambda>s. s), ue_netloc_ok = (\<lambda>_. True), rd_headers = register_secret_header (Some ''X-Edc'') no_secret_headers\<rparr>"

definition demo_call :: "string \<Rightarrow> HttpExchange" where
  "demo_call secret = \<lparr>hx_request = request_doc ''POST'' (''https://h.example/token?api_key='' @ secret)
       (PDict [(''X-Edc'', PStr secret), (''Accept'', PStr ''text/html'')]) PNone (PStr (''grant=pw&client_secret='' @ secret)),
     hx_response = Some (response_doc 200 PNone (PDict [(''data'', PList [PDict [(''refreshToken'', PStr secret), (''token_type'', PStr ''bearer'')]])]) (PInt 1)),
     hx_error = None, hx_context = None, hx_started_at = None\<rparr>"

definition demo_recorded :: "string \<Rightarrow> StepResult" where
  "demo_recorded secret = (step_result0 ''s'' ''http/post'' Phase_EXECUTION Step_PASSED)\<lparr>sr_exchanges := [demo_call secret],
     sr_inputs := Some [(''password'', PStr secret)], sr_output := PDict [(''access_token'', PStr secret)]\<rparr>"

text \<open>
  Redacting one parameter rewrites the rest of the address, although everything else about a URL is said to be left as
  written: the scheme is put in lower case and an empty fragment is dropped.
\<close>

lemma redacted_url_is_rewritten:
  "redact_url demo_redaction ''HTTPS://h.example/a?x=1&token=abc#'' = ''https://h.example/a?x=1&token=***''"
  by code_simp

lemma demo_request_alike: "request_alike demo_redaction (hx_request (demo_call ''abc'')) (hx_request (demo_call ''defg''))"
proof -
  let ?s = "''https://h.example/token?api_key=abc''" and ?t = "''https://h.example/token?api_key=defg''"
  let ?p = "\<lambda>v. \<lparr>up_scheme = ''https'', up_netloc = ''h.example'', up_path = ''/token'', up_query = ''api_key='' @ v, up_fragment = []\<rparr>"
  have split: "urlsplit (url_env.truncate demo_redaction) ?s = Some (?p ''abc'')" "urlsplit (url_env.truncate demo_redaction) ?t = Some (?p ''defg'')"
    by code_simp+
  have "is_secret_key (rd_headers demo_redaction) ''api_key''" "to_redact demo_redaction (?p ''abc'')" "to_redact demo_redaction (?p ''defg'')"
    by code_simp+
  moreover have "pair_alike demo_redaction ''api_key=abc'' ''api_key=defg''"
    unfolding pair_alike_def
    by (rule disjI2, intro exI [of _ "''api_key''"] exI [of _ "''abc''"] exI [of _ "''defg''"]) (use calculation(1) in \<open>simp add: demo_redaction_def\<close>)
  moreover have "split_on (CHR ''&'') ''api_key=abc'' = [''api_key=abc'']" "split_on (CHR ''&'') ''api_key=defg'' = [''api_key=defg'']" by code_simp+
  ultimately have "url_alike demo_redaction ?s ?t" unfolding url_alike_def by (intro disjI2 exI [of _ "?p ''abc''"] exI [of _ "?p ''defg''"])
      (simp add: split netloc_alike_def)
  moreover have "alike demo_redaction (PStr ''grant=pw&client_secret=abc'') (PStr ''grant=pw&client_secret=defg'')"
    by (rule alike_form) code_simp
  moreover have "is_secret_header (rd_headers demo_redaction) ''X-Edc''" by code_simp
  then have "headers_alike demo_redaction (PDict [(''X-Edc'', PStr ''abc''), (''Accept'', PStr ''text/html'')]) (PDict [(''X-Edc'', PStr ''defg''), (''Accept'', PStr ''text/html'')])"
    by (simp add: headers_alike_def)
  ultimately show ?thesis
    by (auto simp: demo_call_def intro!: request_alikeI alike_same)
qed

lemma demo_response_alike: "rel_option (response_alike demo_redaction) (hx_response (demo_call ''abc'')) (hx_response (demo_call ''defg''))"
proof -
  have "names_credential demo_redaction ''refreshToken'' (PStr ''abc'')" "names_credential demo_redaction ''refreshToken'' (PStr ''defg'')"
    "\<not> names_credential demo_redaction ''data'' (PList xs)" for xs
    by code_simp+
  then have "alike demo_redaction (PDict [(''data'', PList [PDict [(''refreshToken'', PStr ''abc''), (''token_type'', PStr ''bearer'')]])])
      (PDict [(''data'', PList [PDict [(''refreshToken'', PStr ''defg''), (''token_type'', PStr ''bearer'')]])])"
    by (auto intro!: alike_dict alike_list alike_same)
  then show ?thesis by (auto simp: demo_call_def headers_alike_def intro!: response_alikeI)
qed

theorem record_reveals_no_named_value_witness:
  "as_recorded (\<lambda>_. True) demo_redaction \<lparr>dc_shown = [], dc_withheld = []\<rparr> (demo_recorded ''abc'') new_registry
   = as_recorded (\<lambda>_. True) demo_redaction \<lparr>dc_shown = [], dc_withheld = []\<rparr> (demo_recorded ''defg'') new_registry"
proof -
  have "names_credential demo_redaction ''password'' (PStr ''abc'')" "names_credential demo_redaction ''password'' (PStr ''defg'')"
    "names_credential demo_redaction ''access_token'' (PStr ''abc'')" "names_credential demo_redaction ''access_token'' (PStr ''defg'')"
    by code_simp+
  then have "alike demo_redaction (PDict [(''password'', PStr ''abc'')]) (PDict [(''password'', PStr ''defg'')])"
    "alike demo_redaction (PDict [(''access_token'', PStr ''abc'')]) (PDict [(''access_token'', PStr ''defg'')])"
    by (auto intro!: alike_dict)
  moreover have "exchange_alike demo_redaction (demo_call ''abc'') (demo_call ''defg'')"
    using demo_request_alike demo_response_alike by (simp add: exchange_alike_def) (simp add: demo_call_def)
  ultimately have "result_alike demo_redaction (demo_recorded ''abc'') (demo_recorded ''defg'')"
    by (simp add: result_alike_def demo_recorded_def step_result0_def)
  then show ?thesis using record_reveals_no_named_value [of demo_redaction "demo_recorded ''abc''" "demo_recorded ''defg''"] by simp
qed

end
