(* ===== verification/Inbound.thy ===== *)
theory Inbound
  imports Redaction
begin

text \<open>
  The calls the system under test makes to the Test Suite: the address of each run on the shared mock server
  (\<^verbatim>\<open>server/inbound/run_scope.py\<close>), the keys a mock requires (\<^verbatim>\<open>server/mock_keys.py\<close>), the mocks
  (\<^verbatim>\<open>server/mock_registry.py\<close>), the listeners waits block on (\<^verbatim>\<open>server/callbacks.py\<close>) and how a call is answered
  (\<^verbatim>\<open>server/routes/callbacks.py\<close>).

  HTTP methods are ASCII texts without a colon. A future is a cell of a list that only grows; a listener holds its index. A
  result set from another thread is scheduled on a loop and takes effect when that loop runs (\<open>run_scheduled\<close>); which loop
  runs in the calling thread, which loops are closed, the clock and freshly minted keys are arguments. The manager of the
  application is the one the registry holds. What a dynamic handler does besides answering happens in the state \<open>'w\<close>.
\<close>

section \<open>Whose address it is\<close>

definition RUN_PREFIX :: string where
  "RUN_PREFIX = ''/runs/''"

definition scoped :: "string option \<Rightarrow> string \<Rightarrow> string" where
  "scoped run path =
     (case run of
        None \<Rightarrow> path
      | Some r \<Rightarrow>
          if r = [] then path
          else if starts_with path (RUN_PREFIX @ r @ ''/'') then path else RUN_PREFIX @ r @ path)"

definition split_run :: "string \<Rightarrow> string option \<times> string" where
  "split_run path =
     (if \<not> starts_with path RUN_PREFIX then (None, path)
      else (let (run, slash, rest) = cut_first (CHR ''/'') (drop (length RUN_PREFIX) path)
            in if run = [] \<or> \<not> slash then (None, path) else (Some run, CHR ''/'' # rest)))"

definition declared_path :: "string \<Rightarrow> string" where
  "declared_path path = snd (split_run path)"

definition run_root :: "url_env \<Rightarrow> string \<Rightarrow> string \<Rightarrow> exc + string" where
  "run_root env base_url run =
     (case urlsplit env base_url of
        None \<Rightarrow> Inl (value_error ''Invalid URL'')
      | Some p \<Rightarrow>
          if run \<in> set (split_on (CHR ''/'') (up_path p)) then Inr base_url
          else Inr (rev (dropWhile (\<lambda>c. c = CHR ''/'') (rev base_url)) @ RUN_PREFIX @ run))"

definition serving_runs :: "string \<Rightarrow> string list \<Rightarrow> string list" where
  "serving_runs path registered =
     remdups (List.map_filter (\<lambda>key. case split_run key of (Some owner, rest) \<Rightarrow> if rest = path then Some owner else None | _ \<Rightarrow> None) registered)"

definition pick :: "string \<Rightarrow> string list \<Rightarrow> (string \<Rightarrow> bool) \<Rightarrow> string option" where
  "pick path registered carries =
     (if path \<in> set registered then Some path
      else if (case fst (split_run path) of None \<Rightarrow> False | Some run \<Rightarrow> list_ex (\<lambda>key. fst (split_run key) = Some run) registered) then Some path
      else (let runs = serving_runs path registered
            in case runs of
                 [] \<Rightarrow> Some (scoped None path)
               | [owner] \<Rightarrow> Some (scoped (Some owner) path)
               | _ \<Rightarrow> (case filter (\<lambda>owner. carries (scoped (Some owner) path)) runs of
                         [owner] \<Rightarrow> Some (scoped (Some owner) path) | _ \<Rightarrow> None)))"

section \<open>The key of a run\<close>

definition upper_method :: "string \<Rightarrow> string" where
  "upper_method = map upper_char"

definition key_of :: "string \<Rightarrow> string \<Rightarrow> string" where
  "key_of path verb = upper_method verb @ '':'' @ path"

definition path_of_key :: "string \<Rightarrow> string" where
  "path_of_key key = snd (snd (cut_first (CHR '':'') key))"

definition method_of_key :: "string \<Rightarrow> string" where
  "method_of_key key = fst (cut_first (CHR '':'') key)"

definition owner_of :: "string \<Rightarrow> string option" where
  "owner_of key = fst (split_run (path_of_key key))"

definition MAX_RUN_KEYS :: nat where
  "MAX_RUN_KEYS = 1024"

type_synonym guards = "(string, string \<times> string) pydict"
type_synonym http_headers = "(string \<times> string) list"

text \<open>\<open>run_key\<close>: the keys are kept in the order they were minted, and the oldest go first. \<open>minted\<close> is what \<open>_mint_key\<close> returns.\<close>

definition run_key :: "string \<Rightarrow> string \<Rightarrow> (string, string) pydict \<Rightarrow> (string, string) pydict \<times> string" where
  "run_key minted run keys =
     (case dict_get keys run of
        Some key \<Rightarrow> (keys, key)
      | None \<Rightarrow> (let d = dict_set run minted keys in (drop (length d - MAX_RUN_KEYS) d, minted)))"

definition require_header :: "string \<Rightarrow> string \<Rightarrow> string \<Rightarrow> string \<Rightarrow> guards \<Rightarrow> guards" where
  "require_header path verb header val g = dict_set (key_of path verb) (lower header, val) g"

definition guard_of :: "string \<Rightarrow> string \<Rightarrow> guards \<Rightarrow> (string \<times> string) option" where
  "guard_of path verb g = dict_get g (key_of path verb)"

definition header_value :: "http_headers \<Rightarrow> string \<Rightarrow> string option" where
  "header_value headers name = map_option snd (find (\<lambda>(key, _). lower key = name) headers)"

definition MISSING_KEY :: string where
  "MISSING_KEY = ''the call carried no API key''"

definition WRONG_KEY :: string where
  "WRONG_KEY = ''the call carried an API key that is not this run's''"

definition key_refusal :: "string \<Rightarrow> string \<Rightarrow> http_headers \<Rightarrow> guards \<Rightarrow> string option" where
  "key_refusal path verb headers g =
     (case guard_of path verb g of
        None \<Rightarrow> None
      | Some (name, expected) \<Rightarrow>
          (case header_value headers name of
             None \<Rightarrow> Some MISSING_KEY
           | Some sent \<Rightarrow> if sent \<noteq> expected then Some WRONG_KEY else None))"

definition key_carried :: "string \<Rightarrow> string \<Rightarrow> http_headers \<Rightarrow> guards \<Rightarrow> bool" where
  "key_carried path verb headers g =
     (case guard_of path verb g of
        None \<Rightarrow> False
      | Some (name, expected) \<Rightarrow> header_value headers name = Some expected)"

definition carries_any_key_of :: "string \<Rightarrow> http_headers \<Rightarrow> guards \<Rightarrow> bool" where
  "carries_any_key_of path headers g =
     list_ex (\<lambda>key. path_of_key key = path \<and> key_carried path (method_of_key key) headers g) (dict_keys g)"

definition guarded :: "guards \<Rightarrow> string list" where
  "guarded g = map path_of_key (dict_keys g)"

definition drop_guard :: "string \<Rightarrow> string \<Rightarrow> guards \<Rightarrow> guards" where
  "drop_guard path verb g = dict_pop (key_of path verb) g"

definition drop_guards_of :: "string \<Rightarrow> guards \<Rightarrow> guards" where
  "drop_guards_of run g = filter (\<lambda>(key, _). owner_of key \<noteq> Some run) g"

section \<open>Listeners\<close>

text \<open>\<open>InboundAnswer\<close>, as it goes into a result.\<close>

definition inbound_answer :: "int \<Rightarrow> pyval \<Rightarrow> pyval" where
  "inbound_answer status body = PDict [(''status_code'', PInt status), (''body'', body)]"

datatype future_state = Pending | Settled CallbackResult | Cancelled

record Future =
  fu_loop :: nat
  fu_state :: future_state

datatype scheduled = Set_result nat CallbackResult | Settle nat CallbackResult | Cancel nat

record CallbackManager =
  cm_listeners :: "(string, nat) pydict"
  cm_futures :: "Future list"
  cm_buffered :: "(string, CallbackResult) pydict"
  cm_loop :: "nat option"
  cm_refused :: "(string, nat) pydict"
  cm_awaited :: "string list"
  cm_scheduled :: "(nat \<times> scheduled) list"

definition new_callbacks :: CallbackManager where
  "new_callbacks = \<lparr>cm_listeners = [], cm_futures = [], cm_buffered = [], cm_loop = None, cm_refused = [], cm_awaited = [], cm_scheduled = []\<rparr>"

definition is_stale :: "(nat \<Rightarrow> bool) \<Rightarrow> Future \<Rightarrow> bool" where
  "is_stale gone f =
     (if gone (fu_loop f) then True
      else (case fu_state f of Pending \<Rightarrow> False | Cancelled \<Rightarrow> True | Settled r \<Rightarrow> cb_refused r \<noteq> None))"

definition set_future :: "nat \<Rightarrow> future_state \<Rightarrow> CallbackManager \<Rightarrow> CallbackManager" where
  "set_future i st m = (if fu_state (cm_futures m ! i) = Pending then m\<lparr>cm_futures := (cm_futures m)[i := (cm_futures m ! i)\<lparr>fu_state := st\<rparr>]\<rparr> else m)"

definition callbacks_register :: "(nat \<Rightarrow> bool) \<Rightarrow> nat \<Rightarrow> string \<Rightarrow> string \<Rightarrow> CallbackManager \<Rightarrow> CallbackManager" where
  "callbacks_register gone loop path verb m =
     (let key = key_of path verb;
          m1 = (case dict_get (cm_listeners m) key of
                  Some i \<Rightarrow> if is_stale gone (cm_futures m ! i) then m\<lparr>cm_listeners := dict_pop key (cm_listeners m)\<rparr> else m
                | None \<Rightarrow> m)
      in if dict_has (cm_listeners m1) key then m1
         else m1\<lparr>cm_listeners := dict_set key (length (cm_futures m1)) (cm_listeners m1), cm_loop := Some loop,
                 cm_futures := cm_futures m1 @ [\<lparr>fu_loop = loop,
                    fu_state = (case dict_get (cm_buffered m1) key of None \<Rightarrow> Pending | Some r \<Rightarrow> Settled r)\<rparr>],
                 cm_buffered := dict_pop key (cm_buffered m1)\<rparr>)"

definition has_listener :: "string \<Rightarrow> string \<Rightarrow> CallbackManager \<Rightarrow> bool" where
  "has_listener path verb m = dict_has (cm_listeners m) (key_of path verb)"

definition timed_out_result :: "string \<Rightarrow> string \<Rightarrow> CallbackResult" where
  "timed_out_result path verb =
     \<lparr>cb_listener_name = key_of path verb, cb_path = path, cb_method = verb, cb_headers = PDict [], cb_query_params = PDict [], cb_payload = PNone,
      cb_received_at = None, cb_timed_out = True, cb_refused = None, cb_response = None\<rparr>"

text \<open>
  The two ends of \<open>wait\<close>: it answers at once when nobody listens, or blocks on the listener's future; it ends when the
  future has a result, at its timeout (which cancels the future), or by being cancelled itself.
\<close>

definition wait_start :: "string \<Rightarrow> string \<Rightarrow> CallbackManager \<Rightarrow> CallbackManager \<times> (CallbackResult + nat)" where
  "wait_start path verb m =
     (case dict_get (cm_listeners m) (key_of path verb) of
        None \<Rightarrow> (m, Inl (timed_out_result path verb))
      | Some i \<Rightarrow> (m\<lparr>cm_awaited := List.insert (key_of path verb) (cm_awaited m)\<rparr>, Inr i))"

datatype wait_event = Delivered | Timed_out | Abandoned

definition wait_end :: "string \<Rightarrow> string \<Rightarrow> nat \<Rightarrow> wait_event \<Rightarrow> CallbackManager \<Rightarrow> CallbackManager \<times> CallbackResult option" where
  "wait_end path verb i ev m =
     (let key = key_of path verb;
          result = (case ev of
                      Delivered \<Rightarrow> (case fu_state (cm_futures m ! i) of Settled r \<Rightarrow> Some r | _ \<Rightarrow> None)
                    | Timed_out \<Rightarrow> Some (timed_out_result path verb)
                    | Abandoned \<Rightarrow> None);
          m1 = (if ev = Delivered then m else set_future i Cancelled m)
      in (m1\<lparr>cm_awaited := removeAll key (cm_awaited m1), cm_listeners := dict_pop key (cm_listeners m1)\<rparr>, result))"

text \<open>A callback scheduled on a loop; one for a future that is done changes nothing (\<open>set_result\<close> raises inside the loop).\<close>

fun run_callback :: "scheduled \<Rightarrow> CallbackManager \<Rightarrow> CallbackManager" where
  "run_callback (Set_result i r) m = set_future i (Settled r) m"
| "run_callback (Settle i r) m = set_future i (Settled r) m"
| "run_callback (Cancel i) m = set_future i Cancelled m"

definition run_scheduled :: "nat \<Rightarrow> CallbackManager \<Rightarrow> CallbackManager" where
  "run_scheduled loop m =
     fold (\<lambda>(l, c). run_callback c) (filter (\<lambda>(l, c). l = loop) (cm_scheduled m))
       (m\<lparr>cm_scheduled := filter (\<lambda>(l, c). l \<noteq> loop) (cm_scheduled m)\<rparr>)"

definition closed_loop_error :: exc where
  "closed_loop_error = \<lparr>ex_kind = Other_Exception, ex_message = ''Event loop is closed'', ex_code = None, ex_origin = None, ex_diagnostics = None,
     ex_nested = None\<rparr>"

definition callback_result ::
  "redaction_env \<Rightarrow> string \<Rightarrow> string \<Rightarrow> string \<Rightarrow> http_headers \<Rightarrow> pyval \<Rightarrow> (string, string) pydict \<Rightarrow> pyval option \<Rightarrow> CallbackResult" where
  "callback_result env now path verb headers payload query response =
     \<lparr>cb_listener_name = key_of path verb, cb_path = declared_path path, cb_method = verb,
      cb_headers = safe_headers env (PDict (map (\<lambda>(k, v). (k, PStr v)) headers)), cb_query_params = PDict (map (\<lambda>(k, v). (k, PStr v)) query), cb_payload = payload,
      cb_received_at = Some now, cb_timed_out = False, cb_refused = None, cb_response = response\<rparr>"

text \<open>\<open>here\<close> is the loop that runs in the calling thread, if one does.\<close>

definition callbacks_resolve ::
  "(nat \<Rightarrow> bool) \<Rightarrow> nat option \<Rightarrow> string \<Rightarrow> string \<Rightarrow> CallbackResult \<Rightarrow> CallbackManager \<Rightarrow> CallbackManager \<times> (exc + bool)" where
  "callbacks_resolve gone here path verb result m =
     (let key = key_of path verb
      in case dict_get (cm_listeners m) key of
           Some i \<Rightarrow>
             if fu_state (cm_futures m ! i) = Pending
             then (case cm_loop m of
                     Some l \<Rightarrow>
                       if here \<noteq> Some l
                       then (if gone l then (m, Inl closed_loop_error)
                             else (m\<lparr>cm_scheduled := cm_scheduled m @ [(l, Set_result i result)]\<rparr>, Inr True))
                       else (set_future i (Settled result) m, Inr True)
                   | None \<Rightarrow> (set_future i (Settled result) m, Inr True))
             else (m, Inr False)
         | None \<Rightarrow> (m\<lparr>cm_buffered := dict_set key result (cm_buffered m)\<rparr>, Inr True))"

definition callbacks_refuse :: "string \<Rightarrow> string \<Rightarrow> CallbackManager \<Rightarrow> CallbackManager" where
  "callbacks_refuse path verb m =
     (let key = key_of path verb
      in m\<lparr>cm_refused := dict_set key (Suc (case dict_get (cm_refused m) key of None \<Rightarrow> 0 | Some n \<Rightarrow> n)) (cm_refused m)\<rparr>)"

definition callbacks_refused :: "string \<Rightarrow> string \<Rightarrow> CallbackManager \<Rightarrow> nat" where
  "callbacks_refused path verb m = (case dict_get (cm_refused m) (key_of path verb) of None \<Rightarrow> 0 | Some n \<Rightarrow> n)"

definition refusal_result :: "string \<Rightarrow> string \<Rightarrow> string \<Rightarrow> string \<Rightarrow> pyval option \<Rightarrow> CallbackResult" where
  "refusal_result now path verb reason response =
     \<lparr>cb_listener_name = key_of path verb, cb_path = declared_path path, cb_method = verb, cb_headers = PDict [], cb_query_params = PDict [],
      cb_payload = PNone, cb_received_at = Some now, cb_timed_out = False, cb_refused = Some reason, cb_response = response\<rparr>"

definition callbacks_reject ::
  "(nat \<Rightarrow> bool) \<Rightarrow> nat option \<Rightarrow> string \<Rightarrow> string \<Rightarrow> CallbackResult \<Rightarrow> CallbackManager \<Rightarrow> CallbackManager \<times> bool" where
  "callbacks_reject gone here path verb result m =
     (case dict_get (cm_listeners m) (key_of path verb) of
        None \<Rightarrow> (m, False)
      | Some i \<Rightarrow>
          (let f = cm_futures m ! i
           in if fu_state f \<noteq> Pending then (m, False)
              else if here = Some (fu_loop f) then (set_future i (Settled result) m, True)
              else if gone (fu_loop f) then (m, False)
              else (m\<lparr>cm_scheduled := cm_scheduled m @ [(fu_loop f, Settle i result)]\<rparr>, True)))"

definition awaited :: "CallbackManager \<Rightarrow> (string \<times> string) list" where
  "awaited m = map (\<lambda>key. (path_of_key key, method_of_key key)) (cm_awaited m)"

definition listening :: "CallbackManager \<Rightarrow> (string \<times> string) list" where
  "listening m = map (\<lambda>key. (path_of_key key, method_of_key key)) (dict_keys (cm_listeners m))"

definition forget_run :: "(nat \<Rightarrow> bool) \<Rightarrow> string \<Rightarrow> CallbackManager \<Rightarrow> CallbackManager" where
  "forget_run gone run m =
     (let mine = filter (\<lambda>(key, i). owner_of key = Some run) (cm_listeners m)
      in m\<lparr>cm_listeners := filter (\<lambda>(key, i). owner_of key \<noteq> Some run) (cm_listeners m),
           cm_scheduled := cm_scheduled m
             @ map (\<lambda>(key, i). (fu_loop (cm_futures m ! i), Cancel i)) (filter (\<lambda>(key, i). \<not> gone (fu_loop (cm_futures m ! i))) mine),
           cm_buffered := filter (\<lambda>(key, r). owner_of key \<noteq> Some run) (cm_buffered m),
           cm_refused := filter (\<lambda>(key, n). owner_of key \<noteq> Some run) (cm_refused m),
           cm_awaited := filter (\<lambda>key. owner_of key \<noteq> Some run) (cm_awaited m)\<rparr>)"

definition clear_callbacks :: "CallbackManager \<Rightarrow> CallbackManager" where
  "clear_callbacks m =
     (fold (\<lambda>(key, i). set_future i Cancelled) (cm_listeners m) m)\<lparr>cm_listeners := [], cm_buffered := [], cm_refused := [], cm_awaited := []\<rparr>"

section \<open>Mocks\<close>

record MockRequest =
  mq_method :: string
  mq_path :: string
  mq_headers :: http_headers
  mq_query_params :: "(string, string list) pydict"
  mq_body :: pyval

record MockResponse =
  mr_status_code :: int
  mr_body :: pyval
  mr_headers :: "(string, string) pydict"

datatype 'w mock = Canned MockResponse | Handler "MockRequest \<Rightarrow> 'w \<Rightarrow> 'w \<times> MockResponse"

record 'w Inbound =
  in_routes :: "(string, 'w mock) pydict"
  in_guards :: guards
  in_run_keys :: "(string, string) pydict"
  in_callbacks :: CallbackManager
  in_world :: 'w

definition query :: "string \<Rightarrow> MockRequest \<Rightarrow> string option" where
  "query name r = (case dict_get (mq_query_params r) name of Some (v # _) \<Rightarrow> Some v | _ \<Rightarrow> None)"

definition query_all :: "string \<Rightarrow> MockRequest \<Rightarrow> string list" where
  "query_all name r = (case dict_get (mq_query_params r) name of None \<Rightarrow> [] | Some vs \<Rightarrow> vs)"

definition query_of :: "(string \<times> string) list \<Rightarrow> (string, string list) pydict" where
  "query_of pairs = fold (\<lambda>(name, v) d. dict_set name ((case dict_get d name of None \<Rightarrow> [] | Some vs \<Rightarrow> vs) @ [v]) d) pairs []"

definition register_mock :: "string option \<Rightarrow> string \<Rightarrow> string \<Rightarrow> 'w mock \<Rightarrow> (string \<times> string) option \<Rightarrow> 'w Inbound \<Rightarrow> 'w Inbound" where
  "register_mock run path verb response required s =
     (let key_path = scoped run path;
          g = (case required of None \<Rightarrow> drop_guard key_path verb (in_guards s) | Some (h, v) \<Rightarrow> require_header key_path verb h v (in_guards s))
      in s\<lparr>in_guards := g, in_routes := dict_set (key_of key_path verb) response (in_routes s)\<rparr>)"

definition registered_paths :: "'w Inbound \<Rightarrow> string list" where
  "registered_paths s = map path_of_key (dict_keys (in_routes s)) @ guarded (in_guards s) @ map fst (listening (in_callbacks s))"

definition locate :: "string \<Rightarrow> http_headers \<Rightarrow> 'w Inbound \<Rightarrow> string option" where
  "locate path headers s = pick path (registered_paths s) (\<lambda>key_path. carries_any_key_of key_path headers (in_guards s))"

definition get_mock :: "string option \<Rightarrow> string \<Rightarrow> string \<Rightarrow> 'w Inbound \<Rightarrow> 'w mock option" where
  "get_mock run path verb s =
     (case (if nonempty_text run then Some (scoped run path) else locate path [] s) of
        None \<Rightarrow> None | Some key_path \<Rightarrow> dict_get (in_routes s) (key_of key_path verb))"

definition resolve_mock ::
  "string \<Rightarrow> string \<Rightarrow> http_headers \<Rightarrow> (string, string list) pydict \<Rightarrow> pyval \<Rightarrow> 'w Inbound \<Rightarrow> 'w Inbound \<times> MockResponse option" where
  "resolve_mock path verb headers query_params body s =
     (case locate path headers s of
        None \<Rightarrow> (s, None)
      | Some key_path \<Rightarrow>
          (case dict_get (in_routes s) (key_of key_path verb) of
             None \<Rightarrow> (s, None)
           | Some (Canned r) \<Rightarrow> (s, Some r)
           | Some (Handler h) \<Rightarrow>
               (let (w, r) = h \<lparr>mq_method = verb, mq_path = declared_path key_path, mq_headers = headers, mq_query_params = query_params,
                                mq_body = body\<rparr> (in_world s)
                in (s\<lparr>in_world := w\<rparr>, Some r))))"

definition required_header :: "string option \<Rightarrow> string \<Rightarrow> string \<Rightarrow> 'w Inbound \<Rightarrow> (string \<times> string) option" where
  "required_header owner path verb s =
     (case (if nonempty_text owner then Some (scoped owner path) else locate path [] s) of
        None \<Rightarrow> None | Some key_path \<Rightarrow> guard_of key_path verb (in_guards s))"

definition UNADDRESSED :: string where
  "UNADDRESSED = ''the call named no run, and more than one run serves that address''"

definition refusal :: "string \<Rightarrow> string \<Rightarrow> http_headers \<Rightarrow> 'w Inbound \<Rightarrow> string option" where
  "refusal path verb headers s =
     (case locate path headers s of None \<Rightarrow> Some UNADDRESSED | Some key_path \<Rightarrow> key_refusal key_path verb headers (in_guards s))"

definition carries_key_of :: "string \<Rightarrow> string \<Rightarrow> http_headers \<Rightarrow> 'w Inbound \<Rightarrow> bool" where
  "carries_key_of path verb headers s =
     (case locate path headers s of None \<Rightarrow> False | Some key_path \<Rightarrow> key_carried key_path verb headers (in_guards s))"

definition remove_mock :: "string option \<Rightarrow> string \<Rightarrow> string \<Rightarrow> 'w Inbound \<Rightarrow> 'w Inbound" where
  "remove_mock run path verb s =
     (let key_path = scoped run path
      in s\<lparr>in_routes := dict_pop (key_of key_path verb) (in_routes s), in_guards := drop_guard key_path verb (in_guards s)\<rparr>)"

definition release_mocks :: "(nat \<Rightarrow> bool) \<Rightarrow> string \<Rightarrow> 'w Inbound \<Rightarrow> 'w Inbound" where
  "release_mocks gone run s =
     s\<lparr>in_routes := filter (\<lambda>(key, _). owner_of key \<noteq> Some run) (in_routes s), in_guards := drop_guards_of run (in_guards s),
       in_callbacks := forget_run gone run (in_callbacks s)\<rparr>"

definition clear_mocks :: "'w Inbound \<Rightarrow> 'w Inbound" where
  "clear_mocks s = s\<lparr>in_routes := [], in_guards := []\<rparr>"

section \<open>How a call is answered\<close>

record inbound_call =
  ic_method :: string
  ic_called :: string
  ic_headers :: http_headers
  ic_query :: "(string \<times> string) list"
  ic_json :: "pyval option"

datatype http_reply = Reply int pyval "(string, string) pydict" | HTTP_error int string

text \<open>
  What the server knows when a call comes in: the closed loops, the loop of the calling thread, the instant as written, the
  names that are redacted, and the jobs of its player, if it has one.
\<close>

record 'r inbound_env =
  ib_gone :: "nat \<Rightarrow> bool"
  ib_here :: "nat option"
  ib_now :: string
  ib_redaction :: redaction_env
  ib_jobs :: "'r JobManager option"

definition on_callbacks :: "(CallbackManager \<Rightarrow> CallbackManager) \<Rightarrow> 'w Inbound \<Rightarrow> 'w Inbound" where
  "on_callbacks f s = s\<lparr>in_callbacks := f (in_callbacks s)\<rparr>"

definition refused_call :: "'r inbound_env \<Rightarrow> string \<Rightarrow> string \<Rightarrow> string \<Rightarrow> 'w Inbound \<Rightarrow> 'w Inbound \<times> http_reply" where
  "refused_call env path verb reason s =
     (let detail = verb @ '' '' @ declared_path path @ '' is served only through the connector that offers ''
            @ ''it: negotiate the offer and call through the data plane.'';
          body = PDict [(''detail'', PStr detail)];
          result = refusal_result (ib_now env) path verb reason (Some (inbound_answer 401 body))
      in (on_callbacks (\<lambda>m. fst (callbacks_reject (ib_gone env) (ib_here env) path verb result (callbacks_refuse path verb m))) s,
          Reply 401 body []))"

definition misdirected :: "'r inbound_env \<Rightarrow> string \<Rightarrow> string \<Rightarrow> http_headers \<Rightarrow> 'w Inbound \<Rightarrow> 'w Inbound" where
  "misdirected env path verb headers s =
     on_callbacks (fold (\<lambda>(awaited_path, awaited_method) m.
         if awaited_path \<noteq> path \<and> \<not> carries_key_of awaited_path awaited_method headers s then m
         else fst (callbacks_reject (ib_gone env) (ib_here env) awaited_path awaited_method
                (refusal_result (ib_now env) awaited_path awaited_method
                   (''the call went to '' @ verb @ '' '' @ declared_path path @ '', not to '' @ awaited_method @ '' '' @ declared_path awaited_path) None) m))
       (awaited (in_callbacks s))) s"

definition on_hold :: "'r JobManager option \<Rightarrow> string option \<Rightarrow> bool" where
  "on_hold jobs run =
     (case jobs of
        None \<Rightarrow> False
      | Some jm \<Rightarrow> (case run of Some r \<Rightarrow> if get_job r jm \<noteq> None then is_held r jm else any_held jm | None \<Rightarrow> any_held jm))"

definition RECEIVED :: pyval where
  "RECEIVED = PDict [(''status'', PStr ''received'')]"

text \<open>Once the call is located and admitted.\<close>

definition answer_located :: "'r inbound_env \<Rightarrow> inbound_call \<Rightarrow> string \<Rightarrow> pyval \<Rightarrow> 'w Inbound \<Rightarrow> 'w Inbound \<times> (exc + http_reply)" where
  "answer_located env c path body s =
     (let verb = ic_method c;
          not_found = HTTP_error 404 (''No mock or listener for '' @ verb @ '' '' @ ic_called c);
          (s1, mock) = resolve_mock path verb (ic_headers c) (query_of (ic_query c)) body s
      in if mock = None \<and> \<not> has_listener path verb (in_callbacks s1)
         then (misdirected env path verb (ic_headers c) s1, Inr not_found)
         else (let reply = (case mock of None \<Rightarrow> inbound_answer 200 RECEIVED | Some r \<Rightarrow> inbound_answer (mr_status_code r) (mr_body r));
                   result = callback_result (ib_redaction env) (ib_now env) path verb (ic_headers c) body
                     (fold (\<lambda>(k, v) d. dict_set k v d) (ic_query c) []) (Some reply);
                   (m, matched) = callbacks_resolve (ib_gone env) (ib_here env) path verb result (in_callbacks s1);
                   s2 = s1\<lparr>in_callbacks := m\<rparr>
               in case matched of
                    Inl e \<Rightarrow> (s2, Inl e)
                  | Inr got \<Rightarrow>
                      (s2, Inr (case mock of
                                  Some r \<Rightarrow> Reply (mr_status_code r) (mr_body r) (mr_headers r)
                                | None \<Rightarrow> if got then Reply 200 RECEIVED [] else not_found))))"

definition answer :: "'r inbound_env \<Rightarrow> inbound_call \<Rightarrow> 'w Inbound \<Rightarrow> 'w Inbound \<times> (exc + http_reply)" where
  "answer env c s =
     (case locate (ic_called c) (ic_headers c) s of
        None \<Rightarrow> (s, Inr (HTTP_error 409 (''More than one run serves '' @ ic_method c @ '' '' @ ic_called c @ ''; call the address the run published'')))
      | Some path \<Rightarrow>
          if on_hold (ib_jobs env) (fst (split_run path))
          then (s, Inr (HTTP_error 404 (''No mock answers '' @ ic_method c @ '' '' @ ic_called c @ '' while the run is paused; call again once it resumes'')))
          else (let body = (if ic_method c \<in> {''POST'', ''PUT''} then (case ic_json c of None \<Rightarrow> PDict [] | Some v \<Rightarrow> v) else PNone)
                in case refusal path (ic_method c) (ic_headers c) s of
                     Some reason \<Rightarrow> map_prod id Inr (refused_call env path (ic_method c) reason s)
                   | None \<Rightarrow> answer_located env c path body s))"

section \<open>What a run does with its mocks\<close>

text \<open>
  \<open>publish_mock\<close>, as far as the registry goes: the run's key unless the mock is public, the mock, and a listener for the
  wait that follows. Its path starts with a slash and its method is in upper case, as \<open>MockRouteParams\<close> has them.
\<close>

definition publish_mock ::
  "(nat \<Rightarrow> bool) \<Rightarrow> nat \<Rightarrow> string \<Rightarrow> string \<Rightarrow> string \<Rightarrow> string \<Rightarrow> 'w mock \<Rightarrow> string option \<Rightarrow> 'w Inbound \<Rightarrow> 'w Inbound" where
  "publish_mock gone loop minted run path verb response key_header s =
     (let (keys, key) = (if key_header = None then (in_run_keys s, []) else run_key minted run (in_run_keys s));
          s1 = register_mock (Some run) path verb response (if key = [] then None else Some (the key_header, key)) (s\<lparr>in_run_keys := keys\<rparr>)
      in on_callbacks (callbacks_register gone loop (scoped (Some run) path) verb) s1)"

datatype 'w inbound_op =
    Publish nat string string string "'w mock" "string option"
  | Remove string string
  | Listen nat string string
  | Wait_start string string
  | Wait_end string string nat wait_event
  | Release

fun do_inbound :: "(nat \<Rightarrow> bool) \<Rightarrow> string \<Rightarrow> 'w inbound_op \<Rightarrow> 'w Inbound \<Rightarrow> 'w Inbound" where
  "do_inbound gone run (Publish loop minted path verb response key_header) s = publish_mock gone loop minted run path verb response key_header s"
| "do_inbound gone run (Remove path verb) s = remove_mock (Some run) path verb s"
| "do_inbound gone run (Listen loop path verb) s = on_callbacks (callbacks_register gone loop (scoped (Some run) path) verb) s"
| "do_inbound gone run (Wait_start path verb) s = on_callbacks (\<lambda>m. fst (wait_start (scoped (Some run) path) verb m)) s"
| "do_inbound gone run (Wait_end path verb i ev) s = on_callbacks (\<lambda>m. fst (wait_end (scoped (Some run) path) verb i ev m)) s"
| "do_inbound gone run Release s = release_mocks gone run s"

section \<open>Addresses\<close>

definition run_name :: "string \<Rightarrow> bool" where
  "run_name r = (r \<noteq> [] \<and> CHR ''/'' \<notin> set r)"

definition absolute :: "string \<Rightarrow> bool" where
  "absolute path = starts_with path ''/''"

definition http_method :: "string \<Rightarrow> bool" where
  "http_method verb = (CHR '':'' \<notin> set verb)"

lemma split_run_root: "run_name r \<Longrightarrow> split_run (RUN_PREFIX @ r @ CHR ''/'' # rest) = (Some r, CHR ''/'' # rest)"
  using cut_first_found [of "CHR ''/''" r rest] by (auto simp: split_run_def run_name_def RUN_PREFIX_def starts_with_iff)

lemma cut_first_SomeD: "cut_first sep s = (a, True, b) \<Longrightarrow> s = a @ sep # b \<and> sep \<notin> set a"
proof -
  assume c: "cut_first sep s = (a, True, b)"
  then obtain a' b' where s: "s = a' @ sep # b'" "sep \<notin> set a'" by (auto simp: cut_first_def split: if_splits dest: split_list_first)
  with c cut_first_found [OF s(2)] show ?thesis by simp
qed

lemma split_run_SomeD:
  assumes "split_run path = (Some r, rest)"
  shows "path = RUN_PREFIX @ r @ rest" "run_name r" "absolute rest"
proof -
  obtain q where q: "path = RUN_PREFIX @ q"
    using assms by (auto simp: split_run_def starts_with_iff split: if_splits)
  obtain t where t: "cut_first (CHR ''/'') q = (r, True, t)" "rest = CHR ''/'' # t" "r \<noteq> []"
    using assms q by (auto simp: split_run_def starts_with_iff Let_def split: prod.splits if_splits)
  from cut_first_SomeD [OF t(1)] t q show "path = RUN_PREFIX @ r @ rest" "run_name r" "absolute rest"
    by (auto simp: run_name_def absolute_def starts_with_iff)
qed

lemma split_scoped: "run_name r \<Longrightarrow> absolute path \<Longrightarrow> fst (split_run (scoped (Some r) path)) = Some r"
  by (auto simp: scoped_def absolute_def starts_with_iff run_name_def [symmetric] split_run_root) (simp_all add: run_name_def)

lemma upper_colon [simp]: "CHR '':'' \<in> set (upper_method verb) \<longleftrightarrow> CHR '':'' \<in> set verb"
proof -
  have "upper_char c = CHR '':'' \<longleftrightarrow> c = CHR '':''" for c
  proof
    assume u: "upper_char c = CHR '':''"
    show "c = CHR '':''"
    proof (cases "97 \<le> (of_char c :: nat) \<and> (of_char c :: nat) \<le> 122")
      case True
      with u have "(of_char (char_of ((of_char c :: nat) - 32) :: char) :: nat) = of_char CHR '':''" by (simp add: upper_char_def Let_def)
      moreover have "(of_char CHR '':'' :: nat) = 58" by simp
      moreover have "((of_char c :: nat) - 32) mod 256 = of_char c - 32" using True by (intro mod_less) linarith
      ultimately have "(of_char c :: nat) - 32 = 58" by simp
      with True show ?thesis by linarith
    qed (use u in \<open>auto simp: upper_char_def Let_def split: if_splits\<close>)
  qed (simp add: upper_char_def)
  then show ?thesis unfolding upper_method_def set_map by (metis image_iff)
qed

lemma key_parts [simp]:
  "http_method verb \<Longrightarrow> path_of_key (key_of path verb) = path" "http_method verb \<Longrightarrow> method_of_key (key_of path verb) = upper_method verb"
  using cut_first_found [of "CHR '':''" "upper_method verb" path]
  by (simp_all add: path_of_key_def method_of_key_def key_of_def http_method_def)

lemma owner_scoped:
  "run_name r \<Longrightarrow> absolute path \<Longrightarrow> http_method verb \<Longrightarrow> owner_of (key_of (scoped (Some r) path) verb) = Some r"
  by (simp add: owner_of_def split_scoped)

text \<open>Asked again with the address it found, the registry finds the same one.\<close>

lemma map_filter_member: "x \<in> set (List.map_filter f xs) \<longleftrightarrow> (\<exists>y\<in>set xs. f y = Some x)"
  by (induction xs) (auto simp: List.map_filter_simps split: option.splits)

lemma serving_run: "owner \<in> set (serving_runs path registered) \<Longrightarrow> RUN_PREFIX @ owner @ path \<in> set registered \<and> run_name owner \<and> absolute path"
proof -
  assume "owner \<in> set (serving_runs path registered)"
  then obtain key where k: "key \<in> set registered"
    "(case split_run key of (Some owner, rest) \<Rightarrow> if rest = path then Some owner else None | _ \<Rightarrow> None) = Some owner"
    unfolding serving_runs_def set_remdups map_filter_member by blast
  obtain r rest where r: "split_run key = (r, rest)" by fastforce
  with k(2) have "split_run key = (Some owner, path)" by (cases r) (auto split: if_splits)
  from split_run_SomeD [OF this] k(1) show ?thesis by simp
qed

lemma pick_stable:
  assumes "pick path registered carries = Some key"
  shows "pick key registered carries = Some key"
proof (cases "pick path registered carries = Some path")
  case False
  let ?in_run = "case fst (split_run path) of None \<Rightarrow> False | Some run \<Rightarrow> list_ex (\<lambda>key. fst (split_run key) = Some run) registered"
  have out: "path \<notin> set registered" "\<not> ?in_run" using False unfolding pick_def by argo+
  then have found: "(case serving_runs path registered of
                 [] \<Rightarrow> Some (scoped None path)
               | [owner] \<Rightarrow> Some (scoped (Some owner) path)
               | _ \<Rightarrow> (case filter (\<lambda>owner. carries (scoped (Some owner) path)) (serving_runs path registered) of
                         [owner] \<Rightarrow> Some (scoped (Some owner) path) | _ \<Rightarrow> None)) = Some key"
    using assms unfolding pick_def Let_def by argo
  have "scoped None path \<noteq> key" using False assms by (auto simp: scoped_def)
  then have "\<exists>owner\<in>set (serving_runs path registered). key = scoped (Some owner) path"
  proof (cases "serving_runs path registered")
    case (Cons a as)
    show ?thesis
    proof (cases as)
      case (Cons b bs)
      with found \<open>serving_runs path registered = a # as\<close>
      have "\<exists>owner. filter (\<lambda>owner. carries (scoped (Some owner) path)) (serving_runs path registered) = [owner] \<and> key = scoped (Some owner) path"
        by (simp del: filter.simps split: list.splits)
      then show ?thesis by (metis filter_is_subset list.set_intros(1) subsetD)
    qed (use found Cons in simp)
  qed (use found in simp)
  then obtain owner where o: "owner \<in> set (serving_runs path registered)" "key = scoped (Some owner) path" by blast
  have s: "RUN_PREFIX @ owner @ path \<in> set registered" "run_name owner" "absolute path" using serving_run [OF o(1)] by auto
  have "\<not> starts_with path (RUN_PREFIX @ owner @ ''/'')"
  proof
    assume "starts_with path (RUN_PREFIX @ owner @ ''/'')"
    then have "fst (split_run path) = Some owner" using split_run_root [OF s(2)] by (auto simp: starts_with_iff)
    moreover have "fst (split_run (RUN_PREFIX @ owner @ path)) = Some owner"
      using split_run_root [OF s(2)] s(3) by (auto simp: absolute_def starts_with_iff)
    ultimately show False using out(2) s(1) by (auto simp: list_ex_iff)
  qed
  then have "key = RUN_PREFIX @ owner @ path" using o(2) s(2) by (simp add: scoped_def run_name_def)
  with s(1) show ?thesis by (simp add: pick_def)
qed (use assms in simp)

section \<open>What belongs to a run\<close>

definition own :: "string \<Rightarrow> (string, 'v) pydict \<Rightarrow> (string, 'v) pydict" where
  "own run d = filter (\<lambda>kv. owner_of (fst kv) = Some run) d"

fun target :: "scheduled \<Rightarrow> nat" where
  "target (Set_result i r) = i"
| "target (Settle i r) = i"
| "target (Cancel i) = i"

definition own_futures :: "string \<Rightarrow> CallbackManager \<Rightarrow> nat set" where
  "own_futures run m = snd ` set (own run (cm_listeners m))"

text \<open>All a run has on the server: its mocks, what they require, its listeners with their futures and what is scheduled for these.\<close>

definition callbacks_part :: "string \<Rightarrow> CallbackManager
   \<Rightarrow> (string, nat) pydict \<times> Future list \<times> (string, CallbackResult) pydict \<times> (string, nat) pydict \<times> string list \<times> (nat \<times> scheduled) list" where
  "callbacks_part run m =
     (own run (cm_listeners m), map (\<lambda>(key, i). cm_futures m ! i) (own run (cm_listeners m)), own run (cm_buffered m), own run (cm_refused m),
      filter (\<lambda>key. owner_of key = Some run) (cm_awaited m), filter (\<lambda>(l, c). target c \<in> own_futures run m) (cm_scheduled m))"

definition run_part where
  "run_part run s = (own run (in_routes s), own run (in_guards s), callbacks_part run (in_callbacks s))"

definition listeners_ok :: "CallbackManager \<Rightarrow> bool" where
  "listeners_ok m = (dict_wf (cm_listeners m) \<and> distinct (map snd (cm_listeners m)) \<and> (\<forall>i\<in>snd ` set (cm_listeners m). i < length (cm_futures m))
     \<and> (\<forall>(l, c)\<in>set (cm_scheduled m). target c < length (cm_futures m)))"

lemma own_set [simp]: "owner_of key \<noteq> Some run \<Longrightarrow> own run (dict_set key v d) = own run d"
  by (induction d) (auto simp: own_def)

lemma own_pop [simp]: "owner_of key \<noteq> Some run \<Longrightarrow> own run (dict_pop key d) = own run d"
  by (induction d) (auto simp: own_def dict_pop_def)

lemma own_release [simp]: "other \<noteq> run \<Longrightarrow> own run (filter (\<lambda>(key, v). owner_of key \<noteq> Some other) d) = own run d"
  by (induction d) (auto simp: own_def)

lemma own_member: "(key, v) \<in> set (own run d) \<longleftrightarrow> (key, v) \<in> set d \<and> owner_of key = Some run"
  by (auto simp: own_def)

lemma listed_future:
  assumes "listeners_ok m" "dict_get (cm_listeners m) key = Some i" "owner_of key \<noteq> Some run"
  shows "i \<notin> own_futures run m" "i < length (cm_futures m)"
proof -
  have mem: "(key, i) \<in> set (cm_listeners m)" using assms(2) by (rule dict_get_SomeD)
  then show "i < length (cm_futures m)" using assms(1) by (force simp: listeners_ok_def)
  show "i \<notin> own_futures run m"
  proof
    assume "i \<in> own_futures run m"
    then obtain k where k: "(k, i) \<in> set (cm_listeners m)" "owner_of k = Some run" by (auto simp: own_futures_def own_member)
    have "k = key" using assms(1) k(1) mem unfolding listeners_ok_def by (metis distinct_map inj_onD prod.inject snd_conv)
    with k(2) assms(3) show False by simp
  qed
qed

lemma part_set_future [simp]: "i \<notin> own_futures run m \<Longrightarrow> callbacks_part run (set_future i st m) = callbacks_part run m"
  by (auto simp: callbacks_part_def set_future_def own_futures_def image_iff intro!: map_cong)

lemma own_futures_set [simp]: "own_futures run (set_future i st m) = own_futures run m"
  by (simp add: own_futures_def set_future_def)

lemma listeners_set [simp]: "cm_listeners (set_future i st m) = cm_listeners m" "cm_awaited (set_future i st m) = cm_awaited m"
  "length (cm_futures (set_future i st m)) = length (cm_futures m)" "cm_scheduled (set_future i st m) = cm_scheduled m"
  by (simp_all add: set_future_def)

lemma ok_set_future [simp]: "listeners_ok (set_future i st m) = listeners_ok m"
  by (simp add: listeners_ok_def)

lemma own_listeners_eqI:
  assumes "own run (cm_listeners m') = own run (cm_listeners m)" "\<And>i. i \<in> own_futures run m \<Longrightarrow> cm_futures m' ! i = cm_futures m ! i"
    "own run (cm_buffered m') = own run (cm_buffered m)" "own run (cm_refused m') = own run (cm_refused m)"
    "filter (\<lambda>key. owner_of key = Some run) (cm_awaited m') = filter (\<lambda>key. owner_of key = Some run) (cm_awaited m)"
    "filter (\<lambda>(l, c). target c \<in> own_futures run m) (cm_scheduled m') = filter (\<lambda>(l, c). target c \<in> own_futures run m) (cm_scheduled m)"
  shows "callbacks_part run m' = callbacks_part run m"
proof -
  have "own_futures run m' = own_futures run m" using assms(1) by (simp add: own_futures_def)
  moreover have "map (\<lambda>(key, i). cm_futures m' ! i) (own run (cm_listeners m)) = map (\<lambda>(key, i). cm_futures m ! i) (own run (cm_listeners m))"
  proof (rule map_cong [OF refl])
    fix kv assume "kv \<in> set (own run (cm_listeners m))"
    then have "snd kv \<in> own_futures run m" by (simp add: own_futures_def)
    then show "(case kv of (key, i) \<Rightarrow> cm_futures m' ! i) = (case kv of (key, i) \<Rightarrow> cm_futures m ! i)"
      using assms(2) by (simp add: case_prod_beta)
  qed
  ultimately show ?thesis using assms by (simp add: callbacks_part_def)
qed

lemma own_future_bound: "listeners_ok m \<Longrightarrow> i \<in> own_futures run m \<Longrightarrow> i < length (cm_futures m)"
  by (force simp: listeners_ok_def own_futures_def own_member)

definition dropped :: "string \<Rightarrow> CallbackManager \<Rightarrow> CallbackManager" where
  "dropped key m = m\<lparr>cm_listeners := dict_pop key (cm_listeners m)\<rparr>"

lemma dropped_part: "owner_of key \<noteq> Some run \<Longrightarrow> callbacks_part run (dropped key m) = callbacks_part run m"
  by (rule own_listeners_eqI) (simp_all add: dropped_def)

lemma dropped_ok: "listeners_ok m \<Longrightarrow> listeners_ok (dropped key m)"
  by (auto simp: listeners_ok_def dropped_def dict_pop_def dict_wf_def distinct_map_filter)

definition opened :: "nat \<Rightarrow> string \<Rightarrow> CallbackManager \<Rightarrow> CallbackManager" where
  "opened loop key m =
     m\<lparr>cm_listeners := dict_set key (length (cm_futures m)) (cm_listeners m), cm_loop := Some loop,
       cm_futures := cm_futures m @ [\<lparr>fu_loop = loop, fu_state = (case dict_get (cm_buffered m) key of None \<Rightarrow> Pending | Some r \<Rightarrow> Settled r)\<rparr>],
       cm_buffered := dict_pop key (cm_buffered m)\<rparr>"

lemma opened_part: "listeners_ok m \<Longrightarrow> owner_of key \<noteq> Some run \<Longrightarrow> callbacks_part run (opened loop key m) = callbacks_part run m"
  by (rule own_listeners_eqI) (auto simp: opened_def nth_append dest: own_future_bound)

lemma opened_ok:
  assumes "listeners_ok m" "\<not> dict_has (cm_listeners m) key"
  shows "listeners_ok (opened loop key m)"
proof -
  have new: "dict_set key n (cm_listeners m) = cm_listeners m @ [(key, n)]" for n
    using assms(2) by (rule dict_set_new)
  have "dict_wf (dict_set key (length (cm_futures m)) (cm_listeners m))" using assms(1) by (auto simp: listeners_ok_def)
  with assms(1) show ?thesis by (force simp: listeners_ok_def opened_def new less_Suc_eq)
qed

lemma register_cases:
  "callbacks_register gone loop path verb m = m
   \<or> (\<not> dict_has (cm_listeners m) (key_of path verb) \<and> callbacks_register gone loop path verb m = opened loop (key_of path verb) m)
   \<or> callbacks_register gone loop path verb m = opened loop (key_of path verb) (dropped (key_of path verb) m)"
  by (auto simp: callbacks_register_def opened_def dropped_def Let_def dict_has_def dict_simps split: option.splits)

lemma register_part:
  assumes "listeners_ok m" "owner_of (key_of path verb) \<noteq> Some run"
  shows "callbacks_part run (callbacks_register gone loop path verb m) = callbacks_part run m"
  using register_cases [of gone loop path verb m] opened_part [OF assms] opened_part [OF dropped_ok [OF assms(1)] assms(2)] dropped_part [OF assms(2)]
  by metis

lemma register_ok: "listeners_ok m \<Longrightarrow> listeners_ok (callbacks_register gone loop path verb m)"
proof -
  assume ok: "listeners_ok m"
  have "\<not> dict_has (cm_listeners (dropped (key_of path verb) m)) (key_of path verb)" by (simp add: dropped_def dict_has_def dict_simps)
  then show ?thesis using register_cases [of gone loop path verb m] opened_ok [OF ok] opened_ok [OF dropped_ok [OF ok]] ok by metis
qed

lemma wait_start_part:
  "owner_of (key_of path verb) \<noteq> Some run \<Longrightarrow> callbacks_part run (fst (wait_start path verb m)) = callbacks_part run m"
  by (cases "dict_get (cm_listeners m) (key_of path verb)") (auto simp: wait_start_def List.insert_def intro!: own_listeners_eqI)

lemma wait_start_ok: "listeners_ok m \<Longrightarrow> listeners_ok (fst (wait_start path verb m))"
  by (cases "dict_get (cm_listeners m) (key_of path verb)") (auto simp: wait_start_def listeners_ok_def)

lemma own_awaited_remove: "owner_of key \<noteq> Some run
   \<Longrightarrow> filter (\<lambda>k. owner_of k = Some run) (removeAll key ks) = filter (\<lambda>k. owner_of k = Some run) ks"
  by (induction ks) auto

lemma wait_end_part:
  assumes "owner_of (key_of path verb) \<noteq> Some run" "i \<notin> own_futures run m"
  shows "callbacks_part run (fst (wait_end path verb i ev m)) = callbacks_part run m"
proof -
  let ?m = "if ev = Delivered then m else set_future i Cancelled m"
  have "fst (wait_end path verb i ev m)
        = ?m\<lparr>cm_awaited := removeAll (key_of path verb) (cm_awaited ?m), cm_listeners := dict_pop (key_of path verb) (cm_listeners ?m)\<rparr>"
    by (simp add: wait_end_def Let_def)
  moreover have "callbacks_part run \<dots> = callbacks_part run ?m"
    using assms(1) by (intro own_listeners_eqI) (simp_all add: own_awaited_remove)
  ultimately show ?thesis using assms(2) by simp
qed

lemma wait_end_ok: "listeners_ok m \<Longrightarrow> listeners_ok (fst (wait_end path verb i ev m))"
proof -
  assume ok: "listeners_ok m"
  let ?m = "if ev = Delivered then m else set_future i Cancelled m"
  have "listeners_ok (dropped (key_of path verb) ?m)" using ok by (intro dropped_ok) simp
  then show ?thesis by (auto simp: wait_end_def Let_def listeners_ok_def dropped_def)
qed

lemma forget_part:
  assumes "listeners_ok m" "other \<noteq> run"
  shows "callbacks_part run (forget_run gone other m) = callbacks_part run m"
proof (rule own_listeners_eqI)
  have "i \<notin> own_futures run m" if "(key, i) \<in> set (cm_listeners m)" "owner_of key = Some other" for key i
    using listed_future(1) [OF assms(1), of key i run] that assms dict_get_Some_iff [of "cm_listeners m" key i] by (auto simp: listeners_ok_def)
  then have "filter (\<lambda>(l, c). target c \<in> own_futures run m)
        (map (\<lambda>(key, i). (fu_loop (cm_futures m ! i), Cancel i))
           (filter (\<lambda>(key, i). \<not> gone (fu_loop (cm_futures m ! i))) (filter (\<lambda>(key, i). owner_of key = Some other) (cm_listeners m)))) = []"
    by (auto simp: filter_empty_conv)
  then show "filter (\<lambda>(l, c). target c \<in> own_futures run m) (cm_scheduled (forget_run gone other m))
      = filter (\<lambda>(l, c). target c \<in> own_futures run m) (cm_scheduled m)"
    by (simp add: forget_run_def Let_def)
  show "filter (\<lambda>key. owner_of key = Some run) (cm_awaited (forget_run gone other m)) = filter (\<lambda>key. owner_of key = Some run) (cm_awaited m)"
    using assms(2) by (auto simp: forget_run_def Let_def intro!: filter_cong)
qed (use assms(2) in \<open>simp_all add: forget_run_def Let_def\<close>)

lemma forget_ok:
  assumes ok: "listeners_ok m"
  shows "listeners_ok (forget_run gone run m)"
proof -
  let ?l = "filter (\<lambda>(key, i). owner_of key \<noteq> Some run) (cm_listeners m)"
  have "dict_wf ?l" "distinct (map snd ?l)" "set ?l \<subseteq> set (cm_listeners m)"
    using ok by (auto simp: listeners_ok_def dict_wf_def distinct_map_filter)
  moreover have "\<forall>(l, c)\<in>set (cm_scheduled (forget_run gone run m)). target c < length (cm_futures m)"
    using ok by (force simp: forget_run_def Let_def listeners_ok_def)
  ultimately show ?thesis using ok by (fastforce simp: listeners_ok_def forget_run_def Let_def)
qed

section \<open>Runs keep to themselves\<close>

text \<open>The operation is well formed; the future whose wait ends is one no listener of \<open>run\<close> holds.\<close>

fun op_ok :: "string \<Rightarrow> 'w inbound_op \<Rightarrow> 'w Inbound \<Rightarrow> bool" where
  "op_ok run (Publish loop minted path verb response key_header) s = (absolute path \<and> http_method verb)"
| "op_ok run (Remove path verb) s = (absolute path \<and> http_method verb)"
| "op_ok run (Listen loop path verb) s = (absolute path \<and> http_method verb)"
| "op_ok run (Wait_start path verb) s = (absolute path \<and> http_method verb)"
| "op_ok run (Wait_end path verb i ev) s = (absolute path \<and> http_method verb \<and> i \<notin> own_futures run (in_callbacks s))"
| "op_ok run Release s = True"

lemma run_part_simps [simp]:
  "run_part run (on_callbacks f s) = (own run (in_routes s), own run (in_guards s), callbacks_part run (f (in_callbacks s)))"
  "in_callbacks (on_callbacks f s) = f (in_callbacks s)" "in_routes (on_callbacks f s) = in_routes s" "in_guards (on_callbacks f s) = in_guards s"
  "in_world (on_callbacks f s) = in_world s"
  by (simp_all add: run_part_def on_callbacks_def)

lemma registered_part:
  assumes "owner_of (key_of (scoped owner path) verb) \<noteq> Some run"
  shows "run_part run (register_mock owner path verb response required s) = run_part run s"
    "in_callbacks (register_mock owner path verb response required s) = in_callbacks s"
  using assms by (auto simp: run_part_def register_mock_def Let_def require_header_def drop_guard_def split: option.splits)

lemma published_part:
  assumes "owner_of (key_of (scoped (Some other) path) verb) \<noteq> Some run" "listeners_ok (in_callbacks s)"
  shows "run_part run (publish_mock gone loop minted other path verb response key_header s) = run_part run s
    \<and> listeners_ok (in_callbacks (publish_mock gone loop minted other path verb response key_header s))"
proof -
  obtain keys key where k: "(if key_header = None then (in_run_keys s, []) else run_key minted other (in_run_keys s)) = (keys, key)" by fastforce
  let ?s = "register_mock (Some other) path verb response (if key = [] then None else Some (the key_header, key)) (s\<lparr>in_run_keys := keys\<rparr>)"
  have "publish_mock gone loop minted other path verb response key_header s
        = on_callbacks (callbacks_register gone loop (scoped (Some other) path) verb) ?s"
    unfolding publish_mock_def k by simp
  moreover have "run_part run ?s = run_part run s" "in_callbacks ?s = in_callbacks s"
    using registered_part [OF assms(1), of _ _ "s\<lparr>in_run_keys := keys\<rparr>"] by (simp_all add: run_part_def)
  ultimately show ?thesis
    using register_part [OF assms(2,1)] register_ok [OF assms(2)] by (simp add: run_part_def)
qed

text \<open>C21. Whatever a run does with its mocks and its waits, another run's are as they were.\<close>

theorem runs_keep_to_themselves:
  assumes "listeners_ok (in_callbacks s)" "run_name other" "other \<noteq> run" "op_ok run step s"
  shows "run_part run (do_inbound gone other step s) = run_part run s \<and> listeners_ok (in_callbacks (do_inbound gone other step s))"
proof -
  have key: "owner_of (key_of (scoped (Some other) path) verb) \<noteq> Some run" if "absolute path" "http_method verb" for path verb
    using owner_scoped [OF assms(2) that] assms(3) by simp
  show ?thesis
  proof (cases step)
    case (Publish loop minted path verb response key_header)
    then show ?thesis using published_part [OF key assms(1)] assms(4) by simp
  next
    case (Remove path verb)
    then show ?thesis using key [of path verb] assms by (simp add: remove_mock_def Let_def run_part_def drop_guard_def)
  next
    case (Listen loop path verb)
    then show ?thesis using register_part [OF assms(1) key] register_ok [OF assms(1)] assms(4) by (simp add: run_part_def)
  next
    case (Wait_start path verb)
    then show ?thesis using wait_start_part [OF key] wait_start_ok [OF assms(1)] assms(4) by (simp add: run_part_def)
  next
    case (Wait_end path verb i ev)
    then show ?thesis using wait_end_part [OF key] wait_end_ok [OF assms(1)] assms(4) by (simp add: run_part_def)
  next
    case Release
    then show ?thesis using forget_part [OF assms(1,3)] forget_ok [OF assms(1)] assms(3)
      by (simp add: release_mocks_def run_part_def drop_guards_of_def)
  qed
qed

definition two_runs :: "unit Inbound" where
  "two_runs =
   \<lparr>in_routes = [(''POST:/runs/b/in'', Canned \<lparr>mr_status_code = 201, mr_body = PNone, mr_headers = []\<rparr>),
                (''POST:/runs/a/in'', Canned \<lparr>mr_status_code = 200, mr_body = PNone, mr_headers = []\<rparr>)],
    in_guards = [(''POST:/runs/b/in'', ''x-key'', ''kb''), (''POST:/runs/a/in'', ''x-key'', ''ka'')], in_run_keys = [(''b'', ''kb''), (''a'', ''ka'')],
    in_callbacks = \<lparr>cm_listeners = [(''POST:/runs/b/in'', 0), (''POST:/runs/a/in'', 1)],
      cm_futures = [\<lparr>fu_loop = 2, fu_state = Pending\<rparr>, \<lparr>fu_loop = 1, fu_state = Pending\<rparr>], cm_buffered = [], cm_loop = Some 1, cm_refused = [],
      cm_awaited = [], cm_scheduled = []\<rparr>, in_world = ()\<rparr>"


lemma two_runs_owners: "owner_of ''POST:/runs/a/in'' = Some ''a''" "owner_of ''POST:/runs/b/in'' = Some ''b''"
  by code_simp+

theorem runs_keep_to_themselves_witness:
  "run_part ''b'' (do_inbound (\<lambda>_. False) ''a'' Release two_runs) = run_part ''b'' two_runs
   \<and> run_part ''a'' (do_inbound (\<lambda>_. False) ''a'' Release two_runs) \<noteq> run_part ''a'' two_runs"
proof -
  have "listeners_ok (in_callbacks two_runs)" by (simp add: two_runs_def listeners_ok_def dict_wf_def)
  moreover have "run_name ''a''" by code_simp
  moreover have "own ''a'' (in_routes (do_inbound (\<lambda>_. False) ''a'' Release two_runs)) \<noteq> own ''a'' (in_routes two_runs)"
    by (simp add: two_runs_def two_runs_owners own_def release_mocks_def)
  ultimately show ?thesis
    using runs_keep_to_themselves [of two_runs "''a''" "''b''" Release "\<lambda>_. False"] by (simp add: run_part_def)
qed

section \<open>Calls\<close>

lemma key_of_parts: "owner_of (key_of (path_of_key key) (method_of_key key)) = owner_of key"
proof -
  have "CHR '':'' \<notin> set (method_of_key key)"
  proof -
    obtain a t b where c: "cut_first (CHR '':'') key = (a, t, b)" by (metis prod_cases3)
    then show ?thesis
      using cut_first_SomeD [of "CHR '':''" key a b] by (cases t) (auto simp: method_of_key_def cut_first_def split: if_splits)
  qed
  then show ?thesis by (simp add: owner_of_def http_method_def)
qed

lemma scheduled_part:
  assumes "listeners_ok m" "dict_get (cm_listeners m) key = Some i" "target c = i" "owner_of key \<noteq> Some run"
  shows "callbacks_part run (m\<lparr>cm_scheduled := cm_scheduled m @ [(l, c)]\<rparr>) = callbacks_part run m"
  using listed_future(1) [OF assms(1,2,4)] assms(3) by (intro own_listeners_eqI) simp_all

lemma scheduled_ok:
  assumes "listeners_ok m" "dict_get (cm_listeners m) key = Some i" "target c = i"
  shows "listeners_ok (m\<lparr>cm_scheduled := cm_scheduled m @ [(l, c)]\<rparr>)"
proof -
  have "(key, i) \<in> set (cm_listeners m)" using assms(2) by (rule dict_get_SomeD)
  with assms show ?thesis by (auto simp: listeners_ok_def)
qed

lemma reject_part:
  assumes "listeners_ok m"
  shows "owner_of (key_of path verb) \<noteq> Some run \<Longrightarrow> callbacks_part run (fst (callbacks_reject gone here path verb result m)) = callbacks_part run m"
    "listeners_ok (fst (callbacks_reject gone here path verb result m))"
  using listed_future [OF assms] scheduled_part [OF assms] scheduled_ok [OF assms] assms by (auto simp: callbacks_reject_def Let_def split: option.splits)

lemma resolve_part:
  assumes "listeners_ok m"
  shows "owner_of (key_of path verb) \<noteq> Some run \<Longrightarrow> callbacks_part run (fst (callbacks_resolve gone here path verb result m)) = callbacks_part run m"
    "listeners_ok (fst (callbacks_resolve gone here path verb result m))"
proof -
  have buffer: "owner_of key \<noteq> Some run \<Longrightarrow> callbacks_part run (m\<lparr>cm_buffered := dict_set key r (cm_buffered m)\<rparr>) = callbacks_part run m" for key r
    by (rule own_listeners_eqI) simp_all
  have ok: "listeners_ok (m\<lparr>cm_buffered := b\<rparr>)" for b using assms by (simp add: listeners_ok_def)
  show "owner_of (key_of path verb) \<noteq> Some run \<Longrightarrow> callbacks_part run (fst (callbacks_resolve gone here path verb result m)) = callbacks_part run m"
    using listed_future [OF assms] scheduled_part [OF assms] buffer by (auto simp: callbacks_resolve_def Let_def split: option.splits)
  show "listeners_ok (fst (callbacks_resolve gone here path verb result m))"
    using scheduled_ok [OF assms] ok assms by (auto simp: callbacks_resolve_def Let_def split: option.splits)
qed

lemma refuse_part:
  assumes "listeners_ok m"
  shows "owner_of (key_of path verb) \<noteq> Some run \<Longrightarrow> callbacks_part run (callbacks_refuse path verb m) = callbacks_part run m"
    "listeners_ok (callbacks_refuse path verb m)"
  using assms by (auto simp: callbacks_refuse_def Let_def listeners_ok_def intro!: own_listeners_eqI)

lemma misdirected_part:
  assumes "listeners_ok (in_callbacks s)" "fst (split_run path) \<noteq> Some run"
    and no_key: "\<And>p v. (p, v) \<in> set (awaited (in_callbacks s)) \<Longrightarrow> fst (split_run p) = Some run \<Longrightarrow> \<not> carries_key_of p v headers s"
  shows "run_part run (misdirected env path verb headers s) = run_part run s \<and> listeners_ok (in_callbacks (misdirected env path verb headers s))"
proof -
  let ?step = "\<lambda>(p, v) m. if p \<noteq> path \<and> \<not> carries_key_of p v headers s then m
         else fst (callbacks_reject (ib_gone env) (ib_here env) p v
                (refusal_result (ib_now env) p v (''the call went to '' @ verb @ '' '' @ declared_path path @ '', not to '' @ v @ '' '' @ declared_path p) None) m)"
  have "callbacks_part run (fold ?step ws m) = callbacks_part run m \<and> listeners_ok (fold ?step ws m)"
    if "set ws \<subseteq> set (awaited (in_callbacks s))" "listeners_ok m" for ws m
    using that
  proof (induction ws arbitrary: m)
    case (Cons w ws)
    obtain p v where w: "w = (p, v)" by fastforce
    with Cons.prems obtain key where k: "p = path_of_key key" "v = method_of_key key" by (auto simp: awaited_def)
    have "owner_of (key_of p v) = fst (split_run p)" unfolding k key_of_parts by (simp add: owner_of_def)
    then have "callbacks_part run (?step w m) = callbacks_part run m \<and> listeners_ok (?step w m)"
      using reject_part [OF Cons.prems(2), where path = p and verb = v] Cons.prems no_key [of p v] assms(2) by (auto simp: w)
    with Cons.IH [of "?step w m"] Cons.prems(1) show ?case by simp
  qed simp
  from this [OF subset_refl assms(1)] show ?thesis by (simp add: misdirected_def run_part_def)
qed

lemma resolve_mock_part [simp]:
  "run_part run (fst (resolve_mock path verb headers q body s)) = run_part run s"
  "in_callbacks (fst (resolve_mock path verb headers q body s)) = in_callbacks s"
  "in_guards (fst (resolve_mock path verb headers q body s)) = in_guards s"
  "in_routes (fst (resolve_mock path verb headers q body s)) = in_routes s"
  by (auto simp: resolve_mock_def run_part_def Let_def split: option.splits mock.splits prod.splits)

lemma carries_key_cong:
  "in_routes s' = in_routes s \<Longrightarrow> in_guards s' = in_guards s \<Longrightarrow> in_callbacks s' = in_callbacks s \<Longrightarrow> carries_key_of p v headers s' = carries_key_of p v headers s"
  by (simp add: carries_key_of_def locate_def registered_paths_def cong: option.case_cong)

lemma answered_part:
  assumes "listeners_ok (in_callbacks s)" "owner_of (key_of path (ic_method c)) \<noteq> Some run" "fst (split_run path) \<noteq> Some run"
    and no_key: "\<And>p v. (p, v) \<in> set (awaited (in_callbacks s)) \<Longrightarrow> fst (split_run p) = Some run \<Longrightarrow> \<not> carries_key_of p v (ic_headers c) s"
  shows "run_part run (fst (answer_located env c path body s)) = run_part run s \<and> listeners_ok (in_callbacks (fst (answer_located env c path body s)))"
proof -
  obtain s1 mock where r: "resolve_mock path (ic_method c) (ic_headers c) (query_of (ic_query c)) body s = (s1, mock)" by fastforce
  have s1: "run_part run s1 = run_part run s" "in_callbacks s1 = in_callbacks s" "in_guards s1 = in_guards s" "in_routes s1 = in_routes s"
    using resolve_mock_part [where path = path and verb = "ic_method c" and headers = "ic_headers c" and q = "query_of (ic_query c)" and body = body and s = s] by (simp_all add: r)
  show ?thesis
  proof (cases "mock = None \<and> \<not> has_listener path (ic_method c) (in_callbacks s1)")
    case True
    have "fst (answer_located env c path body s) = misdirected env path (ic_method c) (ic_headers c) s1"
      using True by (simp add: answer_located_def r Let_def)
    then show ?thesis
      using misdirected_part [of s1 path run "ic_headers c" env "ic_method c"] assms s1 carries_key_cong [of s1 s] by auto
  next
    case False
    define result where "result = callback_result (ib_redaction env) (ib_now env) path (ic_method c) (ic_headers c) body
       (fold (\<lambda>(k, v) d. dict_set k v d) (ic_query c) [])
       (Some (case mock of None \<Rightarrow> inbound_answer 200 RECEIVED | Some r \<Rightarrow> inbound_answer (mr_status_code r) (mr_body r)))"
    obtain m matched where m: "callbacks_resolve (ib_gone env) (ib_here env) path (ic_method c) result (in_callbacks s1) = (m, matched)" by fastforce
    have "fst (answer_located env c path body s) = s1\<lparr>in_callbacks := m\<rparr>"
      unfolding answer_located_def r Let_def prod.case if_not_P [OF False] result_def [symmetric] m by (cases matched) simp_all
    then show ?thesis using resolve_part [OF assms(1), where path = path and verb = "ic_method c" and gone = "ib_gone env" and here = "ib_here env" and result = result] m assms(2) s1 by (simp add: run_part_def)
  qed
qed

lemma refused_part:
  assumes "listeners_ok (in_callbacks s)" "owner_of (key_of path verb) \<noteq> Some run"
  shows "run_part run (fst (refused_call env path verb reason s)) = run_part run s \<and> listeners_ok (in_callbacks (fst (refused_call env path verb reason s)))"
  using refuse_part [OF assms(1), of path verb] assms(2)
    reject_part [OF refuse_part(2) [OF assms(1), of path verb], where path = path and verb = verb]
  by (simp add: refused_call_def Let_def run_part_def)

text \<open>C22. 
  A call to another run's address, or to no run's, changes nothing of a run none of whose keys it carries: it fails none of
  its waits, answers none, and leaves its mocks.
\<close>

theorem calls_reach_their_run:
  assumes "listeners_ok (in_callbacks s)" "http_method (ic_method c)"
    and elsewhere: "\<And>path. locate (ic_called c) (ic_headers c) s = Some path \<Longrightarrow> fst (split_run path) \<noteq> Some run"
    and no_key: "\<And>p v. (p, v) \<in> set (awaited (in_callbacks s)) \<Longrightarrow> fst (split_run p) = Some run \<Longrightarrow> \<not> carries_key_of p v (ic_headers c) s"
  shows "run_part run (fst (answer env c s)) = run_part run s \<and> listeners_ok (in_callbacks (fst (answer env c s)))"
proof (cases "locate (ic_called c) (ic_headers c) s")
  case None
  then show ?thesis using assms(1) by (simp add: answer_def)
next
  case (Some path)
  have owner: "owner_of (key_of path (ic_method c)) \<noteq> Some run" using elsewhere [OF Some] assms(2) by (simp add: owner_of_def)
  show ?thesis
  proof (cases "on_hold (ib_jobs env) (fst (split_run path))")
    case True
    then show ?thesis using assms(1) Some by (simp add: answer_def)
  next
    case False
    have located: "run_part run (fst (answer_located env c path body s)) = run_part run s
        \<and> listeners_ok (in_callbacks (fst (answer_located env c path body s)))" for body
      by (rule answered_part [OF assms(1) owner elsewhere [OF Some] no_key])
    show ?thesis
    proof (cases "refusal path (ic_method c) (ic_headers c) s")
      case None
      then show ?thesis using Some False located unfolding answer_def Let_def by simp
    next
      case (Some reason)
      then show ?thesis
        using \<open>locate (ic_called c) (ic_headers c) s = Some path\<close> False refused_part [OF assms(1) owner] by (simp add: answer_def Let_def)
    qed
  qed
qed

section \<open>A mock that requires the run's key\<close>

lemma locate_stable: "locate path headers s = Some key \<Longrightarrow> locate key headers s = Some key"
  unfolding locate_def by (rule pick_stable)

text \<open>What the callbacks can have learned from a call without the key: at most that it was refused.\<close>

definition only_refusals :: "CallbackManager \<Rightarrow> CallbackManager \<Rightarrow> bool" where
  "only_refusals m m' =
     (cm_listeners m' = cm_listeners m \<and> cm_buffered m' = cm_buffered m \<and> length (cm_futures m') = length (cm_futures m)
      \<and> list_all (\<lambda>i. fu_state (cm_futures m' ! i) = fu_state (cm_futures m ! i)
            \<or> (case fu_state (cm_futures m' ! i) of Settled r \<Rightarrow> cb_refused r \<noteq> None | _ \<Rightarrow> False)) [0..<length (cm_futures m)]
      \<and> (case drop (length (cm_scheduled m)) (cm_scheduled m') of [] \<Rightarrow> True | [(l, Settle i r)] \<Rightarrow> cb_refused r \<noteq> None | _ \<Rightarrow> False)
      \<and> take (length (cm_scheduled m)) (cm_scheduled m') = cm_scheduled m)"

lemma reject_only_refuses:
  assumes "cb_refused result \<noteq> None"
  shows "only_refusals m (fst (callbacks_reject gone here path verb result (callbacks_refuse path verb m)))"
proof -
  have "fu_state ((cm_futures m)[j := (cm_futures m ! j)\<lparr>fu_state := Settled result\<rparr>] ! i)
      = (if i = j then Settled result else fu_state (cm_futures m ! i))" if "i < length (cm_futures m)" for i j
    using that by simp
  then show ?thesis using assms
    by (auto simp: only_refusals_def callbacks_reject_def callbacks_refuse_def Let_def set_future_def list_all_iff split: option.splits)
qed

text \<open>C33. 
  A call that does not carry what its mock requires is answered 401: no handler runs, it is counted, and the listeners learn
  at most that it was refused.
\<close>

theorem keyless_call_is_refused:
  assumes "locate (ic_called c) (ic_headers c) s = Some path" "\<not> on_hold (ib_jobs env) (fst (split_run path))"
    and "guard_of path (ic_method c) (in_guards s) = Some (name, expected)" "header_value (ic_headers c) name \<noteq> Some expected"
  shows "(\<exists>body. snd (answer env c s) = Inr (Reply 401 body [])) \<and> in_world (fst (answer env c s)) = in_world s
    \<and> callbacks_refused path (ic_method c) (in_callbacks (fst (answer env c s))) = Suc (callbacks_refused path (ic_method c) (in_callbacks s))
    \<and> only_refusals (in_callbacks s) (in_callbacks (fst (answer env c s)))"
proof -
  have "refusal path (ic_method c) (ic_headers c) s \<noteq> None"
    using assms by (auto simp: refusal_def locate_stable key_refusal_def split: option.splits)
  then obtain reason where "refusal path (ic_method c) (ic_headers c) s = Some reason" by blast
  then have a: "answer env c s = map_prod id Inr (refused_call env path (ic_method c) reason s)"
    using assms(1,2) by (simp add: answer_def Let_def)
  let ?body = "PDict [(''detail'', PStr (ic_method c @ '' '' @ declared_path path @ '' is served only through the connector that offers ''
            @ ''it: negotiate the offer and call through the data plane.''))]"
  let ?result = "refusal_result (ib_now env) path (ic_method c) reason (Some (inbound_answer 401 ?body))"
  let ?m = "fst (callbacks_reject (ib_gone env) (ib_here env) path (ic_method c) ?result (callbacks_refuse path (ic_method c) (in_callbacks s)))"
  have "refused_call env path (ic_method c) reason s = (s\<lparr>in_callbacks := ?m\<rparr>, Reply 401 ?body [])"
    by (simp add: refused_call_def Let_def on_callbacks_def)
  moreover have "cb_refused ?result \<noteq> None" by (simp add: refusal_result_def)
  moreover have "cm_refused ?m = cm_refused (callbacks_refuse path (ic_method c) (in_callbacks s))"
    by (auto simp: callbacks_reject_def Let_def set_future_def split: option.splits)
  ultimately show ?thesis
    using reject_only_refuses a by (auto simp: callbacks_refused_def callbacks_refuse_def Let_def dict_simps split: option.splits)
qed

definition demo_env :: "unit inbound_env" where
  "demo_env = \<lparr>ib_gone = (\<lambda>_. False), ib_here = Some 2, ib_now = ''now'', ib_redaction = demo_redaction, ib_jobs = None\<rparr>"

definition demo_inbound :: "string \<Rightarrow> http_headers \<Rightarrow> inbound_call" where
  "demo_inbound path headers = \<lparr>ic_method = ''POST'', ic_called = path, ic_headers = headers, ic_query = [], ic_json = None\<rparr>"

lemma two_runs_paths: "registered_paths two_runs = [''/runs/b/in'', ''/runs/a/in'', ''/runs/b/in'', ''/runs/a/in'', ''/runs/b/in'', ''/runs/a/in'']"
proof -
  have "path_of_key ''POST:/runs/a/in'' = ''/runs/a/in''" "path_of_key ''POST:/runs/b/in'' = ''/runs/b/in''" by code_simp+
  then show ?thesis by (simp add: registered_paths_def two_runs_def guarded_def listening_def)
qed

lemma two_runs_located: "locate ''/runs/b/in'' headers two_runs = Some ''/runs/b/in''"
  by (simp add: locate_def two_runs_paths pick_def)

theorem calls_reach_their_run_witness:
  "run_part ''a'' (fst (answer demo_env (demo_inbound ''/runs/b/in'' [(''X-Key'', ''kb'')]) two_runs)) = run_part ''a'' two_runs"
proof -
  have "listeners_ok (in_callbacks two_runs)" by (simp add: two_runs_def listeners_ok_def dict_wf_def)
  moreover have "fst (split_run ''/runs/b/in'') = Some ''b''" by code_simp
  moreover have "awaited (in_callbacks two_runs) = []" by (simp add: two_runs_def awaited_def)
  ultimately show ?thesis
    using calls_reach_their_run [of two_runs "demo_inbound ''/runs/b/in'' [(''X-Key'', ''kb'')]" "''a''" demo_env]
    by (simp add: demo_inbound_def two_runs_located http_method_def)
qed

theorem keyless_call_is_refused_witness:
  "callbacks_refused ''/runs/b/in'' ''POST'' (in_callbacks (fst (answer demo_env (demo_inbound ''/runs/b/in'' []) two_runs))) = 1
   \<and> only_refusals (in_callbacks two_runs) (in_callbacks (fst (answer demo_env (demo_inbound ''/runs/b/in'' []) two_runs)))"
proof -
  have "key_of ''/runs/b/in'' ''POST'' = ''POST:/runs/b/in''" by code_simp
  then have "guard_of ''/runs/b/in'' ''POST'' (in_guards two_runs) = Some (''x-key'', ''kb'')"
    "callbacks_refused ''/runs/b/in'' ''POST'' (in_callbacks two_runs) = 0"
    by (simp_all add: guard_of_def two_runs_def callbacks_refused_def)
  then show ?thesis
    using keyless_call_is_refused [of "demo_inbound ''/runs/b/in'' []" two_runs "''/runs/b/in''" demo_env "''x-key''" "''kb''"]
    by (simp add: demo_inbound_def two_runs_located on_hold_def demo_env_def header_value_def)
qed

text \<open>A path two runs serve, called without either's address or key, reaches neither.\<close>

lemma ambiguous_call_refused:
  assumes "ic_called c \<notin> set (registered_paths s)" "fst (split_run (ic_called c)) = None"
    and "1 < length (serving_runs (ic_called c) (registered_paths s))"
    and "\<And>owner. owner \<in> set (serving_runs (ic_called c) (registered_paths s))
           \<Longrightarrow> \<not> carries_any_key_of (scoped (Some owner) (ic_called c)) (ic_headers c) (in_guards s)"
  shows "fst (answer env c s) = s" "\<exists>detail. snd (answer env c s) = Inr (HTTP_error 409 detail)"
proof -
  obtain a b rest where runs: "serving_runs (ic_called c) (registered_paths s) = a # b # rest"
    using assms(3) by (metis One_nat_def Suc_length_conv length_Cons less_Suc_eq_0_disj list.exhaust list.size(3) nat_neq_iff not_less_zero)
  have "locate (ic_called c) (ic_headers c) s = None"
    using assms(1,2,4) by (simp add: locate_def pick_def runs filter_empty_conv)
  then show "fst (answer env c s) = s" "\<exists>detail. snd (answer env c s) = Inr (HTTP_error 409 detail)" by (simp_all add: answer_def)
qed

lemma dict_get_last: "dict_get d k = None \<Longrightarrow> dict_get (d @ [(k, v)]) k = Some v"
  by (induction d) (auto split: if_splits)

lemma run_key_kept: "length keys \<le> MAX_RUN_KEYS \<Longrightarrow> length (fst (run_key minted run keys)) \<le> MAX_RUN_KEYS
   \<and> dict_get (fst (run_key minted run keys)) run = Some (snd (run_key minted run keys))"
proof (cases "dict_get keys run")
  case None
  then have d: "dict_set run minted keys = keys @ [(run, minted)]" by (intro dict_set_new) (simp add: dict_has_def)
  have "dict_get (drop n keys) run = None" for n using None by (induction keys arbitrary: n) (auto simp: drop_Cons split: nat.splits if_splits)
  with None d show ?thesis by (auto simp: run_key_def Let_def dict_get_last MAX_RUN_KEYS_def)
qed (simp add: run_key_def)

text \<open>
  A result is set through the manager's loop, the one of whoever registered last, and not through the loop of the future: once
  that loop is closed, a call another run waits for raises, and its wait goes on until the timeout.
\<close>

definition last_loop_closed :: CallbackManager where
  "last_loop_closed = in_callbacks (two_runs)\<lparr>cm_awaited := [''POST:/runs/b/in'']\<rparr>"

lemma foreign_loop_loses_call:
  "callbacks_resolve (\<lambda>l. l = 1) (Some 2) ''/runs/b/in'' ''POST'' r last_loop_closed = (last_loop_closed, Inl closed_loop_error)"
  "fu_loop (cm_futures last_loop_closed ! 0) = 2" "fu_state (cm_futures last_loop_closed ! 0) = Pending"
proof -
  have "key_of ''/runs/b/in'' ''POST'' = ''POST:/runs/b/in''" by code_simp
  then show "callbacks_resolve (\<lambda>l. l = 1) (Some 2) ''/runs/b/in'' ''POST'' r last_loop_closed = (last_loop_closed, Inl closed_loop_error)"
    "fu_loop (cm_futures last_loop_closed ! 0) = 2" "fu_state (cm_futures last_loop_closed ! 0) = Pending"
    by (simp_all add: last_loop_closed_def two_runs_def callbacks_resolve_def Let_def)
qed

end
