(* ===== verification/Waiting.thy ===== *)
theory Waiting
  imports Inbound Hold
begin

text \<open>
  Steps that wait: for a call of the system under test across pauses (\<^verbatim>\<open>steps/mock/wait.py\<close>, \<^verbatim>\<open>_paused_wait.py\<close>), for
  the choice of an operator (\<^verbatim>\<open>steps/flow/select.py\<close>, \<^verbatim>\<open>_selection_wait.py\<close>), and for the state machine of a connector
  (\<^verbatim>\<open>steps/connector/_polling.py\<close>).

  Instants and durations are integers of microseconds. While a step waits, others go on: what they do is a function on the
  state, and how long a stretch of waiting took and what ended it is given with it. The list of stretches is what has
  happened so far, so a wait that has not ended yet is a value too. What is told to the monitor is the list of reports.
\<close>

definition step_execution_error :: "string \<Rightarrow> string \<Rightarrow> exc" where
  "step_execution_error step_type reason =
     \<lparr>ex_kind = Test_Lab_Error, ex_message = step_type @ '': '' @ reason, ex_code = None, ex_origin = Some ''sut'', ex_diagnostics = None, ex_nested = None\<rparr>"

definition runtime_error :: "string \<Rightarrow> exc" where
  "runtime_error message =
     \<lparr>ex_kind = Other_Exception, ex_message = message, ex_code = None, ex_origin = None, ex_diagnostics = None, ex_nested = None\<rparr>"

text \<open>\<open>round\<close>: to the nearest, halves to the even one.\<close>

definition round_div :: "int \<Rightarrow> int \<Rightarrow> int" where
  "round_div x n = (let q = x div n; r = x mod n in if 2 * r < n then q else if n < 2 * r then q + 1 else if even q then q else q + 1)"

definition to_ms :: "int \<Rightarrow> int" where
  "to_ms us = round_div us 1000"

text \<open>What is left of a timeout, to the millisecond.\<close>

definition time_left :: "int \<Rightarrow> int \<Rightarrow> int" where
  "time_left timeout waited = to_ms (max (timeout - waited) 0) * 1000"

section \<open>Waiting for a call\<close>

datatype wait_report =
    Rep_waiting int
  | Rep_suspended int int
  | Rep_received CallbackResult int
  | Rep_selecting int
  | Rep_selected string int

record ('r, 'w) wait_state =
  ws_callbacks :: CallbackManager
  ws_held :: "('r, 'w) Held"
  ws_reports :: "wait_report list"

definition report :: "wait_report \<Rightarrow> ('r, 'w) wait_state \<Rightarrow> ('r, 'w) wait_state" where
  "report r s = s\<lparr>ws_reports := ws_reports s @ [r]\<rparr>"

text \<open>A pause point with what happens while the run is held; whether it ended with a cancellation.\<close>

definition pause_point ::
  "'w RunHold \<Rightarrow> (('r, 'w) wait_state \<Rightarrow> ('r, 'w) wait_state) \<Rightarrow> bool \<Rightarrow> ('r, 'w) wait_state \<Rightarrow> ('r, 'w) wait_state \<times> bool" where
  "pause_point h while_held open_gate s =
     (case pause_point_begin h (ws_held s) of
        (held, None) \<Rightarrow> (s\<lparr>ws_held := held\<rparr>, False)
      | (held, Some withdrawn) \<Rightarrow>
          (let s1 = while_held (s\<lparr>ws_held := held\<rparr>)
           in (s1\<lparr>ws_held := pause_point_end h withdrawn open_gate (ws_held s1)\<rparr>, \<not> open_gate)))"

text \<open>
  One stretch of waiting: how long it took, what others did meanwhile, what ended it, what they did while the run was held
  and whether its gate opened.
\<close>

record ('r, 'w) stretch =
  sr_elapsed :: int
  sr_meanwhile :: "('r, 'w) wait_state \<Rightarrow> ('r, 'w) wait_state"
  sr_event :: wait_event
  sr_held :: "('r, 'w) wait_state \<Rightarrow> ('r, 'w) wait_state"
  sr_opened :: bool

definition wait_unless_paused :: "string \<Rightarrow> string \<Rightarrow> ('r, 'w) stretch \<Rightarrow> ('r, 'w) wait_state \<Rightarrow> ('r, 'w) wait_state \<times> CallbackResult option" where
  "wait_unless_paused path verb x s =
     (case wait_start path verb (ws_callbacks s) of
        (m, Inl r) \<Rightarrow> (s\<lparr>ws_callbacks := m\<rparr>, Some r)
      | (m, Inr i) \<Rightarrow>
          (let s1 = sr_meanwhile x (s\<lparr>ws_callbacks := m\<rparr>); (m1, r) = wait_end path verb i (sr_event x) (ws_callbacks s1)
           in (s1\<lparr>ws_callbacks := m1\<rparr>, r)))"

datatype 'a wait_outcome = Still_waiting | Got 'a int | Wait_cancelled

record wait_env =
  we_gone :: "nat \<Rightarrow> bool"
  we_loop :: nat
  we_path :: string
  we_method :: string
  we_timeout :: int

fun wait_through_pauses ::
  "wait_env \<Rightarrow> 'w RunHold \<Rightarrow> ('r, 'w) stretch list \<Rightarrow> int \<Rightarrow> ('r, 'w) wait_state \<Rightarrow> ('r, 'w) wait_state \<times> CallbackResult wait_outcome" where
  "wait_through_pauses env h [] waited s = (s, Still_waiting)"
| "wait_through_pauses env h (x # xs) waited s =
     (let (s1, r) = wait_unless_paused (we_path env) (we_method env) x s; waited1 = waited + sr_elapsed x
      in case r of
           Some result \<Rightarrow> (s1, Got result waited1)
         | None \<Rightarrow>
             if \<not> rh_bound h then (s1, Wait_cancelled)
             else (let left = time_left (we_timeout env) waited1;
                       (s2, cancelled) = pause_point h (sr_held x) (sr_opened x) (report (Rep_suspended left (to_ms waited1)) s1)
                   in if cancelled then (s2, Wait_cancelled)
                      else wait_through_pauses env h xs waited1
                             (report (Rep_waiting left)
                               (s2\<lparr>ws_callbacks := callbacks_register (we_gone env) (we_loop env) (we_path env) (we_method env) (ws_callbacks s2)\<rparr>))))"

record InboundCallOutput =
  ico_method :: string
  ico_path :: string
  ico_headers :: pyval
  ico_query_params :: pyval
  ico_body :: pyval
  ico_elapsed_ms :: int

text \<open>The asset is the one of a listener behind the data plane.\<close>

definition mock_call_refused :: "string \<Rightarrow> string \<Rightarrow> string option \<Rightarrow> string \<Rightarrow> int \<Rightarrow> exc" where
  "mock_call_refused verb path asset_id reason elapsed_ms =
     \<lparr>ex_kind = Test_Lab_Error,
      ex_message = ''Refused a call while waiting for '' @ verb @ '' '' @ path @ '': '' @ reason
        @ (case asset_id of None \<Rightarrow> [] | Some a \<Rightarrow> ''; the call has to reach the mock through the engine connector's data plane, for asset '' @ a),
      ex_code = Some ''MOCK_CALL_REFUSED'', ex_origin = Some ''sut'',
      ex_diagnostics = Some [(''reason'', PStr reason), (''expected'', PDict [(''method'', PStr verb), (''path'', PStr path)]), (''waited_ms'', PInt elapsed_ms)],
      ex_nested = None\<rparr>"

definition timed_out_message :: "string \<Rightarrow> string \<Rightarrow> string \<Rightarrow> CallbackManager \<Rightarrow> string" where
  "timed_out_message timeout_text verb path m =
     ''Timed out after '' @ timeout_text @ ''s waiting for '' @ verb @ '' '' @ declared_path path
     @ (let n = callbacks_refused path verb m
        in if 0 < n then ''; '' @ nat_text n @ '' call(s) reached the mock without the key the connector ''
             @ ''adds and were refused -- the call has to go through the engine ''
             @ ''connector's data plane, not to the mock URL directly''
           else [])"

text \<open>\<open>WaitForCallStep.execute\<close>, for a mock whose path the test wrote as \<open>path\<close>, in a run named \<open>run\<close>.\<close>

definition wait_for_call ::
  "(nat \<Rightarrow> bool) \<Rightarrow> nat \<Rightarrow> string \<Rightarrow> string \<Rightarrow> string \<Rightarrow> string option \<Rightarrow> int \<Rightarrow> string \<Rightarrow> 'w RunHold \<Rightarrow> ('r, 'w) stretch list \<Rightarrow> ('r, 'w) wait_state
   \<Rightarrow> ('r, 'w) wait_state \<times> (exc + InboundCallOutput) wait_outcome" where
  "wait_for_call gone loop run path verb asset_id timeout timeout_text h xs s =
     (let key_path = scoped (Some run) path;
          env = \<lparr>we_gone = gone, we_loop = loop, we_path = key_path, we_method = verb, we_timeout = timeout\<rparr>;
          s1 = report (Rep_waiting timeout) (s\<lparr>ws_callbacks := callbacks_register gone loop key_path verb (ws_callbacks s)\<rparr>);
          (s2, outcome) = wait_through_pauses env h xs 0 s1
      in case outcome of
           Still_waiting \<Rightarrow> (s2, Still_waiting)
         | Wait_cancelled \<Rightarrow> (s2, Wait_cancelled)
         | Got result waited \<Rightarrow>
             if cb_timed_out result
             then (s2, Got (Inl (runtime_error (timed_out_message timeout_text verb key_path (ws_callbacks s2)))) waited)
             else (report (Rep_received result (to_ms waited)) s2,
                   Got (case cb_refused result of
                          Some reason \<Rightarrow> Inl (mock_call_refused verb path asset_id reason (to_ms waited))
                        | None \<Rightarrow> Inr \<lparr>ico_method = cb_method result, ico_path = cb_path result, ico_headers = cb_headers result,
                                       ico_query_params = cb_query_params result, ico_body = cb_payload result, ico_elapsed_ms = to_ms waited\<rparr>) waited))"

section \<open>A wait uses up its timeout\<close>

text \<open>Nothing a call brought about says it timed out; every operation of the callbacks keeps it so.\<close>

fun scheduled_genuine :: "scheduled \<Rightarrow> bool" where
  "scheduled_genuine (Set_result i r) = (\<not> cb_timed_out r)"
| "scheduled_genuine (Settle i r) = (\<not> cb_timed_out r)"
| "scheduled_genuine (Cancel i) = True"

definition state_genuine :: "future_state \<Rightarrow> bool" where
  "state_genuine st = (case st of Settled r \<Rightarrow> \<not> cb_timed_out r | _ \<Rightarrow> True)"

definition genuine :: "CallbackManager \<Rightarrow> bool" where
  "genuine m = (list_all (\<lambda>f. state_genuine (fu_state f)) (cm_futures m) \<and> list_all (\<lambda>(k, r). \<not> cb_timed_out r) (cm_buffered m)
     \<and> list_all (\<lambda>(l, c). scheduled_genuine c) (cm_scheduled m))"

lemma genuine_set_future: "genuine m \<Longrightarrow> state_genuine st \<Longrightarrow> genuine (set_future i st m)"
  by (auto simp: genuine_def set_future_def list_all_iff dest!: set_update_subset_insert [THEN subsetD])

lemma dict_get_all: "list_all (\<lambda>(k, v). P v) d \<Longrightarrow> dict_get d key = Some v \<Longrightarrow> P v"
  by (auto simp: list_all_iff dest!: dict_get_SomeD)

lemma dict_set_all: "list_all (\<lambda>(k, v). P v) d \<Longrightarrow> P v \<Longrightarrow> list_all (\<lambda>(k, v). P v) (dict_set key v d)"
  by (induction d) auto

lemma dict_pop_all: "list_all P d \<Longrightarrow> list_all P (dict_pop key d)"
  by (auto simp: dict_pop_def list_all_iff)

lemma genuine_opened: "genuine m \<Longrightarrow> genuine (opened loop key m)"
  by (auto simp: genuine_def opened_def state_genuine_def dict_pop_all dest: dict_get_all split: option.splits)

lemma genuine_dropped: "genuine m \<Longrightarrow> genuine (dropped key m)"
  by (simp add: genuine_def dropped_def)

lemma genuine_register: "genuine m \<Longrightarrow> genuine (callbacks_register gone loop path verb m)"
  using register_cases [of gone loop path verb m] genuine_opened genuine_dropped by metis

lemma genuine_wait_start: "genuine m \<Longrightarrow> genuine (fst (wait_start path verb m))"
  by (auto simp: wait_start_def genuine_def split: option.splits)

lemma genuine_wait_end: "genuine m \<Longrightarrow> genuine (fst (wait_end path verb i ev m))"
proof -
  assume "genuine m"
  then have "genuine (set_future i Cancelled m)" by (simp add: genuine_set_future state_genuine_def)
  with \<open>genuine m\<close> show ?thesis by (auto simp: wait_end_def Let_def genuine_def)
qed

lemma genuine_resolve: "genuine m \<Longrightarrow> \<not> cb_timed_out r \<Longrightarrow> genuine (fst (callbacks_resolve gone here path verb r m))"
  using genuine_set_future [of m "Settled r"]
  by (auto simp: callbacks_resolve_def Let_def state_genuine_def genuine_def dict_set_all split: option.splits)

lemma genuine_reject: "genuine m \<Longrightarrow> \<not> cb_timed_out r \<Longrightarrow> genuine (fst (callbacks_reject gone here path verb r m))"
  using genuine_set_future [of m "Settled r"]
  by (auto simp: callbacks_reject_def Let_def state_genuine_def genuine_def split: option.splits)

lemma genuine_run_callback: "genuine m \<Longrightarrow> scheduled_genuine c \<Longrightarrow> genuine (run_callback c m)"
  by (cases c) (simp_all add: genuine_set_future state_genuine_def)

lemma genuine_run_scheduled: "genuine m \<Longrightarrow> genuine (run_scheduled loop m)"
proof -
  assume g: "genuine m"
  have "genuine (fold (\<lambda>(l, c). run_callback c) cs m')" if "genuine m'" "list_all (\<lambda>(l, c). scheduled_genuine c) cs" for cs m'
    using that by (induction cs arbitrary: m') (auto intro: genuine_run_callback)
  moreover have "genuine (m\<lparr>cm_scheduled := filter (\<lambda>(l, c). l \<noteq> loop) (cm_scheduled m)\<rparr>)"
    "list_all (\<lambda>(l, c). scheduled_genuine c) (filter (\<lambda>(l, c). l = loop) (cm_scheduled m))"
    using g by (auto simp: genuine_def list_all_iff)
  ultimately show ?thesis unfolding run_scheduled_def by blast
qed

lemma genuine_forget: "genuine m \<Longrightarrow> genuine (forget_run gone run m)"
  by (auto simp: genuine_def forget_run_def Let_def list_all_iff)

lemma genuine_answers: "\<not> cb_timed_out (callback_result renv now path verb headers payload q response)" "\<not> cb_timed_out (refusal_result now path verb reason response)"
  by (simp_all add: callback_result_def refusal_result_def)

text \<open>
  What is asked of the stretches: the clock of a stretch runs up to what is left of the timeout, and to it when the stretch
  ends by timing out; and what happens meanwhile fakes no timeout.
\<close>

definition keeps_genuine :: "(('r, 'w) wait_state \<Rightarrow> ('r, 'w) wait_state) \<Rightarrow> bool" where
  "keeps_genuine f = (\<forall>s. genuine (ws_callbacks s) \<and> listeners_ok (ws_callbacks s)
     \<longrightarrow> genuine (ws_callbacks (f s)) \<and> listeners_ok (ws_callbacks (f s)) \<and> length (cm_futures (ws_callbacks s)) \<le> length (cm_futures (ws_callbacks (f s))))"

fun stretches_ok :: "int \<Rightarrow> int \<Rightarrow> ('r, 'w) stretch list \<Rightarrow> bool" where
  "stretches_ok timeout waited [] = True"
| "stretches_ok timeout waited (x # xs) =
     (0 \<le> sr_elapsed x \<and> sr_elapsed x \<le> max (timeout - waited) 0 \<and> (sr_event x = Timed_out \<longrightarrow> sr_elapsed x = max (timeout - waited) 0)
      \<and> keeps_genuine (sr_meanwhile x) \<and> keeps_genuine (sr_held x) \<and> stretches_ok timeout (waited + sr_elapsed x) xs)"

lemma register_listens: "has_listener path verb (callbacks_register gone loop path verb m)"
  by (auto simp: has_listener_def callbacks_register_def Let_def dict_has_def dict_simps split: option.splits)

lemma wait_unless_paused_genuine:
  assumes "wait_unless_paused path verb x s = (s1, r)" "genuine (ws_callbacks s)" "listeners_ok (ws_callbacks s)" "has_listener path verb (ws_callbacks s)"
    and "keeps_genuine (sr_meanwhile x)"
  shows "genuine (ws_callbacks s1)" "listeners_ok (ws_callbacks s1)" "r = Some result \<Longrightarrow> cb_timed_out result \<Longrightarrow> sr_event x = Timed_out"
proof -
  obtain i where i: "dict_get (cm_listeners (ws_callbacks s)) (key_of path verb) = Some i" using assms(4) by (auto simp: has_listener_def dict_has_def)
  define m where "m = fst (wait_start path verb (ws_callbacks s))"
  have m: "wait_start path verb (ws_callbacks s) = (m, Inr i)" "genuine m" "listeners_ok m" "cm_futures m = cm_futures (ws_callbacks s)"
    using i genuine_wait_start [OF assms(2), of path verb] wait_start_ok [OF assms(3), of path verb] unfolding m_def by (simp_all add: wait_start_def)
  let ?s = "sr_meanwhile x (s\<lparr>ws_callbacks := m\<rparr>)"
  have "genuine (ws_callbacks (s\<lparr>ws_callbacks := m\<rparr>)) \<and> listeners_ok (ws_callbacks (s\<lparr>ws_callbacks := m\<rparr>))" using m(2,3) by simp
  then have g: "genuine (ws_callbacks ?s)" "listeners_ok (ws_callbacks ?s)" "length (cm_futures m) \<le> length (cm_futures (ws_callbacks ?s))"
    using assms(5) [unfolded keeps_genuine_def, rule_format, of "s\<lparr>ws_callbacks := m\<rparr>"] by simp_all
  obtain m1 r1 where w: "wait_end path verb i (sr_event x) (ws_callbacks ?s) = (m1, r1)" by fastforce
  have s1: "s1 = ?s\<lparr>ws_callbacks := m1\<rparr>" "r1 = r" using assms(1) m(1) w by (auto simp: wait_unless_paused_def Let_def)
  then show "genuine (ws_callbacks s1)" "listeners_ok (ws_callbacks s1)"
    using genuine_wait_end [OF g(1), of path verb i "sr_event x"] wait_end_ok [OF g(2), of path verb i "sr_event x"] w by simp_all
  assume r: "r = Some result" "cb_timed_out result"
  show "sr_event x = Timed_out"
  proof (cases "sr_event x")
    case Delivered
    then have f: "fu_state (cm_futures (ws_callbacks ?s) ! i) = Settled result"
      using w r(1) s1(2) by (auto simp: wait_end_def Let_def split: future_state.splits)
    have "i < length (cm_futures (ws_callbacks ?s))" using i assms(3) g(3) m(4) by (force simp: listeners_ok_def dest!: dict_get_SomeD)
    then have "state_genuine (Settled result)" using g(1) f by (metis genuine_def list_all_length)
    with r(2) show ?thesis by (simp add: state_genuine_def)
  qed (use w r(1) s1(2) in \<open>auto simp: wait_end_def Let_def\<close>)
qed

lemma pause_point_genuine:
  "keeps_genuine while_held \<Longrightarrow> genuine (ws_callbacks s) \<Longrightarrow> listeners_ok (ws_callbacks s)
   \<Longrightarrow> genuine (ws_callbacks (fst (pause_point h while_held open_gate s))) \<and> listeners_ok (ws_callbacks (fst (pause_point h while_held open_gate s)))"
  by (auto simp: pause_point_def keeps_genuine_def Let_def split: prod.splits option.splits)

lemma report_callbacks [simp]: "ws_callbacks (report r s) = ws_callbacks s"
  by (simp add: report_def)

lemma wait_within_timeout:
  assumes "wait_through_pauses env h xs waited s = (s', Got result spent)" "genuine (ws_callbacks s)" "listeners_ok (ws_callbacks s)"
    "has_listener (we_path env) (we_method env) (ws_callbacks s)" "stretches_ok (we_timeout env) waited xs" "waited \<le> we_timeout env"
  shows "spent \<le> we_timeout env \<and> (cb_timed_out result \<longrightarrow> spent = we_timeout env)"
  using assms
proof (induction xs arbitrary: waited s)
  case (Cons x xs)
  obtain s1 r where w: "wait_unless_paused (we_path env) (we_method env) x s = (s1, r)" by fastforce
  have ok: "0 \<le> sr_elapsed x" "sr_elapsed x \<le> we_timeout env - waited" "sr_event x = Timed_out \<longrightarrow> sr_elapsed x = we_timeout env - waited"
    "keeps_genuine (sr_meanwhile x)" "keeps_genuine (sr_held x)" "stretches_ok (we_timeout env) (waited + sr_elapsed x) xs"
    using Cons.prems(5,6) by auto
  note g = wait_unless_paused_genuine [OF w Cons.prems(2,3,4) ok(4)]
  show ?case
  proof (cases r)
    case (Some res)
    then have "result = res" "spent = waited + sr_elapsed x" using Cons.prems(1) w by (simp_all add: Let_def)
    then show ?thesis using g(3) [OF Some] ok(2,3) by auto
  next
    case None
    have b: "rh_bound h" using Cons.prems(1) w None by (auto simp: Let_def split: if_splits)
    define left where "left = time_left (we_timeout env) (waited + sr_elapsed x)"
    obtain s2 cancelled where p: "pause_point h (sr_held x) (sr_opened x) (report (Rep_suspended left (to_ms (waited + sr_elapsed x))) s1) = (s2, cancelled)"
      by fastforce
    have g2: "genuine (ws_callbacks s2)" "listeners_ok (ws_callbacks s2)"
      using pause_point_genuine [OF ok(5), of "report (Rep_suspended left (to_ms (waited + sr_elapsed x))) s1" h "sr_opened x"] g(1,2) p by simp_all
    let ?s = "report (Rep_waiting left) (s2\<lparr>ws_callbacks := callbacks_register (we_gone env) (we_loop env) (we_path env) (we_method env) (ws_callbacks s2)\<rparr>)"
    have "wait_through_pauses env h xs (waited + sr_elapsed x) ?s = (s', Got result spent)"
      using Cons.prems(1) w None b p by (auto simp: Let_def left_def split: if_splits)
    moreover have "genuine (ws_callbacks ?s)" "listeners_ok (ws_callbacks ?s)" "has_listener (we_path env) (we_method env) (ws_callbacks ?s)"
      using genuine_register [OF g2(1)] register_ok [OF g2(2)] register_listens by simp_all
    ultimately show ?thesis using Cons.IH ok(2,6) by simp
  qed
qed simp


definition idle_state :: "(unit, unit) wait_state" where
  "idle_state = \<lparr>ws_callbacks = new_callbacks,
     ws_held = \<lparr>hd_jobs = new_manager, hd_connector = (), hd_monitor = new_monitor True\<rparr>, ws_reports = []\<rparr>"

definition demo_stretch :: "int \<Rightarrow> wait_event \<Rightarrow> (unit, unit) stretch" where
  "demo_stretch elapsed ev = \<lparr>sr_elapsed = elapsed, sr_meanwhile = (\<lambda>s. s), sr_event = ev, sr_held = (\<lambda>s. s), sr_opened = True\<rparr>"

definition demo_wait :: "(unit, unit) wait_state \<times> (exc + InboundCallOutput) wait_outcome" where
  "demo_wait = wait_for_call (\<lambda>_. False) 1 ''r1'' ''/in'' ''POST'' None 30000000 ''30.0'' (bind_hold ''r1'' new_hold)
     [demo_stretch 10000000 Abandoned, demo_stretch 20000000 Timed_out] idle_state"


section \<open>Waiting for a choice\<close>

record choice_env =
  ce_step_type :: string
  ce_step_id :: "string option"
  ce_job_id :: string
  ce_selection :: Selection
  ce_timeout :: int
  ce_timeout_text :: string

definition on_board :: "(SelectionBoard \<Rightarrow> SelectionBoard) \<Rightarrow> ('r, 'w) wait_state \<Rightarrow> ('r, 'w) wait_state" where
  "on_board f s = s\<lparr>ws_held := (ws_held s)\<lparr>hd_jobs := (hd_jobs (ws_held s))\<lparr>jm_selections := f (jm_selections (hd_jobs (ws_held s)))\<rparr>\<rparr>\<rparr>"

abbreviation board_of :: "('r, 'w) wait_state \<Rightarrow> SelectionBoard" where
  "board_of s \<equiv> jm_selections (hd_jobs (ws_held s))"

definition nothing_chosen :: "choice_env \<Rightarrow> exc" where
  "nothing_chosen env = step_execution_error (ce_step_type env) (''nothing was chosen within '' @ ce_timeout_text env @ ''s. Offered: ''
     @ join_with '', '' (map so_label (se_options (ce_selection env))) @ ''.'')"

text \<open>A stretch here ends with the answer, the timeout or a pause; the answer counts whatever ended it.\<close>

fun choice_loop ::
  "choice_env \<Rightarrow> 'w RunHold \<Rightarrow> nat \<Rightarrow> ('r, 'w) stretch list \<Rightarrow> int \<Rightarrow> ('r, 'w) wait_state \<Rightarrow> ('r, 'w) wait_state \<times> (exc + unit) wait_outcome" where
  "choice_loop env h reply_at [] waited s = (s, Still_waiting)"
| "choice_loop env h reply_at (x # xs) waited s =
     (let s1 = sr_meanwhile x s; waited1 = waited + sr_elapsed x
      in if future_done (sb_futures (board_of s1) ! reply_at) then (s1, Got (Inr ()) waited1)
         else if sr_event x \<noteq> Abandoned then (s1, Got (Inl (nothing_chosen env)) waited1)
         else (let (s2, cancelled) = pause_point h (sr_held x) (sr_opened x) s1
               in if cancelled then (s2, Wait_cancelled)
                  else choice_loop env h reply_at xs waited1
                         (if future_done (sb_futures (board_of s2) ! reply_at) then s2
                          else report (Rep_selecting (time_left (ce_timeout env) waited1)) s2)))"

definition options_by_id :: "SelectionOption list \<Rightarrow> (string, SelectionOption) pydict" where
  "options_by_id options = fold (\<lambda>option. dict_set (so_id option) option) options []"

definition await_choice ::
  "choice_env \<Rightarrow> 'w RunHold \<Rightarrow> ('r, 'w) stretch list \<Rightarrow> ('r, 'w) wait_state \<Rightarrow> ('r, 'w) wait_state \<times> (exc + SelectionOption) wait_outcome" where
  "await_choice env h xs s =
     (if \<not> rh_bound h
      then (s, Got (Inl (step_execution_error (ce_step_type env) ''there is no operator to choose: the step ran outside a player job.'')) 0)
      else
        (let by_id = options_by_id (se_options (ce_selection env));
             (board, reply_at) = board_ask (ce_job_id env) (ce_step_id env) (dict_keys by_id) (board_of s);
             (s1, outcome) = choice_loop env h reply_at xs 0 (report (Rep_selecting (ce_timeout env)) (on_board (\<lambda>_. board) s))
         in case outcome of
              Still_waiting \<Rightarrow> (s1, Still_waiting)
            | Wait_cancelled \<Rightarrow> (on_board (board_close (ce_job_id env)) s1, Wait_cancelled)
            | Got (Inl e) waited \<Rightarrow> (on_board (board_close (ce_job_id env)) s1, Got (Inl e) waited)
            | Got (Inr _) waited \<Rightarrow>
                (let s2 = on_board (board_close (ce_job_id env)) s1
                 in case sb_futures (board_of s2) ! reply_at of
                      Resolved v \<Rightarrow>
                        (case dict_get by_id v of
                           None \<Rightarrow> (s2, Got (Inl (key_error v)) waited)
                         | Some option \<Rightarrow> (report (Rep_selected (so_id option) (to_ms waited)) s2, Got (Inr option) waited))
                    | _ \<Rightarrow> (s2, Got (Inl (step_execution_error (ce_step_type env) ''the run was cancelled before anything was chosen.'')) waited))))"

datatype selected_by = By_operator | By_single

text \<open>\<open>SelectionStep.execute\<close>; what a step makes of the chosen option is the argument \<open>chosen\<close>.\<close>

definition selection_step ::
  "choice_env \<Rightarrow> (SelectionOption \<Rightarrow> selected_by \<Rightarrow> 'o) \<Rightarrow> bool \<Rightarrow> 'w RunHold \<Rightarrow> ('r, 'w) stretch list \<Rightarrow> ('r, 'w) wait_state
   \<Rightarrow> ('r, 'w) wait_state \<times> (exc + 'o) wait_outcome" where
  "selection_step env chosen auto_select_single h xs s =
     (let options = se_options (ce_selection env)
      in if options = [] then (s, Got (Inl (step_execution_error (ce_step_type env) ''there is nothing to choose from.'')) 0)
         else if length options = 1 \<and> auto_select_single then (s, Got (Inr (chosen (hd options) By_single)) 0)
         else (case await_choice env h xs s of
                 (s1, Got r waited) \<Rightarrow> (s1, Got (map_ok (\<lambda>option. chosen option By_operator) r) waited)
               | (s1, Still_waiting) \<Rightarrow> (s1, Still_waiting)
               | (s1, Wait_cancelled) \<Rightarrow> (s1, Wait_cancelled)))"

text \<open>\<open>flow/select\<close>.\<close>

record SelectOption =
  sl_value :: string
  sl_label :: "string option"
  sl_description :: "string option"
  sl_details :: "(string, pyval) pydict"

record SelectOutput =
  sx_selected_by :: selected_by
  sx_value :: string
  sx_label :: string
  sx_details :: "(string, pyval) pydict"

definition plain_values :: "pyval \<Rightarrow> pyval" where
  "plain_values v = (case v of PList xs \<Rightarrow> PList (map (\<lambda>e. case e of PStr s \<Rightarrow> PDict [(''value'', PStr s)] | _ \<Rightarrow> e) xs) | _ \<Rightarrow> v)"

definition duplicate_values :: "SelectOption list \<Rightarrow> string list" where
  "duplicate_values options =
     (let values = map sl_value options in sort (remdups (filter (\<lambda>v. 1 < count_list values v) values)))"

definition unique_values :: "SelectOption list \<Rightarrow> exc + SelectOption list" where
  "unique_values options =
     (let duplicates = duplicate_values options
      in if duplicates \<noteq> [] then Inl (value_error (''option values have to be unique: '' @ join_with '', '' duplicates)) else Inr options)"

definition select_options :: "SelectOption list \<Rightarrow> SelectionOption list" where
  "select_options options =
     map (\<lambda>x. \<lparr>so_id = sl_value x, so_label = (case sl_label x of Some l \<Rightarrow> if l = [] then sl_value x else l | None \<Rightarrow> sl_value x),
              so_description = sl_description x, so_details = sl_details x\<rparr>) options"

definition select_chosen :: "SelectionOption \<Rightarrow> selected_by \<Rightarrow> SelectOutput" where
  "select_chosen option by_whom = \<lparr>sx_selected_by = by_whom, sx_value = so_id option, sx_label = so_label option, sx_details = so_details option\<rparr>"

section \<open>The choice is one that was offered\<close>

definition question_ok :: "nat \<Rightarrow> string list \<Rightarrow> SelectionBoard \<Rightarrow> bool" where
  "question_ok n ids b =
     (n < length (sb_futures b) \<and> (case sb_futures b ! n of Resolved v \<Rightarrow> v \<in> set ids | _ \<Rightarrow> True)
      \<and> (\<forall>job q. dict_get (sb_open b) job = Some q \<and> oq_answer q = n \<longrightarrow> oq_options q = ids))"

lemma nth_update_at: "n < length xs \<Longrightarrow> xs[i := y] ! n = (if i = n then y else xs ! n)"
  by (cases "i = n") simp_all

lemma question_close: "question_ok n ids b \<Longrightarrow> question_ok n ids (board_close i b)"
  by (auto simp: question_ok_def board_close_def Let_def nth_update_at dict_simps split: option.splits future.splits if_splits)

lemma question_ask: "question_ok n ids b \<Longrightarrow> question_ok n ids (fst (board_ask i s options b))"
proof -
  assume "question_ok n ids b"
  then have "question_ok n ids (board_close i b)" by (rule question_close)
  then show ?thesis
    by (auto simp: question_ok_def board_ask_def Let_def nth_append dict_simps split: future.splits if_splits)
qed

lemma question_answer: "board_answer i v s b = Inr b' \<Longrightarrow> question_ok n ids b \<Longrightarrow> question_ok n ids b'"
proof -
  assume a: "board_answer i v s b = Inr b'" and ok: "question_ok n ids b"
  then obtain q where q: "dict_get (sb_open b) i = Some q" "v \<in> set (oq_options q)" "b' = b\<lparr>sb_futures := (sb_futures b)[oq_answer q := Resolved v]\<rparr>"
    by (auto simp: board_answer_def board_pending_def split: option.splits if_splits)
  have "oq_answer q = n \<longrightarrow> oq_options q = ids" using ok q(1) by (auto simp: question_ok_def)
  then show ?thesis using ok q(2) by (auto simp: question_ok_def q(3) nth_update_at split: future.splits)
qed

lemma question_step: "jm_step m m' \<Longrightarrow> question_ok n ids (jm_selections m) \<Longrightarrow> question_ok n ids (jm_selections m')"
  by (induction rule: jm_step.induct)
    (auto simp: manager_defs create_job_def set_pause_event_def set_pause_request_def hold_job_def
      get_pause_event_def get_pause_request_def Let_def intro: question_close question_ask question_answer split: option.splits if_splits)

lemma question_steps: "jm_step\<^sup>*\<^sup>* m m' \<Longrightarrow> question_ok n ids (jm_selections m) \<Longrightarrow> question_ok n ids (jm_selections m')"
  by (induction rule: rtranclp_induct) (auto intro: question_step)

text \<open>Others call the job manager, and nothing else touches its board.\<close>

definition by_the_rules :: "(('r, 'w) wait_state \<Rightarrow> ('r, 'w) wait_state) \<Rightarrow> bool" where
  "by_the_rules f = (\<forall>s. jm_step\<^sup>*\<^sup>* (hd_jobs (ws_held s)) (hd_jobs (ws_held (f s))))"

fun choice_stretches_ok :: "int \<Rightarrow> int \<Rightarrow> ('r, 'w) stretch list \<Rightarrow> bool" where
  "choice_stretches_ok timeout waited [] = True"
| "choice_stretches_ok timeout waited (x # xs) =
     (0 \<le> sr_elapsed x \<and> sr_elapsed x \<le> max (timeout - waited) 0 \<and> (sr_event x = Timed_out \<longrightarrow> sr_elapsed x = max (timeout - waited) 0)
      \<and> by_the_rules (sr_meanwhile x) \<and> by_the_rules (sr_held x) \<and> choice_stretches_ok timeout (waited + sr_elapsed x) xs)"

lemma board_kept:
  "jm_selections (hold_job i b m) = jm_selections m" "jm_selections (fst (get_pause_event i m)) = jm_selections m"
  "jm_selections (hd_jobs (clear_request i t)) = jm_selections (hd_jobs t)"
  by (simp_all add: hold_job_def get_pause_event_def clear_request_def set_pause_request_def get_pause_request_def split: option.splits)

lemma pause_end_board: "jm_selections (hd_jobs (pause_point_end h wd g t)) = jm_selections (hd_jobs t)"
  by (auto simp: pause_point_end_def Let_def board_kept split: prod.splits)

lemma pause_point_board: "by_the_rules f \<Longrightarrow> question_ok n ids (board_of s) \<Longrightarrow> question_ok n ids (board_of (fst (pause_point h f open_gate s)))"
proof -
  assume f: "by_the_rules f" and ok: "question_ok n ids (board_of s)"
  obtain held w where p: "pause_point_begin h (ws_held s) = (held, w)" by fastforce
  then have "jm_selections (hd_jobs held) = board_of s"
    by (auto simp: pause_point_begin_def Let_def board_kept split: if_splits prod.splits)
  then have "question_ok n ids (board_of (s\<lparr>ws_held := held\<rparr>))" using ok by simp
  moreover from this have "question_ok n ids (board_of (f (s\<lparr>ws_held := held\<rparr>)))" using f question_steps unfolding by_the_rules_def by blast
  ultimately show ?thesis by (simp add: pause_point_def p Let_def pause_end_board split: option.splits)
qed

lemma board_report [simp]: "board_of (report r s) = board_of s" "board_of (on_board g s) = g (board_of s)"
  by (simp_all add: report_def on_board_def)

lemma choice_within_timeout:
  assumes "choice_loop env h n xs waited s = (s', Got r spent)" "question_ok n ids (board_of s)" "choice_stretches_ok (ce_timeout env) waited xs"
    "waited \<le> ce_timeout env"
  shows "question_ok n ids (board_of s') \<and> spent \<le> ce_timeout env \<and> (case r of Inl e \<Rightarrow> e = nothing_chosen env | Inr _ \<Rightarrow> future_done (sb_futures (board_of s') ! n))"
  using assms
proof (induction xs arbitrary: waited s)
  case (Cons x xs)
  have ok: "sr_elapsed x \<le> ce_timeout env - waited" "by_the_rules (sr_meanwhile x)" "by_the_rules (sr_held x)"
    "choice_stretches_ok (ce_timeout env) (waited + sr_elapsed x) xs" using Cons.prems(3,4) by auto
  let ?s1 = "sr_meanwhile x s"
  have q1: "question_ok n ids (board_of ?s1)" using ok(2) Cons.prems(2) question_steps unfolding by_the_rules_def by blast
  show ?case
  proof (cases "future_done (sb_futures (board_of ?s1) ! n) \<or> sr_event x \<noteq> Abandoned")
    case True
    then show ?thesis using Cons.prems(1) q1 ok(1) by (auto simp: Let_def split: if_splits)
  next
    case False
    obtain s2 cancelled where p: "pause_point h (sr_held x) (sr_opened x) ?s1 = (s2, cancelled)" by fastforce
    have q2: "question_ok n ids (board_of s2)" using pause_point_board [OF ok(3) q1, of h "sr_opened x"] p by simp
    have "\<not> cancelled" using Cons.prems(1) False p by (auto simp: Let_def)
    then show ?thesis using Cons.IH [OF _ _ ok(4)] Cons.prems(1) False p q2 ok(1) by (auto simp: Let_def split: if_splits)
  qed
qed simp

lemma by_id_keys: "set (dict_keys (options_by_id options)) = so_id ` set options"
proof -
  have "set (dict_keys (fold (\<lambda>option. dict_set (so_id option) option) options d)) = so_id ` set options \<union> set (dict_keys d)" for d
    by (induction options arbitrary: d) (auto simp: fst_dict_set)
  from this [of "[]"] show ?thesis by (simp add: options_by_id_def)
qed

lemma by_id_member: "dict_get (options_by_id options) i = Some option \<Longrightarrow> option \<in> set options \<and> so_id option = i"
proof -
  have "dict_get (fold (\<lambda>option. dict_set (so_id option) option) options d) i = Some option
      \<Longrightarrow> option \<in> set options \<and> so_id option = i \<or> dict_get d i = Some option" for d
  proof (induction options arbitrary: d)
    case (Cons a options)
    from Cons.IH [of "dict_set (so_id a) a d"] Cons.prems show ?case by (auto simp: dict_simps split: if_splits)
  qed simp
  from this [of "[]"] show "dict_get (options_by_id options) i = Some option \<Longrightarrow> option \<in> set options \<and> so_id option = i"
    by (simp add: options_by_id_def)
qed

lemma question_asked: "board_wf b \<Longrightarrow> question_ok (snd (board_ask i s ids b)) ids (fst (board_ask i s ids b))"
proof -
  assume "board_wf b"
  then have "oq_answer q < length (sb_futures (board_close i b))" if "dict_get (sb_open (board_close i b)) job = Some q" for job q
    using board_wf_close [of b i] that by (simp add: board_wf_def)
  then show ?thesis by (fastforce simp: question_ok_def board_ask_def Let_def dict_simps split: if_splits)
qed

lemma choice_made:
  assumes "await_choice env h xs s = (s', Got r spent)" "rh_bound h" "board_wf (board_of s)"
    "choice_stretches_ok (ce_timeout env) 0 xs" "0 \<le> ce_timeout env"
  shows "spent \<le> ce_timeout env \<and> (case r of Inl e \<Rightarrow> ex_kind e = Test_Lab_Error | Inr option \<Rightarrow> option \<in> set (se_options (ce_selection env)))"
proof -
  let ?by_id = "options_by_id (se_options (ce_selection env))"
  let ?ids = "dict_keys ?by_id"
  obtain board n where b: "board_ask (ce_job_id env) (ce_step_id env) ?ids (board_of s) = (board, n)" by fastforce
  let ?s = "report (Rep_selecting (ce_timeout env)) (on_board (\<lambda>_. board) s)"
  obtain s1 outcome where l: "choice_loop env h n xs 0 ?s = (s1, outcome)" by fastforce
  have q: "question_ok n ?ids (board_of ?s)" using question_asked [OF assms(3), of "ce_job_id env" "ce_step_id env" ?ids] b by simp
  show ?thesis
  proof (cases outcome)
    case (Got u waited)
    have w: "question_ok n ?ids (board_of s1)" "waited \<le> ce_timeout env"
      using choice_within_timeout [OF l [unfolded Got] q assms(4,5)] by auto
    show ?thesis
    proof (cases u)
      case (Inl e)
      have "ex_kind e = Test_Lab_Error"
        using choice_within_timeout [OF l [unfolded Got] q assms(4,5)] by (simp add: Inl nothing_chosen_def step_execution_error_def)
      then show ?thesis using assms(1,2) b l Got Inl w(2) by (auto simp: await_choice_def Let_def)
    next
      case (Inr v)
      let ?s2 = "on_board (board_close (ce_job_id env)) s1"
      have q2: "question_ok n ?ids (board_of ?s2)" using question_close [OF w(1)] by simp
      have run: "await_choice env h xs s = (case sb_futures (board_of ?s2) ! n of
                      Resolved v \<Rightarrow>
                        (case dict_get ?by_id v of
                           None \<Rightarrow> (?s2, Got (Inl (key_error v)) waited)
                         | Some option \<Rightarrow> (report (Rep_selected (so_id option) (to_ms waited)) ?s2, Got (Inr option) waited))
                    | _ \<Rightarrow> (?s2, Got (Inl (step_execution_error (ce_step_type env) ''the run was cancelled before anything was chosen.'')) waited))"
        using assms(2) b l Got Inr by (simp add: await_choice_def Let_def)
      show ?thesis
      proof (cases "sb_futures (board_of ?s2) ! n")
        case (Resolved v)
        then have "v \<in> set ?ids" using q2 by (simp add: question_ok_def)
        then obtain option where o: "dict_get ?by_id v = Some option" using dict_get_None_iff [of ?by_id v] by (cases "dict_get ?by_id v") auto
        then show ?thesis using run assms(1) Resolved w(2) by_id_member [OF o] by auto
      qed (use run assms(1) w(2) in \<open>auto simp: step_execution_error_def\<close>)
    qed
  qed (use assms(1,2) b l in \<open>auto simp: await_choice_def Let_def\<close>)
qed


definition demo_choice :: choice_env where
  "demo_choice = \<lparr>ce_step_type = ''flow/select'', ce_step_id = Some ''pick'', ce_job_id = ''r1'',
     ce_selection = \<lparr>se_presentation = ''dropdown'', se_options = select_options
        [\<lparr>sl_value = ''a'', sl_label = None, sl_description = None, sl_details = []\<rparr>, \<lparr>sl_value = ''b'', sl_label = Some ''B'', sl_description = None, sl_details = []\<rparr>],
        se_action = PNone\<rparr>, ce_timeout = 300000000, ce_timeout_text = ''300''\<rparr>"

text \<open>The operator answers ten seconds into the wait.\<close>

definition operator_answers :: "string \<Rightarrow> (unit, unit) wait_state \<Rightarrow> (unit, unit) wait_state" where
  "operator_answers v s = (case board_answer ''r1'' v None (board_of s) of Inl e \<Rightarrow> s | Inr b \<Rightarrow> on_board (\<lambda>_. b) s)"

definition demo_selection :: "(unit, unit) wait_state \<times> (exc + SelectOutput) wait_outcome" where
  "demo_selection = selection_step demo_choice select_chosen True (bind_hold ''r1'' new_hold)
     [(demo_stretch 10000000 Delivered)\<lparr>sr_meanwhile := operator_answers ''b''\<rparr>] idle_state"

lemma operator_by_the_rules: "by_the_rules (operator_answers v)"
proof -
  have "jm_step (hd_jobs (ws_held s)) (hd_jobs (ws_held (on_board (\<lambda>_. b) s)))" if "board_answer ''r1'' v None (board_of s) = Inr b" for s b
    using js_answer [OF that] by (simp add: on_board_def)
  then show ?thesis by (auto simp: by_the_rules_def operator_answers_def split: sum.splits)
qed


section \<open>Waiting for a connector\<close>

definition NEGOTIATION_TERMINAL :: "string list" where
  "NEGOTIATION_TERMINAL = [''FINALIZED'', ''TERMINATED'']"

definition TRANSFER_TERMINAL :: "string list" where
  "TRANSFER_TERMINAL = [''STARTED'', ''COMPLETED'', ''TERMINATED'', ''SUSPENDED'']"

text \<open>What \<open>get_by_id\<close> comes back with: an exception, nothing, or a status and the body, if it is JSON.\<close>

datatype read_reply = Read_raises | Read_nothing | Read_reply int "pyval option"

definition read_entity :: "string \<Rightarrow> read_reply \<Rightarrow> pyval option" where
  "read_entity oid r =
     (if oid = [] then None
      else case r of Read_reply status body \<Rightarrow> if status \<noteq> 200 then None else body | _ \<Rightarrow> None)"

text \<open>\<open>entity.get(...)\<close>: the entity is whatever JSON the connector sent.\<close>

definition entity_get :: "pyval \<Rightarrow> string \<Rightarrow> pyval \<Rightarrow> exc + pyval" where
  "entity_get entity key fallback =
     (case entity of PDict d \<Rightarrow> Inr (case dict_get d key of None \<Rightarrow> fallback | Some v \<Rightarrow> v) | _ \<Rightarrow> Inl (runtime_error ''object has no attribute get''))"

text \<open>
  What the polling sees: the reply to its \<open>i\<close>-th read and the monotonic clock after it, when it decides whether to go on.
  The text of the maximal wait is as an f-string writes it.
\<close>

record poll_env =
  pe_oid :: string
  pe_terminal :: "string list"
  pe_max_wait :: int
  pe_interval :: int
  pe_max_wait_text :: string
  pe_what :: string
  pe_allow_timeout :: bool
  pe_has_controller :: bool
  pe_started :: int
  pe_reads :: "nat \<Rightarrow> read_reply"
  pe_clock :: "nat \<Rightarrow> int"

definition not_settled :: "poll_env \<Rightarrow> pyval \<Rightarrow> exc" where
  "not_settled env state =
     step_execution_error (pe_what env) (pe_oid env @ '' did not reach a final state within '' @ pe_max_wait_text env
       @ ''s -- last seen '' @ py_repr state @ '', waiting for one of '' @ join_with '', '' (sort (pe_terminal env)))"

partial_function (option) poll_loop :: "poll_env \<Rightarrow> nat \<Rightarrow> pyval \<Rightarrow> (exc + pyval) option" where
  "poll_loop env i entity0 =
     (let current = read_entity (pe_oid env) (pe_reads env i)
      in if current = None \<and> \<not> truthy entity0
         then Some (if pe_allow_timeout env then Inr (PDict [])
                    else Inl (step_execution_error (pe_what env) (pe_oid env @ '' cannot be read from the connector'')))
         else (let entity = (case current of Some v \<Rightarrow> if truthy v then v else entity0 | None \<Rightarrow> entity0)
               in case entity_get entity ''state'' (PStr []) of
                    Inl e \<Rightarrow> Some (Inl e)
                  | Inr state \<Rightarrow>
                      if py_str state \<in> set (pe_terminal env) then Some (Inr entity)
                      else if pe_started env + pe_max_wait env < pe_clock env i + pe_interval env
                      then Some (if pe_allow_timeout env then Inr entity
                                 else Inl (not_settled env (case entity_get entity ''state'' PNone of Inr s \<Rightarrow> s | Inl _ \<Rightarrow> PNone)))
                      else poll_loop env (Suc i) entity))"

definition poll_until_terminal :: "poll_env \<Rightarrow> (exc + pyval) option" where
  "poll_until_terminal env =
     (if pe_oid env = [] then Some (Inl (step_execution_error (pe_what env) ''no id to watch -- the create call returned none''))
      else if \<not> pe_has_controller env
      then Some (Inl (step_execution_error (pe_what env) ''the connector service exposes no controller to read this from''))
      else poll_loop env 0 (PDict []))"

declare poll_loop.simps [code]

text \<open>The clock: a round sleeps for the interval at least, and the first read is after the start.\<close>

definition poll_clock :: "poll_env \<Rightarrow> bool" where
  "poll_clock env = (0 < pe_interval env \<and> pe_started env \<le> pe_clock env 0 \<and> (\<forall>i. pe_clock env i + pe_interval env \<le> pe_clock env (Suc i)))"

definition settled :: "poll_env \<Rightarrow> pyval \<Rightarrow> bool" where
  "settled env entity = (case entity_get entity ''state'' (PStr []) of Inr state \<Rightarrow> py_str state \<in> set (pe_terminal env) | Inl _ \<Rightarrow> False)"

lemma poll_loop_ends:
  assumes "poll_clock env"
  shows "\<exists>r. poll_loop env i entity = Some r \<and> (\<forall>e. r = Inr e \<longrightarrow> settled env e \<or> pe_allow_timeout env)"
proof (induction "nat (pe_started env + pe_max_wait env - pe_clock env i)" arbitrary: i entity rule: less_induct)
  case less
  show ?case
  proof (cases "\<exists>e. poll_loop env i entity = poll_loop env (Suc i) e \<and> pe_clock env i + pe_interval env \<le> pe_started env + pe_max_wait env")
    case True
    then obtain e where e: "poll_loop env i entity = poll_loop env (Suc i) e" "pe_clock env i + pe_interval env \<le> pe_started env + pe_max_wait env" by blast
    have "pe_clock env i + pe_interval env \<le> pe_clock env (Suc i)" "0 < pe_interval env" using assms by (auto simp: poll_clock_def)
    then have "nat (pe_started env + pe_max_wait env - pe_clock env (Suc i)) < nat (pe_started env + pe_max_wait env - pe_clock env i)" using e(2) by linarith
    from less.hyps [OF this] show ?thesis using e(1) by simp
  next
    case False
    then show ?thesis
      by (subst poll_loop.simps, subst (asm) poll_loop.simps [of env i]) (auto simp: Let_def settled_def not_less split: option.splits sum.splits if_splits)
  qed
qed

text \<open>C37. 
  Polling ends: it never watches a connector forever, and without leave to time out an entity is returned only once its state
  is final.
\<close>

theorem polling_ends:
  assumes "poll_clock env"
  shows "\<exists>r. poll_until_terminal env = Some r \<and> (\<forall>e. r = Inr e \<longrightarrow> settled env e \<or> pe_allow_timeout env)"
  using poll_loop_ends [OF assms] by (simp add: poll_until_terminal_def)

definition demo_poll :: poll_env where
  "demo_poll = \<lparr>pe_oid = ''n1'', pe_terminal = NEGOTIATION_TERMINAL, pe_max_wait = 60000000, pe_interval = 1000000, pe_max_wait_text = ''60.0'',
     pe_what = ''negotiate'', pe_allow_timeout = False, pe_has_controller = True, pe_started = 0,
     pe_reads = (\<lambda>i. Read_reply 200 (Some (PDict [(''state'', PStr (if i < 2 then ''REQUESTED'' else ''FINALIZED''))]))),
     pe_clock = (\<lambda>i. int i * 1100000)\<rparr>"

theorem polling_ends_witness:
  "\<exists>e. poll_until_terminal demo_poll = Some (Inr e) \<and> settled demo_poll e"
proof -
  have c: "poll_clock demo_poll" by (simp add: poll_clock_def demo_poll_def)
  have "poll_until_terminal demo_poll = Some (Inr (PDict [(''state'', PStr ''FINALIZED'')]))" by code_simp
  with polling_ends [OF c] show ?thesis by (auto simp: demo_poll_def)
qed

subsection \<open>The EDR of a negotiation\<close>

text \<open>
  The \<open>i\<close>-th round of \<open>await_edr_entry\<close>: what the SDK answers to the query of the EDR (or the named failure), the reading of the
  negotiation, and the transfer process, if it could be read as a document.
\<close>

record edr_env =
  ee_negotiation_id :: string
  ee_max_wait :: int
  ee_interval :: int
  ee_max_wait_text :: string
  ee_what :: string
  ee_started :: int
  ee_edr :: "nat \<Rightarrow> exc + pyval"
  ee_negotiation :: "nat \<Rightarrow> read_reply"
  ee_transfer :: "nat \<Rightarrow> pyval \<Rightarrow> exc + pyval"
  ee_clock :: "nat \<Rightarrow> int"

definition agreement_id_of :: "edr_env \<Rightarrow> nat \<Rightarrow> exc + pyval option" where
  "agreement_id_of env i =
     (case read_entity (ee_negotiation_id env) (ee_negotiation env i) of
        None \<Rightarrow> Inr None
      | Some n \<Rightarrow>
          if \<not> truthy n then Inr None
          else map_ok (\<lambda>v. if truthy v then Some v else None) (entity_get n ''contractAgreementId'' PNone))"

definition transfer_for :: "edr_env \<Rightarrow> nat \<Rightarrow> pyval \<Rightarrow> (string, pyval) pydict option" where
  "transfer_for env i agreement_id = (case ee_transfer env i agreement_id of Inr (PDict d) \<Rightarrow> Some d | _ \<Rightarrow> None)"

definition terminated_error :: "edr_env \<Rightarrow> (string, pyval) pydict \<Rightarrow> exc" where
  "terminated_error env transfer =
     step_execution_error (ee_what env) (''the transfer the negotiation '' @ ee_negotiation_id env @ '' started was terminated before it produced an EDR: ''
       @ (case dict_get transfer ''errorDetail'' of Some v \<Rightarrow> if truthy v then py_str v else ''no detail given'' | None \<Rightarrow> ''no detail given''))"

definition no_edr_error :: "edr_env \<Rightarrow> string \<Rightarrow> exc" where
  "no_edr_error env state =
     step_execution_error (ee_what env) (''the negotiation '' @ ee_negotiation_id env @ '' produced no EDR within '' @ ee_max_wait_text env @ ''s (''
       @ (if state \<noteq> [] then ''transfer last seen '' @ str_repr state else ''no transfer process observed'')
       @ ''), so this PULL transfer has no data-plane address or token to hand on.'')"

definition transfer_state :: "(string, pyval) pydict \<Rightarrow> string" where
  "transfer_state transfer = (case dict_get transfer ''state'' of None \<Rightarrow> [] | Some v \<Rightarrow> py_str v)"

partial_function (option) edr_loop :: "edr_env \<Rightarrow> nat \<Rightarrow> pyval option \<Rightarrow> (string, pyval) pydict \<Rightarrow> (exc + pyval) option" where
  "edr_loop env i agreement transfer =
     (case ee_edr env i of
        Inl e \<Rightarrow> Some (Inl e)
      | Inr entry \<Rightarrow>
          if truthy entry then Some (Inr entry)
          else (case (case agreement of Some a \<Rightarrow> Inr (Some a) | None \<Rightarrow> agreement_id_of env i) of
                  Inl e \<Rightarrow> Some (Inl e)
                | Inr agreement1 \<Rightarrow>
                    (let transfer1 = (case agreement1 of
                                        None \<Rightarrow> transfer
                                      | Some a \<Rightarrow> (case transfer_for env i a of Some t \<Rightarrow> if t = [] then transfer else t | None \<Rightarrow> transfer));
                         state = transfer_state transfer1
                     in if state = ''TERMINATED'' then Some (Inl (terminated_error env transfer1))
                        else if ee_started env + ee_max_wait env < ee_clock env i + ee_interval env then Some (Inl (no_edr_error env state))
                        else edr_loop env (Suc i) agreement1 transfer1)))"

declare edr_loop.simps [code]

definition await_edr_entry :: "edr_env \<Rightarrow> (exc + pyval) option" where
  "await_edr_entry env = edr_loop env 0 None []"

definition edr_clock :: "edr_env \<Rightarrow> bool" where
  "edr_clock env = (0 < ee_interval env \<and> (\<forall>i. ee_clock env i + ee_interval env \<le> ee_clock env (Suc i)))"

lemma edr_loop_ends:
  assumes "edr_clock env"
  shows "\<exists>r. edr_loop env i agreement transfer = Some r \<and> (\<forall>e. r = Inr e \<longrightarrow> truthy e)"
proof (induction "nat (ee_started env + ee_max_wait env - ee_clock env i)" arbitrary: i agreement transfer rule: less_induct)
  case less
  show ?case
  proof (cases "\<exists>a t. edr_loop env i agreement transfer = edr_loop env (Suc i) a t \<and> ee_clock env i + ee_interval env \<le> ee_started env + ee_max_wait env")
    case True
    then obtain a t where e: "edr_loop env i agreement transfer = edr_loop env (Suc i) a t" "ee_clock env i + ee_interval env \<le> ee_started env + ee_max_wait env" by blast
    have "ee_clock env i + ee_interval env \<le> ee_clock env (Suc i)" "0 < ee_interval env" using assms by (auto simp: edr_clock_def)
    then have "nat (ee_started env + ee_max_wait env - ee_clock env (Suc i)) < nat (ee_started env + ee_max_wait env - ee_clock env i)" using e(2) by linarith
    from less.hyps [OF this] show ?thesis using e(1) by simp
  next
    case False
    then show ?thesis
      by (subst edr_loop.simps, subst (asm) edr_loop.simps [of env i]) (auto simp: Let_def not_less split: option.splits sum.splits if_splits)
  qed
qed

lemma edr_wait_ends: "edr_clock env \<Longrightarrow> \<exists>r. await_edr_entry env = Some r \<and> (\<forall>e. r = Inr e \<longrightarrow> truthy e)"
  by (simp add: await_edr_entry_def edr_loop_ends)

end
