(* ===== verification/Offers.thy ===== *)
theory Offers
  imports Resolver Monitor
begin

text \<open>
  What the connector steps read out of a catalog: the policies a test expects (\<^verbatim>\<open>steps/connector/policies.py\<close>), the
  offers and conditions of a catalog (\<^verbatim>\<open>policy_reading.py\<close>, \<^verbatim>\<open>steps/dsp_keys.py\<close>), why none was accepted
  (\<^verbatim>\<open>policy_mismatch.py\<close>), the data set of a type (\<^verbatim>\<open>extract.py\<close>) and the pairs an operator chooses from
  (\<^verbatim>\<open>datasets_select.py\<close>).

  The JSON-LD keys are constants of the SDK and come as the record \<open>dsp_keys\<close>. Python's recursion limit is the argument
  \<open>depth\<close> of the one function that can run into it, and the nesting of policies in JSON text is followed with fuel.
\<close>

section \<open>Keys\<close>

record dsp_keys =
  k_id :: string
  k_dataset25 :: string
  k_dataset :: string
  k_policy25 :: string
  k_policy :: string
  k_permission25 :: string
  k_permission :: string
  k_prohibition25 :: string
  k_prohibition :: string
  k_obligation25 :: string
  k_obligation :: string
  k_and25 :: string
  k_and :: string
  k_or25 :: string
  k_or :: string
  k_left25 :: string
  k_left :: string
  k_operator25 :: string
  k_operator :: string
  k_right25 :: string
  k_right :: string

definition DATASET_KEYS :: "dsp_keys \<Rightarrow> string list" where
  "DATASET_KEYS k = [k_dataset25 k, k_dataset k]"

definition POLICY_KEYS :: "dsp_keys \<Rightarrow> string list" where
  "POLICY_KEYS k = [k_policy25 k, k_policy k]"

definition ASSET_ID_KEYS :: "dsp_keys \<Rightarrow> string list" where
  "ASSET_ID_KEYS k = [''id'', ''edc:id'', k_id k]"

definition RULE_KEYS :: "dsp_keys \<Rightarrow> (string \<times> string list) list" where
  "RULE_KEYS k = [(''permission'', [k_permission25 k, k_permission k]), (''prohibition'', [k_prohibition25 k, k_prohibition k]),
     (''obligation'', [k_obligation25 k, k_obligation k])]"

definition CONSTRAINT_KEYS :: "string list" where
  "CONSTRAINT_KEYS = [''constraint'', ''odrl:constraint'']"

definition LOGICAL_KEYS :: "dsp_keys \<Rightarrow> string list" where
  "LOGICAL_KEYS k = [k_and25 k, k_and k, k_or25 k, k_or k]"

definition LEFT_OPERAND_KEYS :: "dsp_keys \<Rightarrow> string list" where
  "LEFT_OPERAND_KEYS k = [k_left25 k, k_left k]"

definition OPERATOR_KEYS :: "dsp_keys \<Rightarrow> string list" where
  "OPERATOR_KEYS k = [k_operator25 k, k_operator k]"

definition RIGHT_OPERAND_KEYS :: "dsp_keys \<Rightarrow> string list" where
  "RIGHT_OPERAND_KEYS k = [k_right25 k, k_right k]"

text \<open>\<open>None\<close> stands for a missing document or value: a key sent as null is as good as absent.\<close>

definition get_value :: "(string, pyval) pydict \<Rightarrow> string \<Rightarrow> pyval option" where
  "get_value d key = (case dict_get d key of Some v \<Rightarrow> if v = PNone then None else Some v | None \<Rightarrow> None)"

definition first_present :: "(string, pyval) pydict \<Rightarrow> string list \<Rightarrow> pyval option" where
  "first_present d keys = first_some (get_value d) keys"

definition as_list :: "pyval option \<Rightarrow> pyval list" where
  "as_list v = (case v of None \<Rightarrow> [] | Some (PList xs) \<Rightarrow> xs | Some x \<Rightarrow> [x])"

section \<open>The policies a test expects\<close>

definition POLICY_ARTIFACT_KEY :: string where
  "POLICY_ARTIFACT_KEY = ''policy''"

definition ODRL_POLICY_KEYS :: "(string, string) pydict" where
  "ODRL_POLICY_KEYS = [(''permissions'', ''permission''), (''prohibitions'', ''prohibition''), (''obligations'', ''obligation''),
     (''constraints'', ''constraint''), (''left_operand'', ''leftOperand''), (''right_operand'', ''rightOperand'')]"

definition odrl_key :: "string \<Rightarrow> string" where
  "odrl_key key = (case dict_get ODRL_POLICY_KEYS key of None \<Rightarrow> key | Some k \<Rightarrow> k)"

definition dict_of :: "(string \<times> 'v) list \<Rightarrow> (string, 'v) pydict" where
  "dict_of kvs = fold (\<lambda>(k, v). dict_set k v) kvs []"

fun as_odrl_policy :: "pyval \<Rightarrow> pyval" where
  "as_odrl_policy (PDict d) = PDict (dict_of (map (\<lambda>(key, v). (odrl_key key, as_odrl_policy v)) d))"
| "as_odrl_policy (PList xs) = PList (map as_odrl_policy xs)"
| "as_odrl_policy v = v"

definition carries_policy :: "pyval \<Rightarrow> pyval option" where
  "carries_policy v =
     (case v of
        PDict d \<Rightarrow>
          (case dict_get d POLICY_ARTIFACT_KEY of
             Some (PDict e) \<Rightarrow> Some (PDict e) | Some (PList xs) \<Rightarrow> Some (PList xs) | Some (PStr s) \<Rightarrow> Some (PStr s) | _ \<Rightarrow> None)
      | _ \<Rightarrow> None)"

text \<open>\<open>loads\<close> is \<open>json.loads\<close>, with the text of its \<open>ValueError\<close>. \<open>peel_policy\<close> is the loop of \<open>as_raw_policy\<close>.\<close>

fun as_raw_policy :: "(string \<Rightarrow> string + pyval) \<Rightarrow> nat \<Rightarrow> pyval \<Rightarrow> (exc + pyval) option"
  and peel_policy :: "(string \<Rightarrow> string + pyval) \<Rightarrow> nat \<Rightarrow> pyval \<Rightarrow> (exc + pyval) option" where
  "as_raw_policy loads 0 v = None"
| "as_raw_policy loads (Suc n) v =
     (case (case v of PStr s \<Rightarrow> loads s | _ \<Rightarrow> Inr v) of
        Inl e \<Rightarrow> Some (Inl (value_error (''a policy given as text must be JSON, and this is not: '' @ e)))
      | Inr w \<Rightarrow> peel_policy loads n w)"
| "peel_policy loads 0 v = None"
| "peel_policy loads (Suc n) v =
     (case carries_policy v of
        None \<Rightarrow> Some (Inr v)
      | Some p \<Rightarrow> (case as_raw_policy loads n p of Some (Inr w) \<Rightarrow> peel_policy loads n w | r \<Rightarrow> r))"

definition AUTHORING_KEYS :: "string list" where
  "AUTHORING_KEYS = [''policy_id'']"

definition without_authoring_keys :: "pyval \<Rightarrow> pyval" where
  "without_authoring_keys policy = (case policy of PDict d \<Rightarrow> PDict (filter (\<lambda>(k, v). k \<notin> set AUTHORING_KEYS) d) | _ \<Rightarrow> policy)"

fun map_fuel :: "('a \<Rightarrow> ('e + 'b) option) \<Rightarrow> 'a list \<Rightarrow> ('e + 'b list) option" where
  "map_fuel f [] = Some (Inr [])"
| "map_fuel f (x # xs) =
     (case f x of
        None \<Rightarrow> None
      | Some (Inl e) \<Rightarrow> Some (Inl e)
      | Some (Inr y) \<Rightarrow> (case map_fuel f xs of Some (Inr ys) \<Rightarrow> Some (Inr (y # ys)) | r \<Rightarrow> r))"

definition as_policy_list :: "(string \<Rightarrow> string + pyval) \<Rightarrow> nat \<Rightarrow> pyval \<Rightarrow> (exc + pyval list option) option" where
  "as_policy_list loads n v =
     (if v = PNone then Some (Inr None)
      else case as_raw_policy loads n v of
             None \<Rightarrow> None
           | Some (Inl e) \<Rightarrow> Some (Inl e)
           | Some (Inr unwrapped) \<Rightarrow>
               (let policies = (case unwrapped of PList xs \<Rightarrow> xs | u \<Rightarrow> [u])
                in map_option (map_ok Some)
                     (map_fuel (\<lambda>p. map_option (map_ok (\<lambda>q. without_authoring_keys (as_odrl_policy q))) (as_raw_policy loads n p)) policies)))"

section \<open>Offers and conditions\<close>

definition recursion_error :: exc where
  "recursion_error = \<lparr>ex_kind = Other_Exception, ex_message = ''maximum recursion depth exceeded'', ex_code = None, ex_origin = None,
     ex_diagnostics = None, ex_nested = None\<rparr>"

definition attribute_error :: "string \<Rightarrow> exc" where
  "attribute_error message = \<lparr>ex_kind = Other_Exception, ex_message = message, ex_code = None, ex_origin = None,
     ex_diagnostics = None, ex_nested = None\<rparr>"

record Constraint =
  cn_rule :: string
  cn_left :: string
  cn_operator :: string
  cn_right :: string

record CatalogOffer =
  of_asset_id :: string
  of_offer_id :: string
  of_policy :: pyval

definition DEFAULT_RULE :: string where
  "DEFAULT_RULE = ''permission''"

definition constraint_text :: "Constraint \<Rightarrow> string" where
  "constraint_text c = cn_left c @ '' '' @ cn_operator c @ '' '' @ cn_right c"

definition described :: "Constraint \<Rightarrow> string" where
  "described c = (if cn_rule c = DEFAULT_RULE then constraint_text c else cn_rule c @ '': '' @ constraint_text c)"

text \<open>A document read from JSON: no handles. What \<open>json.dumps\<close> writes of a number or a truth value.\<close>

definition json_scalar :: "pyval \<Rightarrow> string" where
  "json_scalar v = (case v of PBool b \<Rightarrow> if b then ''true'' else ''false'' | PInt n \<Rightarrow> int_text n | _ \<Rightarrow> [])"

fun ld_text :: "dsp_keys \<Rightarrow> nat \<Rightarrow> pyval \<Rightarrow> exc + string" where
  "ld_text k 0 v = Inl recursion_error"
| "ld_text k (Suc depth) v =
     (case v of
        PDict d \<Rightarrow> ld_text k depth (case dict_get d (k_id k) of None \<Rightarrow> v | Some i \<Rightarrow> i)
      | PList xs \<Rightarrow> map_ok (join_with '', '') (map_err (ld_text k depth) xs)
      | PNone \<Rightarrow> Inr []
      | PStr s \<Rightarrow> Inr s
      | _ \<Rightarrow> Inr (json_scalar v))"

definition text_at :: "dsp_keys \<Rightarrow> nat \<Rightarrow> pyval option \<Rightarrow> exc + string" where
  "text_at k depth v = (case v of None \<Rightarrow> Inr [] | Some x \<Rightarrow> ld_text k depth x)"

definition nested_constraints :: "dsp_keys \<Rightarrow> (string, pyval) pydict \<Rightarrow> pyval list" where
  "nested_constraints k d = concat (map (\<lambda>key. as_list (get_value d key)) (LOGICAL_KEYS k))"

definition atom :: "dsp_keys \<Rightarrow> nat \<Rightarrow> string \<Rightarrow> (string, pyval) pydict \<Rightarrow> exc + Constraint list" where
  "atom k depth rule d =
     (case first_present d (LEFT_OPERAND_KEYS k) of
        None \<Rightarrow> Inr []
      | Some left \<Rightarrow>
          (case ld_text k depth left of
             Inl e \<Rightarrow> Inl e
           | Inr l \<Rightarrow>
               (case text_at k depth (first_present d (OPERATOR_KEYS k)) of
                  Inl e \<Rightarrow> Inl e
                | Inr operator \<Rightarrow>
                    (case text_at k depth (first_present d (RIGHT_OPERAND_KEYS k)) of
                       Inl e \<Rightarrow> Inl e
                     | Inr r \<Rightarrow> Inr [\<lparr>cn_rule = rule, cn_left = l, cn_operator = operator, cn_right = r\<rparr>]))))"

lemma get_value_smaller: "get_value d key = Some v \<Longrightarrow> size v < size (PDict d)"
  by (auto simp: get_value_def split: option.splits if_splits dest!: dict_get_SomeD pyval_dict_smaller)

lemma as_list_smaller: "x \<in> set (as_list (Some v)) \<Longrightarrow> size x \<le> size v"
  by (cases v) (auto simp: as_list_def dest: pyval_list_smaller)

lemma nested_constraint_smaller: "x \<in> set (nested_constraints k d) \<Longrightarrow> size x < size (PDict d)"
proof -
  assume "x \<in> set (nested_constraints k d)"
  then obtain key where x: "x \<in> set (as_list (get_value d key))" by (auto simp: nested_constraints_def)
  then obtain v where v: "get_value d key = Some v" by (cases "get_value d key") (auto simp: as_list_def)
  with x show ?thesis using as_list_smaller [of x v] get_value_smaller [OF v] by simp
qed

function atoms :: "dsp_keys \<Rightarrow> nat \<Rightarrow> string \<Rightarrow> pyval \<Rightarrow> exc + Constraint list" where
  "atoms k depth rule (PDict d) =
     (if nested_constraints k d \<noteq> [] then map_ok concat (map_err (atoms k depth rule) (nested_constraints k d)) else atom k depth rule d)"
| "atoms k depth rule PNone = Inr []"
| "atoms k depth rule (PBool b) = Inr []"
| "atoms k depth rule (PInt n) = Inr []"
| "atoms k depth rule (PStr s) = Inr []"
| "atoms k depth rule (PList xs) = Inr []"
| "atoms k depth rule (PCred c) = Inr []"
  by pat_completeness auto
termination
  by (relation "measure (\<lambda>(k, depth, rule, v). size v)") (use nested_constraint_smaller in auto)

definition constraints_in :: "dsp_keys \<Rightarrow> nat \<Rightarrow> string \<Rightarrow> (string, pyval) pydict \<Rightarrow> exc + Constraint list" where
  "constraints_in k depth rule body = map_ok concat (map_err (atoms k depth rule) (as_list (first_present body CONSTRAINT_KEYS)))"

definition constraints_of :: "dsp_keys \<Rightarrow> nat \<Rightarrow> pyval \<Rightarrow> exc + Constraint list" where
  "constraints_of k depth policy =
     (case policy of
        PDict d \<Rightarrow>
          map_ok concat (map_err (\<lambda>(rule, keys).
            map_ok concat (map_err (\<lambda>entry. case entry of PDict body \<Rightarrow> constraints_in k depth rule body | _ \<Rightarrow> Inr [])
              (as_list (first_present d keys)))) (RULE_KEYS k))
      | _ \<Rightarrow> Inr [])"

definition offer_of :: "dsp_keys \<Rightarrow> nat \<Rightarrow> string \<Rightarrow> pyval \<Rightarrow> exc + CatalogOffer" where
  "offer_of k depth asset_id policy =
     (case policy of
        PDict d \<Rightarrow> map_ok (\<lambda>i. \<lparr>of_asset_id = asset_id, of_offer_id = i, of_policy = policy\<rparr>) (text_at k depth (get_value d (k_id k)))
      | _ \<Rightarrow> if truthy policy then Inl (attribute_error ''object has no attribute get'')
             else Inr \<lparr>of_asset_id = asset_id, of_offer_id = [], of_policy = policy\<rparr>)"

definition offers_of :: "dsp_keys \<Rightarrow> nat \<Rightarrow> pyval \<Rightarrow> exc + CatalogOffer list" where
  "offers_of k depth catalog =
     (case catalog of
        PDict c \<Rightarrow>
          map_ok concat (map_err (\<lambda>dataset.
            case dataset of
              PDict d \<Rightarrow>
                (case text_at k depth (first_present d (ASSET_ID_KEYS k)) of
                   Inl e \<Rightarrow> Inl e
                 | Inr asset_id \<Rightarrow> map_err (offer_of k depth asset_id) (as_list (first_present d (POLICY_KEYS k))))
            | _ \<Rightarrow> Inr []) (as_list (first_present c (DATASET_KEYS k))))
      | _ \<Rightarrow> Inr [])"

section \<open>Why no offer was accepted\<close>

definition OFFERS_IN_MESSAGE :: nat where
  "OFFERS_IN_MESSAGE = 3"

definition OFFERS_IN_CONTEXT :: nat where
  "OFFERS_IN_CONTEXT = 20"

definition ID_CHARS :: nat where
  "ID_CHARS = 24"

record OfferComparison =
  oc_asset_id :: string
  oc_offer_id :: string
  oc_offered :: "Constraint list"
  oc_expected_index :: nat
  oc_offered_not_expected :: "Constraint list"
  oc_expected_not_offered :: "Constraint list"

definition differences :: "OfferComparison \<Rightarrow> nat" where
  "differences c = length (oc_offered_not_expected c) + length (oc_expected_not_offered c)"

definition described_list :: "Constraint list \<Rightarrow> pyval" where
  "described_list cs = PList (map (\<lambda>c. PStr (described c)) cs)"

definition as_context :: "OfferComparison \<Rightarrow> pyval" where
  "as_context c = PDict
     [(''asset_id'', PStr (oc_asset_id c)), (''offer_id'', PStr (oc_offer_id c)), (''constraints'', described_list (oc_offered c)),
      (''closest_expected_policy'', PInt (int (oc_expected_index c))), (''offered_not_expected'', described_list (oc_offered_not_expected c)),
      (''expected_not_offered'', described_list (oc_expected_not_offered c))]"

definition ordered :: "Constraint list \<Rightarrow> Constraint list \<Rightarrow> Constraint list" where
  "ordered items exclude = filter (\<lambda>c. c \<notin> set exclude) items"

text \<open>\<open>min\<close> with a key: the first of the smallest.\<close>

fun min_by :: "('a \<Rightarrow> nat) \<Rightarrow> 'a \<Rightarrow> 'a list \<Rightarrow> 'a" where
  "min_by f best [] = best"
| "min_by f best (x # xs) = min_by f (if f x < f best then x else best) xs"

definition measured :: "string \<Rightarrow> string \<Rightarrow> Constraint list \<Rightarrow> nat \<Rightarrow> Constraint list \<Rightarrow> OfferComparison" where
  "measured asset_id offer_id offered index wanted =
     \<lparr>oc_asset_id = asset_id, oc_offer_id = offer_id, oc_offered = offered, oc_expected_index = index,
      oc_offered_not_expected = ordered offered wanted, oc_expected_not_offered = ordered wanted offered\<rparr>"

definition closest :: "string \<Rightarrow> string \<Rightarrow> Constraint list \<Rightarrow> Constraint list list \<Rightarrow> OfferComparison" where
  "closest asset_id offer_id offered expectations =
     (let candidates = map (\<lambda>(index, wanted). measured asset_id offer_id offered index wanted) (List.enumerate 0 expectations)
      in min_by differences (hd candidates) (tl candidates))"

definition compare_offers :: "dsp_keys \<Rightarrow> nat \<Rightarrow> pyval \<Rightarrow> pyval list \<Rightarrow> exc + OfferComparison list" where
  "compare_offers k depth catalog expected =
     (case map_err (constraints_of k depth) expected of
        Inl e \<Rightarrow> Inl e
      | Inr expectations \<Rightarrow>
          if expectations = [] then Inr []
          else (case offers_of k depth catalog of
                  Inl e \<Rightarrow> Inl e
                | Inr offers \<Rightarrow>
                    map_err (\<lambda>offer. map_ok (\<lambda>offered. closest (of_asset_id offer) (of_offer_id offer) offered expectations)
                      (constraints_of k depth (of_policy offer))) offers))"

definition listed :: "Constraint list \<Rightarrow> string" where
  "listed cs = join_with '', '' (map (\<lambda>c. [CHR 0x27] @ described c @ [CHR 0x27]) cs)"

definition short_id :: "string \<Rightarrow> string" where
  "short_id v = (if length v \<le> ID_CHARS then [CHR 0x27] @ v @ [CHR 0x27] else [CHR 0x27] @ take ID_CHARS v @ ''...'' @ [CHR 0x27])"

definition offer_lines :: "OfferComparison \<Rightarrow> bool \<Rightarrow> string list" where
  "offer_lines c several =
     [''    offer '' @ short_id (oc_offer_id c) @ '' on asset '' @ short_id (oc_asset_id c)
        @ (if several then '' against expected policy ['' @ nat_text (oc_expected_index c) @ '']'' else []) @ '':'']
     @ (if oc_offered_not_expected c \<noteq> [] then [''      the provider also requires: '' @ listed (oc_offered_not_expected c)] else [])
     @ (if oc_expected_not_offered c \<noteq> [] then [''      the provider does not offer: '' @ listed (oc_expected_not_offered c)] else [])
     @ (if differences c = 0 then [''      the same conditions on both sides -- the offer differs elsewhere in the policy document (compare it in the trace)''] else [])"

definition expected_lines :: "Constraint list list \<Rightarrow> string list" where
  "expected_lines wanted =
     map (\<lambda>(index, cs). (if 1 < length wanted then ''  expected policy ['' @ nat_text index @ '']'' else ''  expected'') @ '': ''
        @ (let l = listed cs in if l = [] then ''no conditions at all'' else l)) (List.enumerate 0 wanted)"

text \<open>\<open>wanted\<close> is what \<open>constraints_of\<close> reads of each expected policy.\<close>

definition mismatch_message :: "OfferComparison list \<Rightarrow> Constraint list list \<Rightarrow> string \<Rightarrow> string" where
  "mismatch_message comparisons wanted address =
     (let first = ''no offer from '' @ address @ '' is made under a policy this step accepts''
      in if wanted = []
         then join_with [CHR 0x0A] [first, ''  'expected_policies' is an empty list, which accepts no offer at all. ''
                @ ''Name the policies an offer may carry, or omit the key to take any offer.'']
         else join_with [CHR 0x0A]
                ([first, ''  '' @ nat_text (length comparisons) @ '' offer'' @ (if length comparisons = 1 then [] else ''s'') @ '' compared, none matched:'']
                 @ concat (map (\<lambda>c. offer_lines c (1 < length wanted)) (take OFFERS_IN_MESSAGE comparisons))
                 @ (if OFFERS_IN_MESSAGE < length comparisons
                    then [''    ... and '' @ nat_text (length comparisons - OFFERS_IN_MESSAGE) @ '' further offer(s), in the trace''] else [])
                 @ expected_lines wanted
                 @ [''  An offer is accepted only when its policy matches an expected one in full, ''
                    @ ''so a condition the provider adds rejects it just as one it omits does.'']))"

definition mismatch_diagnostics :: "OfferComparison list \<Rightarrow> Constraint list list \<Rightarrow> string \<Rightarrow> (string, pyval) pydict" where
  "mismatch_diagnostics comparisons wanted address =
     [(''counter_party_address'', PStr address), (''offers_compared'', PInt (int (length comparisons))),
      (''expected_policies'', PList (map described_list wanted)), (''offers'', PList (map as_context (take OFFERS_IN_CONTEXT comparisons)))]"

definition policy_mismatch_error :: "string \<Rightarrow> (string, pyval) pydict \<Rightarrow> exc" where
  "policy_mismatch_error message diagnostics =
     \<lparr>ex_kind = Test_Lab_Error, ex_message = message, ex_code = Some ''POLICY_MISMATCH'', ex_origin = Some ''sut'',
      ex_diagnostics = Some diagnostics, ex_nested = None\<rparr>"

text \<open>An exception a flow ends with, and the chain of its causes: the SDK's mismatch carries the catalog and the policies it allowed.\<close>

datatype cause = Sdk_mismatch pyval "pyval list option" | Other_cause

datatype flow_failure = Bound_failure exc "cause list" | Other_failure exc

definition explain :: "dsp_keys \<Rightarrow> nat \<Rightarrow> cause list \<Rightarrow> string \<Rightarrow> exc + exc option" where
  "explain k depth causes address =
     (case find (\<lambda>c. c \<noteq> Other_cause) causes of
        Some (Sdk_mismatch catalog (Some expected)) \<Rightarrow>
          (case compare_offers k depth catalog expected of
             Inl e \<Rightarrow> Inl e
           | Inr comparisons \<Rightarrow>
               if comparisons = [] \<and> expected \<noteq> [] then Inr None
               else map_ok (\<lambda>wanted. Some (policy_mismatch_error (mismatch_message comparisons wanted address) (mismatch_diagnostics comparisons wanted address)))
                      (map_err (constraints_of k depth) expected))
      | _ \<Rightarrow> Inr None)"

definition explained :: "dsp_keys \<Rightarrow> nat \<Rightarrow> string \<Rightarrow> flow_failure + 'a \<Rightarrow> exc + 'a" where
  "explained k depth address outcome =
     (case outcome of
        Inr v \<Rightarrow> Inr v
      | Inl (Other_failure e) \<Rightarrow> Inl e
      | Inl (Bound_failure e causes) \<Rightarrow>
          (case explain k depth causes address of Inl e' \<Rightarrow> Inl e' | Inr None \<Rightarrow> Inl e | Inr (Some mismatch) \<Rightarrow> Inl mismatch))"

section \<open>Data sets\<close>

definition as_dataset_list :: "dsp_keys \<Rightarrow> (string, pyval) pydict \<Rightarrow> pyval" where
  "as_dataset_list k catalog =
     (case first_present catalog (DATASET_KEYS k) of
        Some (PDict d) \<Rightarrow> PList [PDict d]
      | Some v \<Rightarrow> if truthy v then v else PList []
      | None \<Rightarrow> PList [])"

definition DCT_TYPE_KEY :: string where
  "DCT_TYPE_KEY = ''dct:type''"

definition of_dct_type :: "dsp_keys \<Rightarrow> string \<Rightarrow> (string, pyval) pydict \<Rightarrow> bool" where
  "of_dct_type k dct_type dataset =
     (case dict_get dataset DCT_TYPE_KEY of
        Some (PDict d) \<Rightarrow> dict_get d (k_id k) = Some (PStr dct_type)
      | Some (PStr s) \<Rightarrow> s = dct_type
      | _ \<Rightarrow> False)"

definition find_dataset_by_type :: "dsp_keys \<Rightarrow> (string, pyval) pydict list \<Rightarrow> string \<Rightarrow> (string, pyval) pydict option" where
  "find_dataset_by_type k datasets dct_type = find (of_dct_type k dct_type) datasets"

definition first_offer_policy :: "dsp_keys \<Rightarrow> (string, pyval) pydict \<Rightarrow> (string, pyval) pydict option" where
  "first_offer_policy k dataset =
     (case first_present dataset (POLICY_KEYS k) of
        Some (PList (PDict d # _)) \<Rightarrow> Some d
      | Some (PDict d) \<Rightarrow> Some d
      | _ \<Rightarrow> None)"

record ExtractDatasetOutput =
  ed_dataset :: "(string, pyval) pydict option"
  ed_offer_id :: "pyval option"
  ed_asset_id :: "pyval option"
  ed_catalog_policy :: "(string, pyval) pydict option"

definition extract_dataset :: "dsp_keys \<Rightarrow> (string, pyval) pydict list \<Rightarrow> string \<Rightarrow> ExtractDatasetOutput" where
  "extract_dataset k datasets dct_type =
     (case find_dataset_by_type k datasets dct_type of
        None \<Rightarrow> \<lparr>ed_dataset = None, ed_offer_id = None, ed_asset_id = None, ed_catalog_policy = None\<rparr>
      | Some d \<Rightarrow>
          (let policy = first_offer_policy k d
           in \<lparr>ed_dataset = Some d, ed_offer_id = (case policy of Some p \<Rightarrow> if p = [] then None else get_value p (k_id k) | None \<Rightarrow> None),
               ed_asset_id = first_present d (ASSET_ID_KEYS k), ed_catalog_policy = policy\<rparr>))"

section \<open>What an operator chooses from\<close>

definition dataset_offers :: "dsp_keys \<Rightarrow> (string, pyval) pydict \<Rightarrow> exc + (string, pyval) pydict list" where
  "dataset_offers k dataset =
     (case first_present dataset (POLICY_KEYS k) of
        None \<Rightarrow> Inr []
      | Some (PDict d) \<Rightarrow> Inr [d]
      | Some (PList ps) \<Rightarrow> Inr (List.map_filter (\<lambda>p. case p of PDict d \<Rightarrow> Some d | _ \<Rightarrow> None) ps)
      | Some (PStr s) \<Rightarrow> Inr []
      | Some v \<Rightarrow> if truthy v then Inl (attribute_error ''object is not iterable'') else Inr [])"

definition not_properties :: "dsp_keys \<Rightarrow> string list" where
  "not_properties k = ASSET_ID_KEYS k @ [''@type'', ''@context''] @ POLICY_KEYS k @ [''distribution'', ''dcat:distribution'']"

type_synonym offer_pair = "SelectionOption \<times> (string, pyval) pydict \<times> (string, pyval) pydict"

text \<open>One turn of the loop: the ids seen and the pairs so far.\<close>

definition add_pair ::
  "dsp_keys \<Rightarrow> (string, pyval) pydict \<Rightarrow> pyval \<Rightarrow> nat \<Rightarrow> nat \<times> (string, pyval) pydict \<Rightarrow> string list \<times> offer_pair list \<Rightarrow> string list \<times> offer_pair list" where
  "add_pair k dataset asset_id count = (\<lambda>(index, offer) (seen, pairs).
     let offer_id = dict_get offer (k_id k);
         offered = (case offer_id of Some v \<Rightarrow> truthy v | None \<Rightarrow> False);
         plain = py_str asset_id @ ''::'' @ (if offered then py_str (the offer_id) else nat_text index);
         option_id = (if plain \<in> set seen then plain @ ''#'' @ nat_text (length pairs + 1) else plain);
         option = \<lparr>so_id = option_id, so_label = py_str asset_id,
           so_description = Some (''offer '' @ nat_text index @ '' of '' @ nat_text count @ (if offered then '': '' @ py_str (the offer_id) else [])),
           so_details = [(''asset_id'', PStr (py_str asset_id)), (''offer_id'', (case offer_id of None \<Rightarrow> PNone | Some v \<Rightarrow> v)), (''offer_index'', PInt (int index)),
             (''offer_count'', PInt (int count)), (''properties'', PDict (filter (\<lambda>(key, v). key \<notin> set (not_properties k)) dataset)), (''policy'', PDict offer)]\<rparr>
     in (option_id # seen, pairs @ [(option, dataset, offer)]))"

definition add_pairs ::
  "dsp_keys \<Rightarrow> (string, pyval) pydict \<times> (string, pyval) pydict list \<Rightarrow> string list \<times> offer_pair list \<Rightarrow> string list \<times> offer_pair list" where
  "add_pairs k = (\<lambda>(dataset, offers) acc.
     case first_present dataset (ASSET_ID_KEYS k) of
       None \<Rightarrow> acc
     | Some asset_id \<Rightarrow> fold (add_pair k dataset asset_id (length offers)) (List.enumerate 1 offers) acc)"

definition dataset_pairs :: "dsp_keys \<Rightarrow> (string, pyval) pydict list \<Rightarrow> exc + offer_pair list" where
  "dataset_pairs k datasets = map_ok (\<lambda>offers. snd (fold (add_pairs k) (zip datasets offers) ([], []))) (map_err (dataset_offers k) datasets)"

definition chosen_pair :: "dsp_keys \<Rightarrow> (string, pyval) pydict list \<Rightarrow> string \<Rightarrow> exc + offer_pair option" where
  "chosen_pair k datasets option_id = map_ok (find (\<lambda>(option, _). so_id option = option_id)) (dataset_pairs k datasets)"

section \<open>No filter is no choice\<close>

definition any_offer_refused :: exc where
  "any_offer_refused = (authoring_error (''No 'filters' were given, so this step would negotiate whichever offer the ''
     @ ''provider's catalog lists first. Give 'filters' that select the asset (e.g. its ''
     @ ''id), or set 'allow_any_offer: true' if any offer really will do.''))\<lparr>ex_code := Some ''OFFER_FILTER_MISSING''\<rparr>"

definition require_offer_filter :: "'f list \<Rightarrow> bool \<Rightarrow> exc + unit" where
  "require_offer_filter filters allow_any_offer = (if filters = [] \<and> \<not> allow_any_offer then Inl any_offer_refused else Inr ())"

section \<open>Policies are read to the end\<close>

text \<open>
  How long a document is at least when written as JSON. \<open>json.loads\<close> never returns more than it was given: this is all that
  is asked of it.
\<close>

fun weight :: "pyval \<Rightarrow> nat" where
  "weight (PStr s) = length s + 2"
| "weight (PList xs) = 2 + sum_list (map weight xs)"
| "weight (PDict d) = 2 + sum_list (map (\<lambda>(k, v). weight v) d)"
| "weight v = 1"

definition json_law :: "(string \<Rightarrow> string + pyval) \<Rightarrow> bool" where
  "json_law loads = (\<forall>s v. loads s = Inr v \<longrightarrow> weight v \<le> length s)"

lemma carried_lighter: "carries_policy v = Some p \<Longrightarrow> weight p < weight v"
proof -
  assume c: "carries_policy v = Some p"
  then obtain d where d: "v = PDict d" "dict_get d POLICY_ARTIFACT_KEY = Some p"
    by (auto simp: carries_policy_def split: pyval.splits option.splits)
  have "(POLICY_ARTIFACT_KEY, p) \<in> set d" using d(2) by (rule dict_get_SomeD)
  then have "weight p \<le> sum_list (map (\<lambda>(k, v). weight v) d)" by (intro member_le_sum_list) force+
  then show ?thesis by (simp add: d(1))
qed

definition peeled :: "exc + pyval \<Rightarrow> bool" where
  "peeled r = (case r of Inr w \<Rightarrow> carries_policy w = None | Inl e \<Rightarrow> ex_kind e = Value_Error)"

lemma raw_from_peel:
  assumes law: "json_law loads"
    and peels: "\<And>w. weight w \<le> weight v \<Longrightarrow> \<exists>r. peeled r \<and> (\<forall>n > 2 * weight w. peel_policy loads n w = Some r)"
  shows "\<exists>r. peeled r \<and> (\<forall>n > 2 * weight v + 1. as_raw_policy loads n v = Some r)"
proof -
  define res where "res = (case v of PStr s \<Rightarrow> loads s | _ \<Rightarrow> Inr v)"
  have raw: "as_raw_policy loads n v = (case res of Inl e \<Rightarrow> Some (Inl (value_error (''a policy given as text must be JSON, and this is not: '' @ e)))
      | Inr w \<Rightarrow> peel_policy loads (n - 1) w)" if "0 < n" for n
    using that by (cases n) (simp_all add: res_def split: sum.splits)
  show ?thesis
  proof (cases res)
    case (Inl e)
    then show ?thesis using raw by (intro exI [of _ "Inl (value_error (''a policy given as text must be JSON, and this is not: '' @ e))"])
        (simp add: peeled_def value_error_def)
  next
    case (Inr w)
    have "weight w \<le> weight v"
    proof (cases v)
      case (PStr s)
      then have "weight w \<le> length s" using Inr law unfolding json_law_def res_def by auto
      then show ?thesis by (simp add: PStr)
    qed (use Inr in \<open>auto simp: res_def\<close>)
    then obtain r where r: "peeled r" "\<forall>n > 2 * weight w. peel_policy loads n w = Some r" using peels by blast
    have "as_raw_policy loads n v = Some r" if "n > 2 * weight v + 1" for n
      using raw [of n] Inr r(2) \<open>weight w \<le> weight v\<close> that by simp
    with r(1) show ?thesis by blast
  qed
qed

lemma peel_ends: "json_law loads \<Longrightarrow> \<exists>r. peeled r \<and> (\<forall>n > 2 * weight v. peel_policy loads n v = Some r)"
proof (induction "weight v" arbitrary: v rule: less_induct)
  case less
  show ?case
  proof (cases "carries_policy v")
    case None
    have "peel_policy loads n v = Some (Inr v)" if "n > 2 * weight v" for n using that None by (cases n) simp_all
    with None show ?thesis by (intro exI [of _ "Inr v"]) (simp add: peeled_def)
  next
    case (Some p)
    have p: "weight p < weight v" by (rule carried_lighter [OF Some])
    have peels: "\<exists>r. peeled r \<and> (\<forall>n > 2 * weight w. peel_policy loads n w = Some r)" if "weight w \<le> weight p" for w
      using less.hyps [of w] less.prems that p by simp
    obtain r where r: "peeled r" "\<forall>n > 2 * weight p + 1. as_raw_policy loads n p = Some r"
      using raw_from_peel [OF less.prems peels] by blast
    have "peel_policy loads n v = Some r" if n: "n > 2 * weight v" for n
    proof -
      obtain m where m: "n = Suc m" "m > 2 * weight p + 1" using n p by (cases n) auto
      have "as_raw_policy loads m p = Some r" using r(2) m(2) by blast
      moreover have "peel_policy loads m w = Some (Inr w)" if "r = Inr w" for w
        using m(2) r(1) that by (cases m) (simp_all add: peeled_def)
      ultimately show ?thesis using Some m(1) by (cases r) simp_all
    qed
    with r(1) show ?thesis by blast
  qed
qed

text \<open>
  Reading a policy ends, however often it is wrapped or written as text inside of text: with the policy itself, which carries
  none, or with a refusal of the text.
\<close>

theorem policy_reading_ends:
  assumes "json_law loads"
  shows "\<exists>r. peeled r \<and> (\<forall>n > 2 * weight v + 1. as_raw_policy loads n v = Some r)"
  using peel_ends [OF assms] by (intro raw_from_peel [OF assms])

definition demo_loads :: "string \<Rightarrow> string + pyval" where
  "demo_loads s = (if s = ''{}'' then Inr (PDict []) else Inl ''Expecting value'')"

theorem policy_reading_ends_witness:
  "\<exists>r. peeled r \<and> as_raw_policy demo_loads 20 (PDict [(''policy'', PStr ''{}'')]) = Some r"
proof -
  have "json_law demo_loads" by (simp add: json_law_def demo_loads_def)
  from policy_reading_ends [OF this, of "PDict [(''policy'', PStr ''{}'')]"] show ?thesis by auto
qed

section \<open>One spelling\<close>

lemma dict_set_sub: "(k, v) \<in> set (dict_set key x d) \<Longrightarrow> (k, v) = (key, x) \<or> (k, v) \<in> set d"
  by (induction d) (auto split: if_splits)

lemma dict_of_sub: "set (dict_of kvs) \<subseteq> set kvs"
proof -
  have "set (fold (\<lambda>(k, v). dict_set k v) kvs d) \<subseteq> set kvs \<union> set d" for d
  proof (induction kvs arbitrary: d)
    case (Cons kv kvs)
    obtain k v where kv: "kv = (k, v)" by fastforce
    have "set (dict_set k v d) \<subseteq> insert (k, v) (set d)" using dict_set_sub [of _ _ k v d] by auto
    with Cons.IH [of "dict_set k v d"] show ?case by (auto simp: kv)
  qed simp
  from this [of "[]"] show ?thesis by (simp add: dict_of_def)
qed

lemma dict_of_wf: "dict_wf (dict_of kvs)"
proof -
  have "dict_wf d \<Longrightarrow> dict_wf (fold (\<lambda>(k, v). dict_set k v) kvs d)" for d
    by (induction kvs arbitrary: d) auto
  then show ?thesis by (simp add: dict_of_def)
qed

lemma dict_of_id: "dict_wf d \<Longrightarrow> dict_of d = d"
proof -
  have "dict_wf (acc @ d) \<Longrightarrow> fold (\<lambda>(k, v). dict_set k v) d acc = acc @ d" for acc
  proof (induction d arbitrary: acc)
    case (Cons kv d)
    obtain k v where kv: "kv = (k, v)" by fastforce
    have "\<not> dict_has acc k" using Cons.prems by (auto simp: kv dict_wf_def dict_has_iff)
    then show ?case using Cons.IH [of "acc @ [(k, v)]"] Cons.prems by (simp add: kv dict_set_new)
  qed simp
  from this [of "[]"] show "dict_wf d \<Longrightarrow> dict_of d = d" by (simp add: dict_of_def)
qed

lemma odrl_key_once: "odrl_key (odrl_key key) = odrl_key key"
  by (simp add: odrl_key_def ODRL_POLICY_KEYS_def)

lemma as_odrl_policy_once: "as_odrl_policy (as_odrl_policy v) = as_odrl_policy v"
proof (induction v rule: as_odrl_policy.induct)
  case (1 d)
  let ?f = "\<lambda>(key, v). (odrl_key key, as_odrl_policy v)"
  have "map ?f (dict_of (map ?f d)) = dict_of (map ?f d)"
  proof (rule map_idI)
    fix kv assume "kv \<in> set (dict_of (map ?f d))"
    then have "kv \<in> ?f ` set d" using dict_of_sub by fastforce
    then show "?f kv = kv" using 1 by (auto simp: odrl_key_once)
  qed
  then show ?case using dict_of_id [OF dict_of_wf] by simp
qed (auto simp: map_idI)

section \<open>What a comparison says\<close>

lemma map_err_Inr_all2: "map_err f xs = Inr ys \<longleftrightarrow> list_all2 (\<lambda>x y. f x = Inr y) xs ys"
proof (induction xs arbitrary: ys)
  case (Cons x xs)
  show ?case by (cases "f x"; cases "map_err f xs") (auto simp: list_all2_Cons1 Cons.IH [symmetric])
qed auto

lemma min_by_least: "min_by f best xs \<in> set (best # xs) \<and> (\<forall>x\<in>set (best # xs). f (min_by f best xs) \<le> f x)"
proof (induction xs arbitrary: best)
  case (Cons x xs)
  from Cons.IH [of "if f x < f best then x else best"] show ?case by (auto split: if_splits)
qed simp

text \<open>The expected policy with the fewest differences, and exactly the conditions one side has and the other lacks.\<close>

definition explains :: "Constraint list \<Rightarrow> Constraint list list \<Rightarrow> OfferComparison \<Rightarrow> bool" where
  "explains offered wanted c =
     (oc_offered c = offered \<and> oc_expected_index c < length wanted
      \<and> set (oc_offered_not_expected c) = set offered - set (wanted ! oc_expected_index c)
      \<and> set (oc_expected_not_offered c) = set (wanted ! oc_expected_index c) - set offered
      \<and> list_all (\<lambda>w. differences c \<le> length (filter (\<lambda>x. x \<notin> set w) offered) + length (filter (\<lambda>x. x \<notin> set offered) w)) wanted)"

lemma closest_explains: "wanted \<noteq> [] \<Longrightarrow> explains offered wanted (closest asset_id offer_id offered wanted)"
proof -
  assume "wanted \<noteq> []"
  let ?cs = "map (\<lambda>(index, w). measured asset_id offer_id offered index w) (List.enumerate 0 wanted)"
  have ne: "hd ?cs # tl ?cs = ?cs" using \<open>wanted \<noteq> []\<close> by (cases wanted) simp_all
  let ?c = "closest asset_id offer_id offered wanted"
  have c: "?c \<in> set ?cs" "\<forall>x\<in>set ?cs. differences ?c \<le> differences x"
    using min_by_least [of differences "hd ?cs" "tl ?cs"] unfolding ne closest_def Let_def by blast+
  then obtain i where i: "i < length wanted" "?c = measured asset_id offer_id offered i (wanted ! i)"
    by (auto simp: in_set_enumerate_eq)
  have "differences ?c \<le> length (filter (\<lambda>x. x \<notin> set w) offered) + length (filter (\<lambda>x. x \<notin> set offered) w)" if w: "w \<in> set wanted" for w
  proof -
    obtain j where j: "j < length wanted" "w = wanted ! j" using w by (auto simp: in_set_conv_nth)
    then have "measured asset_id offer_id offered j w \<in> set ?cs" by (force simp: in_set_enumerate_eq)
    with c(2) have "differences ?c \<le> differences (measured asset_id offer_id offered j w)" by blast
    then show ?thesis by (simp add: differences_def measured_def ordered_def)
  qed
  then show ?thesis using i unfolding explains_def list_all_iff by (auto simp: measured_def ordered_def)
qed

text \<open>C34. 
  When no offer was accepted, every offer of the catalog is compared, in order, with the expected policy it differs from
  least, and the differences said are the ones there are.
\<close>

theorem mismatch_is_exact:
  assumes "compare_offers k depth catalog expected = Inr comparisons" "expected \<noteq> []"
  shows "\<exists>offers wanted. offers_of k depth catalog = Inr offers \<and> map_err (constraints_of k depth) expected = Inr wanted
    \<and> list_all2 (\<lambda>offer c. \<exists>offered. constraints_of k depth (of_policy offer) = Inr offered \<and> explains offered wanted c
        \<and> oc_asset_id c = of_asset_id offer \<and> oc_offer_id c = of_offer_id offer) offers comparisons"
proof -
  obtain wanted where w: "map_err (constraints_of k depth) expected = Inr wanted"
    using assms(1) by (auto simp: compare_offers_def split: sum.splits)
  then have "wanted \<noteq> []" using assms(2) by (auto simp: map_err_Inr_all2)
  with w assms(1) obtain offers where o: "offers_of k depth catalog = Inr offers"
    "map_err (\<lambda>offer. map_ok (\<lambda>offered. closest (of_asset_id offer) (of_offer_id offer) offered wanted)
       (constraints_of k depth (of_policy offer))) offers = Inr comparisons"
    by (auto simp: compare_offers_def split: sum.splits)
  have ids: "oc_asset_id (closest a b offered wanted) = a \<and> oc_offer_id (closest a b offered wanted) = b" for a b offered
  proof -
    have "closest a b offered wanted \<in> set (map (\<lambda>(index, w). measured a b offered index w) (List.enumerate 0 wanted))"
      using min_by_least [of differences "measured a b offered 0 (hd wanted)"] \<open>wanted \<noteq> []\<close>
      unfolding closest_def Let_def by (cases wanted) (auto simp del: set_map)
    then show ?thesis by (auto simp: measured_def)
  qed
  have "list_all2 (\<lambda>offer c. \<exists>offered. constraints_of k depth (of_policy offer) = Inr offered \<and> explains offered wanted c
        \<and> oc_asset_id c = of_asset_id offer \<and> oc_offer_id c = of_offer_id offer) offers comparisons"
    using o(2) [unfolded map_err_Inr_all2]
  proof (rule list_all2_mono)
    fix offer c
    assume "map_ok (\<lambda>offered. closest (of_asset_id offer) (of_offer_id offer) offered wanted) (constraints_of k depth (of_policy offer)) = Inr c"
    then show "\<exists>offered. constraints_of k depth (of_policy offer) = Inr offered \<and> explains offered wanted c
        \<and> oc_asset_id c = of_asset_id offer \<and> oc_offer_id c = of_offer_id offer"
      using closest_explains [OF \<open>wanted \<noteq> []\<close>] ids by (cases "constraints_of k depth (of_policy offer)") auto
  qed
  with o(1) w show ?thesis by blast
qed

section \<open>Texts of JSON-LD values\<close>

text \<open>Every node has an identifier, as \<open>ld_text\<close> needs it.\<close>

fun identified :: "dsp_keys \<Rightarrow> pyval \<Rightarrow> bool" where
  "identified k (PDict d) = (case dict_get d (k_id k) of None \<Rightarrow> False | Some v \<Rightarrow> identified k v)"
| "identified k (PList xs) = list_all (identified k) xs"
| "identified k v = True"

lemma identified_text: "identified k v \<Longrightarrow> size v < depth \<Longrightarrow> \<exists>t. ld_text k depth v = Inr t"
proof (induction k v arbitrary: depth rule: identified.induct)
  case (1 k d)
  then obtain v where v: "dict_get d (k_id k) = Some v" "identified k v" by (auto split: option.splits)
  obtain n where n: "depth = Suc n" using "1.prems"(2) by (cases depth) auto
  have "size v < size (PDict d)" using v(1) by (auto dest!: dict_get_SomeD pyval_dict_smaller)
  with "1.IH" [OF v(1) v(2), of n] "1.prems"(2) n v(1) show ?case by simp
next
  case (2 k xs)
  obtain n where n: "depth = Suc n" using "2.prems"(2) by (cases depth) auto
  have "\<exists>t. ld_text k n x = Inr t" if "x \<in> set xs" for x
    using "2.IH" [OF that, of n] "2.prems" that n pyval_list_smaller [OF that] by (auto simp: list_all_iff)
  then have "map_err (ld_text k n) xs = Inr (map (\<lambda>x. projr (ld_text k n x)) xs)"
    unfolding map_err_Inr_all2 list.rel_map list_all2_same by (metis sum.sel(2))
  then show ?case by (auto simp: n)
qed (case_tac depth; simp)+

text \<open>
  A node without one, such as a typed value, is never read: the function calls itself with the same node until Python's
  recursion limit, and the explanation of a mismatch ends in that error.
\<close>

lemma unidentified_never_read: "dict_get d (k_id k) = None \<Longrightarrow> ld_text k depth (PDict d) = Inl recursion_error"
  by (induction depth) simp_all

definition sdk_keys :: dsp_keys where
  "sdk_keys = \<lparr>k_id = ''@id'', k_dataset25 = ''dataset'', k_dataset = ''dcat:dataset'', k_policy25 = ''hasPolicy'', k_policy = ''odrl:hasPolicy'',
     k_permission25 = ''permission'', k_permission = ''odrl:permission'', k_prohibition25 = ''prohibition'', k_prohibition = ''odrl:prohibition'',
     k_obligation25 = ''obligation'', k_obligation = ''odrl:obligation'', k_and25 = ''and'', k_and = ''odrl:and'', k_or25 = ''or'', k_or = ''odrl:or'',
     k_left25 = ''leftOperand'', k_left = ''odrl:leftOperand'', k_operator25 = ''operator'', k_operator = ''odrl:operator'',
     k_right25 = ''rightOperand'', k_right = ''odrl:rightOperand''\<rparr>"

definition demo_policy :: "pyval \<Rightarrow> pyval" where
  "demo_policy right = PDict [(''@id'', PStr ''offer-1''), (''permission'', PDict [(''constraint'',
     PDict [(''leftOperand'', PStr ''Membership''), (''operator'', PDict [(''@id'', PStr ''odrl:eq'')]), (''rightOperand'', right)])])]"

definition demo_catalog :: "pyval \<Rightarrow> pyval" where
  "demo_catalog right = PDict [(''dataset'', PDict [(''id'', PStr ''asset-1''), (''hasPolicy'', demo_policy right)])]"

lemma typed_value_breaks_explanation:
  "explain sdk_keys 30 [Other_cause, Sdk_mismatch (demo_catalog (PDict [(''@value'', PStr ''active'')])) (Some [demo_policy (PStr ''active'')])] ''urn:x''
   = Inl recursion_error"
  by code_simp

theorem mismatch_is_exact_witness:
  "\<exists>offers wanted. offers_of sdk_keys 9 (demo_catalog (PStr ''inactive'')) = Inr offers \<and> map_err (constraints_of sdk_keys 9) [demo_policy (PStr ''active'')] = Inr wanted
    \<and> length offers = 1"
proof -
  have "compare_offers sdk_keys 9 (demo_catalog (PStr ''inactive'')) [demo_policy (PStr ''active'')]
    = Inr [\<lparr>oc_asset_id = ''asset-1'', oc_offer_id = ''offer-1'',
        oc_offered = [\<lparr>cn_rule = ''permission'', cn_left = ''Membership'', cn_operator = ''odrl:eq'', cn_right = ''inactive''\<rparr>], oc_expected_index = 0,
        oc_offered_not_expected = [\<lparr>cn_rule = ''permission'', cn_left = ''Membership'', cn_operator = ''odrl:eq'', cn_right = ''inactive''\<rparr>],
        oc_expected_not_offered = [\<lparr>cn_rule = ''permission'', cn_left = ''Membership'', cn_operator = ''odrl:eq'', cn_right = ''active''\<rparr>]\<rparr>]"
    by code_simp
  from mismatch_is_exact [OF this] show ?thesis by (auto dest: list_all2_lengthD)
qed

section \<open>The pair the operator chose\<close>

lemma digit_char_code: "d < 10 \<Longrightarrow> (of_char (digit_char d) :: nat) = 48 + d"
  by (simp add: digit_char_def)

lemma digit_char_inj: "d < 10 \<Longrightarrow> e < 10 \<Longrightarrow> digit_char d = digit_char e \<Longrightarrow> d = e"
  using digit_char_code [of d] digit_char_code [of e] by (metis add_left_imp_eq)

lemma nat_text_not_Nil [simp]: "nat_text n \<noteq> []" "[] \<noteq> nat_text n"
  by (subst nat_text.simps, simp)+

lemma nat_text_inj: "nat_text n = nat_text m \<Longrightarrow> n = m"
proof (induction n arbitrary: m rule: nat_text.induct)
  case (1 n)
  show ?case
  proof (cases "n < 10"; cases "m < 10")
    assume "n < 10" "m < 10"
    then show ?thesis using "1.prems" digit_char_inj by (simp add: nat_text.simps [of n] nat_text.simps [of m])
  next
    assume "\<not> n < 10" "\<not> m < 10"
    then have "nat_text (n div 10) = nat_text (m div 10)" "digit_char (n mod 10) = digit_char (m mod 10)"
      using "1.prems" by (simp_all add: nat_text.simps [of n] nat_text.simps [of m])
    then have "n div 10 = m div 10" "n mod 10 = m mod 10" using "1.IH" [OF \<open>\<not> n < 10\<close>] digit_char_inj by simp_all
    then show ?thesis by (metis div_mod_decomp)
  qed (use "1.prems" in \<open>simp_all add: nat_text.simps [of n] nat_text.simps [of m]\<close>)
qed

lemma nat_text_no_hash: "CHR ''#'' \<notin> set (nat_text n)"
proof (induction n rule: nat_text.induct)
  case (1 n)
  have no: "CHR ''#'' \<noteq> digit_char d" if "d < 10" for d
  proof
    assume "CHR ''#'' = digit_char d"
    then have "(48 :: nat) + d = of_char CHR ''#''" using digit_char_code [OF that] by argo
    then show False by simp
  qed
  show ?case using 1 no [of n] no [of "n mod 10"] by (subst nat_text.simps) auto
qed

definition plain_text :: "pyval \<Rightarrow> bool" where
  "plain_text v = (CHR ''#'' \<notin> set (py_str v))"

text \<open>No asset and no offer has a hash mark in its id.\<close>

definition plain_ids :: "dsp_keys \<Rightarrow> (string, pyval) pydict \<Rightarrow> bool" where
  "plain_ids k dataset =
     ((case first_present dataset (ASSET_ID_KEYS k) of None \<Rightarrow> True | Some v \<Rightarrow> plain_text v)
      \<and> (case dataset_offers k dataset of
            Inl e \<Rightarrow> True | Inr offers \<Rightarrow> list_all (\<lambda>offer. case dict_get offer (k_id k) of None \<Rightarrow> True | Some v \<Rightarrow> plain_text v) offers))"

abbreviation pair_ids :: "offer_pair list \<Rightarrow> string list" where
  "pair_ids pairs \<equiv> map (\<lambda>p. so_id (fst p)) pairs"

text \<open>An id is plain, or plain with the place of its pair.\<close>

definition id_at :: "nat \<Rightarrow> string \<Rightarrow> bool" where
  "id_at i s = (\<exists>plain. CHR ''#'' \<notin> set plain \<and> (s = plain \<or> s = plain @ ''#'' @ nat_text (i + 1)))"

definition pairs_ok :: "string list \<times> offer_pair list \<Rightarrow> bool" where
  "pairs_ok = (\<lambda>(seen, pairs). set seen = set (pair_ids pairs) \<and> distinct (pair_ids pairs) \<and> (\<forall>i<length pairs. id_at i (pair_ids pairs ! i)))"

lemma hash_split: "CHR ''#'' \<notin> set p \<Longrightarrow> CHR ''#'' \<notin> set q \<Longrightarrow> p @ CHR ''#'' # s = q @ CHR ''#'' # t \<Longrightarrow> p = q \<and> s = t"
proof (induction p arbitrary: q)
  case Nil
  then show ?case by (cases q) auto
next
  case (Cons c p)
  then show ?case by (cases q) auto
qed

lemma id_at_fresh:
  assumes "CHR ''#'' \<notin> set plain" "\<forall>i<length ids. id_at i (ids ! i)"
  shows "plain @ ''#'' @ nat_text (length ids + 1) \<notin> set ids"
proof
  assume "plain @ ''#'' @ nat_text (length ids + 1) \<in> set ids"
  then obtain i where i: "i < length ids" "ids ! i = plain @ ''#'' @ nat_text (length ids + 1)" by (metis in_set_conv_nth)
  then obtain q where q: "CHR ''#'' \<notin> set q" "ids ! i = q \<or> ids ! i = q @ ''#'' @ nat_text (i + 1)" using assms(2) by (auto simp: id_at_def)
  then have "nat_text (length ids + 1) = nat_text (i + 1)" using i(2) hash_split [OF assms(1) q(1)] by auto
  then show False using nat_text_inj i(1) by fastforce
qed

lemma add_pair_ok:
  assumes "pairs_ok acc" "plain_text asset_id" "case dict_get offer (k_id k) of None \<Rightarrow> True | Some v \<Rightarrow> plain_text v"
  shows "pairs_ok (add_pair k dataset asset_id count (index, offer) acc)"
proof -
  obtain seen pairs where acc: "acc = (seen, pairs)" by fastforce
  define offer_id where "offer_id = dict_get offer (k_id k)"
  define offered where "offered = (case offer_id of Some v \<Rightarrow> truthy v | None \<Rightarrow> False)"
  define plain where "plain = py_str asset_id @ ''::'' @ (if offered then py_str (the offer_id) else nat_text index)"
  define new where "new = (if plain \<in> set seen then plain @ ''#'' @ nat_text (length pairs + 1) else plain)"
  obtain option where o: "add_pair k dataset asset_id count (index, offer) acc = (new # seen, pairs @ [(option, dataset, offer)])" "so_id option = new"
    by (simp add: add_pair_def acc Let_def new_def plain_def offered_def offer_id_def)
  have hash: "CHR ''#'' \<notin> set plain"
    using assms(2,3) nat_text_no_hash unfolding plain_def offered_def offer_id_def plain_text_def by (auto split: option.splits)
  have ok: "set seen = set (pair_ids pairs)" "distinct (pair_ids pairs)" "\<forall>i<length pairs. id_at i (pair_ids pairs ! i)"
    using assms(1) by (simp_all add: pairs_ok_def acc)
  have "new \<notin> set (pair_ids pairs)"
    using id_at_fresh [OF hash, of "pair_ids pairs"] ok(1,3) unfolding new_def by (simp split: if_splits)
  moreover have "id_at (length pairs) new" using hash unfolding id_at_def new_def by auto
  ultimately show ?thesis using ok o by (auto simp: pairs_ok_def nth_append less_Suc_eq)
qed

lemma add_pairs_ok: "pairs_ok acc \<Longrightarrow> plain_ids k dataset \<Longrightarrow> dataset_offers k dataset = Inr offers \<Longrightarrow> pairs_ok (add_pairs k (dataset, offers) acc)"
proof -
  assume a: "pairs_ok acc" "plain_ids k dataset" "dataset_offers k dataset = Inr offers"
  have "pairs_ok (fold (add_pair k dataset asset_id count) ios acc)"
    if "plain_text asset_id" "snd ` set ios \<subseteq> set offers" for asset_id count ios
    using a(1) that
  proof (induction ios arbitrary: acc)
    case (Cons io ios)
    obtain index offer where io: "io = (index, offer)" by fastforce
    have "case dict_get offer (k_id k) of None \<Rightarrow> True | Some v \<Rightarrow> plain_text v"
      using a(2,3) Cons.prems(3) by (auto simp: plain_ids_def list_all_iff io)
    then have "pairs_ok (add_pair k dataset asset_id count io acc)" using add_pair_ok [OF Cons.prems(1,2)] by (simp add: io)
    then show ?case using Cons.IH Cons.prems by simp
  qed simp
  moreover have "snd ` set (List.enumerate 1 offers) \<subseteq> set offers" by (auto simp: enumerate_eq_zip dest: set_zip_rightD)
  ultimately show ?thesis using a by (auto simp: add_pairs_def plain_ids_def split: option.splits)
qed

text \<open>
  The ids of the options are distinct, so the pair an operator chooses is the one negotiated - as long as no id of the
  provider has a hash mark.
\<close>

theorem chosen_pair_is_offered:
  assumes "dataset_pairs k datasets = Inr pairs" "list_all (plain_ids k) datasets" "(option, dataset, offer) \<in> set pairs"
  shows "chosen_pair k datasets (so_id option) = Inr (Some (option, dataset, offer))"
proof -
  obtain offers where o: "map_err (dataset_offers k) datasets = Inr offers" "pairs = snd (fold (add_pairs k) (zip datasets offers) ([], []))"
    using assms(1) by (cases "map_err (dataset_offers k) datasets") (auto simp: dataset_pairs_def)
  have "pairs_ok (fold (add_pairs k) dos acc)" if "pairs_ok acc" "\<forall>(d, os)\<in>set dos. plain_ids k d \<and> dataset_offers k d = Inr os" for dos acc
    using that
  proof (induction dos arbitrary: acc)
    case (Cons d dos)
    then have "pairs_ok (add_pairs k d acc)" by (cases d) (auto intro: add_pairs_ok)
    with Cons show ?case by simp
  qed simp
  moreover have "pairs_ok ([], [])" by (simp add: pairs_ok_def)
  moreover have "\<forall>(d, os)\<in>set (zip datasets offers). plain_ids k d \<and> dataset_offers k d = Inr os"
    using o(1) assms(2) unfolding map_err_Inr_all2 list_all2_iff list_all_iff by (auto dest: set_zip_leftD)
  ultimately have "distinct (pair_ids pairs)" unfolding o(2) by (fastforce simp: pairs_ok_def)
  then have "find (\<lambda>(option', _). so_id option' = so_id option) pairs = Some (option, dataset, offer)"
    using assms(3) by (induction pairs) (auto simp: image_iff)
  then show ?thesis using assms(1) by (simp add: chosen_pair_def)
qed

definition demo_dataset :: "string \<Rightarrow> string list \<Rightarrow> (string, pyval) pydict" where
  "demo_dataset asset offers = [(''id'', PStr asset), (''hasPolicy'', PList (map (\<lambda>i. PDict [(''@id'', PStr i)]) offers))]"

theorem chosen_pair_is_offered_witness:
  "\<exists>option. so_id option = ''a::x#3'' \<and> chosen_pair sdk_keys [demo_dataset ''a'' [''x'', ''y''], demo_dataset ''a'' [''x'']] ''a::x#3''
     = Inr (Some (option, demo_dataset ''a'' [''x''], [(''@id'', PStr ''x'')]))"
proof -
  let ?ds = "[demo_dataset ''a'' [''x'', ''y''], demo_dataset ''a'' [''x'']]"
  have "map_ok (\<lambda>ps. (length ps, so_id (fst (ps ! 2)), snd (ps ! 2))) (dataset_pairs sdk_keys ?ds)
    = Inr (3, ''a::x#3'', demo_dataset ''a'' [''x''], [(''@id'', PStr ''x'')])" by code_simp
  then obtain pairs where p: "dataset_pairs sdk_keys ?ds = Inr pairs" "length pairs = 3" "so_id (fst (pairs ! 2)) = ''a::x#3''"
    "snd (pairs ! 2) = (demo_dataset ''a'' [''x''], [(''@id'', PStr ''x'')])"
    by (cases "dataset_pairs sdk_keys ?ds") auto
  have "pairs ! 2 \<in> set pairs" using p(2) by (intro nth_mem) simp
  then have "(fst (pairs ! 2), demo_dataset ''a'' [''x''], [(''@id'', PStr ''x'')]) \<in> set pairs" using p(4) by (metis prod.collapse)
  moreover have "list_all (plain_ids sdk_keys) ?ds" by code_simp
  ultimately show ?thesis using chosen_pair_is_offered [OF p(1)] p(3) by fastforce
qed

text \<open>With a hash mark in an offer's id, two options can share an id, and choosing the second negotiates the first.\<close>

lemma hash_mark_confuses_pairs:
  "map_ok pair_ids (dataset_pairs sdk_keys [demo_dataset ''a'' [''x'', ''x#3''], demo_dataset ''a'' [''x'']]) = Inr [''a::x'', ''a::x#3'', ''a::x#3'']"
  by code_simp

text \<open>An offer given by reference is not read but raises.\<close>

lemma referenced_policy_raises:
  "offers_of sdk_keys 9 (PDict [(''dataset'', PDict [(''id'', PStr ''a''), (''hasPolicy'', PStr ''offer-1'')])]) = Inl (attribute_error ''object has no attribute get'')"
  by code_simp

end
