(* ===== verification/Seeding.thy ===== *)
theory Seeding
  imports Validation Redaction
begin

text \<open>
  The variables of a run, from the manifest that declares them to the context that holds them: the verbs a variable
  names (\<^verbatim>\<open>syntax/variables.py\<close>), the groups of alternatives (\<^verbatim>\<open>syntax/one_of.py\<close>), what the compiler reports of the
  \<open>env.variables\<close> block (\<^verbatim>\<open>compiler/validation/_variable_declarations.py\<close>, \<^verbatim>\<open>_register_declarations.py\<close>), how a
  declaration is read (\<^verbatim>\<open>authoring/_variable_form.py\<close>) and how a run is seeded (\<^verbatim>\<open>player/execution/_context_seeder.py\<close>,
  \<^verbatim>\<open>_env_assets.py\<close>).

  \<open>yaml.safe_load\<close> is the argument \<open>load\<close>: the complaint, or the value the text reads as. A finding is a value of a
  datatype that carries what its message is built from. A raise ends the seeding; what it had written to the context
  goes with the run it refuses.
\<close>

section \<open>The verbs\<close>

record VariableVerb =
  vv_uses :: string
  vv_type :: string
  vv_class :: "string option"

definition plain_verb :: "string \<Rightarrow> VariableVerb" where
  "plain_verb t = \<lparr>vv_uses = ''variable/type/'' @ t, vv_type = t, vv_class = None\<rparr>"

definition connector_verb :: "string \<Rightarrow> string \<Rightarrow> VariableVerb" where
  "connector_verb noun cls = \<lparr>vv_uses = ''config/connector/'' @ noun, vv_type = ''object'', vv_class = Some cls\<rparr>"

definition CATALOG :: "VariableVerb list" where
  "CATALOG = map plain_verb [''string'', ''integer'', ''number'', ''boolean'', ''object'', ''array'']
     @ [connector_verb ''policy'' ''Policy'', connector_verb ''asset'' ''Asset'', connector_verb ''mock_asset'' ''MockAsset'']"

definition verb_for :: "string \<Rightarrow> VariableVerb option" where
  "verb_for uses = find (\<lambda>verb. vv_uses verb = uses) CATALOG"

definition VALUE_FIELDS :: "string list" where
  "VALUE_FIELDS = [''type'', ''class'', ''format'']"

text \<open>\<open>STRUCTURED_TYPES\<close>: the test \<open>isinstance\<close> makes of the parsed value.\<close>

definition structured_as :: "string option \<Rightarrow> (pyval \<Rightarrow> bool) option" where
  "structured_as declared =
     (if declared = Some ''object'' then Some (\<lambda>v. case v of PDict _ \<Rightarrow> True | _ \<Rightarrow> False)
      else if declared = Some ''array'' then Some (\<lambda>v. case v of PList _ \<Rightarrow> True | _ \<Rightarrow> False)
      else None)"

definition type_name :: "pyval \<Rightarrow> string" where
  "type_name v = (case v of PNone \<Rightarrow> ''NoneType'' | PBool _ \<Rightarrow> ''bool'' | PInt _ \<Rightarrow> ''int'' | PStr _ \<Rightarrow> ''str''
                  | PList _ \<Rightarrow> ''list'' | PDict _ \<Rightarrow> ''dict'' | PCred _ \<Rightarrow> ''Credential'')"

record YAMLError =
  ye_problem :: "string option"
  ye_context :: "string option"
  ye_mark :: "(nat \<times> nat) option"
  ye_first_line :: string

definition unreadable :: "YAMLError \<Rightarrow> string" where
  "unreadable e =
     (let problem = (if nonempty_text (ye_problem e) then the (ye_problem e) else ye_first_line e);
          detail = (if nonempty_text (ye_context e) then the (ye_context e) @ '', '' @ problem else problem);
          place = (case ye_mark e of None \<Rightarrow> []
                   | Some (l, c) \<Rightarrow> '' (line '' @ nat_text (l + 1) @ '', column '' @ nat_text (c + 1) @ '' of the value)'')
      in ''is not valid JSON or YAML -- '' @ detail @ place)"

type_synonym yaml_load = "string \<Rightarrow> YAMLError + pyval"

definition read_as_declared :: "yaml_load \<Rightarrow> pyval \<Rightarrow> string option \<Rightarrow> pyval \<times> string option" where
  "read_as_declared load val declared =
     (case (structured_as declared, val) of
        (Some expected, PStr s) \<Rightarrow>
          (case load s of
             Inl e \<Rightarrow> (PNone, Some (unreadable e))
           | Inr parsed \<Rightarrow> if expected parsed then (parsed, None)
                         else (PNone, Some (''reads as '' @ type_name parsed @ '', not '' @ the declared)))
      | _ \<Rightarrow> (val, None))"

definition variable_type_error :: "string \<Rightarrow> string \<Rightarrow> string \<Rightarrow> exc" where
  "variable_type_error name declared reason =
     (let q = [CHR 0x27]
      in authoring_error (''Variable '' @ q @ name @ q @ '' declares '' @ q @ ''type: '' @ declared @ q @ '' and its value '' @ reason
           @ ''. Write it under '' @ q @ ''with.value'' @ q @ '' as '' @ (if declared = ''object'' then ''a mapping'' else ''a list'')
           @ '' -- inline, or as JSON or YAML text in a '' @ q @ ''value: |'' @ q @ '' block.''))"

section \<open>Groups of alternatives\<close>

fun setdefault_append :: "string \<Rightarrow> 'a \<Rightarrow> (string, 'a list) pydict \<Rightarrow> (string, 'a list) pydict" where
  "setdefault_append key item [] = [(key, [item])]"
| "setdefault_append key item ((k, xs) # rest) =
     (if k = key then (k, xs @ [item]) # rest else (k, xs) # setdefault_append key item rest)"

text \<open>\<open>one_of_groups\<close> with the alternatives of each group; \<open>Validation.one_of_groups\<close> is the names alone.\<close>

definition group_members :: "pyval list \<Rightarrow> (string, (string, pyval) pydict list) pydict" where
  "group_members entries =
     fold (\<lambda>e groups. case e of
        PDict n \<Rightarrow> (if truthy (doc_get n ''id'')
                   then (case group_of n of None \<Rightarrow> groups | Some g \<Rightarrow> setdefault_append g n groups) else groups)
      | _ \<Rightarrow> groups) entries []"

definition group_value :: "(string, pyval) pydict list \<Rightarrow> pyval" where
  "group_value members = PList (map (\<lambda>m. PStr (''${{ env.'' @ py_str (doc_get m ''id'') @ '' }}'')) members)"

section \<open>What the compiler reports of the block\<close>

datatype declaration_finding =
    Block_not_list string
  | Entry_not_mapping nat
  | Entry_without_id nat
  | Declared_twice string
  | Under_bindings string
  | Without_uses string
  | Generated_verb string string
  | Unknown_verb string string
  | Secret_not_bool string string
  | With_not_mapping string
  | Unrecognized_source string string
  | Instructions_not_text string
  | Instructions_not_handed string
  | Group_not_a_name string
  | Group_unspellable string string
  | Group_not_handed string
  | Default_not_bool string string
  | Default_without_group string
  | Nothing_seeds string
  | Unreadable_value exc
  | Without_returns string string
  | Returns_not_mapping string
  | Publishes_under string "string list" string
  | Empty_returns string string
  | Value_not_mapping string
  | Unknown_fields string "string list"
  | Without_type string string
  | Wrong_type string string string
  | Class_on_plain string string string
  | Wrong_class string string string
  | Credential_in_variable exc
  | Group_named_as_variable string
  | Single_alternative string string
  | Mixed_group string "string list"
  | Many_defaults string "string list"

definition text_or_empty :: "pyval \<Rightarrow> string" where
  "text_or_empty v = (if truthy v then py_str v else [])"

definition verb_declaration :: "VariableVerb \<Rightarrow> string" where
  "verb_declaration verb =
     ''returns: { value: { type: '' @ vv_type verb @ (case vv_class verb of None \<Rightarrow> [] | Some c \<Rightarrow> '', class: '' @ c) @ '' } }''"

definition SOURCES :: "string list" where
  "SOURCES = [''input'', ''value'', ''generated'', ''register'']"

definition CARRIED_SOURCES :: "string list" where
  "CARRIED_SOURCES = [''value'', ''register'']"

definition unknown_verb :: "string \<Rightarrow> string \<Rightarrow> declaration_finding" where
  "unknown_verb var_id uses = (if starts_with uses ''generate/'' then Generated_verb var_id uses else Unknown_verb var_id uses)"

definition blank_text :: "pyval \<Rightarrow> bool" where
  "blank_text v = (case v of PStr s \<Rightarrow> strip s = [] | _ \<Rightarrow> True)"

definition group_char :: "char \<Rightarrow> bool" where
  "group_char c = (let n = (of_char c :: nat) in 65 \<le> n \<and> n \<le> 90 \<or> 97 \<le> n \<and> n \<le> 122 \<or> n = 95)"

text \<open>\<open>_GROUP_NAME\<close>, on a text that was stripped and so ends in no newline.\<close>

definition group_name :: "string \<Rightarrow> bool" where
  "group_name s = (case s of [] \<Rightarrow> False
     | c # cs \<Rightarrow> group_char c \<and> list_all (\<lambda>d. group_char d \<or> 48 \<le> (of_char d :: nat) \<and> (of_char d :: nat) \<le> 57) cs)"

definition check_instructions :: "(string, pyval) pydict \<Rightarrow> string \<Rightarrow> pyval \<Rightarrow> declaration_finding list" where
  "check_instructions with_block var_id source =
     (case dict_get with_block ''instructions'' of
        None \<Rightarrow> []
      | Some instructions \<Rightarrow>
          (if blank_text instructions then [Instructions_not_text var_id] else [])
          @ (if py_str source \<noteq> ''register'' then [Instructions_not_handed var_id] else []))"

definition check_alternative :: "(string, pyval) pydict \<Rightarrow> string \<Rightarrow> pyval \<Rightarrow> declaration_finding list" where
  "check_alternative with_block var_id source =
     (case dict_get with_block ''one_of'' of
        None \<Rightarrow> []
      | Some grp \<Rightarrow>
          (if blank_text grp then [Group_not_a_name var_id]
           else if \<not> group_name (strip (py_str grp)) then [Group_unspellable var_id (py_str grp)] else [])
          @ (if py_str source \<noteq> ''register'' then [Group_not_handed var_id] else []))
     @ (case dict_get with_block ''default'' of
          None \<Rightarrow> []
        | Some d \<Rightarrow> (case d of
                       PBool _ \<Rightarrow> if dict_has with_block ''one_of'' then [] else [Default_without_group var_id]
                     | _ \<Rightarrow> [Default_not_bool var_id (py_str d)]))"

definition check_source :: "(string, pyval) pydict \<Rightarrow> string \<Rightarrow> declaration_finding list" where
  "check_source entry var_id =
     (case (if truthy (doc_get entry ''with'') then doc_get entry ''with'' else PDict []) of
        PDict with_block \<Rightarrow>
          (let source = doc_get with_block ''source''
           in if source \<noteq> PNone \<and> py_str source \<notin> set SOURCES then [Unrecognized_source var_id (py_str source)]
              else check_instructions with_block var_id source @ check_alternative with_block var_id source
                   @ (if (source = PNone \<or> py_str source \<in> set CARRIED_SOURCES) \<and> \<not> dict_has with_block ''value''
                      then [Nothing_seeds var_id] else []))
      | _ \<Rightarrow> [With_not_mapping var_id])"

definition check_value :: "yaml_load \<Rightarrow> (string, pyval) pydict \<Rightarrow> string \<Rightarrow> VariableVerb \<Rightarrow> declaration_finding list" where
  "check_value load entry var_id verb =
     (case dict_get (dict_at entry ''with'') ''value'' of
        None \<Rightarrow> []
      | Some v \<Rightarrow> (case snd (read_as_declared load v (Some (vv_type verb))) of
                     None \<Rightarrow> [] | Some problem \<Rightarrow> [Unreadable_value (variable_type_error var_id (vv_type verb) problem)]))"

definition check_value_field :: "pyval \<Rightarrow> string \<Rightarrow> VariableVerb \<Rightarrow> declaration_finding list" where
  "check_value_field value_def var_id verb =
     (case value_def of
        PDict d \<Rightarrow>
          (let unknown = sort (filter (\<lambda>k. k \<notin> set VALUE_FIELDS) (dict_keys d));
               declared_type = doc_get d ''type''; declared_class = doc_get d ''class''
           in (if unknown \<noteq> [] then [Unknown_fields var_id unknown] else [])
              @ (if declared_type = PNone then [Without_type var_id (verb_declaration verb)]
                 else if py_str declared_type \<noteq> vv_type verb then [Wrong_type var_id (vv_uses verb) (py_str declared_type)] else [])
              @ (case vv_class verb of
                   None \<Rightarrow> if declared_class \<noteq> PNone then [Class_on_plain var_id (py_str declared_class) (vv_uses verb)] else []
                 | Some c \<Rightarrow> if text_or_empty declared_class \<noteq> c
                            then [Wrong_class var_id (vv_uses verb) (if declared_class \<noteq> PNone then py_str declared_class else ''(none)'')]
                            else []))
      | _ \<Rightarrow> [Value_not_mapping var_id])"

definition check_returns :: "(string, pyval) pydict \<Rightarrow> string \<Rightarrow> VariableVerb \<Rightarrow> declaration_finding list" where
  "check_returns entry var_id verb =
     (case doc_get entry ''returns'' of
        PNone \<Rightarrow> [Without_returns var_id (verb_declaration verb)]
      | PDict returns \<Rightarrow>
          (let wrong_keys = sort (filter (\<lambda>k. k \<noteq> ''value'') (dict_keys returns))
           in if wrong_keys \<noteq> [] then [Publishes_under var_id wrong_keys (verb_declaration verb)]
              else (case dict_get returns ''value'' of
                      None \<Rightarrow> [Empty_returns var_id (verb_declaration verb)]
                    | Some v \<Rightarrow> check_value_field v var_id verb))
      | _ \<Rightarrow> [Returns_not_mapping var_id])"

text \<open>The checks of an entry whose verb is known, and of an entry; \<open>seen\<close> is the set the loop grows.\<close>

definition check_verb_entry :: "yaml_load \<Rightarrow> (string, pyval) pydict \<Rightarrow> string \<Rightarrow> VariableVerb \<Rightarrow> declaration_finding list" where
  "check_verb_entry load entry var_id verb =
     (case dict_get entry ''secret'' of
        None \<Rightarrow> [] | Some (PBool _) \<Rightarrow> [] | Some s \<Rightarrow> [Secret_not_bool var_id (py_str s)])
     @ check_source entry var_id @ check_value load entry var_id verb @ check_returns entry var_id verb"

definition check_entry ::
  "yaml_load \<Rightarrow> (string, pyval) pydict \<Rightarrow> nat \<Rightarrow> string set \<Rightarrow> declaration_finding list \<times> string set" where
  "check_entry load entry index seen =
     (let var_id = text_or_empty (doc_get entry ''id'')
      in if var_id = [] then ([Entry_without_id index], seen)
         else ((if var_id \<in> seen then [Declared_twice var_id] else [])
               @ (if starts_with var_id ''infrastructure.'' then [Under_bindings var_id]
                  else (let uses = text_or_empty (doc_get entry ''uses'')
                        in if uses = [] then [Without_uses var_id]
                           else (case verb_for uses of
                                   None \<Rightarrow> [unknown_verb var_id uses]
                                 | Some verb \<Rightarrow> check_verb_entry load entry var_id verb))),
               insert var_id seen))"

fun check_entries ::
  "yaml_load \<Rightarrow> string set \<Rightarrow> pyval list \<Rightarrow> nat \<Rightarrow> string set \<Rightarrow> declaration_finding list \<times> string set" where
  "check_entries load secrets [] index seen = ([], seen)"
| "check_entries load secrets (e # es) index seen =
     (let (found, seen1) =
        (case e of
           PDict entry \<Rightarrow>
             (let (fs, s1) = check_entry load entry index seen
              in (fs @ map (\<lambda>(at_path, r). Credential_in_variable (credential_misuse_error r at_path))
                        (credential_references secrets e (''env.variables['' @ nat_text index @ '']'')), s1))
         | _ \<Rightarrow> ([Entry_not_mapping index], seen));
          (rest, seen2) = check_entries load secrets es (Suc index) seen1
      in (found @ rest, seen2))"

definition check_group :: "string set \<Rightarrow> string \<Rightarrow> (string, pyval) pydict list \<Rightarrow> declaration_finding list" where
  "check_group variable_ids grp members =
     (let member_ids = map (\<lambda>m. py_str (doc_get m ''id'')) members;
          verbs = sort (remdups (map (\<lambda>m. text_or_empty (doc_get m ''uses'')) members));
          defaults = map (\<lambda>m. py_str (doc_get m ''id'')) (filter (\<lambda>m. doc_get (dict_at m ''with'') ''default'' = PBool True) members)
      in (if grp \<in> variable_ids then [Group_named_as_variable grp] else [])
         @ (if length members < 2 then [Single_alternative grp (hd member_ids)] else [])
         @ (if 1 < length verbs then [Mixed_group grp verbs] else [])
         @ (if 1 < length defaults then [Many_defaults grp defaults] else []))"

definition check_one_of_groups :: "pyval list \<Rightarrow> string set \<Rightarrow> declaration_finding list" where
  "check_one_of_groups variables variable_ids =
     concat (map (\<lambda>(grp, members). check_group variable_ids grp members) (group_members variables))"

definition validate_variable_declarations ::
  "yaml_load \<Rightarrow> string set \<Rightarrow> (string, pyval) pydict \<Rightarrow> declaration_finding list" where
  "validate_variable_declarations load secrets env_data =
     (case doc_get env_data ''variables'' of
        PNone \<Rightarrow> []
      | PList variables \<Rightarrow>
          (let (found, seen) = check_entries load secrets variables 0 {} in found @ check_one_of_groups variables seen)
      | other \<Rightarrow> [Block_not_list (type_name other)])"

section \<open>Reading a declaration\<close>

datatype VariableSource = VALUE | INPUT | GENERATED

datatype VariableScope = ENGINE | SUT

record VariableDefinition =
  vd_name :: string
  vd_type :: pyval
  vd_default :: pyval
  vd_runtime :: bool
  vd_description :: pyval
  vd_source :: VariableSource
  vd_generator :: "string option"
  vd_format :: pyval
  vd_placeholder :: pyval
  vd_scope :: "VariableScope option"
  vd_secret :: bool

definition no_attribute :: exc where
  "no_attribute = \<lparr>ex_kind = Other_Exception, ex_message = ''object has no attribute get'', ex_code = None, ex_origin = None,
     ex_diagnostics = None, ex_nested = None\<rparr>"

text \<open>\<open>x.get(key) or {}\<close>, of which a \<open>get\<close> is asked next: a value that is true and no mapping has none.\<close>

definition or_mapping :: "pyval \<Rightarrow> exc + (string, pyval) pydict" where
  "or_mapping v = (case v of PDict d \<Rightarrow> Inr d | _ \<Rightarrow> if truthy v then Inl no_attribute else Inr [])"

definition resolve_origin ::
  "string \<Rightarrow> string list \<Rightarrow> (string, pyval) pydict \<Rightarrow> VariableSource \<times> string option \<times> pyval \<times> pyval" where
  "resolve_origin namespace segments with_block =
     (if namespace = ''generate'' then (GENERATED, if 1 < length segments then Some (segments ! 1) else None, PNone, PNone)
      else if py_str (doc_get with_block ''source'') = ''input'' then (INPUT, None, PNone, doc_get with_block ''placeholder'')
      else (VALUE, None, doc_get with_block ''value'', PNone))"

definition type_from_verb_path :: "string \<Rightarrow> string list \<Rightarrow> pyval" where
  "type_from_verb_path namespace segments =
     (if namespace = ''variable'' \<and> 3 \<le> length segments \<and> segments ! 1 = ''type'' then PStr (segments ! 2) else PNone)"

definition variable_scope :: "pyval \<Rightarrow> exc + VariableScope option" where
  "variable_scope raw =
     (if \<not> truthy raw then Inr None
      else if raw = PStr ''engine'' then Inr (Some ENGINE)
      else if raw = PStr ''sut'' then Inr (Some SUT)
      else Inl (value_error (py_repr raw @ '' is not a valid VariableScope'')))"

text \<open>
  \<open>checked\<close> is the validation pydantic makes when the model is built, and \<open>legacy\<close> how it builds one from the fields of
  an entry that names no verb.
\<close>

record form_env =
  fe_checked :: "VariableDefinition \<Rightarrow> exc + VariableDefinition"
  fe_legacy :: "string \<Rightarrow> (string, pyval) pydict \<Rightarrow> exc + VariableDefinition"

definition build_verb_variable :: "form_env \<Rightarrow> string \<Rightarrow> (string, pyval) pydict \<Rightarrow> exc + VariableDefinition" where
  "build_verb_variable env name spec =
     (case (or_mapping (doc_get spec ''with''), or_mapping (doc_get spec ''returns'')) of
        (Inl e, _) \<Rightarrow> Inl e
      | (_, Inl e) \<Rightarrow> Inl e
      | (Inr with_block, Inr returns) \<Rightarrow>
          (case or_mapping (doc_get returns ''value'') of
             Inl e \<Rightarrow> Inl e
           | Inr value_return \<Rightarrow>
               (let uses = (if dict_has spec ''uses'' then py_str (doc_get spec ''uses'') else []);
                    segments = filter (\<lambda>s. s \<noteq> []) (split_on (CHR ''/'') uses);
                    namespace = (case segments of [] \<Rightarrow> [] | s # _ \<Rightarrow> s);
                    (source, generator, dflt, placeholder) = resolve_origin namespace segments with_block;
                    declared_type = (case verb_for uses of
                                       Some verb \<Rightarrow> PStr (vv_type verb)
                                     | None \<Rightarrow> if truthy (doc_get value_return ''type'') then doc_get value_return ''type''
                                              else type_from_verb_path namespace segments)
                in case variable_scope (doc_get with_block ''scope'') of
                     Inl e \<Rightarrow> Inl e
                   | Inr scope \<Rightarrow>
                       fe_checked env
                         \<lparr>vd_name = name, vd_type = (if truthy declared_type then declared_type else PStr ''str''), vd_default = dflt,
                          vd_runtime = (source = INPUT), vd_description = doc_get spec ''description'', vd_source = source,
                          vd_generator = generator, vd_format = doc_get value_return ''format'', vd_placeholder = placeholder,
                          vd_scope = scope, vd_secret = (doc_get spec ''secret'' = PBool True)\<rparr>)))"

definition to_variable_definition :: "form_env \<Rightarrow> string \<Rightarrow> pyval \<Rightarrow> exc + VariableDefinition" where
  "to_variable_definition env name spec =
     (case spec of
        PDict d \<Rightarrow> if dict_has d ''uses'' then build_verb_variable env name d else fe_legacy env name d
      | _ \<Rightarrow> Inr \<lparr>vd_name = name, vd_type = PStr ''str'', vd_default = spec, vd_runtime = False, vd_description = PNone,
                 vd_source = VALUE, vd_generator = None, vd_format = PNone, vd_placeholder = PNone, vd_scope = None,
                 vd_secret = False\<rparr>)"

fun parse_variable_list ::
  "form_env \<Rightarrow> pyval list \<Rightarrow> (string, VariableDefinition) pydict \<Rightarrow> exc + (string, VariableDefinition) pydict" where
  "parse_variable_list env [] result = Inr result"
| "parse_variable_list env (PDict entry # rest) result =
     (if truthy (doc_get entry ''id'')
      then (let name = py_str (doc_get entry ''id'')
            in case to_variable_definition env name (PDict entry) of
                 Inl e \<Rightarrow> Inl e | Inr d \<Rightarrow> parse_variable_list env rest (dict_set name d result))
      else Inl (value_error (''variable list entry is missing required '' @ [CHR 0x27] @ ''id'' @ [CHR 0x27])))"
| "parse_variable_list env (e # rest) result =
     Inl (value_error (''variable list entries must be mappings, got '' @ type_name e))"

fun parse_variable_mapping ::
  "form_env \<Rightarrow> (string \<times> pyval) list \<Rightarrow> exc + (string, VariableDefinition) pydict" where
  "parse_variable_mapping env [] = Inr []"
| "parse_variable_mapping env ((name, spec) # rest) =
     (case to_variable_definition env name spec of
        Inl e \<Rightarrow> Inl e | Inr d \<Rightarrow> map_ok ((#) (name, d)) (parse_variable_mapping env rest))"

definition parse_variables_block :: "form_env \<Rightarrow> pyval \<Rightarrow> exc + (string, VariableDefinition) pydict" where
  "parse_variables_block env raw =
     (if \<not> truthy raw then Inr []
      else (case raw of
              PList entries \<Rightarrow> parse_variable_list env entries []
            | PDict d \<Rightarrow> parse_variable_mapping env d
            | _ \<Rightarrow> Inl no_attribute))"

text \<open>\<open>Tck.required_variables\<close>.\<close>

definition required_variables :: "(string, VariableDefinition) pydict \<Rightarrow> (string, VariableDefinition) pydict" where
  "required_variables = filter (\<lambda>(name, var). vd_runtime var \<and> vd_default var = PNone)"

section \<open>Seeding\<close>

definition declared_variables :: "pyval \<Rightarrow> (string, pyval) pydict list" where
  "declared_variables raw =
     (case raw of PList entries \<Rightarrow> filter (\<lambda>n. truthy (doc_get n ''id'')) (map snd (mappings entries)) | _ \<Rightarrow> [])"

definition declared_type :: "(string, pyval) pydict \<Rightarrow> exc + string option" where
  "declared_type var =
     (case verb_for (text_or_empty (doc_get var ''uses'')) of
        Some verb \<Rightarrow> Inr (Some (vv_type verb))
      | None \<Rightarrow>
          (case or_mapping (doc_get var ''returns'') of
             Inl e \<Rightarrow> Inl e
           | Inr returns \<Rightarrow>
               (case doc_get returns ''value'' of
                  PDict d \<Rightarrow> Inr (if truthy (doc_get d ''type'') then Some (Values.lower (strip (py_str (doc_get d ''type'')))) else None)
                | _ \<Rightarrow> Inr None)))"

fun declared_types :: "(string, pyval) pydict list \<Rightarrow> (string, string option) pydict \<Rightarrow> exc + (string, string) pydict" where
  "declared_types [] types = Inr (List.map_filter (\<lambda>(n, t). if nonempty_text t then Some (n, the t) else None) types)"
| "declared_types (var # vars) types =
     (case declared_type var of
        Inl e \<Rightarrow> Inl e
      | Inr t \<Rightarrow> declared_types vars (dict_set (py_str (doc_get var ''id'')) t types))"

definition as_declared_type :: "yaml_load \<Rightarrow> string \<Rightarrow> pyval \<Rightarrow> string option \<Rightarrow> exc + pyval" where
  "as_declared_type load name val declared =
     (case read_as_declared load val declared of
        (parsed, None) \<Rightarrow> Inr parsed
      | (_, Some problem) \<Rightarrow> Inl (variable_type_error name (case declared of None \<Rightarrow> [] | Some t \<Rightarrow> t) problem))"

definition seed_entry :: "yaml_load \<Rightarrow> string \<Rightarrow> (string, pyval) pydict \<Rightarrow> StepContext \<times> Registry \<Rightarrow> exc + StepContext \<times> Registry" where
  "seed_entry load job var xg =
     (case or_mapping (doc_get var ''with'') of
        Inl e \<Rightarrow> Inl e
      | Inr with_block \<Rightarrow>
          (let val = doc_get with_block ''value''; var_id = py_str (doc_get var ''id'')
           in if val = PNone then Inr xg
              else (case declared_type var of
                      Inl e \<Rightarrow> Inl e
                    | Inr t \<Rightarrow>
                        (case as_declared_type load var_id val t of
                           Inl e \<Rightarrow> Inl e
                         | Inr parsed \<Rightarrow>
                             map_ok (\<lambda>y. (y, if doc_get var ''secret'' = PBool True
                                            then fst (register_secret val (Some job) True False (snd xg)) else snd xg))
                               (set_template var_id parsed (fst xg))))))"

fun seed_entries :: "yaml_load \<Rightarrow> string \<Rightarrow> (string, pyval) pydict list \<Rightarrow> StepContext \<times> Registry \<Rightarrow> exc + StepContext \<times> Registry" where
  "seed_entries load job [] xg = Inr xg"
| "seed_entries load job (var # vars) xg =
     (case seed_entry load job var xg of Inl e \<Rightarrow> Inl e | Inr yg \<Rightarrow> seed_entries load job vars yg)"

fun set_templates :: "(string \<times> pyval) list \<Rightarrow> StepContext \<Rightarrow> exc + StepContext" where
  "set_templates [] x = Inr x"
| "set_templates ((name, v) # rest) x = (case set_template name v x of Inl e \<Rightarrow> Inl e | Inr y \<Rightarrow> set_templates rest y)"

definition seed_env_variables :: "yaml_load \<Rightarrow> string \<Rightarrow> pyval \<Rightarrow> StepContext \<times> Registry \<Rightarrow> exc + StepContext \<times> Registry" where
  "seed_env_variables load job raw xg =
     (let vars = declared_variables raw
      in case seed_entries load job vars xg of
           Inl e \<Rightarrow> Inl e
         | Inr (y, g) \<Rightarrow>
             map_ok (\<lambda>z. (z, g)) (set_templates (map (\<lambda>(grp, members). (grp, group_value members)) (group_members (map PDict vars))) y))"

section \<open>The files of the package\<close>

text \<open>
  A file of the package as its path names it, the JSON it holds and an API document are arguments; \<open>ae_package_path\<close>
  is \<open>package_path\<close>, which refuses a name that leaves the package.
\<close>

record asset_env =
  ae_package_path :: "string \<Rightarrow> exc + string"
  ae_is_file :: "string \<Rightarrow> bool"
  ae_json :: "string \<Rightarrow> pyval option"
  ae_api :: "string \<Rightarrow> string \<Rightarrow> pyval option"

record asset_entry =
  at_id :: string
  at_source :: string
  at_type :: string

definition resolve_asset_path :: "asset_env \<Rightarrow> string \<Rightarrow> string \<Rightarrow> exc + string option" where
  "resolve_asset_path env folder source =
     (case (ae_package_path env (''assets/'' @ folder @ ''/'' @ source), ae_package_path env (folder @ ''/'' @ source)) of
        (Inl e, _) \<Rightarrow> Inl e
      | (_, Inl e) \<Rightarrow> Inl e
      | (Inr compiled, Inr raw) \<Rightarrow> Inr (if ae_is_file env compiled then Some compiled else if ae_is_file env raw then Some raw else None))"

fun load_json_assets :: "asset_env \<Rightarrow> string \<Rightarrow> asset_entry list \<Rightarrow> StepContext \<Rightarrow> exc + StepContext" where
  "load_json_assets env folder [] x = Inr x"
| "load_json_assets env folder (a # as) x =
     (case resolve_asset_path env folder (at_source a) of
        Inl e \<Rightarrow> Inl e
      | Inr path \<Rightarrow>
          (case Option.bind path (ae_json env) of
             None \<Rightarrow> load_json_assets env folder as x
           | Some content \<Rightarrow>
               (case set_templates [(folder @ ''.'' @ at_id a, content), (''env.'' @ folder @ ''.'' @ at_id a, content)] x of
                  Inl e \<Rightarrow> Inl e | Inr y \<Rightarrow> load_json_assets env folder as y)))"

fun load_apis :: "asset_env \<Rightarrow> asset_entry list \<Rightarrow> StepContext \<Rightarrow> exc + StepContext" where
  "load_apis env [] x = Inr x"
| "load_apis env (a # as) x =
     (case resolve_asset_path env ''apis'' (at_source a) of
        Inl e \<Rightarrow> Inl e
      | Inr path \<Rightarrow>
          (case Option.bind path (\<lambda>p. ae_api env p (at_type a)) of
             None \<Rightarrow> load_apis env as x
           | Some document \<Rightarrow>
               (case set_variable (''apis.'' @ at_id a) document x of Inl e \<Rightarrow> Inl e | Inr y \<Rightarrow> load_apis env as y)))"

record tck_env =
  te_base_dir :: "string option"
  te_variables :: pyval
  te_testdata :: "asset_entry list"
  te_schemas :: "asset_entry list"
  te_apis :: "asset_entry list"
  te_shared :: "(string, pyval) pydict"

definition load_env_assets :: "asset_env \<Rightarrow> tck_env \<Rightarrow> StepContext \<Rightarrow> exc + StepContext" where
  "load_env_assets env tck x =
     (case load_json_assets env ''testdata'' (te_testdata tck) x of
        Inl e \<Rightarrow> Inl e
      | Inr y \<Rightarrow> (case load_json_assets env ''schemas'' (te_schemas tck) y of
                    Inl e \<Rightarrow> Inl e | Inr z \<Rightarrow> load_apis env (te_apis tck) z))"

section \<open>The inputs of the run\<close>

record seed_env =
  se_load :: yaml_load
  se_form :: form_env
  se_assets :: asset_env
  se_compiles :: "regex \<Rightarrow> bool"
  se_redaction :: redaction_env

definition is_secret_input :: "seed_env \<Rightarrow> string set \<Rightarrow> string \<Rightarrow> bool" where
  "is_secret_input env secret key = (key \<in> secret \<or> is_secret_key (rd_headers (se_redaction env)) key)"

definition input_text :: "seed_env \<Rightarrow> string set \<Rightarrow> string \<Rightarrow> pyval \<Rightarrow> pyval" where
  "input_text env secret key val =
     (if is_secret_input env secret key then (case val of PStr s \<Rightarrow> PStr (strip s) | _ \<Rightarrow> val) else val)"

fun seed_inputs ::
  "seed_env \<Rightarrow> string \<Rightarrow> (string, string) pydict \<Rightarrow> string set \<Rightarrow> (string \<times> pyval) list \<Rightarrow> StepContext \<times> Registry
   \<Rightarrow> exc + StepContext \<times> Registry" where
  "seed_inputs env job declared secret [] xg = Inr xg"
| "seed_inputs env job declared secret ((key, val) # rest) xg =
     (case as_declared_type (se_load env) key (input_text env secret key val) (dict_get declared key) of
        Inl e \<Rightarrow> Inl e
      | Inr parsed \<Rightarrow>
          (case set_variable key parsed (fst xg) of
             Inl e \<Rightarrow> Inl e
           | Inr y \<Rightarrow> seed_inputs env job declared secret rest
                       (y, if is_secret_input env secret key then fst (register_secret parsed (Some job) True False (snd xg)) else snd xg)))"

definition keep_inputs :: "seed_env \<Rightarrow> string set \<Rightarrow> (string, pyval) pydict \<Rightarrow> Registry \<Rightarrow> Registry \<times> pyval" where
  "keep_inputs env secret runtime_vars g =
     written_value (se_compiles env) (se_redaction env)
       (PDict (map (\<lambda>(key, v). (key, if key \<in> secret then PStr REDACTED_VALUE else v)) runtime_vars)) g"

text \<open>The context, the masking registry and what the job keeps of its inputs (\<open>None\<close>: the job's field is left as it was).\<close>

type_synonym seeded = "StepContext \<times> Registry \<times> pyval option"

definition seed_runtime ::
  "seed_env \<Rightarrow> string \<Rightarrow> tck_env \<Rightarrow> (string, pyval) pydict \<Rightarrow> StepContext \<times> Registry \<Rightarrow> exc + seeded" where
  "seed_runtime env job tck runtime_vars xg =
     (if runtime_vars = [] then Inr (fst xg, snd xg, None)
      else (case (declared_types (declared_variables (te_variables tck)) [], parse_variables_block (se_form env) (te_variables tck)) of
              (Inl e, _) \<Rightarrow> Inl e
            | (_, Inl e) \<Rightarrow> Inl e
            | (Inr declared, Inr variables) \<Rightarrow>
                (let secret = set (map fst (filter (\<lambda>(name, var). vd_secret var) variables))
                 in case seed_inputs env job declared secret runtime_vars xg of
                      Inl e \<Rightarrow> Inl e
                    | Inr (y, g) \<Rightarrow> (let (g1, kept) = keep_inputs env secret runtime_vars g in Inr (y, g1, Some kept)))))"

definition seed_package :: "seed_env \<Rightarrow> string \<Rightarrow> tck_env \<Rightarrow> StepContext \<times> Registry \<Rightarrow> exc + StepContext \<times> Registry" where
  "seed_package env job tck xg =
     (case (case te_base_dir tck of
              None \<Rightarrow> Inr (fst xg)
            | Some dir \<Rightarrow> (case set_variable ''_tck_root'' (PStr dir) (fst xg) of
                              Inl e \<Rightarrow> Inl e | Inr y \<Rightarrow> load_env_assets (se_assets env) tck y)) of
        Inl e \<Rightarrow> Inl e
      | Inr y \<Rightarrow> (case set_templates (filter (\<lambda>(name, d). d \<noteq> PNone) (te_shared tck)) y of
                    Inl e \<Rightarrow> Inl e
                  | Inr z \<Rightarrow> seed_env_variables (se_load env) job (te_variables tck) (z, snd xg)))"

definition seed_context_variables ::
  "seed_env \<Rightarrow> string \<Rightarrow> tck_env \<Rightarrow> (string, pyval) pydict \<Rightarrow> StepContext \<times> Registry \<Rightarrow> exc + seeded" where
  "seed_context_variables env job tck runtime_vars xg =
     (case seed_package env job tck xg of
        Inl e \<Rightarrow> Inl e
      | Inr yg \<Rightarrow>
          (case seed_runtime env job tck runtime_vars yg of
             Inl e \<Rightarrow> Inl e
           | Inr (z, g, kept) \<Rightarrow>
               (case set_variable ''execution.id'' (PStr job) z of
                  Inl e \<Rightarrow> Inl e
                | Inr w \<Rightarrow> map_ok (\<lambda>w'. (w', g, kept)) (set_variable ''execution.resource_prefix'' (PStr (cx_resource_prefix w)) w))))"

definition missing_inputs :: "StepContext \<Rightarrow> (string, VariableDefinition) pydict \<Rightarrow> (string \<times> string) list" where
  "missing_inputs x variables =
     List.map_filter (\<lambda>(name, var). if strip (text_or_empty (get_variable x name)) = []
        then Some (name, text_or_empty (vd_description var)) else None) (required_variables variables)"

definition infrastructure_error :: "string \<Rightarrow> exc" where
  "infrastructure_error message =
     (authoring_error message)\<lparr>ex_code := Some ''INFRASTRUCTURE_ERROR'', ex_origin := Some ''infrastructure''\<rparr>"

definition require_inputs :: "form_env \<Rightarrow> StepContext \<Rightarrow> tck_env \<Rightarrow> exc + unit" where
  "require_inputs env x tck =
     (case parse_variables_block env (te_variables tck) of
        Inl e \<Rightarrow> Inl e
      | Inr variables \<Rightarrow>
          (let missing = missing_inputs x variables
           in if missing = [] then Inr ()
              else Inl (infrastructure_error (''This TCK needs '' @ nat_text (length missing) @ '' input variable(s) that were not supplied:'' @ [CHR 10]
                     @ join_with [CHR 10] (map (\<lambda>(name, d). ''      '' @ name @ (if d = [] then [] else '' -- '' @ d)) missing) @ [CHR 10]
                     @ ''  Set them under '' @ [CHR 0x27] @ ''variables:'' @ [CHR 0x27] @ '' in the run config, or pass --var name=value.''))))"

section \<open>A block that compiles is seeded\<close>

text \<open>What a run holds of a variable: text under a structured type is held as the structure it reads as, anything else as it is.\<close>

definition reads_as :: "yaml_load \<Rightarrow> string option \<Rightarrow> pyval \<Rightarrow> pyval \<Rightarrow> bool" where
  "reads_as load t v w =
     (case v of
        PStr s \<Rightarrow> if t = Some ''object'' then load s = Inr w \<and> (\<exists>d. w = PDict d)
                 else if t = Some ''array'' then load s = Inr w \<and> (\<exists>xs. w = PList xs) else w = v
      | _ \<Rightarrow> w = v)"

lemma read_as_declared_fits: "read_as_declared load v t = (w, None) \<Longrightarrow> reads_as load t v w"
  by (auto simp: read_as_declared_def reads_as_def structured_as_def split: pyval.splits sum.splits if_splits option.splits)

lemma as_declared_type_Inr: "as_declared_type load name v t = Inr w \<longleftrightarrow> read_as_declared load v t = (w, None)"
  by (auto simp: as_declared_type_def split: prod.splits option.splits)

lemma as_declared_type_fits: "as_declared_type load name v t = Inr w \<Longrightarrow> reads_as load t v w"
  by (simp add: as_declared_type_Inr read_as_declared_fits)

lemma nat_text_not_nil: "nat_text n \<noteq> []"
  by (subst nat_text.simps) (simp split: if_splits)

lemma text_or_empty_Nil: "text_or_empty v = [] \<longleftrightarrow> \<not> truthy v"
  by (cases v) (auto simp: text_or_empty_def truthy_def py_str_def int_text_def nat_text_not_nil REDACTED_VALUE_def)

lemma text_or_empty_truthy: "truthy v \<Longrightarrow> text_or_empty v = py_str v"
  by (simp add: text_or_empty_def)

definition entry_id :: "(string, pyval) pydict \<Rightarrow> string" where
  "entry_id n = py_str (doc_get n ''id'')"

definition good_entry :: "yaml_load \<Rightarrow> (string, pyval) pydict \<Rightarrow> bool" where
  "good_entry load n =
     (truthy (doc_get n ''id'') \<and>
      (case verb_for (text_or_empty (doc_get n ''uses'')) of None \<Rightarrow> False | Some verb \<Rightarrow> check_verb_entry load n (entry_id n) verb = []))"

lemma check_entry_good:
  assumes "fst (check_entry load n i seen) = []"
  shows "good_entry load n" "entry_id n \<notin> seen" "snd (check_entry load n i seen) = insert (entry_id n) seen"
proof -
  have t: "truthy (doc_get n ''id'')"
    using assms by (auto simp: check_entry_def Let_def text_or_empty_Nil split: if_splits)
  then have i: "text_or_empty (doc_get n ''id'') = entry_id n" "entry_id n \<noteq> []"
    using text_or_empty_Nil [of "doc_get n ''id''"] by (simp_all add: entry_id_def text_or_empty_def)
  show "good_entry load n" "entry_id n \<notin> seen" "snd (check_entry load n i seen) = insert (entry_id n) seen"
    using assms t by (simp_all add: check_entry_def Let_def i good_entry_def split: if_splits option.splits)
qed


fun mapping_items :: "pyval list \<Rightarrow> (string, pyval) pydict list" where
  "mapping_items [] = []"
| "mapping_items (PDict n # es) = n # mapping_items es"
| "mapping_items (e # es) = mapping_items es"

lemma mapping_items_enumerate:
  "map snd (concat (map (\<lambda>(i, x). case x of PDict n \<Rightarrow> [(i, n)] | _ \<Rightarrow> []) (enumerate i es))) = mapping_items es"
  by (induction es arbitrary: i rule: mapping_items.induct) auto

lemma mappings_items: "map snd (mappings es) = mapping_items es"
  unfolding mappings_def by (rule mapping_items_enumerate)

lemma declared_variables_items: "declared_variables (PList es) = filter (\<lambda>n. truthy (doc_get n ''id'')) (mapping_items es)"
  by (simp add: declared_variables_def mappings_items)

lemma check_entries_good:
  "fst (check_entries load secrets es i seen) = [] \<Longrightarrow>
   (\<forall>n\<in>set (mapping_items es). good_entry load n) \<and> distinct (map entry_id (mapping_items es))
   \<and> entry_id ` set (mapping_items es) \<inter> seen = {}
   \<and> snd (check_entries load secrets es i seen) = seen \<union> entry_id ` set (mapping_items es)"
proof (induction es arbitrary: i seen rule: mapping_items.induct)
  case (2 n es)
  let ?c = "check_entry load n i seen"
  have c: "fst ?c = []" and r: "fst (check_entries load secrets es (Suc i) (snd ?c)) = []"
    using "2.prems" by (simp_all add: Let_def split_beta)
  note g = check_entry_good [OF c] and rest = "2.IH" [OF r]
  have s: "snd (check_entries load secrets (PDict n # es) i seen) = snd (check_entries load secrets es (Suc i) (snd ?c))"
    by (simp add: Let_def split_beta)
  show ?case unfolding s using g rest by auto
qed (auto simp: Let_def split_beta)

lemma check_verb_entry_parts:
  assumes "check_verb_entry load n var_id verb = []"
  shows "check_source n var_id = []" "check_value load n var_id verb = []"
  using assms by (simp_all add: check_verb_entry_def)

lemma check_source_with: "check_source n var_id = [] \<Longrightarrow> or_mapping (doc_get n ''with'') = Inr (dict_at n ''with'')"
  by (auto simp: check_source_def or_mapping_def dict_at_def doc_get_def split: option.splits pyval.splits if_splits)

lemma seed_entry_good:
  assumes good: "good_entry load n" and unsealed: "cx_sealed x = []"
  obtains t y g' where "declared_type n = Inr (Some t)" "seed_entry load job n (x, g) = Inr (y, g')" "cx_sealed y = []"
    "doc_get (dict_at n ''with'') ''value'' = PNone \<Longrightarrow> y = x"
    "doc_get (dict_at n ''with'') ''value'' \<noteq> PNone \<Longrightarrow>
       \<exists>w. reads_as load (Some t) (doc_get (dict_at n ''with'') ''value'') w \<and> set_template (entry_id n) w x = Inr y"
proof -
  obtain verb where verb: "verb_for (text_or_empty (doc_get n ''uses'')) = Some verb" "check_verb_entry load n (entry_id n) verb = []"
    using good by (auto simp: good_entry_def split: option.splits)
  note parts = check_verb_entry_parts [OF verb(2)]
  have w: "or_mapping (doc_get n ''with'') = Inr (dict_at n ''with'')" by (rule check_source_with [OF parts(1)])
  have t: "declared_type n = Inr (Some (vv_type verb))" by (simp add: declared_type_def verb)
  let ?v = "doc_get (dict_at n ''with'') ''value''"
  show ?thesis
  proof (cases "?v = PNone")
    case True
    then show ?thesis using that [OF t, of x g] w unsealed by (simp add: seed_entry_def)
  next
    case False
    then have "snd (read_as_declared load ?v (Some (vv_type verb))) = None"
      using parts(2) by (auto simp: check_value_def doc_get_def split: option.splits)
    then obtain p where p: "read_as_declared load ?v (Some (vv_type verb)) = (p, None)" by (cases "read_as_declared load ?v (Some (vv_type verb))") auto
    have st: "set_template (entry_id n) p x = Inr (x\<lparr>cx_variables := dict_set (entry_id n) p (cx_variables x), cx_templates := insert (entry_id n) (cx_templates x)\<rparr>)"
      by (simp add: set_template_def writable_def unsealed)
    have a: "as_declared_type load (entry_id n) ?v (Some (vv_type verb)) = Inr p" by (simp add: as_declared_type_Inr p)
    show ?thesis
    proof (rule that [OF t])
      show "seed_entry load job n (x, g) = Inr (x\<lparr>cx_variables := dict_set (entry_id n) p (cx_variables x), cx_templates := insert (entry_id n) (cx_templates x)\<rparr>,
              if doc_get n ''secret'' = PBool True then fst (register_secret ?v (Some job) True False g) else g)"
        using False a st by (simp add: seed_entry_def w t entry_id_def Let_def)
    qed (use False unsealed st read_as_declared_fits [OF p] in auto)
  qed
qed

definition same_at :: "string \<Rightarrow> StepContext \<Rightarrow> StepContext \<Rightarrow> bool" where
  "same_at name x y = (dict_get (cx_variables y) name = dict_get (cx_variables x) name \<and> (name \<in> cx_templates y \<longleftrightarrow> name \<in> cx_templates x))"

definition entry_held :: "yaml_load \<Rightarrow> StepContext \<Rightarrow> (string, pyval) pydict \<Rightarrow> bool" where
  "entry_held load y n =
     (let v = doc_get (dict_at n ''with'') ''value''
      in v \<noteq> PNone \<longrightarrow>
         is_template y (entry_id n)
         \<and> (\<exists>t w. declared_type n = Inr (Some t) \<and> reads_as load (Some t) v w \<and> dict_get (cx_variables y) (entry_id n) = Some w))"

lemma entry_held_same: "same_at (entry_id n) x y \<Longrightarrow> entry_held load x n \<Longrightarrow> entry_held load y n"
  by (auto simp: entry_held_def same_at_def is_template_def Let_def)

lemma set_template_same: "set_template k v x = Inr y \<Longrightarrow> name \<noteq> k \<Longrightarrow> same_at name x y"
  by (auto simp: set_template_def same_at_def dict_get_set split: if_splits)

lemma set_template_held: "set_template k v x = Inr y \<Longrightarrow> dict_get (cx_variables y) k = Some v \<and> k \<in> cx_templates y"
  by (auto simp: set_template_def dict_get_set split: if_splits)

lemma same_at_refl: "same_at name x x"
  by (simp add: same_at_def)

lemma same_at_trans: "same_at name x y \<Longrightarrow> same_at name y z \<Longrightarrow> same_at name x z"
  by (simp add: same_at_def)

lemma seed_entries_good:
  assumes "\<forall>n\<in>set vars. good_entry load n" "distinct (map entry_id vars)" "cx_sealed x = []"
  shows "\<exists>y g'. seed_entries load job vars (x, g) = Inr (y, g') \<and> cx_sealed y = [] \<and> (\<forall>n\<in>set vars. entry_held load y n)
           \<and> (\<forall>name. name \<notin> entry_id ` set vars \<longrightarrow> same_at name x y)"
  using assms
proof (induction vars arbitrary: x g)
  case (Cons n vars)
  obtain t y g' where e: "declared_type n = Inr (Some t)" "seed_entry load job n (x, g) = Inr (y, g')" "cx_sealed y = []"
    "doc_get (dict_at n ''with'') ''value'' = PNone \<Longrightarrow> y = x"
    "doc_get (dict_at n ''with'') ''value'' \<noteq> PNone \<Longrightarrow>
       \<exists>w. reads_as load (Some t) (doc_get (dict_at n ''with'') ''value'') w \<and> set_template (entry_id n) w x = Inr y"
    using seed_entry_good [OF _ Cons.prems(3), of load n job g thesis] Cons.prems(1) by simp
  have held: "entry_held load y n"
    using e(1,5) by (auto simp: entry_held_def Let_def is_template_def dest: set_template_held)
  have same: "name \<noteq> entry_id n \<Longrightarrow> same_at name x y" for name
    using e(4,5) by (cases "doc_get (dict_at n ''with'') ''value'' = PNone") (auto simp: same_at_refl dest: set_template_same)
  obtain z h where r: "seed_entries load job vars (y, g') = Inr (z, h)" "cx_sealed z = []" "\<forall>m\<in>set vars. entry_held load z m"
    "\<forall>name. name \<notin> entry_id ` set vars \<longrightarrow> same_at name y z"
    using Cons.IH [of y g'] Cons.prems e(3) by auto
  have "entry_held load z n" using r(4) Cons.prems(2) held by (auto intro: entry_held_same)
  then show ?case using e(2) r same by (auto intro: same_at_trans)
qed (simp add: same_at_refl)

lemma set_templates_seeded:
  assumes "distinct (map fst ts)" "cx_sealed x = []"
  shows "\<exists>y. set_templates ts x = Inr y \<and> (\<forall>(k, v)\<in>set ts. is_template y k \<and> dict_get (cx_variables y) k = Some v)
           \<and> (\<forall>name. name \<notin> fst ` set ts \<longrightarrow> same_at name x y)"
  using assms
proof (induction ts arbitrary: x)
  case (Cons kv ts)
  obtain k v where kv: "kv = (k, v)" by (cases kv)
  obtain y where y: "set_template k v x = Inr y" "cx_sealed y = []"
    using Cons.prems(2) by (auto simp: set_template_def writable_def)
  obtain z where z: "set_templates ts y = Inr z" "\<forall>(k, v)\<in>set ts. is_template z k \<and> dict_get (cx_variables z) k = Some v"
    "\<forall>name. name \<notin> fst ` set ts \<longrightarrow> same_at name y z"
    using Cons.IH [of y] Cons.prems(1) y(2) by auto
  have "same_at k y z" using z(3) Cons.prems(1) by (simp add: kv)
  then have "is_template z k \<and> dict_get (cx_variables z) k = Some v"
    using set_template_held [OF y(1)] by (simp add: same_at_def is_template_def)
  then show ?case using y z by (auto simp: kv intro: same_at_trans dest: set_template_same [OF y(1)])
qed (simp add: same_at_refl)

lemma keys_setdefault_append: "map fst (setdefault_append k i d) = (if k \<in> set (map fst d) then map fst d else map fst d @ [k])"
  by (induction d) force+

lemma group_members_items:
  "fold (\<lambda>e groups. case e of
        PDict n \<Rightarrow> (if truthy (doc_get n ''id'')
                   then (case group_of n of None \<Rightarrow> groups | Some g \<Rightarrow> setdefault_append g n groups) else groups)
      | _ \<Rightarrow> groups) (map PDict (filter (\<lambda>n. truthy (doc_get n ''id'')) (mapping_items es))) acc =
   fold (\<lambda>e groups. case e of
        PDict n \<Rightarrow> (if truthy (doc_get n ''id'')
                   then (case group_of n of None \<Rightarrow> groups | Some g \<Rightarrow> setdefault_append g n groups) else groups)
      | _ \<Rightarrow> groups) es acc"
  by (induction es arbitrary: acc rule: mapping_items.induct) auto

lemma group_members_declared: "group_members (map PDict (declared_variables (PList es))) = group_members es"
  unfolding group_members_def declared_variables_items by (rule group_members_items)

lemma group_members_distinct: "distinct (map fst (group_members es))"
proof -
  have "distinct (map fst acc) \<Longrightarrow> distinct (map fst (fold (\<lambda>e groups. case e of
        PDict n \<Rightarrow> (if truthy (doc_get n ''id'')
                   then (case group_of n of None \<Rightarrow> groups | Some g \<Rightarrow> setdefault_append g n groups) else groups)
      | _ \<Rightarrow> groups) es acc))" for acc :: "(string, (string, pyval) pydict list) pydict"
    by (induction es arbitrary: acc) (auto simp: keys_setdefault_append split: pyval.splits option.splits)
  then show ?thesis by (simp add: group_members_def)
qed

lemma check_one_of_groups_apart: "check_one_of_groups es ids = [] \<Longrightarrow> (g, ms) \<in> set (group_members es) \<Longrightarrow> g \<notin> ids"
  by (force simp: check_one_of_groups_def check_group_def Let_def split: if_splits)


definition demo_yaml :: yaml_load where
  "demo_yaml s = (if s = ''{leftOperand: Membership}'' then Inr (PDict [(''leftOperand'', PStr ''Membership'')])
                  else if s = ''{k: pass}'' then Inr (PDict [(''k'', PStr ''pass'')])
                  else Inl \<lparr>ye_problem = None, ye_context = None, ye_mark = None, ye_first_line = ''no YAML''\<rparr>)"

definition demo_alternative :: "string \<Rightarrow> pyval \<Rightarrow> pyval" where
  "demo_alternative name v = PDict [(''id'', PStr name), (''uses'', PStr ''config/connector/policy''),
     (''with'', PDict [(''source'', PStr ''register''), (''one_of'', PStr ''usage_policy''), (''value'', v)]),
     (''returns'', PDict [(''value'', PDict [(''type'', PStr ''object''), (''class'', PStr ''Policy'')])])]"

definition demo_block :: "(string, pyval) pydict" where
  "demo_block = [(''variables'', PList [demo_alternative ''plain'' (PStr ''{leftOperand: Membership}''), demo_alternative ''inline'' (PDict [])])]"

lemma demo_block_valid: "validate_variable_declarations demo_yaml {} demo_block = []"
  by code_simp

definition the_entry :: "pyval \<Rightarrow> (string, pyval) pydict" where
  "the_entry v = (case v of PDict d \<Rightarrow> d | _ \<Rightarrow> [])"

definition demo_plain :: "(string, pyval) pydict" where
  "demo_plain = the_entry (demo_alternative ''plain'' (PStr ''{leftOperand: Membership}''))"

lemma demo_declared:
  "demo_plain \<in> set (declared_variables (doc_get demo_block ''variables''))"
  "group_members (map PDict (declared_variables (doc_get demo_block ''variables''))) =
     [(''usage_policy'', [demo_plain, the_entry (demo_alternative ''inline'' (PDict []))])]"
  "group_value [demo_plain, the_entry (demo_alternative ''inline'' (PDict []))] = PList [PStr ''${{ env.plain }}'', PStr ''${{ env.inline }}'']"
  "doc_get (dict_at demo_plain ''with'') ''value'' = PStr ''{leftOperand: Membership}''"
  "entry_id demo_plain = ''plain''"
  "declared_type demo_plain = Inr (Some ''object'')"
  by code_simp+


section \<open>Whose values a run starts with\<close>

text \<open>
  What the seeding of a package keeps of a context: it writes templates of any name and data outside the bindings'
  namespace, nothing else.
\<close>

lemma map_ok_Inr: "map_ok f r = Inr y \<longleftrightarrow> (\<exists>x. r = Inr x \<and> y = f x)"
  by (cases r) auto

locale seeding_invariant =
  fixes I :: "StepContext \<Rightarrow> bool"
  assumes template: "set_template n v x = Inr y \<Longrightarrow> I x \<Longrightarrow> I y"
    and data: "set_variable n v x = Inr y \<Longrightarrow> \<not> starts_with n ''infrastructure.'' \<Longrightarrow> I x \<Longrightarrow> I y"
begin

lemma templates: "set_templates ts x = Inr y \<Longrightarrow> I x \<Longrightarrow> I y"
  by (induction ts x rule: set_templates.induct) (auto dest: template split: sum.splits)

lemma json_assets: "load_json_assets env folder as x = Inr y \<Longrightarrow> I x \<Longrightarrow> I y"
proof (induction as arbitrary: x)
  case (Cons a as)
  then show ?case
    by (auto simp del: set_templates.simps split: sum.splits option.splits dest: templates)
qed simp

lemma apis: "load_apis env as x = Inr y \<Longrightarrow> I x \<Longrightarrow> I y"
proof (induction as arbitrary: x)
  case (Cons a as)
  have "set_variable (''apis.'' @ at_id a) v x = Inr z \<Longrightarrow> I z" for v z
    using data Cons.prems(2) by simp
  then show ?case using Cons by (auto split: sum.splits option.splits)
qed simp

lemma env_assets: "load_env_assets env tck x = Inr y \<Longrightarrow> I x \<Longrightarrow> I y"
  by (auto simp: load_env_assets_def dest: json_assets apis split: sum.splits)

lemma entry: "seed_entry load job var (x, g) = Inr (y, g') \<Longrightarrow> I x \<Longrightarrow> I y"
  by (auto simp: seed_entry_def Let_def map_ok_Inr dest: template split: sum.splits if_splits)

lemma entries: "seed_entries load job vars xg = Inr yg \<Longrightarrow> I (fst xg) \<Longrightarrow> I (fst yg)"
  by (induction load job vars xg rule: seed_entries.induct) (auto dest: entry split: sum.splits prod.splits)

lemma env_variables: "seed_env_variables load job raw (x, g) = Inr (y, g') \<Longrightarrow> I x \<Longrightarrow> I y"
  by (auto simp: seed_env_variables_def Let_def map_ok_Inr split: sum.splits prod.splits dest!: templates entries)

lemma package: "seed_package env job tck (x, g) = Inr (y, g') \<Longrightarrow> I x \<Longrightarrow> I y"
  by (auto simp: seed_package_def dest!: templates env_variables env_assets data split: sum.splits option.splits)

end

text \<open>A value of the bindings' namespace that is data is one \<open>Q\<close> vouches for.\<close>

definition bindings_from :: "(string \<Rightarrow> pyval \<Rightarrow> bool) \<Rightarrow> StepContext \<Rightarrow> bool" where
  "bindings_from Q x =
     (\<forall>n v. dict_get (cx_variables x) n = Some v \<longrightarrow> n \<notin> cx_templates x \<longrightarrow> starts_with n ''infrastructure.'' \<longrightarrow> Q n v)"

lemma bindings_from_data:
  "set_variable n v x = Inr y \<Longrightarrow> bindings_from Q x \<Longrightarrow> (starts_with n ''infrastructure.'' \<Longrightarrow> Q n v) \<Longrightarrow> bindings_from Q y"
  by (auto simp: bindings_from_def set_variable_def dict_get_set split: if_splits)

interpretation held_bindings: seeding_invariant "bindings_from Q" for Q
proof
  fix n v x y
  show "set_template n v x = Inr y \<Longrightarrow> bindings_from Q x \<Longrightarrow> bindings_from Q y"
    by (auto simp: bindings_from_def set_template_def dict_get_set split: if_splits)
  show "set_variable n v x = Inr y \<Longrightarrow> \<not> starts_with n ''infrastructure.'' \<Longrightarrow> bindings_from Q x \<Longrightarrow> bindings_from Q y"
    by (erule bindings_from_data) simp_all
qed

interpretation run_prefix: seeding_invariant "\<lambda>x. cx_resource_prefix x = p" for p
  by unfold_locales (auto simp: context_ops split: if_splits)

text \<open>What the operator gave the run under a name, and the value it becomes: a credential loses the blanks around it, text of a
  structured variable is read.\<close>

definition operator_value :: "yaml_load \<Rightarrow> (string, pyval) pydict \<Rightarrow> string \<Rightarrow> pyval \<Rightarrow> bool" where
  "operator_value load runtime_vars n v =
     (\<exists>w u t. (n, w) \<in> set runtime_vars \<and> (u = w \<or> (\<exists>s. w = PStr s \<and> u = PStr (strip s))) \<and> reads_as load t u v)"

lemma input_operator_value:
  assumes "as_declared_type (se_load env) k (input_text env secret k w) t = Inr v" "(k, w) \<in> set rt"
  shows "operator_value (se_load env) rt k v"
proof -
  have "input_text env secret k w = w \<or> (\<exists>s. w = PStr s \<and> input_text env secret k w = PStr (strip s))"
    by (simp add: input_text_def split: pyval.splits)
  then show ?thesis
    using as_declared_type_fits [OF assms(1)] assms(2) by (auto simp: operator_value_def)
qed

lemma seed_inputs_bindings:
  assumes "seed_inputs env job declared secret ws (x, g) = Inr (y, g')" "set ws \<subseteq> set rt"
    "bindings_from (operator_value (se_load env) rt) x"
  shows "bindings_from (operator_value (se_load env) rt) y"
  using assms
proof (induction ws arbitrary: x g)
  case (Cons kw ws)
  obtain k w where kw: "kw = (k, w)" by (cases kw)
  obtain v z where s: "as_declared_type (se_load env) k (input_text env secret k w) (dict_get declared k) = Inr v" "set_variable k v x = Inr z"
    "\<exists>h. seed_inputs env job declared secret ws (z, h) = Inr (y, g')"
    using Cons.prems(1) by (auto simp: kw split: sum.splits)
  have "bindings_from (operator_value (se_load env) rt) z"
    using bindings_from_data [OF s(2) Cons.prems(3)] input_operator_value [OF s(1)] Cons.prems(2) by (simp add: kw)
  then show ?case using s(3) Cons.IH Cons.prems(2) by auto
qed simp

lemma seed_inputs_prefix: "seed_inputs env job declared secret ws (x, g) = Inr (y, g') \<Longrightarrow> cx_resource_prefix y = cx_resource_prefix x"
proof (induction ws arbitrary: x g)
  case (Cons kw ws)
  then show ?case by (cases kw) (auto simp: set_variable_def split: sum.splits if_splits)
qed simp

lemma set_variable_same: "set_variable k v x = Inr y \<Longrightarrow> name \<noteq> k \<Longrightarrow> same_at name x y"
  by (auto simp: set_variable_def same_at_def dict_get_set split: if_splits)

lemma set_variable_held: "set_variable k v x = Inr y \<Longrightarrow> dict_get (cx_variables y) k = Some v \<and> k \<notin> cx_templates y"
  by (auto simp: set_variable_def dict_get_set split: if_splits)

lemma seed_inputs_other: "seed_inputs env job declared secret ws (x, g) = Inr (y, g') \<Longrightarrow> name \<notin> fst ` set ws \<Longrightarrow> same_at name x y"
proof (induction ws arbitrary: x g)
  case (Cons kw ws)
  then show ?case
    by (cases kw) (auto split: sum.splits if_splits intro: same_at_trans dest: set_variable_same)
qed (simp add: same_at_refl)

lemma seed_inputs_held:
  assumes "seed_inputs env job declared secret ws (x, g) = Inr (y, g')" "distinct (map fst ws)" "(k, w) \<in> set ws"
  shows "\<exists>v. as_declared_type (se_load env) k (input_text env secret k w) (dict_get declared k) = Inr v
           \<and> dict_get (cx_variables y) k = Some v \<and> k \<notin> cx_templates y"
  using assms
proof (induction ws arbitrary: x g)
  case (Cons jw ws)
  obtain j u where jw: "jw = (j, u)" by (cases jw)
  obtain v z h where s: "as_declared_type (se_load env) j (input_text env secret j u) (dict_get declared j) = Inr v" "set_variable j v x = Inr z"
    "seed_inputs env job declared secret ws (z, h) = Inr (y, g')"
    using Cons.prems(1) by (auto simp: jw split: sum.splits)
  show ?case
  proof (cases "(k, w) = (j, u)")
    case True
    then have "same_at j z y" using seed_inputs_other [OF s(3)] Cons.prems(2) by (simp add: jw)
    then show ?thesis using True s(1) set_variable_held [OF s(2)] by (simp add: same_at_def)
  next
    case False
    then show ?thesis using Cons.IH [OF s(3)] Cons.prems(2,3) by (auto simp: jw)
  qed
qed simp

lemma seed_runtime_inputs:
  assumes "seed_runtime env job tck rt (x, g) = Inr (y, g', kept)"
  obtains (none) "rt = []" "y = x"
  | (inputs) declared secret h where "seed_inputs env job declared secret rt (x, g) = Inr (y, h)"
proof (cases "rt = []")
  case True then show ?thesis using assms none by (simp add: seed_runtime_def)
next
  case False
  then show ?thesis using assms inputs by (auto simp: seed_runtime_def Let_def split: sum.splits prod.splits)
qed

text \<open>
  Whatever a package carries, the data a run starts with in the bindings' namespace is what its operator gave: no test data,
  shared default, variable or API document puts a value there.
\<close>

lemma seeded_bindings:
  assumes "seed_context_variables env job tck rt (new_context p, g) = Inr (y, g', kept)"
  shows "bindings_from (operator_value (se_load env) rt) y"
proof -
  let ?B = "bindings_from (operator_value (se_load env) rt)"
  obtain x1 g1 x2 g2 x3 where s: "seed_package env job tck (new_context p, g) = Inr (x1, g1)"
    "seed_runtime env job tck rt (x1, g1) = Inr (x2, g2, kept)" "set_variable ''execution.id'' (PStr job) x2 = Inr x3"
    "set_variable ''execution.resource_prefix'' (PStr (cx_resource_prefix x3)) x3 = Inr y"
    using assms by (auto simp: seed_context_variables_def map_ok_Inr split: sum.splits prod.splits)
  have "?B (new_context p)" by (simp add: bindings_from_def new_context_def)
  then have "?B x1" by (rule held_bindings.package [OF s(1)])
  then have "?B x2" using s(2) by (cases rule: seed_runtime_inputs [OF s(2)]) (auto dest: seed_inputs_bindings)
  then have "?B x3" by (rule bindings_from_data [OF s(3)]) simp
  then show ?thesis by (rule bindings_from_data [OF s(4)]) simp
qed

text \<open>C38. 
  The operator's inputs win: whatever the package carries under a name, the run holds what the operator gave, as data; only
  the run's own id and prefix are the engine's, whatever anyone gave.
\<close>

theorem operator_inputs_win:
  assumes "seed_context_variables env job tck runtime_vars (x, g) = Inr (y, g', kept)" and "dict_wf runtime_vars"
  shows "get_variable y ''execution.id'' = PStr job \<and> get_variable y ''execution.resource_prefix'' = PStr (cx_resource_prefix x)
    \<and> (\<forall>(k, w)\<in>set runtime_vars. k \<notin> set RUN_VARIABLES \<longrightarrow>
         \<not> is_template y k \<and> operator_value (se_load env) [(k, w)] k (get_variable y k))"
proof -
  obtain x1 g1 x2 g2 x3 where s: "seed_package env job tck (x, g) = Inr (x1, g1)"
    "seed_runtime env job tck runtime_vars (x1, g1) = Inr (x2, g2, kept)" "set_variable ''execution.id'' (PStr job) x2 = Inr x3"
    "set_variable ''execution.resource_prefix'' (PStr (cx_resource_prefix x3)) x3 = Inr y"
    using assms(1) by (auto simp: seed_context_variables_def map_ok_Inr split: sum.splits prod.splits)
  have "cx_resource_prefix x1 = cx_resource_prefix x" by (rule run_prefix.package [OF s(1)]) simp
  then have "cx_resource_prefix x2 = cx_resource_prefix x"
    by (cases rule: seed_runtime_inputs [OF s(2)]) (auto dest: seed_inputs_prefix)
  then have p: "cx_resource_prefix x3 = cx_resource_prefix x" using s(3) by (auto simp: set_variable_def split: if_splits)
  have i: "get_variable y ''execution.id'' = PStr job"
    using set_variable_held [OF s(3)] set_variable_same [OF s(4), of "''execution.id''"] by (simp add: same_at_def get_variable_def)
  have r: "get_variable y ''execution.resource_prefix'' = PStr (cx_resource_prefix x)"
    using set_variable_held [OF s(4)] p by (simp add: get_variable_def)
  have k: "\<not> is_template y k \<and> operator_value (se_load env) [(k, w)] k (get_variable y k)"
    if m: "(k, w) \<in> set runtime_vars" "k \<notin> set RUN_VARIABLES" for k w
  proof -
    obtain declared secret h where inp: "seed_inputs env job declared secret runtime_vars (x1, g1) = Inr (x2, h)"
      using m(1) by (cases rule: seed_runtime_inputs [OF s(2)]) auto
    obtain v where v: "as_declared_type (se_load env) k (input_text env secret k w) (dict_get declared k) = Inr v"
      "dict_get (cx_variables x2) k = Some v" "k \<notin> cx_templates x2"
      using seed_inputs_held [OF inp _ m(1)] assms(2) by (auto simp: dict_wf_def)
    have "same_at k x2 y"
      using set_variable_same [OF s(3), of k] set_variable_same [OF s(4), of k] m(2) by (auto simp: RUN_VARIABLES_def intro: same_at_trans)
    then show ?thesis
      using v(2,3) input_operator_value [OF v(1), of "[(k, w)]"] by (simp add: same_at_def is_template_def get_variable_def)
  qed
  show ?thesis using i r k by blast
qed


definition demo_form :: form_env where
  "demo_form = \<lparr>fe_checked = Inr, fe_legacy = \<lambda>name d. Inl (value_error ''extra fields'')\<rparr>"

definition demo_seed :: seed_env where
  "demo_seed = \<lparr>se_load = demo_yaml, se_form = demo_form,
     se_assets = \<lparr>ae_package_path = Inr, ae_is_file = \<lambda>p. p = ''testdata/part.json'', ae_json = \<lambda>p. Some (PInt 7), ae_api = \<lambda>p t. None\<rparr>,
     se_compiles = \<lambda>_. True, se_redaction = demo_redaction\<rparr>"

definition demo_tck :: tck_env where
  "demo_tck = \<lparr>te_base_dir = Some ''/pkg'', te_variables = doc_get demo_block ''variables'',
     te_testdata = [\<lparr>at_id = ''part'', at_source = ''part.json'', at_type = []\<rparr>], te_schemas = [], te_apis = [], te_shared = []\<rparr>"

definition demo_inputs :: "(string, pyval) pydict" where
  "demo_inputs = [(''plain'', PStr ''{k: pass}''), (''execution.id'', PStr ''mine''), (''infrastructure.sut.dtr.base_url'', PStr ''https://sut'')]"

definition seeded_vars :: "exc + seeded \<Rightarrow> (string, pyval) pydict" where
  "seeded_vars r = (case r of Inl e \<Rightarrow> [] | Inr s \<Rightarrow> cx_variables (fst s))"

lemma demo_seeded:
  "seeded_vars (seed_context_variables demo_seed ''job'' demo_tck demo_inputs (new_context ''p:'', new_registry)) =
     [(''_tck_root'', PStr ''/pkg''), (''testdata.part'', PInt 7), (''env.testdata.part'', PInt 7),
      (''plain'', PDict [(''k'', PStr ''pass'')]), (''inline'', PDict []),
      (''usage_policy'', PList [PStr ''${{ env.plain }}'', PStr ''${{ env.inline }}'']), (''execution.id'', PStr ''job''),
      (''infrastructure.sut.dtr.base_url'', PStr ''https://sut''), (''execution.resource_prefix'', PStr ''p:'')]"
  by code_simp

theorem operator_inputs_win_witness:
  "\<exists>y g' kept. seed_context_variables demo_seed ''job'' demo_tck demo_inputs (new_context ''p:'', new_registry) = Inr (y, g', kept)
     \<and> get_variable y ''execution.id'' = PStr ''job'' \<and> \<not> is_template y ''plain''"
proof -
  let ?r = "seed_context_variables demo_seed ''job'' demo_tck demo_inputs (new_context ''p:'', new_registry)"
  obtain y g' kept where y: "?r = Inr (y, g', kept)"
    using demo_seeded by (cases ?r) (auto simp: seeded_vars_def)
  have w: "dict_wf demo_inputs" by code_simp
  have m: "(''plain'', PStr ''{k: pass}'') \<in> set demo_inputs" by (simp add: demo_inputs_def)
  show ?thesis using operator_inputs_win [OF y w] m y by (fastforce simp: RUN_VARIABLES_def)
qed

section \<open>What the checks let through\<close>

definition demo_declaration :: "string \<Rightarrow> string \<Rightarrow> (string, pyval) pydict \<Rightarrow> (string, pyval) pydict \<Rightarrow> (string, pyval) pydict" where
  "demo_declaration verb t extra with_block =
     [(''variables'', PList [PDict ([(''id'', PStr ''v''), (''uses'', PStr verb)] @ extra @ [(''with'', PDict with_block),
        (''returns'', PDict [(''value'', PDict [(''type'', PStr t)])])])])]"

definition seeds_nothing :: "(string, pyval) pydict \<Rightarrow> bool" where
  "seeds_nothing block =
     (case seed_env_variables demo_yaml ''job'' (doc_get block ''variables'') (new_context ''p:'', new_registry) of
        Inl e \<Rightarrow> False | Inr yg \<Rightarrow> cx_variables (fst yg) = [])"

definition nothing_required :: "(string, pyval) pydict \<Rightarrow> bool" where
  "nothing_required block =
     (case parse_variables_block demo_form (doc_get block ''variables'') of Inl e \<Rightarrow> False | Inr vs \<Rightarrow> required_variables vs = [])"

text \<open>A variable whose \<open>with.value\<close> is null passes every check, and nothing seeds it or asks the operator for it.\<close>

lemma null_value_seeds_nothing:
  "let block = demo_declaration ''variable/type/string'' ''string'' [] [(''value'', PNone)]
   in validate_variable_declarations demo_yaml {} block = [] \<and> seeds_nothing block \<and> nothing_required block"
  by code_simp

text \<open>So does one whose source is \<open>generated\<close>, the source nothing supplies.\<close>

lemma generated_source_seeds_nothing:
  "let block = demo_declaration ''variable/type/string'' ''string'' [] [(''source'', PStr ''generated'')]
   in validate_variable_declarations demo_yaml {} block = [] \<and> seeds_nothing block \<and> nothing_required block"
  by code_simp

text \<open>A number is a valid value of a variable that publishes an object: only text is checked against the type.\<close>

lemma number_passes_as_object:
  "validate_variable_declarations demo_yaml {} (demo_declaration ''variable/type/object'' ''object'' [] [(''value'', PInt 42)]) = []"
  by code_simp

text \<open>
  A secret object written as text is registered as that text: the value it reads as, which is what the run holds, is not
  masked. The same text from the operator is registered as it reads, and is.
\<close>

definition demo_secret :: "(string, pyval) pydict" where
  "demo_secret = demo_declaration ''variable/type/object'' ''object'' [(''secret'', PBool True)] [(''value'', PStr ''{k: pass}'')]"

definition registry_of :: "exc + StepContext \<times> Registry \<Rightarrow> Registry" where
  "registry_of r = (case r of Inl e \<Rightarrow> new_registry | Inr yg \<Rightarrow> snd yg)"

lemma secret_text_is_not_masked:
  "validate_variable_declarations demo_yaml {} demo_secret = []"
  "pins_of (registry_of (seed_env_variables demo_yaml ''job'' (doc_get demo_secret ''variables'') (new_context ''p:'', new_registry))) ''job'' \<noteq> []"
  "dict_get (pins_of (registry_of (seed_env_variables demo_yaml ''job'' (doc_get demo_secret ''variables'') (new_context ''p:'', new_registry))) ''job'')
     ''pass'' = None"
  "dict_get (pins_of (registry_of (seed_inputs demo_seed ''job'' [(''v'', ''object'')] {''v''} [(''v'', PStr ''{k: pass}'')]
     (new_context ''p:'', new_registry))) ''job'') ''pass'' = Some True"
  by code_simp+

lemma secret_text_shown:
  "snd (mask (\<lambda>_. True) (PStr ''pass'')
     (registry_of (seed_env_variables demo_yaml ''job'' (doc_get demo_secret ''variables'') (new_context ''p:'', new_registry))))
   = PStr ''pass''"
  by code_simp

text \<open>A run that passes \<open>require_inputs\<close> holds some text for every variable its operator owes.\<close>

lemma map_filter_Nil: "List.map_filter f xs = [] \<longleftrightarrow> (\<forall>x\<in>set xs. f x = None)"
  by (induction xs) (auto simp: List.map_filter_simps split: option.splits)

lemma required_inputs_given:
  assumes "require_inputs env x tck = Inr ()"
  shows "\<exists>variables. parse_variables_block env (te_variables tck) = Inr variables
    \<and> (\<forall>(name, var)\<in>set (required_variables variables). strip (text_or_empty (get_variable x name)) \<noteq> [])"
proof -
  obtain variables where v: "parse_variables_block env (te_variables tck) = Inr variables" "missing_inputs x variables = []"
    using assms by (auto simp: require_inputs_def Let_def split: sum.splits if_splits)
  have "\<forall>(name, var)\<in>set (required_variables variables). strip (text_or_empty (get_variable x name)) \<noteq> []"
    using v(2) unfolding missing_inputs_def map_filter_Nil by (auto split: if_splits)
  then show ?thesis using v(1) by blast
qed

end
