(* ===== verification/Binding.thy ===== *)
theory Binding
  imports Seeding
begin

text \<open>
  The deployment a run is bound to: the capabilities and their fields (\<^verbatim>\<open>models/domain/capabilities.py\<close>,
  \<^verbatim>\<open>infrastructure.py\<close>), their projection onto the names of a run (\<^verbatim>\<open>infrastructure/mapping.py\<close>), the registry of
  deployments (\<^verbatim>\<open>infrastructure/profiles.py\<close>, \<^verbatim>\<open>standards.py\<close>), what a TCK requires of them
  (\<^verbatim>\<open>authoring/_infrastructure.py\<close>) and the binding of a run (\<^verbatim>\<open>player/execution/_binding.py\<close>).

  A deployment is the text of every field of every capability, with the fields its author stated; a field is named by its
  side, its capability and its own name. A refusal is a value of a datatype that carries what its message is built from.
\<close>

section \<open>Capabilities\<close>

record field_info =
  fi_name :: string
  fi_default :: string
  fi_operator :: bool
  fi_secret :: bool

record binding_type =
  bt_fields :: "field_info list"
  bt_identity :: string
  bt_credential_url :: string

definition plain_field :: "string \<Rightarrow> field_info" where
  "plain_field name = \<lparr>fi_name = name, fi_default = [], fi_operator = False, fi_secret = False\<rparr>"

definition owed_field :: "string \<Rightarrow> field_info" where
  "owed_field name = (plain_field name)\<lparr>fi_operator := True\<rparr>"

definition capability_fields :: "field_info list" where
  "capability_fields = map plain_field [''version'', ''standard'', ''standard_version'']"

definition connector_fields :: "field_info \<Rightarrow> field_info \<Rightarrow> field_info list" where
  "connector_fields management_url dsp_url = capability_fields
     @ [management_url, (plain_field ''api_key'')\<lparr>fi_secret := True\<rparr>, (plain_field ''api_key_header'')\<lparr>fi_default := ''x-api-key''\<rparr>,
        owed_field ''participant_id'', dsp_url, plain_field ''name'']"

definition ConnectorBinding :: binding_type where
  "ConnectorBinding = \<lparr>bt_fields = connector_fields (owed_field ''management_url'') (plain_field ''dsp_url''),
     bt_identity = ''management_url'', bt_credential_url = ''management_url''\<rparr>"

definition SutConnectorBinding :: binding_type where
  "SutConnectorBinding = \<lparr>bt_fields = connector_fields (plain_field ''management_url'') (owed_field ''dsp_url''),
     bt_identity = ''dsp_url'', bt_credential_url = ''management_url''\<rparr>"

definition DtrBinding :: binding_type where
  "DtrBinding = \<lparr>bt_fields = capability_fields @ [owed_field ''base_url''], bt_identity = ''base_url'', bt_credential_url = []\<rparr>"

definition EngineDtrBinding :: binding_type where
  "EngineDtrBinding = DtrBinding\<lparr>bt_fields := bt_fields DtrBinding @ [owed_field ''submodel_base_url'']\<rparr>"

definition capabilities :: "(string \<times> string \<times> binding_type) list" where
  "capabilities = [(''engine'', ''connector'', ConnectorBinding), (''engine'', ''dtr'', EngineDtrBinding),
                   (''sut'', ''connector'', SutConnectorBinding), (''sut'', ''dtr'', DtrBinding)]"

definition field_names :: "binding_type \<Rightarrow> string list" where
  "field_names b = map fi_name (bt_fields b)"

definition operator_fields :: "binding_type \<Rightarrow> string list" where
  "operator_fields b = map fi_name (filter fi_operator (bt_fields b))"

definition secret_fields :: "binding_type \<Rightarrow> string list" where
  "secret_fields b = map fi_name (filter fi_secret (bt_fields b))"

definition url_field :: "binding_type \<Rightarrow> string" where
  "url_field b = (if bt_credential_url b \<noteq> [] then bt_credential_url b else bt_identity b)"

type_synonym field_key = "string \<times> string \<times> string"

definition all_fields :: "field_key list" where
  "all_fields = concat (map (\<lambda>(side, capability, b). map (\<lambda>f. (side, capability, f)) (field_names b)) capabilities)"

record Infrastructure =
  in_values :: "(field_key, string) pydict"
  in_stated :: "field_key list"

definition field_of :: "Infrastructure \<Rightarrow> field_key \<Rightarrow> string" where
  "field_of i k = (case dict_get (in_values i) k of None \<Rightarrow> [] | Some v \<Rightarrow> v)"

text \<open>\<open>Infrastructure()\<close>, and \<open>model_validate\<close> of a whole dump: every field is stated and loses the blanks around it.\<close>

definition empty_infrastructure :: Infrastructure where
  "empty_infrastructure =
     \<lparr>in_values = concat (map (\<lambda>(side, capability, b). map (\<lambda>f. ((side, capability, fi_name f), fi_default f)) (bt_fields b)) capabilities),
      in_stated = []\<rparr>"

definition model_validate :: "(field_key, string) pydict \<Rightarrow> Infrastructure" where
  "model_validate data = \<lparr>in_values = map (\<lambda>(k, v). (k, strip v)) data, in_stated = map fst data\<rparr>"

definition is_bound :: "Infrastructure \<Rightarrow> string \<Rightarrow> string \<Rightarrow> binding_type \<Rightarrow> bool" where
  "is_bound i side capability b = (strip (field_of i (side, capability, bt_identity b)) \<noteq> [])"

definition credential_url :: "Infrastructure \<Rightarrow> string \<Rightarrow> string \<Rightarrow> binding_type \<Rightarrow> string" where
  "credential_url i side capability b = field_of i (side, capability, url_field b)"

definition missing_fields :: "Infrastructure \<Rightarrow> string \<Rightarrow> string \<Rightarrow> binding_type \<Rightarrow> string list" where
  "missing_fields i side capability b =
     filter (\<lambda>f. strip (field_of i (side, capability, f)) = []) (operator_fields b)"

section \<open>Names\<close>

definition context_key :: "field_key \<Rightarrow> string" where
  "context_key k = (case k of (side, capability, f) \<Rightarrow> ''infrastructure.'' @ side @ ''.'' @ capability @ ''.'' @ f)"

definition upper_ascii :: "char \<Rightarrow> char" where
  "upper_ascii c = (let n = (of_char c :: nat) in if 97 \<le> n \<and> n \<le> 122 then char_of (n - 32) else c)"

definition env_key :: "field_key \<Rightarrow> string" where
  "env_key k = (case k of (side, capability, f) \<Rightarrow> map upper_ascii (''TESTLAB_'' @ side @ ''_'' @ capability @ ''_'' @ f))"

definition known_keys :: "(string, field_key) pydict" where
  "known_keys = map (\<lambda>k. (context_key k, k)) all_fields"

definition secret_keys :: "string list" where
  "secret_keys = concat (map (\<lambda>(side, capability, b). map (\<lambda>f. context_key (side, capability, f)) (secret_fields b)) capabilities)"

definition bound_capabilities :: "Infrastructure \<Rightarrow> (string \<times> string \<times> binding_type) list" where
  "bound_capabilities i = filter (\<lambda>(side, capability, b). is_bound i side capability b) capabilities"

type_synonym url_parser = "string \<Rightarrow> (string \<times> string \<times> nat option) option"

definition projected_field ::
  "url_parser \<Rightarrow> Infrastructure \<Rightarrow> string \<Rightarrow> string \<Rightarrow> binding_type \<Rightarrow> field_info \<Rightarrow> (string \<times> pyval) list" where
  "projected_field parse i side capability b f =
     (let val = field_of i (side, capability, fi_name f); key = context_key (side, capability, fi_name f)
      in if val = [] then []
         else [(key, if fi_secret f then PCred (new_credential val key side [origin_of parse (credential_url i side capability b)])
                     else PStr val)])"

definition flatten :: "url_parser \<Rightarrow> Infrastructure \<Rightarrow> (string, pyval) pydict" where
  "flatten parse i =
     concat (map (\<lambda>(side, capability, b). concat (map (projected_field parse i side capability b) (bt_fields b))) (bound_capabilities i))"

definition secret_values :: "Infrastructure \<Rightarrow> string list" where
  "secret_values i =
     concat (map (\<lambda>(side, capability, b). filter (\<lambda>v. v \<noteq> []) (map (\<lambda>f. field_of i (side, capability, f)) (secret_fields b)))
       (bound_capabilities i))"

definition credential_headers :: "Infrastructure \<Rightarrow> string list" where
  "credential_headers i =
     remdups (filter (\<lambda>v. v \<noteq> []) (map (\<lambda>(side, capability, b). field_of i (side, capability, ''api_key_header'')) (bound_capabilities i)))"

section \<open>Requirements\<close>

record Standard =
  st_id :: string
  st_version :: "string option"

record CapabilityRequirement =
  cr_required :: bool
  cr_standard :: "Standard option"

record InfrastructureConfig =
  ic_engine :: "(string, CapabilityRequirement) pydict"
  ic_sut :: "(string, CapabilityRequirement) pydict"

definition effective_version :: "Standard \<Rightarrow> string \<Rightarrow> string" where
  "effective_version s dataspace_version = (if nonempty_text (st_version s) then the (st_version s) else dataspace_version)"

fun merge_side :: "(string, CapabilityRequirement) pydict \<Rightarrow> (string, CapabilityRequirement) pydict \<Rightarrow> (string, CapabilityRequirement) pydict" where
  "merge_side target [] = target"
| "merge_side target ((key, req) # rest) =
     merge_side (case dict_get target key of
         None \<Rightarrow> dict_set key req target
       | Some existing \<Rightarrow>
           dict_set key \<lparr>cr_required = cr_required existing \<or> cr_required req,
             cr_standard = (if cr_standard existing \<noteq> None then cr_standard existing else cr_standard req)\<rparr> target) rest"

definition merge_requirements :: "InfrastructureConfig list \<Rightarrow> InfrastructureConfig" where
  "merge_requirements configs =
     fold (\<lambda>c m. \<lparr>ic_engine = merge_side (ic_engine m) (ic_engine c), ic_sut = merge_side (ic_sut m) (ic_sut c)\<rparr>) configs
       \<lparr>ic_engine = [], ic_sut = []\<rparr>"

definition collect_infrastructure_requirements :: "InfrastructureConfig option \<Rightarrow> InfrastructureConfig option list \<Rightarrow> InfrastructureConfig" where
  "collect_infrastructure_requirements own tests =
     (case own of Some c \<Rightarrow> c | None \<Rightarrow> merge_requirements (List.map_filter id tests))"

definition requirement_of :: "InfrastructureConfig \<Rightarrow> string \<Rightarrow> string \<Rightarrow> CapabilityRequirement option" where
  "requirement_of c side capability =
     (if side = ''engine'' then dict_get (ic_engine c) capability else if side = ''sut'' then dict_get (ic_sut c) capability else None)"

definition required_keys :: "InfrastructureConfig \<Rightarrow> string list" where
  "required_keys c =
     concat (map (\<lambda>(side, capability, b).
       case requirement_of c side capability of
         None \<Rightarrow> []
       | Some r \<Rightarrow> if cr_required r then map (\<lambda>f. context_key (side, capability, f)) (operator_fields b) else []) capabilities)"

section \<open>Overrides\<close>

datatype binding_error =
    Unknown_binding_key string "string list" "string list"
  | Missing_binding "(string \<times> string \<times> string list) list"
  | Standard_conflict "(string \<times> string \<times> string \<times> string \<times> string) list"
  | Override_refused "string list" "string list"
  | No_profile string "string list"
  | Refused_write exc

fun collect_overrides ::
  "InfrastructureConfig \<Rightarrow> (string, pyval) pydict \<Rightarrow> (string, pyval) pydict \<Rightarrow> binding_error + (string, pyval) pydict" where
  "collect_overrides req [] overrides = Inr overrides"
| "collect_overrides req ((key, val) # rest) overrides =
     (if \<not> starts_with key ''infrastructure.'' \<or> length (split_on (CHR ''.'') key) \<noteq> 4 then collect_overrides req rest overrides
      else if \<not> dict_has known_keys key then Inl (Unknown_binding_key key (sort (dict_keys known_keys)) (required_keys req))
      else collect_overrides req rest (dict_set key val overrides))"

definition overrides_from_env :: "(string, string) pydict \<Rightarrow> (string, string) pydict" where
  "overrides_from_env environ =
     List.map_filter (\<lambda>k. case dict_get environ (env_key k) of None \<Rightarrow> None | Some v \<Rightarrow> Some (context_key k, v)) all_fields"

definition override_text :: "pyval \<Rightarrow> string" where
  "override_text v = (if v = PNone then [] else py_str v)"

fun write_overrides ::
  "(string, pyval) pydict \<Rightarrow> (field_key, string) pydict \<times> field_key set \<Rightarrow> binding_error + (field_key, string) pydict \<times> field_key set" where
  "write_overrides [] ds = Inr ds"
| "write_overrides ((key, val) # rest) ds =
     (case dict_get known_keys key of
        None \<Rightarrow> Inl (Unknown_binding_key key (sort (dict_keys known_keys)) [])
      | Some located \<Rightarrow> write_overrides rest (dict_set located (override_text val) (fst ds), insert located (snd ds)))"

definition data_field :: "(field_key, string) pydict \<Rightarrow> field_key \<Rightarrow> string" where
  "data_field data k = (case dict_get data k of None \<Rightarrow> [] | Some v \<Rightarrow> v)"

definition moved :: "url_parser \<Rightarrow> (field_key, string) pydict \<Rightarrow> (field_key, string) pydict \<Rightarrow> string \<Rightarrow> string \<Rightarrow> binding_type \<Rightarrow> bool" where
  "moved parse before after side capability b =
     (let old = origin_of parse (data_field before (side, capability, url_field b))
      in secret_fields b \<noteq> [] \<and> old \<noteq> [] \<and> old \<noteq> origin_of parse (data_field after (side, capability, url_field b)))"

text \<open>A secret field names no URL, so what is blanked for one capability moves no other.\<close>

definition strand_moved_credentials ::
  "url_parser \<Rightarrow> (field_key, string) pydict \<Rightarrow> field_key set \<Rightarrow> (field_key, string) pydict \<Rightarrow> (field_key, string) pydict" where
  "strand_moved_credentials parse before supplied after =
     fold (\<lambda>(side, capability, b) data.
       if moved parse before data side capability b
       then fold (\<lambda>f d. if (side, capability, f) \<in> supplied then d else dict_set (side, capability, f) [] d) (secret_fields b) data
       else data) capabilities after"

definition apply_overrides :: "url_parser \<Rightarrow> bool \<Rightarrow> Infrastructure \<Rightarrow> (string, pyval) pydict \<Rightarrow> binding_error + Infrastructure" where
  "apply_overrides parse credentials_follow i overrides =
     (if overrides = [] then Inr i
      else map_ok (\<lambda>(data, supplied).
             model_validate (if credentials_follow then data else strand_moved_credentials parse (in_values i) supplied data))
             (write_overrides overrides (in_values i, {})))"

definition merge_infrastructure :: "Infrastructure \<Rightarrow> Infrastructure \<Rightarrow> Infrastructure" where
  "merge_infrastructure base overlay =
     model_validate (fold (\<lambda>k data. dict_set k (field_of overlay k) data) (in_stated overlay) (in_values base))"

section \<open>The deployments an engine knows\<close>

record InfrastructureManager =
  im_profiles :: "(string, Infrastructure) pydict"
  im_active :: string

definition new_infrastructure_manager :: "Infrastructure option \<Rightarrow> string \<Rightarrow> InfrastructureManager" where
  "new_infrastructure_manager infrastructure name =
     \<lparr>im_profiles = [(name, case infrastructure of None \<Rightarrow> empty_infrastructure | Some i \<Rightarrow> i)], im_active = name\<rparr>"

definition from_env :: "url_parser \<Rightarrow> (string, string) pydict \<Rightarrow> Infrastructure option \<Rightarrow> string \<Rightarrow> binding_error + InfrastructureManager" where
  "from_env parse environ base name =
     map_ok (\<lambda>i. new_infrastructure_manager (Some i) name)
       (apply_overrides parse True (case base of None \<Rightarrow> empty_infrastructure | Some i \<Rightarrow> i)
          (map (\<lambda>(k, v). (k, PStr v)) (overrides_from_env environ)))"

definition register_profile :: "string \<Rightarrow> Infrastructure \<Rightarrow> bool \<Rightarrow> InfrastructureManager \<Rightarrow> InfrastructureManager" where
  "register_profile name infrastructure activate m =
     \<lparr>im_profiles = dict_set name infrastructure (im_profiles m), im_active = (if activate then name else im_active m)\<rparr>"

definition get_profile :: "string \<Rightarrow> InfrastructureManager \<Rightarrow> binding_error + Infrastructure" where
  "get_profile name m =
     (case dict_get (im_profiles m) name of None \<Rightarrow> Inl (No_profile name (sort (dict_keys (im_profiles m)))) | Some i \<Rightarrow> Inr i)"

definition activate_profile :: "string \<Rightarrow> InfrastructureManager \<Rightarrow> binding_error + InfrastructureManager" where
  "activate_profile name m = map_ok (\<lambda>i. m\<lparr>im_active := name\<rparr>) (get_profile name m)"

text \<open>\<open>active\<close>, of a manager whose active name is registered.\<close>

definition active_infrastructure :: "InfrastructureManager \<Rightarrow> Infrastructure" where
  "active_infrastructure m = (case dict_get (im_profiles m) (im_active m) of None \<Rightarrow> empty_infrastructure | Some i \<Rightarrow> i)"

definition overlay_profile :: "Infrastructure \<Rightarrow> InfrastructureManager \<Rightarrow> InfrastructureManager" where
  "overlay_profile infrastructure m =
     m\<lparr>im_profiles := dict_set (im_active m) (merge_infrastructure (active_infrastructure m) infrastructure) (im_profiles m)\<rparr>"

definition resolve_profile :: "url_parser \<Rightarrow> InfrastructureManager \<Rightarrow> (string, pyval) pydict \<Rightarrow> binding_error + Infrastructure" where
  "resolve_profile parse m overrides = apply_overrides parse False (active_infrastructure m) overrides"

definition validate_bound :: "InfrastructureConfig \<Rightarrow> Infrastructure \<Rightarrow> binding_error + unit" where
  "validate_bound req i =
     (let missing = concat (map (\<lambda>(side, capability, b).
            case requirement_of req side capability of
              None \<Rightarrow> []
            | Some r \<Rightarrow> (let owed = missing_fields i side capability b
                        in if cr_required r \<and> owed \<noteq> [] then [(side, capability, map (\<lambda>f. context_key (side, capability, f)) owed)] else []))
            capabilities)
      in if missing \<noteq> [] then Inl (Missing_binding missing) else Inr ())"

definition DATASPACE_VERSION :: string where
  "DATASPACE_VERSION = ''saturn''"

definition release_or_default :: "string \<Rightarrow> string" where
  "release_or_default version = (if strip version \<noteq> [] then strip version else DATASPACE_VERSION)"

definition default_standard :: "string \<Rightarrow> string" where
  "default_standard capability = (if capability = ''connector'' then ''CX-0018'' else if capability = ''dtr'' then ''CX-0002'' else [])"

definition stated_fields :: "InfrastructureConfig \<Rightarrow> string \<Rightarrow> bool \<Rightarrow> string \<Rightarrow> string \<Rightarrow> (string \<times> string \<times> string) list" where
  "stated_fields req release release_stated side capability =
     (let standard = Option.bind (requirement_of req side capability) cr_standard
      in [(''version'', if release_stated then release else [], release),
          (''standard'', case standard of None \<Rightarrow> [] | Some s \<Rightarrow> st_id s, default_standard capability),
          (''standard_version'', case standard of None \<Rightarrow> [] | Some s \<Rightarrow> (case st_version s of None \<Rightarrow> [] | Some v \<Rightarrow> v),
             case standard of None \<Rightarrow> [] | Some s \<Rightarrow> effective_version s release)])"

definition align_fills :: "InfrastructureConfig \<Rightarrow> string \<Rightarrow> bool \<Rightarrow> Infrastructure \<Rightarrow> (string, pyval) pydict" where
  "align_fills req release release_stated i =
     concat (map (\<lambda>(side, capability, b).
       concat (map (\<lambda>(f, certified, fallback).
         if field_of i (side, capability, f) = [] \<and> (certified \<noteq> [] \<or> fallback \<noteq> [])
         then [(context_key (side, capability, f), PStr (if certified \<noteq> [] then certified else fallback))] else [])
         (stated_fields req release release_stated side capability))) (bound_capabilities i))"

definition align_conflicts :: "InfrastructureConfig \<Rightarrow> string \<Rightarrow> bool \<Rightarrow> Infrastructure \<Rightarrow> (string \<times> string \<times> string \<times> string \<times> string) list" where
  "align_conflicts req release release_stated i =
     concat (map (\<lambda>(side, capability, b).
       concat (map (\<lambda>(f, certified, fallback).
         if field_of i (side, capability, f) \<noteq> [] \<and> certified \<noteq> [] \<and> field_of i (side, capability, f) \<noteq> certified
         then [(side, capability, f, field_of i (side, capability, f), certified)] else [])
         (stated_fields req release release_stated side capability))) (bound_capabilities i))"

definition align :: "url_parser \<Rightarrow> InfrastructureConfig \<Rightarrow> string \<Rightarrow> bool \<Rightarrow> Infrastructure \<Rightarrow> binding_error + Infrastructure" where
  "align parse req release release_stated i =
     (let r = release_or_default release; conflicts = align_conflicts req r release_stated i
      in if conflicts \<noteq> [] then Inl (Standard_conflict conflicts)
         else apply_overrides parse True i (align_fills req r release_stated i))"

section \<open>Binding a run\<close>

definition run_inputs :: "StepContext \<Rightarrow> (string, pyval) pydict" where
  "run_inputs x = filter (\<lambda>(name, v). starts_with name ''infrastructure.'' \<and> \<not> is_template x name) (cx_variables x)"

definition refuse_held_sides :: "(string, pyval) pydict \<Rightarrow> string list \<Rightarrow> binding_error + unit" where
  "refuse_held_sides overrides open_sides =
     (let refused = sort (filter (\<lambda>key. split_on (CHR ''.'') key ! 1 \<notin> set open_sides) (dict_keys overrides))
      in if refused \<noteq> [] then Inl (Override_refused refused (sort open_sides)) else Inr ())"

definition target_release :: "string option \<Rightarrow> string \<times> bool" where
  "target_release version = (if nonempty_text version then (the version, True) else (DATASPACE_VERSION, False))"

fun set_variables :: "(string \<times> pyval) list \<Rightarrow> StepContext \<Rightarrow> exc + StepContext" where
  "set_variables [] x = Inr x"
| "set_variables ((k, v) # rest) x = (case set_variable k v x of Inl e \<Rightarrow> Inl e | Inr y \<Rightarrow> set_variables rest y)"

fun unset_variables :: "string list \<Rightarrow> StepContext \<Rightarrow> exc + StepContext" where
  "unset_variables [] x = Inr x"
| "unset_variables (k # rest) x = (case unset_variable k x of Inl e \<Rightarrow> Inl e | Inr y \<Rightarrow> unset_variables rest y)"

text \<open>The names to withdraw are a set in the code; they are taken in the order of the model.\<close>

definition publish_bindings ::
  "url_parser \<Rightarrow> string \<Rightarrow> Infrastructure \<Rightarrow> StepContext \<Rightarrow> Registry \<Rightarrow> SecretHeaders \<Rightarrow> exc + StepContext \<times> Registry \<times> SecretHeaders" where
  "publish_bindings parse job i x g h =
     (let g1 = fold (\<lambda>s g. fst (register_secret (PStr s) (Some job) True False g)) (secret_values i) g;
          h1 = fold (\<lambda>n h. register_secret_header (Some n) h) (credential_headers i) h;
          published = flatten parse i
      in case set_variables published x of
           Inl e \<Rightarrow> Inl e
         | Inr y \<Rightarrow> map_ok (\<lambda>z. (z, g1, h1)) (unset_variables (filter (\<lambda>k. \<not> dict_has published k) (dict_keys known_keys)) y))"

definition bind_infrastructure ::
  "url_parser \<Rightarrow> string \<Rightarrow> InfrastructureManager \<Rightarrow> string list \<Rightarrow> InfrastructureConfig \<Rightarrow> string option \<Rightarrow> StepContext \<Rightarrow> Registry \<Rightarrow> SecretHeaders
   \<Rightarrow> binding_error + Infrastructure \<times> StepContext \<times> Registry \<times> SecretHeaders" where
  "bind_infrastructure parse job m open_sides req version x g h =
     (let (release, release_stated) = target_release version
      in case collect_overrides req (run_inputs x) [] of
           Inl e \<Rightarrow> Inl e
         | Inr overrides \<Rightarrow>
             (case refuse_held_sides overrides open_sides of
                Inl e \<Rightarrow> Inl e
              | Inr u \<Rightarrow>
                  (case resolve_profile parse m overrides of
                     Inl e \<Rightarrow> Inl e
                   | Inr resolved \<Rightarrow>
                       (case validate_bound req resolved of
                          Inl e \<Rightarrow> Inl e
                        | Inr u' \<Rightarrow>
                            (case align parse req release release_stated resolved of
                               Inl e \<Rightarrow> Inl e
                             | Inr aligned \<Rightarrow>
                                 (case publish_bindings parse job aligned x g h of
                                    Inl e \<Rightarrow> Inl (Refused_write e)
                                  | Inr r \<Rightarrow> Inr (aligned, r)))))))"

definition seal_bindings :: "StepContext \<Rightarrow> StepContext" where
  "seal_bindings x = seal ''infrastructure.'' x"

section \<open>What an override changes\<close>

lemma rstrip_prefix: "\<exists>p. t = rstrip t @ p"
proof
  show "t = rstrip t @ rev (takeWhile is_space (rev t))"
    unfolding rstrip_def rev_append [symmetric] takeWhile_dropWhile_id by simp
qed

lemma strip_Nil [simp]: "strip [] = []"
  by (simp add: strip_def lstrip_def rstrip_def)

lemma strip_strip [simp]: "strip (strip s) = strip s"
proof (cases "strip s = []")
  case False
  let ?t = "lstrip s"
  have "\<not> is_space (last (strip s))"
    using False hd_dropWhile [of is_space "rev ?t"] by (auto simp: strip_def rstrip_def last_rev)
  moreover have "hd (strip s) = hd ?t"
    using rstrip_prefix [of ?t] False by (metis strip_def hd_append2)
  moreover have "?t \<noteq> []" using False by (auto simp: strip_def rstrip_def)
  then have "\<not> is_space (hd ?t)" unfolding lstrip_def by (rule hd_dropWhile)
  ultimately show ?thesis using False by (intro strip_id) auto
next
  case True
  then show ?thesis by (simp only: True strip_Nil)
qed

lemma origin_of_strip [simp]: "origin_of parse (strip u) = origin_of parse u"
  by (simp add: origin_of_def)

lemma known_keys_context: "dict_get known_keys key = Some k \<Longrightarrow> key = context_key k"
  by (auto simp: known_keys_def dest!: dict_get_SomeD)

lemma context_keys_distinct: "distinct (map context_key all_fields)"
  by code_simp

lemma context_key_inj: "k \<in> set all_fields \<Longrightarrow> k' \<in> set all_fields \<Longrightarrow> context_key k = context_key k' \<Longrightarrow> k = k'"
  using context_keys_distinct by (auto simp: distinct_map dest: inj_onD)

lemma data_field_set: "data_field (dict_set k v d) k' = (if k' = k then v else data_field d k')"
  by (simp add: data_field_def dict_get_set)

lemma data_field_of: "data_field (in_values i) k = field_of i k"
  by (simp add: data_field_def field_of_def)

lemma field_of_validate: "field_of (model_validate d) k = strip (data_field d k)"
proof -
  have "dict_get (map (\<lambda>(k, v). (k, strip v)) d) k = map_option strip (dict_get d k)" by (induction d) auto
  then show ?thesis by (simp add: field_of_def model_validate_def data_field_def split: option.splits)
qed

definition infra_wf :: "Infrastructure \<Rightarrow> bool" where
  "infra_wf i = (\<forall>k. strip (field_of i k) = field_of i k)"

lemma validated_wf: "infra_wf (model_validate d)"
  by (simp add: infra_wf_def field_of_validate)

lemma write_overrides_unwritten:
  "write_overrides ov (d0, S0) = Inr (d, S) \<Longrightarrow> context_key k \<notin> fst ` set ov \<Longrightarrow> data_field d k = data_field d0 k \<and> (k \<in> S \<longleftrightarrow> k \<in> S0)"
proof (induction ov arbitrary: d0 S0)
  case (Cons kv ov)
  obtain key v where kv: "kv = (key, v)" by (cases kv)
  obtain l where l: "dict_get known_keys key = Some l" "write_overrides ov (dict_set l (override_text v) d0, insert l S0) = Inr (d, S)"
    using Cons.prems(1) by (auto simp: kv split: option.splits)
  have "l \<noteq> k" using known_keys_context [OF l(1)] Cons.prems(2) by (auto simp: kv)
  then show ?case using Cons.IH [OF l(2)] Cons.prems(2) by (simp add: data_field_set)
qed simp

text \<open>The only credentials are the keys of the two connectors, so stranding looks at these two.\<close>

definition strand_key :: "url_parser \<Rightarrow> (field_key, string) pydict \<Rightarrow> field_key set \<Rightarrow> string \<Rightarrow> (field_key, string) pydict \<Rightarrow> (field_key, string) pydict" where
  "strand_key parse before supplied side d =
     (let old = origin_of parse (data_field before (side, ''connector'', ''management_url''))
      in if old \<noteq> [] \<and> old \<noteq> origin_of parse (data_field d (side, ''connector'', ''management_url'')) \<and> (side, ''connector'', ''api_key'') \<notin> supplied
         then dict_set (side, ''connector'', ''api_key'') [] d else d)"

lemma capability_credentials:
  "secret_fields ConnectorBinding = [''api_key'']" "secret_fields SutConnectorBinding = [''api_key'']"
  "secret_fields DtrBinding = []" "secret_fields EngineDtrBinding = []"
  "url_field ConnectorBinding = ''management_url''" "url_field SutConnectorBinding = ''management_url''"
  by code_simp+

lemma strand_keys: "strand_moved_credentials parse before supplied after = strand_key parse before supplied ''sut'' (strand_key parse before supplied ''engine'' after)"
  by (simp add: strand_moved_credentials_def capabilities_def moved_def capability_credentials strand_key_def Let_def)

lemma secret_field_cases:
  assumes "(side, cap, b) \<in> set capabilities" "f \<in> set (secret_fields b)"
  shows "side \<in> {''engine'', ''sut''} \<and> cap = ''connector'' \<and> f = ''api_key'' \<and> url_field b = ''management_url''"
  using assms by (auto simp: capabilities_def capability_credentials)

lemma stranded_other:
  "k \<notin> {(''engine'', ''connector'', ''api_key''), (''sut'', ''connector'', ''api_key'')} \<Longrightarrow>
     data_field (strand_moved_credentials parse before supplied after) k = data_field after k"
  by (auto simp: strand_keys strand_key_def Let_def data_field_set)

lemma stranded_key:
  assumes "side \<in> {''engine'', ''sut''}" "(side, ''connector'', ''api_key'') \<notin> supplied"
    "origin_of parse (data_field before (side, ''connector'', ''management_url'')) \<noteq> []"
  shows "data_field (strand_moved_credentials parse before supplied after) (side, ''connector'', ''api_key'') =
     (if origin_of parse (data_field before (side, ''connector'', ''management_url'')) = origin_of parse (data_field after (side, ''connector'', ''management_url''))
      then data_field after (side, ''connector'', ''api_key'') else [])"
  using assms by (auto simp: strand_keys strand_key_def Let_def data_field_set)

text \<open>A run's override of other fields leaves a registered key where it was, or blanks it when its address went elsewhere.\<close>

lemma resolved_key:
  assumes "apply_overrides parse False i ov = Inr r" and "side \<in> {''engine'', ''sut''}" and "infra_wf i"
    and "context_key (side, ''connector'', ''api_key'') \<notin> fst ` set ov"
    and "origin_of parse (field_of i (side, ''connector'', ''management_url'')) \<noteq> []"
  shows "field_of r (side, ''connector'', ''api_key'') = [] \<or>
    field_of r (side, ''connector'', ''api_key'') = field_of i (side, ''connector'', ''api_key'')
    \<and> origin_of parse (field_of r (side, ''connector'', ''management_url'')) = origin_of parse (field_of i (side, ''connector'', ''management_url''))"
proof (cases "ov = []")
  case True then show ?thesis using assms(1) by (simp add: apply_overrides_def)
next
  case False
  let ?k = "(side, ''connector'', ''api_key'')" and ?u = "(side, ''connector'', ''management_url'')"
  obtain d S where w: "write_overrides ov (in_values i, {}) = Inr (d, S)" and r: "r = model_validate (strand_moved_credentials parse (in_values i) S d)"
    using assms(1) False by (auto simp: apply_overrides_def map_ok_Inr)
  have k: "data_field d ?k = field_of i ?k" "?k \<notin> S"
    using write_overrides_unwritten [OF w assms(4)] by (simp_all add: data_field_of)
  have u: "data_field (strand_moved_credentials parse (in_values i) S d) ?u = data_field d ?u" by (rule stranded_other) simp
  have "strip (field_of i ?k) = field_of i ?k" using assms(3) by (simp add: infra_wf_def)
  then show ?thesis
    using stranded_key [OF assms(2) k(2), of parse "in_values i" d] assms(5) k(1)
    by (auto simp: r field_of_validate u data_field_of split: if_splits)
qed

lemma apply_overrides_wf: "apply_overrides parse keep i ov = Inr r \<Longrightarrow> infra_wf i \<Longrightarrow> infra_wf r"
  by (auto simp: apply_overrides_def map_ok_Inr validated_wf split: if_splits)

lemma applied_unwritten:
  assumes "apply_overrides parse True i ov = Inr r" "infra_wf i" "context_key k \<notin> fst ` set ov"
  shows "field_of r k = field_of i k"
proof (cases "ov = []")
  case True then show ?thesis using assms(1) by (simp add: apply_overrides_def)
next
  case False
  obtain d S where w: "write_overrides ov (in_values i, {}) = Inr (d, S)" and r: "r = model_validate d"
    using assms(1) False by (auto simp: apply_overrides_def map_ok_Inr)
  have "strip (field_of i k) = field_of i k" using assms(2) unfolding infra_wf_def by blast
  then show ?thesis using write_overrides_unwritten [OF w assms(3)] by (simp add: r field_of_validate data_field_of)
qed

definition certified_names :: "string list" where
  "certified_names = [''version'', ''standard'', ''standard_version'']"

lemma certified_fields: "(side, cap, b) \<in> set capabilities \<Longrightarrow> f \<in> set certified_names \<Longrightarrow> (side, cap, f) \<in> set all_fields"
proof -
  have "list_all (\<lambda>(side, cap, b). list_all (\<lambda>f. (side, cap, f) \<in> set all_fields) certified_names) capabilities" by code_simp
  then show "(side, cap, b) \<in> set capabilities \<Longrightarrow> f \<in> set certified_names \<Longrightarrow> (side, cap, f) \<in> set all_fields"
    by (auto simp: list_all_iff)
qed

lemma stated_certified: "(f, certified, fallback) \<in> set (stated_fields req r stated side cap) \<Longrightarrow> f \<in> set certified_names"
  by (auto simp: stated_fields_def Let_def certified_names_def)

lemma fills_certified:
  assumes "(key, v) \<in> set (align_fills req r stated i)"
  obtains side cap b f where "(side, cap, b) \<in> set (bound_capabilities i)" "f \<in> set certified_names" "key = context_key (side, cap, f)"
proof -
  obtain side cap b f cert fb where "(side, cap, b) \<in> set (bound_capabilities i)" "(f, cert, fb) \<in> set (stated_fields req r stated side cap)"
    "key = context_key (side, cap, f)"
    using assms by (fastforce simp: align_fills_def split: if_splits)
  then show thesis using stated_certified that by blast
qed

lemma aligned_other:
  assumes "align parse req release stated i = Inr a" "infra_wf i" "(side, cap, f) \<in> set all_fields" "f \<notin> set certified_names"
  shows "field_of a (side, cap, f) = field_of i (side, cap, f)"
proof -
  have a: "apply_overrides parse True i (align_fills req (release_or_default release) stated i) = Inr a"
    using assms(1) by (simp add: align_def Let_def split: if_splits)
  have "context_key (side, cap, f) \<notin> fst ` set (align_fills req (release_or_default release) stated i)"
  proof
    assume "context_key (side, cap, f) \<in> fst ` set (align_fills req (release_or_default release) stated i)"
    then obtain v where v: "(context_key (side, cap, f), v) \<in> set (align_fills req (release_or_default release) stated i)" by force
    then show False
    proof (rule fills_certified)
      fix s c b f' assume m: "(s, c, b) \<in> set (bound_capabilities i)" "f' \<in> set certified_names" "context_key (side, cap, f) = context_key (s, c, f')"
      have "(s, c, f') \<in> set all_fields" by (rule certified_fields [OF _ m(2), of s c b]) (use m(1) in \<open>simp add: bound_capabilities_def\<close>)
      then have "(side, cap, f) = (s, c, f')" by (rule context_key_inj [OF assms(3) _ m(3)])
      then show False using m(2) assms(4) by simp
    qed
  qed
  then show ?thesis by (rule applied_unwritten [OF a assms(2)])
qed

section \<open>What a run is given of its bindings\<close>

lemma set_variables_other: "set_variables kvs x = Inr y \<Longrightarrow> k \<notin> fst ` set kvs \<Longrightarrow> same_at k x y"
proof (induction kvs arbitrary: x)
  case (Cons jv kvs)
  then show ?case by (cases jv) (auto split: sum.splits intro: same_at_trans dest: set_variable_same)
qed (simp add: same_at_refl)

lemma set_variables_held:
  "set_variables kvs x = Inr y \<Longrightarrow> k \<in> fst ` set kvs \<Longrightarrow> \<exists>v. (k, v) \<in> set kvs \<and> dict_get (cx_variables y) k = Some v"
proof (induction kvs arbitrary: x)
  case (Cons jv kvs)
  obtain j v where jv: "jv = (j, v)" by (cases jv)
  obtain z where z: "set_variable j v x = Inr z" "set_variables kvs z = Inr y" using Cons.prems(1) by (auto simp: jv split: sum.splits)
  show ?case
  proof (cases "k \<in> fst ` set kvs")
    case True then show ?thesis using Cons.IH [OF z(2)] by auto
  next
    case False
    then have "k = j" using Cons.prems(2) by (auto simp: jv)
    then show ?thesis using set_variables_other [OF z(2) False] set_variable_held [OF z(1)] by (simp add: jv same_at_def)
  qed
qed simp

lemma unset_variables_gone:
  "unset_variables ks x = Inr y \<Longrightarrow> dict_get (cx_variables y) k = (if k \<in> set ks then None else dict_get (cx_variables x) k)"
proof (induction ks arbitrary: x)
  case (Cons j ks)
  obtain z where z: "unset_variable j x = Inr z" "unset_variables ks z = Inr y" using Cons.prems by (auto split: sum.splits)
  have "dict_get (cx_variables z) k = (if k = j then None else dict_get (cx_variables x) k)"
    using z(1) by (auto simp: unset_variable_def dict_get_pop split: if_splits)
  then show ?case using Cons.IH [OF z(2)] by (cases "k = j") simp_all
qed simp

text \<open>Under a name of the model a run holds what its deployment projects there, and nothing when that is nothing.\<close>

lemma published_binding:
  assumes "publish_bindings parse job i x g h = Inr (y, g', h')" "k \<in> set all_fields" "dict_get (cx_variables y) (context_key k) = Some v"
  shows "(context_key k, v) \<in> set (flatten parse i)"
proof -
  let ?gone = "filter (\<lambda>k. \<not> dict_has (flatten parse i) k) (dict_keys known_keys)"
  obtain z where z: "set_variables (flatten parse i) x = Inr z" "unset_variables ?gone z = Inr y"
    using assms(1) by (auto simp: publish_bindings_def Let_def map_ok_Inr split: sum.splits)
  have n: "context_key k \<notin> set ?gone" and s: "dict_get (cx_variables z) (context_key k) = Some v"
    using assms(3) unset_variables_gone [OF z(2), of "context_key k"] by (auto split: if_splits)
  have "context_key k \<in> fst ` set (flatten parse i)"
    using n assms(2) by (force simp: known_keys_def dict_has_iff)
  then show ?thesis using set_variables_held [OF z(1)] s by fastforce
qed

lemma secret_names: "(side, cap, b) \<in> set capabilities \<Longrightarrow> fi \<in> set (bt_fields b) \<Longrightarrow> fi_name fi \<in> set (secret_fields b) \<Longrightarrow> fi_secret fi"
proof -
  have "\<forall>x\<in>set capabilities. \<forall>fi\<in>set (bt_fields (snd (snd x))). fi_name fi \<in> set (secret_fields (snd (snd x))) \<longrightarrow> fi_secret fi" by code_simp
  from bspec [OF this, of "(side, cap, b)"]
  show "(side, cap, b) \<in> set capabilities \<Longrightarrow> fi \<in> set (bt_fields b) \<Longrightarrow> fi_name fi \<in> set (secret_fields b) \<Longrightarrow> fi_secret fi"
    by simp
qed

lemma capability_unique: "(side, cap, b) \<in> set capabilities \<Longrightarrow> (side, cap, b') \<in> set capabilities \<Longrightarrow> b = b'"
  by (auto simp: capabilities_def)

lemma field_known:
  assumes "(side, cap, b) \<in> set capabilities" "fi \<in> set (bt_fields b)"
  shows "(side, cap, fi_name fi) \<in> set all_fields"
proof -
  have "(side, cap, fi_name fi) \<in> set (map (\<lambda>f. (side, cap, f)) (field_names b))" using assms(2) by (simp add: field_names_def)
  then show ?thesis unfolding all_fields_def using assms(1) by fastforce
qed

lemma secret_known: "(side, cap, b) \<in> set capabilities \<Longrightarrow> f \<in> set (secret_fields b) \<Longrightarrow> (side, cap, f) \<in> set all_fields"
  by (auto simp: secret_fields_def intro: field_known)

lemma flatten_field:
  assumes "(context_key (side, cap, f), v) \<in> set (flatten parse i)" "(side, cap, b) \<in> set capabilities" "f \<in> set (secret_fields b)"
  shows "field_of i (side, cap, f) \<noteq> []
    \<and> v = PCred (new_credential (field_of i (side, cap, f)) (context_key (side, cap, f)) side [origin_of parse (credential_url i side cap b)])"
proof -
  obtain s c b' fi where m: "(s, c, b') \<in> set capabilities" "fi \<in> set (bt_fields b')" "(context_key (side, cap, f), v) \<in> set (projected_field parse i s c b' fi)"
    using assms(1) by (fastforce simp: flatten_def bound_capabilities_def)
  have "context_key (side, cap, f) = context_key (s, c, fi_name fi)"
    using m(3) by (simp add: projected_field_def Let_def split: if_splits)
  then have k: "side = s" "cap = c" "f = fi_name fi"
    using context_key_inj [OF secret_known [OF assms(2,3)] field_known [OF m(1,2)]] by simp_all
  have b: "b' = b" using capability_unique m(1) assms(2) k by blast
  have "fi_secret fi" using secret_names [OF m(1,2)] assms(3) b k by simp
  then have "field_of i (s, c, fi_name fi) \<noteq> []
    \<and> v = PCred (new_credential (field_of i (s, c, fi_name fi)) (context_key (s, c, fi_name fi)) s [origin_of parse (credential_url i s c b')])"
    using m(3) by (simp add: projected_field_def Let_def split: if_splits)
  then show ?thesis by (simp add: k b)
qed

lemma collect_overrides_from: "collect_overrides req vars acc = Inr ov \<Longrightarrow> fst ` set ov \<subseteq> fst ` set acc \<union> fst ` set vars"
proof (induction vars arbitrary: acc)
  case (Cons kv vars)
  obtain k v where kv: "kv = (k, v)" by (cases kv)
  have "fst ` set (dict_set k v acc) = insert k (fst ` set acc)"
    using arg_cong [OF keys_dict_set [of k v acc], of set] by auto
  then show ?case using Cons.IH [of "dict_set k v acc"] Cons.IH [of acc] Cons.prems by (auto simp: kv split: if_splits)
qed simp

lemma url_known: "(side, cap, b) \<in> set capabilities \<Longrightarrow> (side, cap, url_field b) \<in> set all_fields"
proof -
  have "list_all (\<lambda>(side, cap, b). (side, cap, url_field b) \<in> set all_fields) capabilities" by code_simp
  then show "(side, cap, b) \<in> set capabilities \<Longrightarrow> (side, cap, url_field b) \<in> set all_fields" by (auto simp: list_all_iff)
qed

text \<open>
  A bound run reads a registered key only as a handle that its registered origin redeems, unless the run's own inputs supply
  the key.
\<close>

lemma bound_key:
  assumes bind: "bind_infrastructure parse job m open_sides req version x g h = Inr (aligned, y, g', h')"
    and wf: "infra_wf (active_infrastructure m)"
    and key: "(side, cap, b) \<in> set capabilities" "f \<in> set (secret_fields b)"
    and mine: "context_key (side, cap, f) \<notin> fst ` set (run_inputs x)"
    and registered: "origin_of parse (credential_url (active_infrastructure m) side cap b) \<noteq> []"
    and held: "dict_get (cx_variables y) (context_key (side, cap, f)) = Some v"
  shows "\<exists>c. v = PCred c \<and> cred_value c = field_of (active_infrastructure m) (side, cap, f)
    \<and> cred_origins c = {origin_of parse (credential_url (active_infrastructure m) side cap b)}"
proof -
  let ?i = "active_infrastructure m"
  note c = secret_field_cases [OF key]
  obtain ov r rel stated where ov: "collect_overrides req (run_inputs x) [] = Inr ov" and r: "apply_overrides parse False ?i ov = Inr r"
    and a: "align parse req rel stated r = Inr aligned" and p: "publish_bindings parse job aligned x g h = Inr (y, g', h')"
    using bind by (auto simp: bind_infrastructure_def resolve_profile_def Let_def split: prod.splits sum.splits)
  have rw: "infra_wf r" by (rule apply_overrides_wf [OF r wf])
  have "context_key (side, cap, f) \<notin> fst ` set ov" using mine collect_overrides_from [OF ov] by force
  then have k: "field_of r (side, cap, f) = [] \<or> field_of r (side, cap, f) = field_of ?i (side, cap, f)
      \<and> origin_of parse (field_of r (side, cap, url_field b)) = origin_of parse (field_of ?i (side, cap, url_field b))"
    using resolved_key [OF r _ wf, of side] c registered by (simp add: credential_url_def)
  have "f \<notin> set certified_names" "url_field b \<notin> set certified_names" using c by (simp_all add: certified_names_def)
  then have same: "field_of aligned (side, cap, f) = field_of r (side, cap, f)"
    "field_of aligned (side, cap, url_field b) = field_of r (side, cap, url_field b)"
    using aligned_other [OF a rw] secret_known [OF key] url_known [OF key(1)] by blast+
  have "field_of aligned (side, cap, f) \<noteq> []"
    "v = PCred (new_credential (field_of aligned (side, cap, f)) (context_key (side, cap, f)) side [origin_of parse (credential_url aligned side cap b)])"
    using flatten_field [OF published_binding [OF p secret_known [OF key] held] key] by simp_all
  then show ?thesis using k same registered by (auto simp: new_credential_def credential_url_def)
qed

lemma seeded_inputs:
  assumes "seed_context_variables env job tck rt (new_context p, g) = Inr (x, g', kept)" and "k \<in> fst ` set (run_inputs x)"
  shows "k \<in> fst ` set rt"
proof -
  have s: "starts_with k ''infrastructure.''" "k \<notin> cx_templates x" "k \<in> set (dict_keys (cx_variables x))"
    using assms(2) by (auto simp: run_inputs_def is_template_def)
  obtain v where "dict_get (cx_variables x) k = Some v" using s(3) dict_get_None_iff [of "cx_variables x" k] by auto
  then show ?thesis using seeded_bindings [OF assms(1)] s by (force simp: bindings_from_def operator_value_def)
qed

lemma revealed_to_origin: "reveal parse (PCred c) url released = Inr (PStr s) \<Longrightarrow> s = cred_value c \<and> origin_of parse url \<in> cred_origins c"
  by (auto simp: reveal_def reveal_for_def Let_def split: if_splits sum.splits)

text \<open>C9. 
  Whatever a package carries and whatever else the run was given, a key the host registered for a deployment is shown to the
  run as a handle only, and the handle gives the key up to the origin it was registered for and to no other, unless the
  operator of the run supplied a key of their own.
\<close>

theorem registered_key_stays_home:
  assumes "seed_context_variables env job tck runtime_vars (new_context prefix, g0) = Inr (x, g, kept)"
    and "bind_infrastructure parse job m open_sides req version x g h = Inr (aligned, y, g', h')"
    and "infra_wf (active_infrastructure m)"
    and "(side, cap, b) \<in> set capabilities" and "f \<in> set (secret_fields b)"
    and "context_key (side, cap, f) \<notin> fst ` set runtime_vars"
    and "origin_of parse (credential_url (active_infrastructure m) side cap b) \<noteq> []"
    and "dict_get (cx_variables y) (context_key (side, cap, f)) = Some v"
  shows "(\<exists>c. v = PCred c) \<and> (\<forall>url released s. reveal parse v url released = Inr (PStr s) \<longrightarrow>
    s = field_of (active_infrastructure m) (side, cap, f)
    \<and> origin_of parse url = origin_of parse (credential_url (active_infrastructure m) side cap b))"
proof -
  have "context_key (side, cap, f) \<notin> fst ` set (run_inputs x)" using seeded_inputs [OF assms(1)] assms(6) by blast
  then obtain c where "v = PCred c" "cred_value c = field_of (active_infrastructure m) (side, cap, f)"
    "cred_origins c = {origin_of parse (credential_url (active_infrastructure m) side cap b)}"
    using bound_key [OF assms(2-5) _ assms(7,8)] by blast
  then show ?thesis using revealed_to_origin by fastforce
qed

section \<open>Sides the host holds\<close>

lemma side_of_key: "k \<in> set all_fields \<Longrightarrow> split_on (CHR ''.'') (context_key k) ! 1 = fst k \<and> fst k \<in> {''engine'', ''sut''}"
proof -
  have "\<forall>k\<in>set all_fields. split_on (CHR ''.'') (context_key k) ! 1 = fst k \<and> fst k \<in> {''engine'', ''sut''}" by code_simp
  then show "k \<in> set all_fields \<Longrightarrow> ?thesis" by blast
qed

lemma connector_known: "side \<in> {''engine'', ''sut''} \<Longrightarrow> (side, ''connector'', ''management_url'') \<in> set all_fields"
proof -
  have "\<forall>side\<in>{''engine'', ''sut''}. (side, ''connector'', ''management_url'') \<in> set all_fields" by code_simp
  then show "side \<in> {''engine'', ''sut''} \<Longrightarrow> ?thesis" by blast
qed

lemma refused_none: "refuse_held_sides ov open_sides = Inr u \<Longrightarrow> \<forall>key\<in>fst ` set ov. split_on (CHR ''.'') key ! 1 \<in> set open_sides"
proof -
  let ?xs = "filter (\<lambda>key. split_on (CHR ''.'') key ! 1 \<notin> set open_sides) (dict_keys ov)"
  assume "refuse_held_sides ov open_sides = Inr u"
  then have "sort ?xs = []" by (simp only: refuse_held_sides_def Let_def split: if_splits) simp
  then have "set ?xs = {}" using set_sort [of "\<lambda>x. x" ?xs] by simp
  then show ?thesis unfolding set_filter set_map by blast
qed

lemma held_keys:
  assumes "refuse_held_sides ov open_sides = Inr u" "(side, cap, f) \<in> set all_fields" "side \<notin> set open_sides"
  shows "context_key (side, cap, f) \<notin> fst ` set ov"
  using bspec [OF refused_none [OF assms(1)], of "context_key (side, cap, f)"] side_of_key [OF assms(2)] assms(3) by auto

lemma stranded_unmoved:
  assumes "data_field after (side, ''connector'', ''management_url'') = data_field before (side, ''connector'', ''management_url'')"
  shows "data_field (strand_moved_credentials parse before supplied after) (side, cap, f) = data_field after (side, cap, f)"
  using assms by (auto simp: strand_keys strand_key_def Let_def data_field_set)

text \<open>C39. 
  A side the host does not let a run override is, after binding, what the host registered, field by field; only the release
  and the standard the TCK certifies against are filled in.
\<close>

theorem held_side_is_registered:
  assumes "bind_infrastructure parse job m open_sides req version x g h = Inr (aligned, y, g', h')"
    and "infra_wf (active_infrastructure m)"
    and "(side, cap, f) \<in> set all_fields" and "side \<notin> set open_sides" and "f \<notin> set certified_names"
  shows "field_of aligned (side, cap, f) = field_of (active_infrastructure m) (side, cap, f)"
proof -
  let ?i = "active_infrastructure m"
  obtain ov r rel stated u where hs: "refuse_held_sides ov open_sides = Inr u" and r: "apply_overrides parse False ?i ov = Inr r"
    and a: "align parse req rel stated r = Inr aligned"
    using assms(1) by (auto simp: bind_infrastructure_def resolve_profile_def Let_def split: prod.splits sum.splits)
  have wf: "strip (field_of ?i k) = field_of ?i k" for k using assms(2) unfolding infra_wf_def by blast
  have "field_of r (side, cap, f) = field_of ?i (side, cap, f)"
  proof (cases "ov = []")
    case True then show ?thesis using r by (simp add: apply_overrides_def)
  next
    case False
    obtain d S where w: "write_overrides ov (in_values ?i, {}) = Inr (d, S)" and rv: "r = model_validate (strand_moved_credentials parse (in_values ?i) S d)"
      using r False by (auto simp: apply_overrides_def map_ok_Inr)
    have d: "data_field d (side, c, e) = field_of ?i (side, c, e)" if "(side, c, e) \<in> set all_fields" for c e
      using write_overrides_unwritten [OF w held_keys [OF hs that assms(4)]] by (simp add: data_field_of)
    have "(side, ''connector'', ''management_url'') \<in> set all_fields" using side_of_key [OF assms(3)] by (intro connector_known) simp
    then have "data_field (strand_moved_credentials parse (in_values ?i) S d) (side, cap, f) = data_field d (side, cap, f)"
      by (intro stranded_unmoved) (simp add: d data_field_of)
    then show ?thesis using d [OF assms(3)] wf by (simp add: rv field_of_validate)
  qed
  then show ?thesis using aligned_other [OF a apply_overrides_wf [OF r assms(2)] assms(3,5)] by simp
qed

text \<open>The names the compiler looks for are names of the bindings, as its checks suppose.\<close>

lemma secret_keys_bind: "binding_keys (set secret_keys)"
  by (simp add: binding_keys_def) code_simp

section \<open>A bound run\<close>

definition demo_key :: string where
  "demo_key = ''infrastructure.engine.connector.api_key''"

definition demo_deployment :: Infrastructure where
  "demo_deployment = model_validate
     (dict_set (''engine'', ''connector'', ''api_key'') ''key7''
       (dict_set (''engine'', ''connector'', ''management_url'') ''https://Data.example./a'' (in_values empty_infrastructure)))"

definition demo_manager :: InfrastructureManager where
  "demo_manager = new_infrastructure_manager (Some demo_deployment) ''default''"

definition demo_requirements :: InfrastructureConfig where
  "demo_requirements = \<lparr>ic_engine = [], ic_sut = []\<rparr>"

definition demo_package :: tck_env where
  "demo_package = \<lparr>te_base_dir = None, te_variables = PNone, te_testdata = [], te_schemas = [], te_apis = [],
     te_shared = [(''infrastructure.engine.connector.management_url'', PStr ''https://evil.example/'')]\<rparr>"

definition demo_open :: "(string, pyval) pydict \<Rightarrow> string list \<Rightarrow> binding_error + Infrastructure \<times> StepContext \<times> Registry \<times> SecretHeaders" where
  "demo_open inputs open_sides =
     (case seed_context_variables demo_seed ''job'' demo_package inputs (new_context ''p:'', new_registry) of
        Inl e \<Rightarrow> Inl (Refused_write e)
      | Inr (x, g, kept) \<Rightarrow>
          bind_infrastructure demo_parse ''job'' demo_manager open_sides demo_requirements None x g no_secret_headers)"

definition handle_of :: "binding_error + Infrastructure \<times> StepContext \<times> Registry \<times> SecretHeaders \<Rightarrow> pyval option" where
  "handle_of r = (case r of Inl e \<Rightarrow> None | Inr (a, y, g, h) \<Rightarrow> dict_get (cx_variables y) demo_key)"

definition demo_move :: "string \<Rightarrow> (string, pyval) pydict" where
  "demo_move url = [(''infrastructure.engine.connector.management_url'', PStr url)]"

definition demo_handle_at_home :: pyval where
  "demo_handle_at_home = PCred (new_credential ''key7'' demo_key ''engine'' [''https://data.example:443''])"

text \<open>
  The package's own address is ignored; the operator's is taken, and takes the key along only within its origin.
\<close>

lemma demo_bound: "handle_of (demo_open [] []) = Some demo_handle_at_home"
  by code_simp

definition api_key_of :: "binding_error + Infrastructure \<Rightarrow> string option" where
  "api_key_of r = (case r of Inl e \<Rightarrow> None | Inr i \<Rightarrow> Some (field_of i (''engine'', ''connector'', ''api_key'')))"

lemma demo_moved:
  "api_key_of (resolve_profile demo_parse demo_manager (demo_move ''https://data.example:443/b'')) = Some ''key7''"
  "api_key_of (resolve_profile demo_parse demo_manager (demo_move ''https://evil.example/'')) = Some []"
  by code_simp+

lemma demo_opened:
  obtains x g kept aligned y g' h' where
    "seed_context_variables demo_seed ''job'' demo_package [] (new_context ''p:'', new_registry) = Inr (x, g, kept)"
    "bind_infrastructure demo_parse ''job'' demo_manager [] demo_requirements None x g no_secret_headers = Inr (aligned, y, g', h')"
    "dict_get (cx_variables y) demo_key = Some demo_handle_at_home"
  using demo_bound by (auto simp: demo_open_def handle_of_def split: sum.splits prod.splits)

lemma demo_active: "active_infrastructure demo_manager = demo_deployment"
  by (simp add: demo_manager_def new_infrastructure_manager_def active_infrastructure_def)

lemma demo_wf: "infra_wf (active_infrastructure demo_manager)"
  unfolding demo_active demo_deployment_def by (rule validated_wf)

lemma demo_url: "origin_of demo_parse (credential_url demo_deployment ''engine'' ''connector'' ConnectorBinding) = ''https://data.example:443''"
  by code_simp

theorem registered_key_stays_home_witness:
  "\<exists>(y :: StepContext) c. dict_get (cx_variables y) demo_key = Some (PCred c)
     \<and> (\<forall>released s. reveal demo_parse (PCred c) ''https://evil.example/'' released \<noteq> Inr (PStr s))"
proof -
  obtain x g kept aligned y g' h' where op:
    "seed_context_variables demo_seed ''job'' demo_package [] (new_context ''p:'', new_registry) = Inr (x, g, kept)"
    "bind_infrastructure demo_parse ''job'' demo_manager [] demo_requirements None x g no_secret_headers = Inr (aligned, y, g', h')"
    "dict_get (cx_variables y) demo_key = Some demo_handle_at_home"
    by (rule demo_opened)
  have c: "(''engine'', ''connector'', ConnectorBinding) \<in> set capabilities" by (simp add: capabilities_def)
  have f: "''api_key'' \<in> set (secret_fields ConnectorBinding)" by (simp add: capability_credentials)
  have k: "context_key (''engine'', ''connector'', ''api_key'') = demo_key" by (simp add: context_key_def demo_key_def)
  have u: "origin_of demo_parse (credential_url (active_infrastructure demo_manager) ''engine'' ''connector'' ConnectorBinding) \<noteq> []"
    by (simp add: demo_active demo_url)
  have e: "origin_of demo_parse ''https://evil.example/'' = ''https://evil.example:443''" by code_simp
  have r: "(\<exists>c. demo_handle_at_home = PCred c) \<and> (\<forall>url released s. reveal demo_parse demo_handle_at_home url released = Inr (PStr s) \<longrightarrow>
      s = field_of (active_infrastructure demo_manager) (''engine'', ''connector'', ''api_key'')
      \<and> origin_of demo_parse url = origin_of demo_parse (credential_url (active_infrastructure demo_manager) ''engine'' ''connector'' ConnectorBinding))"
    by (rule registered_key_stays_home [OF op(1,2) demo_wf c f _ u]) (simp_all add: k op(3))
  then obtain c where c: "demo_handle_at_home = PCred c" by blast
  have "reveal demo_parse (PCred c) ''https://evil.example/'' released \<noteq> Inr (PStr s)" for released s
  proof
    assume "reveal demo_parse (PCred c) ''https://evil.example/'' released = Inr (PStr s)"
    then have "origin_of demo_parse ''https://evil.example/'' = origin_of demo_parse (credential_url (active_infrastructure demo_manager) ''engine'' ''connector'' ConnectorBinding)"
      using r unfolding c by blast
    then show False by (simp add: e demo_active demo_url)
  qed
  then have "\<forall>released s. reveal demo_parse (PCred c) ''https://evil.example/'' released \<noteq> Inr (PStr s)" by simp
  then show ?thesis using op(3) unfolding c by blast
qed

theorem held_side_is_registered_witness:
  "\<exists>x g aligned y g' h'. bind_infrastructure demo_parse ''job'' demo_manager [] demo_requirements None x g no_secret_headers = Inr (aligned, y, g', h')
     \<and> field_of aligned (''engine'', ''connector'', ''api_key'') = ''key7''"
proof -
  obtain x g kept aligned y g' h' where op:
    "seed_context_variables demo_seed ''job'' demo_package [] (new_context ''p:'', new_registry) = Inr (x, g, kept)"
    "bind_infrastructure demo_parse ''job'' demo_manager [] demo_requirements None x g no_secret_headers = Inr (aligned, y, g', h')"
    by (rule demo_opened)
  have a: "(''engine'', ''connector'', ''api_key'') \<in> set all_fields" by code_simp
  have r: "field_of demo_deployment (''engine'', ''connector'', ''api_key'') = ''key7''" by code_simp
  have "field_of aligned (''engine'', ''connector'', ''api_key'') = ''key7''"
    using held_side_is_registered [OF op(2) demo_wf a] by (simp add: certified_names_def demo_active r)
  then show ?thesis using op(2) by blast
qed

section \<open>What a bound run proves\<close>

text \<open>A run that starts has everything its TCK requires: every field the operator owes of a required capability.\<close>

lemma required_is_bound:
  assumes "validate_bound req i = Inr ()" "(side, cap, b) \<in> set capabilities" "requirement_of req side cap = Some r" "cr_required r"
    "f \<in> set (operator_fields b)"
  shows "strip (field_of i (side, cap, f)) \<noteq> []"
proof -
  let ?gaps = "concat (map (\<lambda>(side, capability, b).
            case requirement_of req side capability of
              None \<Rightarrow> []
            | Some r \<Rightarrow> (let owed = missing_fields i side capability b
                        in if cr_required r \<and> owed \<noteq> [] then [(side, capability, map (\<lambda>f. context_key (side, capability, f)) owed)] else []))
            capabilities)"
  have "?gaps = []" using assms(1) by (simp only: validate_bound_def Let_def split: if_splits) simp
  then have "missing_fields i side cap b = []" using assms(2-4) by (fastforce simp: Let_def split: if_splits)
  then show ?thesis using assms(5) by (auto simp: missing_fields_def filter_empty_conv)
qed

end
