(* ===== verification/Services.thy ===== *)
theory Services
  imports Binding
begin

text \<open>
  The SDK services of a run: the definitions and the lazily built instances (\<^verbatim>\<open>services/instances.py\<close>,
  \<^verbatim>\<open>_sdk_services.py\<close>), what is registered for the deployment a run is bound to
  (\<^verbatim>\<open>player/execution/infrastructure_seeder.py\<close>) and how a step reaches a service by its role
  (\<^verbatim>\<open>player/execution/dataspace_access.py\<close>).

  Building a service is the SDK's: an argument that answers a call of one of its three constructors with the instance or
  the exception. An exception ends an operation and leaves what it had written, so operations return the manager with it.
\<close>

section \<open>Definitions\<close>

datatype ServiceType = CONNECTOR_CONSUMER | CONNECTOR_PROVIDER | DTR | EDC_CONNECTOR | EDC_CONNECTOR_SATURN | EDC_CONNECTOR_JUPITER
  | DIGITAL_TWIN_REGISTRY | DISCOVERY_FINDER

datatype ServiceState = DECLARED | INITIALIZING | READY | ACTIVE | STOPPING | STOPPED | FAILED

fun service_type_value :: "ServiceType \<Rightarrow> string" where
  "service_type_value CONNECTOR_CONSUMER = ''CONNECTOR_CONSUMER''"
| "service_type_value CONNECTOR_PROVIDER = ''CONNECTOR_PROVIDER''"
| "service_type_value DTR = ''DTR''"
| "service_type_value EDC_CONNECTOR = ''EDC_CONNECTOR''"
| "service_type_value EDC_CONNECTOR_SATURN = ''EDC_CONNECTOR_SATURN''"
| "service_type_value EDC_CONNECTOR_JUPITER = ''EDC_CONNECTOR_JUPITER''"
| "service_type_value DIGITAL_TWIN_REGISTRY = ''DIGITAL_TWIN_REGISTRY''"
| "service_type_value DISCOVERY_FINDER = ''DISCOVERY_FINDER''"

record ServiceDefinition =
  sv_name :: string
  sv_type :: ServiceType
  sv_base_url :: string
  sv_auth :: "(string, string) pydict"
  sv_params :: "(string, string) pydict"

definition GENERIC_CONNECTOR_TYPES :: "ServiceType list" where
  "GENERIC_CONNECTOR_TYPES = [EDC_CONNECTOR, EDC_CONNECTOR_SATURN, EDC_CONNECTOR_JUPITER]"

definition CONNECTOR_TYPES :: "ServiceType list" where
  "CONNECTOR_TYPES = [CONNECTOR_CONSUMER, CONNECTOR_PROVIDER] @ GENERIC_CONNECTOR_TYPES"

definition DTR_COMPATIBLE_TYPES :: "ServiceType list" where
  "DTR_COMPATIBLE_TYPES = [DTR, DIGITAL_TWIN_REGISTRY]"

definition is_type_compatible :: "ServiceType \<Rightarrow> ServiceType \<Rightarrow> bool" where
  "is_type_compatible actual expected =
     (actual = expected
      \<or> actual \<in> set CONNECTOR_TYPES \<and> expected \<in> set CONNECTOR_TYPES
        \<and> (actual \<in> set GENERIC_CONNECTOR_TYPES \<or> expected \<in> set GENERIC_CONNECTOR_TYPES)
      \<or> actual \<in> set DTR_COMPATIBLE_TYPES \<and> expected \<in> set DTR_COMPATIBLE_TYPES)"

definition cache_key :: "string \<Rightarrow> ServiceDefinition \<Rightarrow> ServiceType option \<Rightarrow> string" where
  "cache_key name d expected =
     (case expected of
        Some e \<Rightarrow> if sv_type d \<in> set GENERIC_CONNECTOR_TYPES then name @ '':'' @ service_type_value e else name
      | None \<Rightarrow> name)"

section \<open>Building an instance\<close>

datatype sdk_call =
    Provider_service string string string "(string, string) pydict"
  | Consumer_service string string string "(string, string) pydict"
  | Aas_service string string string

datatype service_error =
    Service_not_found string
  | Wrong_service_type string
  | Not_built exc

definition DMA_PATH :: string where "DMA_PATH = ''/management''"

definition AAS_API_PATH :: string where "AAS_API_PATH = ''/api/v3''"

definition service_param :: "ServiceDefinition \<Rightarrow> string \<Rightarrow> string \<Rightarrow> string" where
  "service_param d key fallback = (case dict_get (sv_params d) key of None \<Rightarrow> fallback | Some v \<Rightarrow> v)"

definition connector_headers :: "ServiceDefinition \<Rightarrow> (string, string) pydict" where
  "connector_headers d =
     (let headers = [(''Content-Type'', ''application/json'')]
      in case dict_get (sv_auth d) ''api_key'' of
           None \<Rightarrow> headers
         | Some key \<Rightarrow>
             if key = [] then headers
             else dict_set (Values.lower (case dict_get (sv_auth d) ''api_key_header'' of None \<Rightarrow> ''x-api-key'' | Some h \<Rightarrow> h)) key headers)"

definition connector_version :: "ServiceDefinition \<Rightarrow> string" where
  "connector_version d =
     (if service_param d ''version'' [] \<noteq> [] then service_param d ''version'' []
      else if sv_type d = EDC_CONNECTOR_SATURN then ''saturn'' else if sv_type d = EDC_CONNECTOR_JUPITER then ''jupiter''
      else DATASPACE_VERSION)"

definition connector_call :: "ServiceDefinition \<Rightarrow> ServiceType option \<Rightarrow> sdk_call" where
  "connector_call d expected =
     (if sv_type d = CONNECTOR_PROVIDER \<or> expected = Some CONNECTOR_PROVIDER
      then Provider_service (connector_version d) (sv_base_url d) (service_param d ''dma_path'' DMA_PATH) (connector_headers d)
      else Consumer_service (connector_version d) (sv_base_url d) (service_param d ''dma_path'' DMA_PATH) (connector_headers d))"

definition aas_call :: "ServiceDefinition \<Rightarrow> sdk_call" where
  "aas_call d = Aas_service (sv_base_url d) (service_param d ''base_lookup_url'' (sv_base_url d)) (service_param d ''api_path'' AAS_API_PATH)"

type_synonym 'i sdk = "sdk_call \<Rightarrow> exc + 'i"

definition create_instance :: "'i sdk \<Rightarrow> ServiceDefinition \<Rightarrow> ServiceType option \<Rightarrow> service_error + 'i" where
  "create_instance sdk d expected =
     (if sv_type d \<in> set CONNECTOR_TYPES
      then (case sdk (connector_call d expected) of Inl e \<Rightarrow> Inl (Not_built e) | Inr i \<Rightarrow> Inr i)
      else if sv_type d \<in> set DTR_COMPATIBLE_TYPES
      then (case sdk (aas_call d) of Inl e \<Rightarrow> Inl (Not_built e) | Inr i \<Rightarrow> Inr i)
      else Inl (Service_not_found (sv_name d)))"

section \<open>The services of a run\<close>

record 'i ServiceManager =
  sm_definitions :: "(string, ServiceDefinition) pydict"
  sm_instances :: "(string, 'i) pydict"
  sm_states :: "(string, ServiceState) pydict"

definition no_services :: "'i ServiceManager" where
  "no_services = \<lparr>sm_definitions = [], sm_instances = [], sm_states = []\<rparr>"

definition register_service :: "ServiceDefinition \<Rightarrow> 'i ServiceManager \<Rightarrow> 'i ServiceManager" where
  "register_service d m = m\<lparr>sm_definitions := dict_set (sv_name d) d (sm_definitions m), sm_states := dict_set (sv_name d) DECLARED (sm_states m)\<rparr>"

definition register_services :: "ServiceDefinition list \<Rightarrow> 'i ServiceManager \<Rightarrow> 'i ServiceManager" where
  "register_services ds m = fold register_service ds m"

definition set_state :: "string \<Rightarrow> ServiceState \<Rightarrow> 'i ServiceManager \<Rightarrow> 'i ServiceManager" where
  "set_state name st m = m\<lparr>sm_states := dict_set name st (sm_states m)\<rparr>"

definition get_service :: "'i sdk \<Rightarrow> string \<Rightarrow> ServiceType option \<Rightarrow> 'i ServiceManager \<Rightarrow> 'i ServiceManager \<times> (service_error + 'i)" where
  "get_service sdk name expected m =
     (case dict_get (sm_definitions m) name of
        None \<Rightarrow> (m, Inl (Service_not_found name))
      | Some d \<Rightarrow>
          if (case expected of None \<Rightarrow> False | Some e \<Rightarrow> \<not> is_type_compatible (sv_type d) e) then (m, Inl (Wrong_service_type name))
          else (let key = cache_key name d expected
                in case dict_get (sm_instances m) key of
                     Some i \<Rightarrow> (m, Inr i)
                   | None \<Rightarrow>
                       (let m1 = set_state name INITIALIZING m
                        in case create_instance sdk d expected of
                             Inl e \<Rightarrow> (m1, Inl e)
                           | Inr i \<Rightarrow> (set_state name READY (m1\<lparr>sm_instances := dict_set key i (sm_instances m1)\<rparr>), Inr i))))"

definition service_state :: "string \<Rightarrow> 'i ServiceManager \<Rightarrow> ServiceState" where
  "service_state name m = (case dict_get (sm_states m) name of None \<Rightarrow> DECLARED | Some s \<Rightarrow> s)"

definition teardown_services :: "'i ServiceManager \<Rightarrow> 'i ServiceManager" where
  "teardown_services m = m\<lparr>sm_instances := [], sm_states := map (\<lambda>(n, s). (n, STOPPED)) (sm_states m)\<rparr>"

definition definition_of_type :: "ServiceType \<Rightarrow> 'i ServiceManager \<Rightarrow> ServiceDefinition option" where
  "definition_of_type t m = find (\<lambda>d. sv_type d = t) (dict_values (sm_definitions m))"

definition service_names :: "'i ServiceManager \<Rightarrow> string list" where
  "service_names m = dict_keys (sm_definitions m)"

section \<open>Reaching a service by its role\<close>

definition ENGINE_PROVIDER_SERVICE :: string where
  "ENGINE_PROVIDER_SERVICE = ''__engine_connector_provider__''"

text \<open>\<open>except (ServiceNotFoundError, ValueError)\<close>.\<close>

definition passed_over :: "service_error \<Rightarrow> bool" where
  "passed_over e = (case e of Not_built x \<Rightarrow> ex_kind x = Value_Error | _ \<Rightarrow> True)"

fun first_of_names :: "'i sdk \<Rightarrow> ServiceType \<Rightarrow> string list \<Rightarrow> 'i ServiceManager \<Rightarrow> 'i ServiceManager \<times> (service_error + 'i)" where
  "first_of_names sdk t [] m = (m, Inl (Service_not_found (''No service of type '' @ service_type_value t @ '' is registered'')))"
| "first_of_names sdk t (name # names) m =
     (if name = ENGINE_PROVIDER_SERVICE then first_of_names sdk t names m
      else (case get_service sdk name (Some t) m of
              (m1, Inr i) \<Rightarrow> (m1, Inr i)
            | (m1, Inl e) \<Rightarrow> if passed_over e then first_of_names sdk t names m1 else (m1, Inl e)))"

definition first_of :: "'i sdk \<Rightarrow> ServiceType \<Rightarrow> 'i ServiceManager \<Rightarrow> 'i ServiceManager \<times> (service_error + 'i)" where
  "first_of sdk t m = first_of_names sdk t (service_names m) m"

definition provider :: "'i sdk \<Rightarrow> 'i ServiceManager \<Rightarrow> 'i ServiceManager \<times> (service_error + 'i)" where
  "provider sdk = first_of sdk CONNECTOR_PROVIDER"

definition consumer :: "'i sdk \<Rightarrow> 'i ServiceManager \<Rightarrow> 'i ServiceManager \<times> (service_error + 'i)" where
  "consumer sdk = first_of sdk CONNECTOR_CONSUMER"

definition registry_service :: "'i sdk \<Rightarrow> 'i ServiceManager \<Rightarrow> 'i ServiceManager \<times> (service_error + 'i)" where
  "registry_service sdk = first_of sdk DTR"

definition engine_provider :: "'i sdk \<Rightarrow> 'i ServiceManager \<Rightarrow> 'i ServiceManager \<times> (service_error + 'i)" where
  "engine_provider sdk m =
     (case get_service sdk ENGINE_PROVIDER_SERVICE (Some CONNECTOR_PROVIDER) m of
        (m1, Inl (Service_not_found n)) \<Rightarrow>
          (m1, Inl (Not_built (infrastructure_error (''No engine connector is bound: a step that offers something on the engine''
             @ [CHR 0x27] @ ''s own connector needs infrastructure.engine.connector''))))
      | r \<Rightarrow> r)"

definition base_url_of :: "ServiceType \<Rightarrow> 'i ServiceManager \<Rightarrow> string" where
  "base_url_of t m =
     (case definition_of_type t m of
        None \<Rightarrow> []
      | Some d \<Rightarrow>
          (let dma = service_param d ''dma_path'' DMA_PATH; base = rstrip_char (CHR ''/'') (sv_base_url d)
           in if ends_with base (rstrip_char (CHR ''/'') dma) then base else base @ dma))"

section \<open>Registering the bound deployment\<close>

definition KNOWN_MANAGEMENT_SUFFIXES :: "string list" where
  "KNOWN_MANAGEMENT_SUFFIXES = [''/management'', ''/api/v1/management'']"

definition strip_management_suffix :: "string \<Rightarrow> string \<times> string" where
  "strip_management_suffix url =
     (let clean = rstrip_char (CHR ''/'') url
      in case find (ends_with clean) KNOWN_MANAGEMENT_SUFFIXES of
           Some suffix \<Rightarrow> (take (length clean - length suffix) clean, suffix)
         | None \<Rightarrow> (clean, []))"

definition bound_field :: "Infrastructure \<Rightarrow> string \<Rightarrow> string \<Rightarrow> string \<Rightarrow> string" where
  "bound_field i side capability f = field_of i (side, capability, f)"

definition connector_definition :: "string \<Rightarrow> ServiceType \<Rightarrow> Infrastructure \<Rightarrow> string \<Rightarrow> ServiceDefinition" where
  "connector_definition name t i side =
     (let b = bound_field i side ''connector''; (base_url, dma_path) = strip_management_suffix (b ''management_url'')
      in \<lparr>sv_name = name, sv_type = t, sv_base_url = base_url,
          sv_auth = (if b ''api_key'' \<noteq> [] then [(''api_key'', b ''api_key''), (''api_key_header'', b ''api_key_header'')] else []),
          sv_params = [(''version'', release_or_default (b ''version'')), (''dma_path'', dma_path)]
            @ (if b ''participant_id'' \<noteq> [] then [(''participant_id'', b ''participant_id'')] else [])
            @ (if b ''dsp_url'' \<noteq> [] then [(''dsp_url'', b ''dsp_url'')] else [])\<rparr>)"

text \<open>\<open>aas_api_path\<close> answers the same path for every release.\<close>

definition dtr_definition :: "string \<Rightarrow> Infrastructure \<Rightarrow> string \<Rightarrow> ServiceDefinition" where
  "dtr_definition name i side =
     \<lparr>sv_name = name, sv_type = DTR, sv_base_url = bound_field i side ''dtr'' ''base_url'', sv_auth = [],
      sv_params = [(''api_path'', AAS_API_PATH)]\<rparr>"

definition register_capability :: "ServiceDefinition \<Rightarrow> string \<Rightarrow> 'i ServiceManager \<times> StepContext \<Rightarrow> exc + 'i ServiceManager \<times> StepContext" where
  "register_capability d key mx =
     map_ok (\<lambda>y. (register_service d (fst mx), y)) (set_variable key (PStr (sv_name d)) (snd mx))"

definition register_when ::
  "bool \<Rightarrow> ServiceDefinition \<Rightarrow> string \<Rightarrow> exc + 'i ServiceManager \<times> StepContext \<Rightarrow> exc + 'i ServiceManager \<times> StepContext" where
  "register_when wanted d key r = (case r of Inl e \<Rightarrow> Inl e | Inr mx \<Rightarrow> if wanted then register_capability d key mx else Inr mx)"

definition seed_infrastructure_services ::
  "Infrastructure \<Rightarrow> 'i ServiceManager \<Rightarrow> StepContext \<Rightarrow> exc + 'i ServiceManager \<times> StepContext" where
  "seed_infrastructure_services i m x =
     (let already = set (service_names m);
          engine = is_bound i ''engine'' ''connector'' ConnectorBinding;
          own = engine \<and> ''__engine_connector__'' \<notin> already;
          alias = bound_field i ''engine'' ''connector'' ''name'';
          s1 = register_when own (connector_definition ''__engine_connector__'' CONNECTOR_CONSUMER i ''engine'') ''infrastructure.engine.connector'' (Inr (m, x));
          s2 = map_ok (\<lambda>(m, x). (if own \<and> alias \<noteq> [] \<and> alias \<notin> already
                                  then register_service (connector_definition alias CONNECTOR_PROVIDER i ''engine'') m else m, x)) s1;
          s3 = register_when (bound_field i ''sut'' ''connector'' ''management_url'' \<noteq> [] \<and> ''__sut_connector__'' \<notin> already)
                 (connector_definition ''__sut_connector__'' CONNECTOR_PROVIDER i ''sut'') ''infrastructure.sut.connector'' s2;
          s4 = register_when (is_bound i ''sut'' ''dtr'' DtrBinding \<and> ''__sut_dtr__'' \<notin> already)
                 (dtr_definition ''__sut_dtr__'' i ''sut'') ''infrastructure.sut.dtr'' s3;
          s5 = register_when (is_bound i ''engine'' ''dtr'' EngineDtrBinding \<and> ''__engine_dtr__'' \<notin> already)
                 (dtr_definition ''__engine_dtr__'' i ''engine'') ''infrastructure.engine.dtr'' s4
      in map_ok (\<lambda>(m, x). (if engine \<and> ENGINE_PROVIDER_SERVICE \<notin> already
                            then register_service (connector_definition ENGINE_PROVIDER_SERVICE CONNECTOR_PROVIDER i ''engine'') m else m, x)) s5)"

section \<open>Roles\<close>

definition has_role :: "'i ServiceManager \<Rightarrow> ServiceType \<Rightarrow> string \<Rightarrow> ServiceDefinition \<Rightarrow> bool" where
  "has_role m t n d = (n \<noteq> ENGINE_PROVIDER_SERVICE \<and> dict_get (sm_definitions m) n = Some d \<and> is_type_compatible (sv_type d) t)"

lemma get_service_built:
  assumes "get_service sdk name (Some t) m = (m', Inr inst)" "sm_instances m = []" "name \<noteq> ENGINE_PROVIDER_SERVICE"
  shows "\<exists>d. has_role m t name d \<and> create_instance sdk d (Some t) = Inr inst"
  using assms by (auto simp: get_service_def has_role_def Let_def set_state_def split: option.splits if_splits sum.splits)

lemma get_service_refused:
  assumes "get_service sdk name expected m = (m', Inl e)"
  shows "sm_definitions m' = sm_definitions m \<and> sm_instances m' = sm_instances m"
  using assms by (auto simp: get_service_def Let_def set_state_def split: option.splits if_splits sum.splits)

lemma get_service_error:
  assumes "get_service sdk name (Some t) m = (m', Inl e)" "has_role m t name d" "sm_instances m = []"
  shows "create_instance sdk d (Some t) = Inl e"
  using assms by (auto simp: get_service_def has_role_def Let_def split: option.splits if_splits sum.splits)

text \<open>A first lookup by role builds the first service, in the order of registration, that has the role and can be built.\<close>

lemma first_of_names_built:
  assumes "first_of_names sdk t names m = (m', Inr inst)" "sm_instances m = []"
  shows "\<exists>n d before after. names = before @ n # after \<and> has_role m t n d \<and> create_instance sdk d (Some t) = Inr inst
    \<and> (\<forall>k\<in>set before. \<forall>c. has_role m t k c \<longrightarrow> (\<exists>e. create_instance sdk c (Some t) = Inl e \<and> passed_over e))"
  using assms
proof (induction names arbitrary: m)
  case (Cons n names)
  show ?case
  proof (cases "n \<noteq> ENGINE_PROVIDER_SERVICE \<and> (\<exists>m1 i. get_service sdk n (Some t) m = (m1, Inr i))")
    case True
    then obtain m1 i where g: "get_service sdk n (Some t) m = (m1, Inr i)" by blast
    then have "i = inst" using Cons.prems(1) True by simp
    then obtain d where "has_role m t n d" "create_instance sdk d (Some t) = Inr inst"
      using get_service_built [OF g Cons.prems(2)] True by blast
    then show ?thesis by (intro exI [of _ n] exI [of _ d] exI [of _ "[]"] exI [of _ names]) simp
  next
    case False
    obtain m1 where m1: "first_of_names sdk t names m1 = (m', Inr inst)" "sm_definitions m1 = sm_definitions m" "sm_instances m1 = []"
      and skip: "\<forall>c. has_role m t n c \<longrightarrow> (\<exists>e. create_instance sdk c (Some t) = Inl e \<and> passed_over e)"
    proof (cases "n = ENGINE_PROVIDER_SERVICE")
      case True then show ?thesis using that [of m] Cons.prems by (simp add: has_role_def)
    next
      case ne: False
      then obtain m1 e where g: "get_service sdk n (Some t) m = (m1, Inl e)" using False by (metis prod.exhaust sum.exhaust)
      then have "passed_over e" "first_of_names sdk t names m1 = (m', Inr inst)" using Cons.prems(1) ne by (simp_all split: if_splits)
      then show ?thesis using that [of m1] get_service_refused [OF g] get_service_error [OF g] Cons.prems(2) by auto
    qed
    obtain k d before after where r: "names = before @ k # after" "has_role m1 t k d" "create_instance sdk d (Some t) = Inr inst"
      "\<forall>k\<in>set before. \<forall>c. has_role m1 t k c \<longrightarrow> (\<exists>e. create_instance sdk c (Some t) = Inl e \<and> passed_over e)"
      using Cons.IH [OF m1(1,3)] by blast
    have "has_role m1 t j c = has_role m t j c" for j c by (simp add: has_role_def m1(2))
    then show ?thesis using r skip by (intro exI [of _ k] exI [of _ d] exI [of _ "n # before"] exI [of _ after]) auto
  qed
qed simp

text \<open>What a fresh manager holds after seeding, in order.\<close>

definition only_if :: "bool \<Rightarrow> ServiceDefinition \<Rightarrow> ServiceDefinition list" where
  "only_if b d = (if b then [d] else [])"

definition seeded_definitions :: "Infrastructure \<Rightarrow> ServiceDefinition list" where
  "seeded_definitions i =
     only_if (is_bound i ''engine'' ''connector'' ConnectorBinding) (connector_definition ''__engine_connector__'' CONNECTOR_CONSUMER i ''engine'')
     @ only_if (bound_field i ''sut'' ''connector'' ''management_url'' \<noteq> []) (connector_definition ''__sut_connector__'' CONNECTOR_PROVIDER i ''sut'')
     @ only_if (is_bound i ''sut'' ''dtr'' DtrBinding) (dtr_definition ''__sut_dtr__'' i ''sut'')
     @ only_if (is_bound i ''engine'' ''dtr'' EngineDtrBinding) (dtr_definition ''__engine_dtr__'' i ''engine'')
     @ only_if (is_bound i ''engine'' ''connector'' ConnectorBinding) (connector_definition ENGINE_PROVIDER_SERVICE CONNECTOR_PROVIDER i ''engine'')"

lemma definition_parts [simp]:
  "sv_name (connector_definition n t i side) = n" "sv_type (connector_definition n t i side) = t"
  "sv_name (dtr_definition n i side) = n" "sv_type (dtr_definition n i side) = DTR"
  by (simp_all add: connector_definition_def dtr_definition_def Let_def split: prod.splits)

lemma services_seeded:
  assumes "seed_infrastructure_services i no_services x = Inr (m, y)" "bound_field i ''engine'' ''connector'' ''name'' = []"
  shows "sm_definitions m = map (\<lambda>d. (sv_name d, d)) (seeded_definitions i) \<and> sm_instances m = []"
  using assms
  by (auto simp: seed_infrastructure_services_def Let_def register_when_def register_capability_def map_ok_Inr register_service_def
      no_services_def service_names_def seeded_definitions_def only_if_def ENGINE_PROVIDER_SERVICE_def split: if_splits sum.splits)

abbreviation engine_client :: "Infrastructure \<Rightarrow> ServiceDefinition" where
  "engine_client i \<equiv> connector_definition ''__engine_connector__'' CONNECTOR_CONSUMER i ''engine''"

abbreviation sut_connector :: "Infrastructure \<Rightarrow> ServiceDefinition" where
  "sut_connector i \<equiv> connector_definition ''__sut_connector__'' CONNECTOR_PROVIDER i ''sut''"

abbreviation sut_dtr :: "Infrastructure \<Rightarrow> ServiceDefinition" where
  "sut_dtr i \<equiv> dtr_definition ''__sut_dtr__'' i ''sut''"

abbreviation engine_dtr :: "Infrastructure \<Rightarrow> ServiceDefinition" where
  "engine_dtr i \<equiv> dtr_definition ''__engine_dtr__'' i ''engine''"

lemma seeded_roles:
  assumes "sm_definitions m = map (\<lambda>d. (sv_name d, d)) (seeded_definitions i)" "has_role m t n d"
  shows "d \<in> set (seeded_definitions i) \<and> n = sv_name d \<and> n \<noteq> ENGINE_PROVIDER_SERVICE \<and> is_type_compatible (sv_type d) t"
  using assms(2) by (auto simp: has_role_def assms(1) dest!: dict_get_SomeD)

lemma provider_definition:
  assumes "sm_definitions m = map (\<lambda>d. (sv_name d, d)) (seeded_definitions i)" "has_role m CONNECTOR_PROVIDER n d"
  shows "d = sut_connector i \<and> bound_field i ''sut'' ''connector'' ''management_url'' \<noteq> []"
  using seeded_roles [OF assms]
  by (auto simp: seeded_definitions_def only_if_def is_type_compatible_def GENERIC_CONNECTOR_TYPES_def CONNECTOR_TYPES_def DTR_COMPATIBLE_TYPES_def
      split: if_splits)

lemma consumer_definition:
  assumes "sm_definitions m = map (\<lambda>d. (sv_name d, d)) (seeded_definitions i)" "has_role m CONNECTOR_CONSUMER n d"
  shows "d = engine_client i"
  using seeded_roles [OF assms]
  by (auto simp: seeded_definitions_def only_if_def is_type_compatible_def GENERIC_CONNECTOR_TYPES_def CONNECTOR_TYPES_def DTR_COMPATIBLE_TYPES_def
      split: if_splits)

lemma registry_definition:
  assumes "sm_definitions m = map (\<lambda>d. (sv_name d, d)) (seeded_definitions i)" "has_role m DTR n d"
  shows "d = sut_dtr i \<and> is_bound i ''sut'' ''dtr'' DtrBinding \<or> d = engine_dtr i \<and> n = ''__engine_dtr__''"
  using seeded_roles [OF assms]
  by (auto simp: seeded_definitions_def only_if_def is_type_compatible_def GENERIC_CONNECTOR_TYPES_def CONNECTOR_TYPES_def DTR_COMPATIBLE_TYPES_def
      split: if_splits)

lemma sut_registry_first:
  assumes m: "sm_definitions m = map (\<lambda>d. (sv_name d, d)) (seeded_definitions i)"
    and names: "service_names m = before @ ''__engine_dtr__'' # after" and bound: "is_bound i ''sut'' ''dtr'' DtrBinding"
  shows "''__sut_dtr__'' \<in> set before \<and> has_role m DTR ''__sut_dtr__'' (sut_dtr i)"
proof -
  have r: "has_role m DTR ''__sut_dtr__'' (sut_dtr i)"
    using bound by (simp add: has_role_def m seeded_definitions_def only_if_def ENGINE_PROVIDER_SERVICE_def is_type_compatible_def)
  have n: "service_names m = map sv_name (seeded_definitions i)" by (simp add: service_names_def m)
  have "''__sut_dtr__'' \<in> set before"
    using names bound unfolding n
    by (auto simp: seeded_definitions_def only_if_def ENGINE_PROVIDER_SERVICE_def Cons_eq_append_conv append_eq_Cons_conv split: if_splits)
  then show ?thesis using r by blast
qed

lemma created_connector: "sv_type d \<in> {CONNECTOR_PROVIDER, CONNECTOR_CONSUMER} \<Longrightarrow> create_instance sdk d t = Inr inst \<Longrightarrow> sdk (connector_call d t) = Inr inst"
  by (auto simp: create_instance_def CONNECTOR_TYPES_def split: sum.splits)

lemma created_registry:
  "sv_type d = DTR \<Longrightarrow> create_instance sdk d t = Inr inst \<longleftrightarrow> sdk (aas_call d) = Inr inst"
  "sv_type d = DTR \<Longrightarrow> create_instance sdk d t = Inl e \<Longrightarrow> passed_over e \<Longrightarrow> \<exists>x. sdk (aas_call d) = Inl x \<and> ex_kind x = Value_Error"
  by (auto simp: create_instance_def CONNECTOR_TYPES_def GENERIC_CONNECTOR_TYPES_def DTR_COMPATIBLE_TYPES_def passed_over_def split: sum.splits)

text \<open>C40. 
  A step that asks for a service by its role is given the side the role is about, however the deployment is bound as long as
  the engine's connector has no name of its own: a provider is the system under test's connector and never the engine's, a
  consumer is the engine's, and a registry is the system under test's unless it is not bound or the SDK refuses it.
\<close>

theorem roles_reach_their_side:
  assumes "seed_infrastructure_services i no_services x = Inr (m, y)" and "bound_field i ''engine'' ''connector'' ''name'' = []"
  shows "(provider sdk m = (m', Inr inst) \<longrightarrow>
       bound_field i ''sut'' ''connector'' ''management_url'' \<noteq> [] \<and> sdk (connector_call (sut_connector i) (Some CONNECTOR_PROVIDER)) = Inr inst)
    \<and> (consumer sdk m = (m', Inr inst) \<longrightarrow> sdk (connector_call (engine_client i) (Some CONNECTOR_CONSUMER)) = Inr inst)
    \<and> (registry_service sdk m = (m', Inr inst) \<longrightarrow>
       is_bound i ''sut'' ''dtr'' DtrBinding \<and> sdk (aas_call (sut_dtr i)) = Inr inst
       \<or> sdk (aas_call (engine_dtr i)) = Inr inst
         \<and> (is_bound i ''sut'' ''dtr'' DtrBinding \<longrightarrow> (\<exists>e. sdk (aas_call (sut_dtr i)) = Inl e \<and> ex_kind e = Value_Error)))"
proof (intro conjI impI)
  note m = conjunct1 [OF services_seeded [OF assms]] and fresh = conjunct2 [OF services_seeded [OF assms]]
  {
    assume "provider sdk m = (m', Inr inst)"
    then obtain n d where r: "has_role m CONNECTOR_PROVIDER n d" "create_instance sdk d (Some CONNECTOR_PROVIDER) = Inr inst"
      using first_of_names_built [OF _ fresh] by (force simp: provider_def first_of_def)
    then show "bound_field i ''sut'' ''connector'' ''management_url'' \<noteq> []"
      "sdk (connector_call (sut_connector i) (Some CONNECTOR_PROVIDER)) = Inr inst"
      using provider_definition [OF m r(1)] created_connector [OF _ r(2)] by simp_all
  next
    assume "consumer sdk m = (m', Inr inst)"
    then obtain n d where r: "has_role m CONNECTOR_CONSUMER n d" "create_instance sdk d (Some CONNECTOR_CONSUMER) = Inr inst"
      using first_of_names_built [OF _ fresh] by (force simp: consumer_def first_of_def)
    then show "sdk (connector_call (engine_client i) (Some CONNECTOR_CONSUMER)) = Inr inst"
      using consumer_definition [OF m r(1)] created_connector [OF _ r(2)] by simp
  next
    assume "registry_service sdk m = (m', Inr inst)"
    then obtain n d before after where r: "service_names m = before @ n # after" "has_role m DTR n d" "create_instance sdk d (Some DTR) = Inr inst"
      "\<forall>k\<in>set before. \<forall>c. has_role m DTR k c \<longrightarrow> (\<exists>e. create_instance sdk c (Some DTR) = Inl e \<and> passed_over e)"
      using first_of_names_built [OF _ fresh] unfolding registry_service_def first_of_def by blast
    from registry_definition [OF m r(2)]
    show "is_bound i ''sut'' ''dtr'' DtrBinding \<and> sdk (aas_call (sut_dtr i)) = Inr inst
       \<or> sdk (aas_call (engine_dtr i)) = Inr inst
         \<and> (is_bound i ''sut'' ''dtr'' DtrBinding \<longrightarrow> (\<exists>e. sdk (aas_call (sut_dtr i)) = Inl e \<and> ex_kind e = Value_Error))"
    proof (elim disjE conjE)
      assume "d = sut_dtr i" "is_bound i ''sut'' ''dtr'' DtrBinding"
      then show ?thesis using r(3) by (simp add: created_registry)
    next
      assume d: "d = engine_dtr i" "n = ''__engine_dtr__''"
      have "\<exists>e. sdk (aas_call (sut_dtr i)) = Inl e \<and> ex_kind e = Value_Error" if b: "is_bound i ''sut'' ''dtr'' DtrBinding"
      proof -
        have "\<exists>e. create_instance sdk (sut_dtr i) (Some DTR) = Inl e \<and> passed_over e"
          using sut_registry_first [OF m r(1) [unfolded d(2)] b] r(4) by blast
        then show ?thesis using created_registry(2) [of "sut_dtr i" sdk "Some DTR"] by auto
      qed
      then show ?thesis using r(3) d(1) by (simp add: created_registry)
    qed
  }
qed


section \<open>Where the comments go further than the code\<close>

definition demo_sdk :: "string sdk" where
  "demo_sdk c = (case c of Provider_service v u d h \<Rightarrow> Inr u | Consumer_service v u d h \<Rightarrow> Inr u | Aas_service u l p \<Rightarrow> Inr u)"

definition demo_topology :: "string \<Rightarrow> string \<Rightarrow> Infrastructure" where
  "demo_topology alias sut_url = \<lparr>in_values =
     [((''engine'', ''connector'', ''management_url''), ''https://engine/management''), ((''engine'', ''connector'', ''name''), alias),
      ((''sut'', ''connector'', ''management_url''), sut_url),
      ((''sut'', ''dtr'', ''base_url''), ''https://sut/dtr''), ((''engine'', ''dtr'', ''base_url''), ''https://engine/dtr'')], in_stated = []\<rparr>"

definition demo_services :: "string \<Rightarrow> string \<Rightarrow> string ServiceManager" where
  "demo_services alias sut_url =
     (case seed_infrastructure_services (demo_topology alias sut_url) no_services (new_context ''p:'') of Inl e \<Rightarrow> no_services | Inr mx \<Rightarrow> fst mx)"

lemma demo_roles:
  "snd (provider demo_sdk (demo_services [] ''https://sut/management'')) = Inr ''https://sut''"
  "snd (consumer demo_sdk (demo_services [] ''https://sut/management'')) = Inr ''https://engine''"
  "snd (registry_service demo_sdk (demo_services [] ''https://sut/management'')) = Inr ''https://sut/dtr''"
  by code_simp+

theorem roles_reach_their_side_witness:
  "\<exists>m y. seed_infrastructure_services (demo_topology [] ''https://sut/management'') no_services (new_context ''p:'') = Inr (m, y)
     \<and> snd (registry_service demo_sdk m) = Inr ''https://sut/dtr''
     \<and> demo_sdk (aas_call (sut_dtr (demo_topology [] ''https://sut/management''))) = Inr ''https://sut/dtr''"
proof -
  let ?i = "demo_topology [] ''https://sut/management''"
  obtain m y where s: "seed_infrastructure_services ?i no_services (new_context ''p:'') = Inr (m :: string ServiceManager, y)"
    using demo_roles(1) by (cases "seed_infrastructure_services ?i (no_services :: string ServiceManager) (new_context ''p:'')")
      (auto simp: demo_services_def provider_def first_of_def service_names_def no_services_def)
  have a: "bound_field ?i ''engine'' ''connector'' ''name'' = []" by code_simp
  have m: "m = demo_services [] ''https://sut/management''" by (simp add: demo_services_def s)
  obtain m' where r: "registry_service demo_sdk m = (m', Inr ''https://sut/dtr'')"
    using demo_roles(3) by (metis m prod.collapse)
  have b: "is_bound ?i ''sut'' ''dtr'' DtrBinding" by code_simp
  have "demo_sdk (aas_call (sut_dtr ?i)) = Inr ''https://sut/dtr''"
    using roles_reach_their_side [OF s a, of demo_sdk m' "''https://sut/dtr''"] r b by (auto simp: demo_sdk_def aas_call_def)
  then show ?thesis using s r by auto
qed

text \<open>Under a name of its own the engine's connector is registered as a provider before the system under test's, and is the one a role finds.\<close>

lemma alias_takes_the_role:
  "snd (provider demo_sdk (demo_services ''testlab'' ''https://sut/management'')) = Inr ''https://engine''"
  by code_simp

text \<open>A provider's base URL is the engine's when the system under test has none, although no provider is found.\<close>

lemma base_url_without_provider:
  "snd (provider demo_sdk (demo_services [] [])) = Inl (Service_not_found ''No service of type CONNECTOR_PROVIDER is registered'')"
  "base_url_of CONNECTOR_PROVIDER (demo_services [] []) = ''https://engine/management''"
  by code_simp+

lemma ends_with_shorter: "ends_with s (p @ q) \<Longrightarrow> ends_with s q"
  by (metis append.assoc ends_with_iff)

text \<open>The longer suffix is never the one cut off.\<close>

lemma longer_suffix_unused: "snd (strip_management_suffix url) \<noteq> ''/api/v1/management''"
  using ends_with_shorter [of _ "''/api/v1''" "''/management''"]
  by (auto simp: strip_management_suffix_def KNOWN_MANAGEMENT_SUFFIXES_def Let_def)

lemma management_suffix_kept: "fst (strip_management_suffix url) @ snd (strip_management_suffix url) = rstrip_char (CHR ''/'') url"
  by (auto simp: strip_management_suffix_def KNOWN_MANAGEMENT_SUFFIXES_def Let_def ends_with_iff)

end
