(* ===== verification/Operator_Desk.thy ===== *)
theory Operator_Desk
  imports Jobs Checkpoint_Tracker
begin

text \<open>
  A person in front of a run (\<^verbatim>\<open>player/operator.py\<close>): the approval of its checkpoints and the desk that puts its choices to
  the operator and hands the answers to the question board of the job. An operator is asked on a thread of its own; what
  comes back, and when, is an argument, and the questions being asked are the desk's state. Of a selection the ids of its
  options are kept.
\<close>

section \<open>Questions\<close>

text \<open>What \<open>choose\<close> comes back with: an option, nothing, a \<open>RunAborted\<close> or another exception.\<close>

datatype operator_reply = Chose string | Ran_out | Aborts string string | Breaks string

record RunAborted =
  ra_message :: string
  ra_reason :: string

record Announcement =
  an_job :: string
  an_step :: "string option"
  an_options :: "string list"
  an_timeout :: int
  an_index :: "nat option"

record Question =
  qn_job :: string
  qn_step :: "string option"
  qn_options :: "string list"
  qn_timeout :: int
  qn_number :: "nat option"
  qn_total :: nat
  qn_entry :: "CheckpointEntry option"

record Desk =
  dk_briefed :: nat
  dk_planned :: "CheckpointEntry list"
  dk_asking :: "(string, Question) pydict"
  dk_aborted :: "RunAborted option"

definition new_desk :: "nat \<Rightarrow> Desk" where
  "new_desk briefed = \<lparr>dk_briefed = briefed, dk_planned = [], dk_asking = [], dk_aborted = None\<rparr>"

definition question_of :: "Announcement \<Rightarrow> Desk \<Rightarrow> Question" where
  "question_of a desk =
     \<lparr>qn_job = an_job a, qn_step = an_step a, qn_options = an_options a, qn_timeout = an_timeout a,
      qn_number = map_option Suc (an_index a),
      qn_total = (if dk_briefed desk \<noteq> 0 then dk_briefed desk else length (dk_planned desk)),
      qn_entry = (case an_index a of None \<Rightarrow> None | Some k \<Rightarrow> if k < length (dk_planned desk) then Some (dk_planned desk ! k) else None)\<rparr>"

definition desk_ask :: "Announcement \<Rightarrow> Desk \<Rightarrow> Desk" where
  "desk_ask a desk = desk\<lparr>dk_asking := dict_set (an_job a) (question_of a desk) (dk_asking desk)\<rparr>"

datatype desk_event = Checkpoints_planned "CheckpointEntry list" | Step_selecting Announcement | Other_event

definition desk_call :: "desk_event \<Rightarrow> Desk \<Rightarrow> Desk" where
  "desk_call event desk =
     (case event of
        Checkpoints_planned entries \<Rightarrow> desk\<lparr>dk_planned := entries\<rparr>
      | Step_selecting a \<Rightarrow> if dict_has (dk_asking desk) (an_job a) then desk else desk_ask a desk
      | Other_event \<Rightarrow> desk)"

text \<open>
  The reply to a question: it stops the run or is handed to the board. A question that closed meanwhile is passed over; any
  other refusal of the board ends the callback.
\<close>

definition lookup_error :: "job_error \<Rightarrow> bool" where
  "lookup_error e = (case e of KeyError _ \<Rightarrow> True | LookupError_not_waiting _ \<Rightarrow> True | LookupError_other_step _ _ _ \<Rightarrow> True | _ \<Rightarrow> False)"

definition desk_answer ::
  "Question \<Rightarrow> operator_reply \<Rightarrow> int \<Rightarrow> Desk \<times> 'r JobManager \<Rightarrow> (Desk \<times> 'r JobManager) \<times> job_error option" where
  "desk_answer q reply now dm =
     (let desk = (fst dm)\<lparr>dk_asking := dict_pop (qn_job q) (dk_asking (fst dm))\<rparr>; m = snd dm;
          stopped = (\<lambda>aborted. case cancel (qn_job q) now m of
                       Inl e \<Rightarrow> ((desk\<lparr>dk_aborted := Some aborted\<rparr>, m), Some e)
                     | Inr m1 \<Rightarrow> ((desk\<lparr>dk_aborted := Some aborted\<rparr>, m1), None))
      in case reply of
           Aborts message reason \<Rightarrow> stopped \<lparr>ra_message = message, ra_reason = reason\<rparr>
         | Breaks message \<Rightarrow> stopped \<lparr>ra_message = ''The operator could not be asked: '' @ message, ra_reason = ''error''\<rparr>
         | Ran_out \<Rightarrow> ((desk, m), None)
         | Chose v \<Rightarrow>
             (case board_answer (qn_job q) v (qn_step q) (jm_selections m) of
                Inl e \<Rightarrow> ((desk, m), if lookup_error e then None else Some e)
              | Inr b \<Rightarrow> ((desk, m\<lparr>jm_selections := b\<rparr>), None)))"

text \<open>The end of the run: every question still being asked is stopped, and its reply taken.\<close>

fun settle :: "(Question \<Rightarrow> operator_reply) \<Rightarrow> int \<Rightarrow> Question list \<Rightarrow> Desk \<times> 'r JobManager \<Rightarrow> Desk \<times> 'r JobManager" where
  "settle stopped now [] dm = dm"
| "settle stopped now (q # qs) dm = settle stopped now qs (fst (desk_answer q (stopped q) now dm))"

definition desk_settle :: "(Question \<Rightarrow> operator_reply) \<Rightarrow> int \<Rightarrow> Desk \<times> 'r JobManager \<Rightarrow> Desk \<times> 'r JobManager" where
  "desk_settle stopped now dm = settle stopped now (dict_values (dk_asking (fst dm))) dm"

section \<open>A run with an operator\<close>

datatype 'a operated = Declined | Aborted RunAborted 'a | Finished 'a

definition approve_run :: "(CheckpointEntry list \<Rightarrow> bool) \<Rightarrow> CheckpointEntry list \<Rightarrow> bool" where
  "approve_run approve checkpoints = (checkpoints = [] \<or> approve checkpoints)"

text \<open>\<open>run\<close> is \<open>run_tck\<close> with the desk among the callbacks of the monitor: the desk and the jobs as the run leaves them, and its result.\<close>

definition run_with_operator ::
  "(CheckpointEntry list \<Rightarrow> bool) \<Rightarrow> bool \<Rightarrow> CheckpointEntry list \<Rightarrow> (Desk \<Rightarrow> (Desk \<times> 'r JobManager) \<times> 'a) \<Rightarrow> (Question \<Rightarrow> operator_reply) \<Rightarrow> int
   \<Rightarrow> ('r JobManager) option \<times> 'a operated" where
  "run_with_operator approve approved checkpoints run stopped now =
     (if \<not> approved \<and> \<not> approve_run approve checkpoints then (None, Declined)
      else (let (dm, result) = run (new_desk (length checkpoints)); (desk, m) = desk_settle stopped now dm
            in (Some m, case dk_aborted desk of None \<Rightarrow> Finished result | Some a \<Rightarrow> Aborted a result)))"

section \<open>Answers\<close>

text \<open>An answer the desk hands on is what the operator chose, one of the options of the question open for that step.\<close>

lemma desk_answer_offered:
  assumes "fst (desk_answer q reply now (desk, m)) = (desk', m')" "jm_selections m' \<noteq> jm_selections m" "\<not> (\<exists>a. dk_aborted desk' = Some a)"
  shows "\<exists>v oq. reply = Chose v \<and> board_pending (qn_job q) (jm_selections m) = Some oq \<and> v \<in> set (oq_options oq)
    \<and> (qn_step q = None \<or> qn_step q = oq_step_id oq)
    \<and> jm_selections m' = (jm_selections m)\<lparr>sb_futures := (sb_futures (jm_selections m))[oq_answer oq := Resolved v]\<rparr>"
  using assms by (auto simp: desk_answer_def board_answer_def Let_def split: operator_reply.splits sum.splits option.splits if_splits)

lemma desk_answer_ends: "dk_asking (fst (fst (desk_answer q reply now dm))) = dict_pop (qn_job q) (dk_asking (fst dm))"
  by (auto simp: desk_answer_def Let_def split: operator_reply.splits sum.splits)

definition desk_wf :: "Desk \<Rightarrow> bool" where
  "desk_wf desk = (\<forall>(job, q)\<in>set (dk_asking desk). qn_job q = job)"

lemma dict_set_entries: "set (dict_set k v d) \<subseteq> insert (k, v) (set d)"
  by (induction d) (auto split: if_splits)

lemma dict_pop_entries: "set (dict_pop k d) \<subseteq> set d"
  by (auto simp: dict_pop_def)

lemma desk_call_wf: "desk_wf desk \<Longrightarrow> desk_wf (desk_call event desk)"
  using dict_set_entries [of "an_job a" "question_of a desk" "dk_asking desk" for a]
  by (fastforce simp: desk_wf_def desk_call_def desk_ask_def question_of_def split: desk_event.splits)

lemma desk_answer_wf: "desk_wf (fst dm) \<Longrightarrow> desk_wf (fst (fst (desk_answer q reply now dm)))"
  using dict_pop_entries [of "qn_job q" "dk_asking (fst dm)"] unfolding desk_wf_def desk_answer_ends by blast

lemma settle_asking:
  "set (dk_asking (fst (settle stopped now qs dm))) \<subseteq> {(job, q) \<in> set (dk_asking (fst dm)). job \<notin> qn_job ` set qs}"
proof (induction qs arbitrary: dm)
  case (Cons q qs)
  show ?case
    using Cons.IH [of "fst (desk_answer q (stopped q) now dm)"] by (auto simp: desk_answer_ends dict_pop_def)
qed auto

text \<open>No question outlives the run.\<close>

lemma settled_desk_asks_nothing: "desk_wf (fst dm) \<Longrightarrow> dk_asking (fst (desk_settle stopped now dm)) = []"
proof -
  assume w: "desk_wf (fst dm)"
  have "False" if a: "(job, q) \<in> set (dk_asking (fst (desk_settle stopped now dm)))" for job q
  proof -
    have "(job, q) \<in> set (dk_asking (fst dm))" "job \<notin> qn_job ` set (dict_values (dk_asking (fst dm)))"
      using settle_asking a unfolding desk_settle_def by blast+
    moreover from this(1) have "qn_job q = job" using w by (auto simp: desk_wf_def)
    ultimately show False by force
  qed
  then show ?thesis by (metis list.set_intros(1) neq_Nil_conv prod.exhaust)
qed

section \<open>A question that is never put\<close>

text \<open>
  A choice announced while the one before it, whose time has run out, is still being asked is passed over: when the operator
  comes back with nothing, nothing is being asked, and the open question is answered by nobody.
\<close>

definition demo_choice :: "string \<Rightarrow> Announcement" where
  "demo_choice step = \<lparr>an_job = ''job'', an_step = Some step, an_options = [''a'', ''b''], an_timeout = 60, an_index = None\<rparr>"

lemma late_reply_hides_question:
  "let desk1 = desk_call (Step_selecting (demo_choice ''first'')) (new_desk 2);
       board1 = fst (board_ask ''job'' (Some ''first'') [''a'', ''b''] new_board);
       board2 = fst (board_ask ''job'' (Some ''second'') [''a'', ''b''] (board_close ''job'' board1));
       desk2 = desk_call (Step_selecting (demo_choice ''second'')) desk1;
       ((desk3, m), e) = desk_answer (question_of (demo_choice ''first'') (new_desk 2)) Ran_out 0 (desk2, (new_manager :: nat JobManager)\<lparr>jm_selections := board2\<rparr>)
   in map fst (dk_asking desk1) = [''job''] \<and> desk2 = desk1 \<and> dk_asking desk3 = [] \<and> board_pending ''job'' (jm_selections m) \<noteq> None"
  by code_simp

text \<open>An option the question does not offer is refused by the board with an error the desk does not expect, and the question is not put again.\<close>

lemma unoffered_reply_ends_asking:
  "let desk = desk_call (Step_selecting (demo_choice ''first'')) (new_desk 2);
       m = (new_manager :: nat JobManager)\<lparr>jm_selections := fst (board_ask ''job'' (Some ''first'') [''a'', ''c''] new_board)\<rparr>;
       (dm, e) = desk_answer (question_of (demo_choice ''first'') (new_desk 2)) (Chose ''b'') 0 (desk, m)
   in e = Some (ValueError_not_offered ''b'' [''a'', ''c'']) \<and> dk_asking (fst dm) = [] \<and> board_pending ''job'' (jm_selections (snd dm)) \<noteq> None"
  by code_simp

end
