(* ===== verification/Spec2Isabelle.thy ===== *)
theory Spec2Isabelle
  imports Server Validation Waiting Offers Services Operator_Desk
begin

text \<open>
  \<^bold>\<open>A verification library of the Tractus-X TestLab engine.\<close>

  TestLab compiles test packages (TCKs), plays them against a system under test and reports what it saw. A TCK is a
  manifest with tests; a test has the phases setup, execution and teardown; a phase is a list of steps; a step names a
  step type (\<open>uses\<close>), its parameters (\<open>with\<close>), the outputs it keeps (\<open>returns\<close>) and its checks (\<open>validate\<close>). All paths
  below are relative to \<^verbatim>\<open>src/src/tractusx_testlab/\<close>.

  \<^bold>\<open>How the parts work together.\<close> The compiler (\<^verbatim>\<open>compiler/validation/\<close>) reads a test without running it and reports
  references, conditions, credentials, severities and checkpoint marks the run could not honour. A player opens a session
  on a TCK (\<^verbatim>\<open>player/execution/player.py\<close>, \<^verbatim>\<open>session.py\<close>): it creates a job (\<^verbatim>\<open>player/jobs.py\<close>), seeds the variables
  (\<^verbatim>\<open>_context_seeder.py\<close>), binds the deployment the run is pointed at (\<^verbatim>\<open>_binding.py\<close>, \<^verbatim>\<open>infrastructure/\<close>), seals its names,
  plans the checkpoints (\<^verbatim>\<open>authoring/_checkpoints.py\<close>) and runs the tests. The runner (\<^verbatim>\<open>step_runner.py\<close>,
  \<^verbatim>\<open>phase.py\<close>, \<^verbatim>\<open>_phase_step.py\<close>) decides each step's condition, resolves its parameters against the step context
  (\<^verbatim>\<open>loading/resolver.py\<close>, \<^verbatim>\<open>context.py\<close>), invokes its class, evaluates its checks (\<^verbatim>\<open>steps/assertions/\<close>), hides its
  secrets and publishes its outputs. Flow steps (\<^verbatim>\<open>steps/flow/\<close>) run steps of their own through the same runner. Everything
  that happens is told to the monitor (\<^verbatim>\<open>monitor.py\<close>), which follows it with the checkpoint tracker
  (\<^verbatim>\<open>player/checkpoints/\<close>) and writes the execution trace (\<^verbatim>\<open>logging/trace.py\<close>); the server streams the events to its
  clients (\<^verbatim>\<open>server/\<close>). A paused run withdraws what it offers to the system under test until it goes on (\<^verbatim>\<open>hold.py\<close>).
  Secrets are handles in the variables (\<^verbatim>\<open>security/credentials.py\<close>) and are masked in every text that leaves the run
  (\<^verbatim>\<open>logging/masking.py\<close>).

  \<^bold>\<open>The theories.\<close>

  \<^item> \<open>Prelude\<close>: Python's dictionaries as association lists with the order of insertion (the interface locale
    \<open>keyed_store\<close>, interpreted on them), splitting, joining and stripping of texts, and the collections of lemmas the other
    theories share. \<open>Text_Codecs\<close>: the quoting of \<open>repr\<close>, percent and JSON escapes.
  \<^item> \<open>Enums\<close> (\<^verbatim>\<open>models/primitives/enums.py\<close>), \<open>Values\<close> (\<^verbatim>\<open>security/credentials.py\<close>, \<^verbatim>\<open>credential_documents.py\<close>): the
    values of a run as the datatype \<open>pyval\<close> with credential handles, their text, dump and restoration.
  \<^item> \<open>Checkpoint_Tracker\<close>: the tracker's state as a record, each operation a definition, the runs of it as the inductive
    relation \<open>tracker_run\<close>; its invariant, the completeness of what it publishes and what the end of a step settles.
    \<open>Planning\<close>: which steps are checkpoints and where; the plan gives every checkpoint a place of its own, which is what
    the tracker looks it up by.
  \<^item> \<open>Jobs\<close>, \<open>Hold\<close>, \<open>Server\<close>: the job table and the questions to an operator, a run on hold, the routes and the event
    streams; \<open>Operator_Desk\<close>: a person who approves a run and answers its questions. \<open>Trace\<close>, \<open>Monitor\<close>: identifiers and order of the trace, and the events of a run.
  \<^item> \<open>Masking\<close>: the registry of secrets, the regular expression it compiles (as a matcher over a trie) and masking of texts
    and documents.
  \<^item> \<open>Redaction\<close>: the names credentials are filed under, and documents, forms, URLs and step results without them.
  \<^item> \<open>Inbound\<close>: the mock server all runs share, the address and key of a run (\<^verbatim>\<open>server/inbound/\<close>, \<^verbatim>\<open>mock_registry.py\<close>,
    \<^verbatim>\<open>mock_keys.py\<close>, \<^verbatim>\<open>callbacks.py\<close>), and how a call of the system under test is answered.
  \<^item> \<open>Waiting\<close>: the steps that wait - for a call, for an operator's choice, for a connector - across pauses of the run.
  \<^item> \<open>Offers\<close>: policies, offers and data sets as the connector steps read them (\<^verbatim>\<open>steps/connector/\<close>).
  \<^item> \<open>Results\<close>: authored steps and reported results. \<open>Context\<close>, \<open>Resolver\<close>: the variables of a run and the resolution
    of references, templates included. \<open>Conditions\<close>: the grammar of \<open>if:\<close> and its evaluation. \<open>Path_Extraction\<close>,
    \<open>Checks\<close>: what a check reads and how it compares.
  \<^item> \<open>Runner\<close>, \<open>Flow\<close>, \<open>Session\<close>: one step, a phase, a test, the steps that run steps, and the session over all tests. The
    loop that stops at the first failure is the locale \<open>stopping_sequence\<close>, interpreted on the phase and on the nested
    sequences.
  \<^item> \<open>Validation\<close>: what the compiler reports of a test, and that a test it accepts is read at run time as it was checked.

  \<^item> \<open>Seeding\<close>: the variables a manifest declares (\<^verbatim>\<open>syntax/variables.py\<close>), what the compiler reports of them and how a run
    is seeded with them; what seeding keeps of a context is the locale \<open>seeding_invariant\<close>, interpreted on the bindings'
    namespace and on the run's prefix.
  \<^item> \<open>Binding\<close>: the capabilities of a deployment, overrides, the registry of deployments and what a run is given of its
    bindings (\<^verbatim>\<open>infrastructure/\<close>, \<^verbatim>\<open>models/domain/\<close>). \<open>Services\<close>: the SDK services registered for it and how a step
    reaches one by its role (\<^verbatim>\<open>services/\<close>, \<^verbatim>\<open>infrastructure_seeder.py\<close>, \<^verbatim>\<open>dataspace_access.py\<close>).

  \<^bold>\<open>What is proved.\<close> The verdict of a test and of a session follows from the results, every test of a closed session has
  exactly one result and its job has ended; a phase stops at its first failure and runs its teardown; retried blocks end with
  their first success. Reachable trackers, jobs, sessions and registries keep their invariants. Secrets: they influence
  neither texts nor resolution, handles reach only the parameters that carry them, a secret of an open run is masked in
  every text, a record tells nothing that was filed under a credential's name, and a test that compiles never misuses one. A key the host registered leaves the engine only for the origin it was
  registered for, whatever a package carries, and a side the host holds is bound as it was registered; a role
  reaches the side it is about. Variables that compile
  are seeded without a raise, and the operator's inputs win over the package. Only references an author wrote are read, never
  those in received data. Waits spend their timeout, pauses not counted, polling ends, and policies are compared constraint
  by constraint. Runs that share the mock server do not touch each other's mocks and waits, and a call without the key of a run is
  refused. The monitor's record is complete and ordered, and a reconnecting client misses nothing within the buffer's
  capacity. Codecs, conditions and dumps read back what was written.

  \<^bold>\<open>Modelling choices.\<close> Operations take and return their state. Exceptions are values of \<open>exc\<close> in the left summand, with the
  class, message, code and origin the engine reads off them. Instants are integers of microseconds, the clock is part of the
  run's world. Python floats occur only in comparisons: they are rationals at 53 bits with the two infinities and NaN.
  Texts are lists of 8-bit characters. What another process, a library or a step class does is an argument of the
  definitions (an \<open>invoke\<close>, a JSON decoder, a regular expression engine, the host at a gate), so that every theorem holds
  whatever it does; the few laws some theorems need are their hypotheses. Recursion ends by construction: templates are
  followed at most \<open>MAX_TEMPLATE_DEPTH\<close> = 16 levels deep, as in the code, documents and nested steps shrink, and the one
  search without a bound in the code, the next free identifier of the trace, is shown to end.

  \<^bold>\<open>Not modelled.\<close> The traffic of the step types (connector, digital twin registry, HTTP, notification, mock and schema
  steps) and the services behind them; of these steps the reading of offers, the waits and the inbound calls are modelled,
  and the runner is proved for any step. The command line, console output and pages, which only present results. Loading of
  packages and settings, keys and signatures, the OpenAPI checks and the compiled form of a package: files, cryptography and
  third-party validators. Threads and event loops are represented by the order in which operations take place.
\<close>

end
